(* ===== verification/Prelude.thy ===== *)
theory Prelude
  imports Complex_Main "HOL-Library.Char_ord" "HOL-Library.List_Lexorder"
    "HOL-Library.Log_Nat" "HOL-Library.Monad_Syntax"
begin

text \<open>
  Shared ground of the development: Go strings and maps, the error monad, the
  collections of simp rules the component theories fill, and the list lemmas they share.

  A Go \<open>string\<close> is a byte string, so it is \<^typ>\<open>string\<close>, a list of 8-bit characters; the
  order on it is the bytewise lexicographic order that Go's \<open><\<close> and \<open>sort.Strings\<close> use.
  A Go map that the code only looks up or stores into is a function \<open>'k \<rightharpoonup> 'v\<close>. A Go
  map that the code ranges over is an association list with distinct keys whose order
  stands for the (unspecified) iteration order: a theorem about every such list is a
  theorem about every iteration order.
\<close>

named_theorems wf_simps \<open>definitions of the well-formedness predicates\<close>
named_theorems frame_simps \<open>fields that an operation leaves alone\<close>

type_synonym 'v gomap = "(string \<times> 'v) list"

definition gomap_ok :: "'v gomap \<Rightarrow> bool" where
  "gomap_ok m \<longleftrightarrow> distinct (map fst m)"

text \<open>A fallible Go function: \<open>Inl\<close> is the returned error, \<open>Inr\<close> the value.\<close>

type_synonym ('e, 'a) result = "'e + 'a"

fun rbind :: "('e, 'a) result \<Rightarrow> ('a \<Rightarrow> ('e, 'b) result) \<Rightarrow> ('e, 'b) result" where
  "rbind (Inl e) f = Inl e"
| "rbind (Inr x) f = f x"

text \<open>An early return \<open>if cond { return err }\<close>.\<close>

definition refuse_if :: "bool \<Rightarrow> 'e \<Rightarrow> ('e, unit) result" where
  "refuse_if b e = (if b then Inl e else Inr ())"

text \<open>A run of such early returns, in the order of the code.\<close>

fun guards :: "(bool \<times> 'e) list \<Rightarrow> ('e, unit) result" where
  "guards [] = Inr ()"
| "guards ((b, e) # gs) = (if b then Inl e else guards gs)"

text \<open>A loop that stops at the first error, threading an accumulator.\<close>

fun foldr_res :: "('a \<Rightarrow> 's \<Rightarrow> ('e, 's) result) \<Rightarrow> 'a list \<Rightarrow> 's \<Rightarrow> ('e, 's) result" where
  "foldr_res f [] s = Inr s"
| "foldr_res f (x # xs) s = rbind (f x s) (\<lambda>s'. foldr_res f xs s')"

text \<open>A loop that only checks.\<close>

fun each :: "('a \<Rightarrow> ('e, unit) result) \<Rightarrow> 'a list \<Rightarrow> ('e, unit) result" where
  "each f [] = Inr ()"
| "each f (x # xs) = rbind (f x) (\<lambda>_. each f xs)"

lemma each_cong [fundef_cong]:
  "xs = ys \<Longrightarrow> (\<And>x. x \<in> set ys \<Longrightarrow> f x = g x) \<Longrightarrow> each f xs = each g ys"
proof (induction ys arbitrary: xs)
  case (Cons y ys)
  then have "each f ys = each g ys" by simp
  then show ?case using Cons.prems by simp
qed simp

lemma rbind_Inr_iff [simp]:
  "rbind r f = Inr y \<longleftrightarrow> (\<exists>x. r = Inr x \<and> f x = Inr y)"
  by (cases r) auto

lemma rbind_Inl_iff:
  "rbind r f = Inl e \<longleftrightarrow> r = Inl e \<or> (\<exists>x. r = Inr x \<and> f x = Inl e)"
  by (cases r) auto

lemma refuse_if_Inr [simp]: "refuse_if b e = Inr u \<longleftrightarrow> \<not> b"
  by (simp add: refuse_if_def)

lemma refuse_if_Inl [simp]: "refuse_if b e = Inl e' \<longleftrightarrow> b \<and> e' = e"
  by (auto simp: refuse_if_def)

lemma each_Inr [simp]: "each f xs = Inr u \<longleftrightarrow> (\<forall>x \<in> set xs. f x = Inr ())"
  by (induction xs) auto

lemma guards_Inr [simp]: "guards gs = Inr u \<longleftrightarrow> (\<forall>g \<in> set gs. \<not> fst g)"
proof (induction gs)
  case (Cons g gs)
  then show ?case by (cases g) auto
qed simp

declare guards.simps [simp del]

lemma ball_enumerate [simp]:
  "(\<forall>p \<in> set (enumerate n xs). P (snd p)) \<longleftrightarrow> (\<forall>x \<in> set xs. P x)"
proof -
  have "(\<forall>p \<in> set (enumerate n xs). P (snd p)) \<longleftrightarrow> (\<forall>x \<in> set (map snd (enumerate n xs)). P x)"
    unfolding set_map by blast
  then show ?thesis by simp
qed

lemma each_cong_Inr:
  "set xs = set ys \<Longrightarrow> (each f xs = Inr ()) = (each f ys = Inr ())"
  by simp

lemma result_exhaust_Inr: "(\<And>e. r \<noteq> Inl e) \<Longrightarrow> \<exists>x. r = Inr x"
  by (cases r) auto

text \<open>
  A loop that checks each element and enters it into an index: it succeeds exactly when every
  element passes the check against the index of those before it.
\<close>

definition index_step ::
  "('a \<Rightarrow> string) \<Rightarrow> ('a \<Rightarrow> (string \<rightharpoonup> 'v) \<Rightarrow> ('e, 'v) result) \<Rightarrow> 'a \<Rightarrow> (string \<rightharpoonup> 'v)
     \<Rightarrow> ('e, string \<rightharpoonup> 'v) result" where
  "index_step k chk x m = rbind (chk x m) (\<lambda>v. Inr (m(k x \<mapsto> v)))"

lemma index_fold:
  assumes chk: "\<And>x m y. x \<in> set xs \<Longrightarrow> chk x m = Inr y \<longleftrightarrow> ok x \<and> m (k x) = None \<and> y = val x"
  shows "foldr_res (index_step k chk) xs m = Inr m' \<longleftrightarrow>
     (\<forall>x \<in> set xs. ok x) \<and> distinct (map k xs) \<and> (\<forall>x \<in> set xs. m (k x) = None)
     \<and> m' = m ++ map_of (map (\<lambda>x. (k x, val x)) xs)"
  using chk
proof (induction xs arbitrary: m)
  case (Cons a xs)
  let ?m1 = "m(k a \<mapsto> val a)" and ?rest = "map_of (map (\<lambda>x. (k x, val x)) xs)"
  have step: "foldr_res (index_step k chk) (a # xs) m = Inr m' \<longleftrightarrow>
      ok a \<and> m (k a) = None \<and> foldr_res (index_step k chk) xs ?m1 = Inr m'"
    using Cons.prems[of a] by (auto simp: index_step_def)
  have IH: "foldr_res (index_step k chk) xs ?m1 = Inr m' \<longleftrightarrow>
      (\<forall>x \<in> set xs. ok x) \<and> distinct (map k xs) \<and> (\<forall>x \<in> set xs. ?m1 (k x) = None)
      \<and> m' = ?m1 ++ ?rest"
    by (rule Cons.IH) (simp add: Cons.prems)
  have none: "(\<forall>x \<in> set xs. ?m1 (k x) = None) \<longleftrightarrow>
      k a \<notin> k ` set xs \<and> (\<forall>x \<in> set xs. m (k x) = None)"
    by (simp add: image_iff) metis
  have eq: "k a \<notin> k ` set xs \<Longrightarrow> ?m1 ++ ?rest = m ++ map_of (map (\<lambda>x. (k x, val x)) (a # xs))"
    by (rule ext) (auto simp: map_add_def image_iff split: option.splits dest!: map_of_SomeD)
  show ?case unfolding step IH none
  proof (cases "k a \<in> k ` set xs")
    case False
    then show "(ok a \<and> m (k a) = None \<and> (\<forall>x \<in> set xs. ok x) \<and> distinct (map k xs)
        \<and> (k a \<notin> k ` set xs \<and> (\<forall>x \<in> set xs. m (k x) = None)) \<and> m' = ?m1 ++ ?rest) \<longleftrightarrow>
      ((\<forall>x \<in> set (a # xs). ok x) \<and> distinct (map k (a # xs))
        \<and> (\<forall>x \<in> set (a # xs). m (k x) = None)
        \<and> m' = m ++ map_of (map (\<lambda>x. (k x, val x)) (a # xs)))"
      unfolding eq[OF False] by auto
  qed auto
qed auto

text \<open>Association lists as Go maps.\<close>

definition keys :: "'v gomap \<Rightarrow> string list" where
  "keys m = map fst m"

lemma set_keys: "set (keys m) = dom (map_of m)"
  by (simp add: keys_def dom_map_of_conv_image_fst)

lemma map_of_filter_keys:
  "map_of (filter (\<lambda>kv. P (fst kv)) m) = (\<lambda>k. if P k then map_of m k else None)"
  by (induction m) auto

lemma gomap_ok_filter: "gomap_ok m \<Longrightarrow> gomap_ok (filter P m)"
  by (simp add: gomap_ok_def distinct_map_filter)

lemma distinct_map_snoc [simp]:
  "distinct (map f (xs @ [x])) \<longleftrightarrow> distinct (map f xs) \<and> f x \<notin> f ` set xs"
  by auto

lemma distinct_map_inj:
  "distinct (map f xs) \<Longrightarrow> x \<in> set xs \<Longrightarrow> y \<in> set xs \<Longrightarrow> f x = f y \<Longrightarrow> x = y"
  by (simp add: distinct_map inj_on_def)

lemma find_distinct:
  "distinct (map f xs) \<Longrightarrow> x \<in> set xs \<Longrightarrow> List.find (\<lambda>y. f y = f x) xs = Some x"
proof (induction xs)
  case (Cons a xs)
  show ?case
  proof (cases "f a = f x")
    case True
    with Cons.prems have "a = x"
      using distinct_map_inj[OF Cons.prems(1), of a x] by simp
    then show ?thesis by simp
  next
    case False
    with Cons.prems have "x \<in> set xs" by auto
    with False Cons show ?thesis by auto
  qed
qed simp

text \<open>An invariant of a loop that may stop at an error.\<close>

lemma foldr_res_inv:
  assumes "foldr_res f xs s = Inr s'" "P s"
    and "\<And>x s t. x \<in> set xs \<Longrightarrow> P s \<Longrightarrow> f x s = Inr t \<Longrightarrow> P t"
  shows "P s'"
  using assms
proof (induction xs arbitrary: s)
  case (Cons x xs)
  then obtain t where t: "f x s = Inr t" "foldr_res f xs t = Inr s'" by auto
  show ?case by (rule Cons.IH[OF t(2)]) (use Cons.prems t in auto)
qed simp

lemma foldr_res_step:
  "foldr_res f xs s = Inr s' \<Longrightarrow> x \<in> set xs \<Longrightarrow> \<exists>t u. f x t = Inr u"
  by (induction xs arbitrary: s) auto

end
