(* ===== verification/GoFloat.thy ===== *)
theory GoFloat
  imports Prelude
begin

text \<open>
  Go's \<open>float64\<close>, \<open>time.Duration\<close> and \<open>time.Time\<close>, as the engine uses them.

  A \<open>float64\<close> is a rational, an infinity or a NaN. Arithmetic is IEEE 754 double precision
  with round-to-nearest-even (\<open>rnd\<close>), written out over the rationals so that it computes:
  53-bit significands, subnormals down to \<open>2 ^ -1074\<close>, overflow to an infinity from
  \<open>2 ^ 1024\<close>. The two zeros are one value: no code modelled here tells them apart.
  Every operation is rounded on its own, as the Go compiler does where it does not fuse a
  multiplication with an addition (amd64).
\<close>

section \<open>Values and comparisons\<close>

datatype f64 = Fin rat | PInf | NInf | NaN

definition is_nan :: "f64 \<Rightarrow> bool" where
  "is_nan x \<longleftrightarrow> x = NaN"

definition is_inf :: "f64 \<Rightarrow> bool" where
  "is_inf x \<longleftrightarrow> x = PInf \<or> x = NInf"

text \<open>\<open>isFinite\<close> of the adaptor package: neither NaN nor an infinity.\<close>

definition isFinite :: "f64 \<Rightarrow> bool" where
  "isFinite f \<longleftrightarrow> \<not> is_nan f \<and> \<not> is_inf f"

lemma isFinite_iff [simp]: "isFinite x \<longleftrightarrow> (\<exists>q. x = Fin q)"
  by (cases x) (auto simp: isFinite_def is_nan_def is_inf_def)

fun flt :: "f64 \<Rightarrow> f64 \<Rightarrow> bool" where
  "flt (Fin a) (Fin b) = (a < b)"
| "flt (Fin a) PInf = True"
| "flt NInf (Fin b) = True"
| "flt NInf PInf = True"
| "flt _ _ = False"

fun feq :: "f64 \<Rightarrow> f64 \<Rightarrow> bool" where
  "feq NaN _ = False"
| "feq a b = (a = b)"

definition fle :: "f64 \<Rightarrow> f64 \<Rightarrow> bool" where
  "fle a b \<longleftrightarrow> flt a b \<or> feq a b"

lemma fle_Fin [simp]: "fle (Fin a) (Fin b) \<longleftrightarrow> a \<le> b"
  by (auto simp: fle_def)

lemma fle_NaN [simp]: "\<not> fle NaN b" "\<not> fle a NaN"
  by (cases b; simp add: fle_def) (cases a; simp add: fle_def)

lemma fle_infs [simp]:
  "fle (Fin a) PInf" "fle NInf (Fin a)" "fle NInf PInf" "fle PInf PInf" "fle NInf NInf"
  "\<not> fle PInf (Fin a)" "\<not> fle (Fin a) NInf" "\<not> fle PInf NInf"
  by (simp_all add: fle_def)

lemma flt_NaN [simp]: "\<not> flt NaN b" "\<not> flt a NaN"
  by (cases b; simp) (cases a; simp)

lemma fle_trans: "fle a b \<Longrightarrow> fle b c \<Longrightarrow> fle a c"
  by (cases a; cases b; cases c) auto

lemma flt_fle_trans: "flt a b \<Longrightarrow> fle b c \<Longrightarrow> flt a c"
  by (cases a; cases b; cases c) auto

lemma fle_flt_trans: "fle a b \<Longrightarrow> flt b c \<Longrightarrow> flt a c"
  by (cases a; cases b; cases c) auto

lemma flt_irrefl [simp]: "\<not> flt a a"
  by (cases a) auto

lemma not_flt_fle: "\<not> is_nan a \<Longrightarrow> \<not> is_nan b \<Longrightarrow> \<not> flt a b \<longleftrightarrow> fle b a"
  by (cases a; cases b) (auto simp: is_nan_def)

lemma feq_iff: "feq a b \<longleftrightarrow> a = b \<and> a \<noteq> NaN"
  by (cases a) auto

section \<open>Rounding\<close>

text \<open>The binary exponent of a positive rational: the \<open>k\<close> with \<open>2 ^ k \<le> q < 2 ^ (k + 1)\<close>.\<close>

definition ilog2 :: "rat \<Rightarrow> int" where
  "ilog2 q = (let (n, d) = quotient_of q;
                  k = int (floorlog 2 (nat n)) - int (floorlog 2 (nat d))
              in if 2 powi k \<le> q then k else k - 1)"

text \<open>The exponent of the last significand bit, clamped where subnormals begin.\<close>

definition ulp_exp :: "rat \<Rightarrow> int" where
  "ulp_exp a = max (ilog2 a - 52) (-1074)"

text \<open>Round half to even, on the rationals.\<close>

definition round_he :: "rat \<Rightarrow> int" where
  "round_he x = (let f = \<lfloor>x\<rfloor>; r = x - of_int f in
     if r < 1/2 then f else if 1/2 < r then f + 1 else if even f then f else f + 1)"

text \<open>The magnitude a non-negative rational rounds to, before the overflow check.\<close>

definition rmag :: "rat \<Rightarrow> rat" where
  "rmag a = (if a = 0 then 0
             else of_int (round_he (a / 2 powi ulp_exp a)) * 2 powi ulp_exp a)"

definition max_f64_bound :: rat where
  "max_f64_bound = 2 powi 1024"

definition rnd :: "rat \<Rightarrow> f64" where
  "rnd q = (let v = rmag \<bar>q\<bar> in
     if max_f64_bound \<le> v then (if 0 < q then PInf else NInf)
     else Fin (sgn q * v))"

section \<open>Arithmetic\<close>

fun fneg :: "f64 \<Rightarrow> f64" where
  "fneg (Fin a) = Fin (- a)"
| "fneg PInf = NInf"
| "fneg NInf = PInf"
| "fneg NaN = NaN"

fun fadd :: "f64 \<Rightarrow> f64 \<Rightarrow> f64" where
  "fadd (Fin a) (Fin b) = rnd (a + b)"
| "fadd NaN _ = NaN"
| "fadd _ NaN = NaN"
| "fadd PInf NInf = NaN"
| "fadd NInf PInf = NaN"
| "fadd PInf _ = PInf"
| "fadd _ PInf = PInf"
| "fadd NInf _ = NInf"
| "fadd _ NInf = NInf"

definition fsub :: "f64 \<Rightarrow> f64 \<Rightarrow> f64" where
  "fsub a b = fadd a (fneg b)"

text \<open>An infinity of the sign of a product or a quotient.\<close>

definition inf_of :: "rat \<Rightarrow> f64" where
  "inf_of s = (if 0 < s then PInf else if s < 0 then NInf else NaN)"

fun fsgn :: "f64 \<Rightarrow> rat" where
  "fsgn (Fin a) = sgn a"
| "fsgn PInf = 1"
| "fsgn NInf = - 1"
| "fsgn NaN = 0"

fun fmul :: "f64 \<Rightarrow> f64 \<Rightarrow> f64" where
  "fmul (Fin a) (Fin b) = rnd (a * b)"
| "fmul NaN _ = NaN"
| "fmul _ NaN = NaN"
| "fmul a b = inf_of (fsgn a * fsgn b)"

text \<open>Division by zero takes the zero as positive, the only zero of the model.\<close>

fun fdiv :: "f64 \<Rightarrow> f64 \<Rightarrow> f64" where
  "fdiv (Fin a) (Fin b) = (if b = 0 then inf_of (sgn a) else rnd (a / b))"
| "fdiv NaN _ = NaN"
| "fdiv _ NaN = NaN"
| "fdiv (Fin a) _ = Fin 0"
| "fdiv a (Fin b) = (if b < 0 then fneg a else a)"
| "fdiv _ _ = NaN"

text \<open>\<open>math.Mod\<close>: the exact remainder of the truncated quotient, with the sign of \<open>x\<close>.\<close>

definition rat_trunc :: "rat \<Rightarrow> int" where
  "rat_trunc q = (if 0 \<le> q then \<lfloor>q\<rfloor> else \<lceil>q\<rceil>)"

fun math_Mod :: "f64 \<Rightarrow> f64 \<Rightarrow> f64" where
  "math_Mod (Fin x) (Fin y) =
     (if y = 0 then NaN else Fin (x - y * of_int (rat_trunc (x / y))))"
| "math_Mod (Fin x) PInf = Fin x"
| "math_Mod (Fin x) NInf = Fin x"
| "math_Mod _ _ = NaN"

text \<open>The conversion \<open>float64(n)\<close> of an integer.\<close>

definition f64_of_int :: "int \<Rightarrow> f64" where
  "f64_of_int n = rnd (of_int n)"

section \<open>Durations and instants\<close>

text \<open>
  A \<open>time.Duration\<close> is an \<open>int64\<close> of nanoseconds and a \<open>time.Time\<close> the nanoseconds since
  the zero \<open>Time\<close>; \<open>Sub\<close> saturates at the two ends of \<open>int64\<close>.
\<close>

type_synonym duration = int
type_synonym instant = int

definition max_duration :: duration where
  "max_duration = 2 ^ 63 - 1"

definition min_duration :: duration where
  "min_duration = - (2 ^ 63)"

definition time_Sub :: "instant \<Rightarrow> instant \<Rightarrow> duration" where
  "time_Sub t u = max min_duration (min max_duration (t - u))"

definition time_IsZero :: "instant \<Rightarrow> bool" where
  "time_IsZero t \<longleftrightarrow> t = 0"

text \<open>Go's truncated division and remainder.\<close>

definition go_quot :: "int \<Rightarrow> int \<Rightarrow> int" where
  "go_quot a b = sgn a * sgn b * (\<bar>a\<bar> div \<bar>b\<bar>)"

definition go_rem :: "int \<Rightarrow> int \<Rightarrow> int" where
  "go_rem a b = a - b * go_quot a b"

definition second :: duration where
  "second = 1000000000"

text \<open>\<open>Duration.Seconds\<close>: whole seconds plus the rest as a fraction, both rounded.\<close>

definition seconds :: "duration \<Rightarrow> f64" where
  "seconds d = fadd (f64_of_int (go_quot d second))
                    (fdiv (f64_of_int (go_rem d second)) (Fin 1000000000))"

text \<open>The span \<open>now.Sub(at).Seconds()\<close> every timing decision of the engine reads.\<close>

definition secs_between :: "instant \<Rightarrow> instant \<Rightarrow> f64" where
  "secs_between now t0 = seconds (time_Sub now t0)"

section \<open>Rounding is monotone and exact where it should be\<close>

lemma two_powi_pos [simp]: "0 < (2::rat) powi k"
  by simp

lemma two_powi_mono: "j \<le> k \<Longrightarrow> (2::rat) powi j \<le> 2 powi k"
  by (rule power_int_increasing) auto

lemma two_powi_less_cancel: "(2::rat) powi j < 2 powi k \<Longrightarrow> j < k"
  using two_powi_mono[of k j] by (meson not_le)

lemma floorlog_powi:
  assumes "0 < n"
  shows "(2::rat) powi (int (floorlog 2 (nat n)) - 1) \<le> of_int n"
    and "of_int n < (2::rat) powi int (floorlog 2 (nat n))"
proof -
  let ?l = "floorlog 2 (nat n)"
  have b: "2 ^ (?l - 1) \<le> nat n" "nat n < 2 ^ ?l"
    using floorlog_bounds[of "nat n" 2] assms by auto
  have l: "1 \<le> ?l" using b(2) assms by (cases ?l) auto
  have n: "(of_int n :: rat) = of_nat (nat n)" using assms by simp
  have "(of_nat (2 ^ (?l - 1)) :: rat) \<le> of_nat (nat n)"
    using b(1) by (simp only: of_nat_le_iff)
  moreover have "(2::rat) powi (int ?l - 1) = of_nat (2 ^ (?l - 1))"
    using l by (simp add: power_int_def nat_diff_distrib)
  ultimately show "(2::rat) powi (int ?l - 1) \<le> of_int n" by (simp only: n)
  have "(of_nat (nat n) :: rat) < of_nat (2 ^ ?l)"
    using b(2) by (simp only: of_nat_less_iff)
  then have "of_int n < (of_nat (2 ^ ?l) :: rat)" by (simp only: n)
  then show "of_int n < (2::rat) powi int ?l" by simp
qed

lemma ilog2_bounds:
  assumes "0 < q"
  shows "2 powi ilog2 q \<le> q" and "q < 2 powi (ilog2 q + 1)"
proof -
  obtain n d where nd: "quotient_of q = (n, d)" by fastforce
  have d: "0 < d" and q: "q = of_int n / of_int d"
    using nd by (rule quotient_of_denom_pos, rule quotient_of_div)
  have n: "0 < n" using assms q d by (simp add: zero_less_divide_iff)
  let ?a = "int (floorlog 2 (nat n))" and ?b = "int (floorlog 2 (nat d))"
  have "q < 2 powi ?a / of_int d"
    unfolding q using floorlog_powi(2)[OF n] d by (intro divide_strict_right_mono) auto
  also have "\<dots> \<le> 2 powi ?a / 2 powi (?b - 1)"
    using floorlog_powi(1)[OF d] d by (intro divide_left_mono) auto
  also have "\<dots> = 2 powi (?a - ?b + 1)"
    using power_int_diff[of "2::rat" ?a "?b - 1"] by (simp add: algebra_simps)
  finally have up: "q < 2 powi (?a - ?b + 1)" .
  have "(2::rat) powi (?a - 1 - ?b) = 2 powi (?a - 1) / 2 powi ?b"
    by (simp add: power_int_diff)
  also have "\<dots> \<le> 2 powi (?a - 1) / of_int d"
    using floorlog_powi(2)[OF d] d by (intro divide_left_mono) auto
  also have "\<dots> \<le> q"
    unfolding q using floorlog_powi(1)[OF n] d by (intro divide_right_mono) auto
  finally have lo: "2 powi (?a - ?b - 1) \<le> q" by (simp add: algebra_simps)
  show "2 powi ilog2 q \<le> q" "q < 2 powi (ilog2 q + 1)"
    using lo up nd by (auto simp: ilog2_def Let_def)
qed

lemma ilog2_mono: "0 < p \<Longrightarrow> p \<le> q \<Longrightarrow> ilog2 p \<le> ilog2 q"
proof -
  assume p: "0 < p" and pq: "p \<le> q"
  have "2 powi ilog2 p < (2::rat) powi (ilog2 q + 1)"
    using ilog2_bounds[OF p] ilog2_bounds(2)[of q] p pq by linarith
  then show ?thesis using two_powi_less_cancel by force
qed

lemma ilog2_less: "0 < q \<Longrightarrow> q < 2 powi k \<Longrightarrow> ilog2 q < k"
  using ilog2_bounds(1)[of q] two_powi_less_cancel[of "ilog2 q" k] by linarith

lemma round_he_bounds: "\<lfloor>x\<rfloor> \<le> round_he x" "round_he x \<le> \<lfloor>x\<rfloor> + 1"
  by (auto simp: round_he_def Let_def)

lemma round_he_of_int [simp]: "round_he (of_int n) = n"
  by (simp add: round_he_def)

lemma round_he_mono: "x \<le> y \<Longrightarrow> round_he x \<le> round_he y"
proof -
  assume le: "x \<le> y"
  show ?thesis
  proof (cases "\<lfloor>x\<rfloor> = \<lfloor>y\<rfloor>")
    case True
    with le show ?thesis by (auto simp: round_he_def Let_def)
  next
    case False
    then have "\<lfloor>x\<rfloor> + 1 \<le> \<lfloor>y\<rfloor>" using floor_mono[OF le] by linarith
    then show ?thesis
      using round_he_bounds(2)[of x] round_he_bounds(1)[of y] by linarith
  qed
qed

lemma rmag_0 [simp]: "rmag 0 = 0"
  by (simp add: rmag_def)

lemma rmag_nonneg: "0 \<le> a \<Longrightarrow> 0 \<le> rmag a"
proof -
  assume "0 \<le> a"
  then have "0 \<le> a / 2 powi ulp_exp a" by simp
  then have "0 \<le> round_he (a / 2 powi ulp_exp a)"
    using round_he_mono[of 0 "a / 2 powi ulp_exp a"] round_he_of_int[of 0] by simp
  then show ?thesis by (simp add: rmag_def)
qed

text \<open>A value with a 53-bit significand is its own rounding.\<close>

lemma rmag_exact_less:
  assumes "0 \<le> m" "m < 2 ^ 53" "- 1074 \<le> e"
  shows "rmag (of_int m * 2 powi e) = of_int m * 2 powi e"
proof (cases "m = 0")
  case False
  let ?v = "of_int m * 2 powi e :: rat"
  have v: "0 < ?v" using False assms by simp
  have "(of_int m :: rat) < of_int (2 ^ 53)" using assms(2) by (simp only: of_int_less_iff)
  then have "(of_int m :: rat) < 2 powi 53" by simp
  then have "?v < 2 powi 53 * 2 powi e" by (intro mult_strict_right_mono) auto
  also have "\<dots> = 2 powi (53 + e)" using power_int_add[of "2::rat" 53 e] by simp
  finally have "ilog2 ?v < 53 + e" by (rule ilog2_less[OF v])
  then have u: "ulp_exp ?v \<le> e" using assms(3) by (simp add: ulp_exp_def)
  have "?v / 2 powi ulp_exp ?v = of_int m * (2 powi (e - ulp_exp ?v))"
    by (simp add: power_int_diff)
  also have "\<dots> = of_int (m * 2 ^ nat (e - ulp_exp ?v))"
    using u by (simp add: power_int_def)
  finally have "?v / 2 powi ulp_exp ?v = of_int (m * 2 ^ nat (e - ulp_exp ?v))" .
  then have "of_int (round_he (?v / 2 powi ulp_exp ?v)) = ?v / 2 powi ulp_exp ?v"
    by (simp only: round_he_of_int)
  then show ?thesis using v by (simp add: rmag_def)
qed simp

lemma rmag_exact:
  assumes "0 \<le> m" "m \<le> 2 ^ 53" "- 1074 \<le> e"
  shows "rmag (of_int m * 2 powi e) = of_int m * 2 powi e"
proof (cases "m < 2 ^ 53")
  case True
  with assms show ?thesis by (intro rmag_exact_less)
next
  case False
  with assms have m: "m = 2 ^ 53" by simp
  have "of_int (2 ^ 52) * 2 powi (e + 1) = (of_int (2 ^ 53) :: rat) * 2 powi e"
    by (simp add: power_int_add)
  then show ?thesis
    using rmag_exact_less[of "2 ^ 52" "e + 1"] assms(3) m by simp
qed

lemma rmag_form:
  assumes "0 \<le> a"
  obtains m e where "rmag a = of_int m * 2 powi e" "0 \<le> m" "m \<le> 2 ^ 53" "- 1074 \<le> e"
proof (cases "a = 0")
  case True
  then show ?thesis using that[of 0 0] by simp
next
  case False
  let ?e = "ulp_exp a" and ?m = "round_he (a / 2 powi ulp_exp a)"
  have a: "0 < a" using assms False by simp
  have "ilog2 a + 1 \<le> ?e + 53" by (simp add: ulp_exp_def)
  then have "a < 2 powi (?e + 53)"
    using ilog2_bounds(2)[OF a] two_powi_mono by (meson less_le_trans)
  then have "a / 2 powi ?e \<le> of_int (2 ^ 53)"
    by (simp add: power_int_add divide_le_eq)
  then have "?m \<le> 2 ^ 53"
    using round_he_mono round_he_of_int by metis
  moreover have "0 \<le> ?m"
    using round_he_mono[of 0 "a / 2 powi ?e"] round_he_of_int[of 0] a by simp
  moreover have "- 1074 \<le> ?e" by (simp add: ulp_exp_def)
  ultimately show ?thesis using that[of ?m ?e] False by (simp add: rmag_def)
qed

lemma rmag_idem: "0 \<le> a \<Longrightarrow> rmag (rmag a) = rmag a"
  by (erule rmag_form) (simp add: rmag_exact)

lemma rmag_mono:
  assumes "0 \<le> a" "a \<le> b"
  shows "rmag a \<le> rmag b"
proof (cases "a = 0")
  case True
  then show ?thesis using rmag_nonneg assms by simp
next
  case False
  let ?ea = "ulp_exp a" and ?eb = "ulp_exp b"
  have a: "0 < a" and b: "0 < b" using assms False by auto
  have ab: "?ea \<le> ?eb" using ilog2_mono[OF a assms(2)] by (simp add: ulp_exp_def)
  show ?thesis
  proof (cases "?ea = ?eb")
    case True
    have "a / 2 powi ?eb \<le> b / 2 powi ?eb" using assms(2) by (intro divide_right_mono) auto
    then have "of_int (round_he (a / 2 powi ?eb)) \<le> (of_int (round_he (b / 2 powi ?eb)) :: rat)"
      using round_he_mono by simp
    then show ?thesis using True a b by (simp add: rmag_def)
  next
    case False
    then have lt: "?ea < ?eb" using ab by simp
    then have eb: "?eb = ilog2 b - 52" by (auto simp: ulp_exp_def max_def split: if_splits)
    have "rmag a \<le> 2 powi (?ea + 53)"
    proof -
      have "a < 2 powi (?ea + 53)"
        using ilog2_bounds(2)[OF a] two_powi_mono[of "ilog2 a + 1" "?ea + 53"]
        by (auto simp: ulp_exp_def max_def split: if_splits)
      then have "a / 2 powi ?ea \<le> of_int (2 ^ 53)"
        by (simp add: power_int_add divide_le_eq)
      then have "round_he (a / 2 powi ?ea) \<le> 2 ^ 53"
        using round_he_mono round_he_of_int by metis
      then have "(of_int (round_he (a / 2 powi ?ea)) :: rat) \<le> of_int (2 ^ 53)"
        by (simp only: of_int_le_iff)
      then show ?thesis using a by (simp add: rmag_def power_int_add)
    qed
    also have "\<dots> \<le> 2 powi (?eb + 52)" using lt by (intro two_powi_mono) simp
    also have "\<dots> \<le> rmag b"
    proof -
      have "of_int (2 ^ 52) * 2 powi ?eb \<le> b"
        using ilog2_bounds(1)[OF b] eb by (simp add: power_int_diff)
      then have "of_int (2 ^ 52) \<le> b / 2 powi ?eb" by (simp add: le_divide_eq)
      then have "2 ^ 52 \<le> round_he (b / 2 powi ?eb)"
        using round_he_mono round_he_of_int by metis
      then have "(of_int (2 ^ 52) :: rat) \<le> of_int (round_he (b / 2 powi ?eb))"
        by (simp only: of_int_le_iff)
      then show ?thesis using b by (simp add: rmag_def power_int_add)
    qed
    finally show ?thesis .
  qed
qed

lemma max_f64_bound_pos: "0 < max_f64_bound"
  by (simp add: max_f64_bound_def)

lemma rnd_0 [simp]: "rnd 0 = Fin 0"
  using max_f64_bound_pos by (simp add: rnd_def Let_def not_le)

lemma rnd_not_NaN [simp]: "rnd q \<noteq> NaN"
  by (simp add: rnd_def Let_def)

lemma rnd_of_nonneg:
  "0 \<le> q \<Longrightarrow> rnd q = (if max_f64_bound \<le> rmag q then PInf else Fin (rmag q))"
  using max_f64_bound_pos by (cases "q = 0") (simp_all add: rnd_def Let_def)

lemma rnd_of_nonpos:
  "q \<le> 0 \<Longrightarrow> rnd q = (if max_f64_bound \<le> rmag (- q) then NInf else Fin (- rmag (- q)))"
  using max_f64_bound_pos by (cases "q = 0") (simp_all add: rnd_def Let_def)

lemma rnd_nonneg: "0 \<le> q \<Longrightarrow> fle (Fin 0) (rnd q)"
  using rmag_nonneg[of q] by (simp add: rnd_of_nonneg)

lemma rnd_nonpos: "q \<le> 0 \<Longrightarrow> fle (rnd q) (Fin 0)"
  using rmag_nonneg[of "- q"] by (simp add: rnd_of_nonpos)

lemma rnd_mono:
  assumes "p \<le> q"
  shows "fle (rnd p) (rnd q)"
proof -
  consider "0 \<le> p" | "p < 0" "0 \<le> q" | "q < 0" by linarith
  then show ?thesis
  proof cases
    case 1
    then have "rmag p \<le> rmag q" using assms by (rule rmag_mono)
    then show ?thesis using assms 1 by (simp add: rnd_of_nonneg)
  next
    case 2
    then show ?thesis using rnd_nonneg rnd_nonpos fle_trans less_imp_le by metis
  next
    case 3
    then have "rmag (- q) \<le> rmag (- p)" using assms by (intro rmag_mono) auto
    then show ?thesis using assms 3 by (simp add: rnd_of_nonpos)
  qed
qed

text \<open>A float the machine can hold: its own rounding.\<close>

fun is_f64 :: "f64 \<Rightarrow> bool" where
  "is_f64 (Fin q) \<longleftrightarrow> rnd q = Fin q"
| "is_f64 _ \<longleftrightarrow> True"

lemma rmag_sgn: "\<bar>sgn q * rmag \<bar>q\<bar>\<bar> = rmag \<bar>q\<bar>"
  using rmag_nonneg[of "\<bar>q\<bar>"] by (cases "q = 0") (auto simp: abs_mult abs_sgn_eq)

lemma is_f64_rnd: "is_f64 (rnd q)"
proof (cases "max_f64_bound \<le> rmag \<bar>q\<bar>")
  case True
  then show ?thesis by (simp add: rnd_def Let_def)
next
  case False
  let ?v = "sgn q * rmag \<bar>q\<bar>"
  have "rmag \<bar>?v\<bar> = rmag \<bar>q\<bar>" by (simp add: rmag_sgn rmag_idem)
  moreover have "sgn ?v * rmag \<bar>q\<bar> = ?v"
  proof (cases "rmag \<bar>q\<bar> = 0")
    case False
    then have "0 < rmag \<bar>q\<bar>" using rmag_nonneg[of "\<bar>q\<bar>"] by simp
    then show ?thesis by (simp add: sgn_mult)
  qed simp
  ultimately have "rnd ?v = Fin ?v" using False by (simp add: rnd_def Let_def)
  then show ?thesis using False by (simp add: rnd_def Let_def)
qed

lemma rnd_of_int:
  assumes "\<bar>n\<bar> \<le> 2 ^ 53"
  shows "rnd (of_int n) = Fin (of_int n)"
proof -
  have "rmag (of_int \<bar>n\<bar> * 2 powi 0) = of_int \<bar>n\<bar> * 2 powi 0"
    using assms by (intro rmag_exact) auto
  then have r: "rmag \<bar>of_int n\<bar> = \<bar>of_int n\<bar>" by simp
  have "(of_int \<bar>n\<bar> :: rat) \<le> of_int (2 ^ 53)" using assms by (simp only: of_int_le_iff)
  also have "of_int (2 ^ 53) = (2::rat) powi 53" by simp
  also have "\<dots> < max_f64_bound"
    unfolding max_f64_bound_def by (rule power_int_strict_increasing) auto
  finally have "\<not> max_f64_bound \<le> (\<bar>of_int n\<bar> :: rat)" by simp
  then show ?thesis by (simp add: rnd_def Let_def r) (simp add: sgn_if)
qed

lemma f64_of_int_exact: "\<bar>n\<bar> \<le> 2 ^ 53 \<Longrightarrow> f64_of_int n = Fin (of_int n)"
  by (simp add: f64_of_int_def rnd_of_int)

section \<open>Durations as seconds\<close>

lemma go_quot_rem: "a = b * go_quot a b + go_rem a b"
  by (simp add: go_rem_def)

lemma second_pos [simp]: "0 < second"
  by (simp add: second_def)

lemma go_quot_second:
  "go_quot d second = (if 0 \<le> d then d div second else - ((- d) div second))"
  by (simp add: go_quot_def sgn_if second_def)

lemma go_rem_second:
  "go_rem d second = (if 0 \<le> d then d mod second else - ((- d) mod second))"
  unfolding go_rem_def go_quot_second
  using minus_mult_div_eq_mod[of d second] minus_mult_div_eq_mod[of "- d" second] by simp

lemma rem_bounds: "\<bar>go_rem d second\<bar> < second"
  by (simp add: go_rem_second)

lemma rem_sign: "0 \<le> d \<Longrightarrow> 0 \<le> go_rem d second" "d \<le> 0 \<Longrightarrow> go_rem d second \<le> 0"
  by (auto simp: go_rem_second)

definition in_duration :: "int \<Rightarrow> bool" where
  "in_duration d \<longleftrightarrow> min_duration \<le> d \<and> d \<le> max_duration"

lemma time_Sub_in_duration: "in_duration (time_Sub t u)"
  by (simp add: in_duration_def time_Sub_def min_duration_def max_duration_def)

lemma quot_bound:
  assumes "in_duration d"
  shows "\<bar>go_quot d second\<bar> \<le> 2 ^ 53"
proof -
  have "\<bar>go_quot d second\<bar> = \<bar>d\<bar> div second"
    by (simp add: go_quot_second pos_imp_zdiv_nonneg_iff)
  also have "\<dots> \<le> 2 ^ 63 div second"
    using assms by (intro zdiv_mono1)
      (auto simp: in_duration_def min_duration_def max_duration_def second_def)
  also have "\<dots> \<le> 2 ^ 53" by (simp add: second_def)
  finally show ?thesis .
qed

text \<open>The fraction of a second, as the float it rounds to.\<close>

definition frac_secs :: "duration \<Rightarrow> f64" where
  "frac_secs d = rnd (of_int (go_rem d second) / 1000000000)"

lemma rnd_1: "rnd 1 = Fin 1" "rnd (- 1) = Fin (- 1)"
  using rnd_of_int[of 1] rnd_of_int[of "- 1"] by simp_all

lemma frac_secs_Fin:
  obtains q where "frac_secs d = Fin q" "\<bar>q\<bar> \<le> 1"
    "0 \<le> d \<Longrightarrow> 0 \<le> q" "d \<le> 0 \<Longrightarrow> q \<le> 0"
proof -
  let ?r = "of_int (go_rem d second) / 1000000000 :: rat"
  have r: "- 1 \<le> ?r" "?r \<le> 1" using rem_bounds[of d] by (auto simp: second_def)
  have lo: "fle (Fin (- 1)) (rnd ?r)" and hi: "fle (rnd ?r) (Fin 1)"
    using rnd_mono[OF r(1)] rnd_mono[OF r(2)] rnd_1 by simp_all
  then obtain q where q: "rnd ?r = Fin q" by (cases "rnd ?r") auto
  have "0 \<le> d \<Longrightarrow> 0 \<le> q" "d \<le> 0 \<Longrightarrow> q \<le> 0"
    using rem_sign[of d] rnd_nonneg[of ?r] rnd_nonpos[of ?r] q by auto
  then show ?thesis using that[of q] q lo hi by (auto simp: frac_secs_def)
qed

lemma seconds_alt:
  assumes "in_duration d" "frac_secs d = Fin q"
  shows "seconds d = rnd (of_int (go_quot d second) + q)"
proof -
  have "f64_of_int (go_quot d second) = Fin (of_int (go_quot d second))"
    using assms(1) by (intro f64_of_int_exact quot_bound)
  moreover have "f64_of_int (go_rem d second) = Fin (of_int (go_rem d second))"
    using rem_bounds[of d] by (intro f64_of_int_exact) (auto simp: second_def)
  ultimately show ?thesis using assms(2) by (simp add: seconds_def frac_secs_def)
qed

text \<open>\<open>Seconds\<close> never is NaN and never orders two durations the wrong way round.\<close>

lemma seconds_mono:
  assumes "d \<le> d'" "in_duration d" "in_duration d'"
  shows "fle (seconds d) (seconds d')"
proof -
  obtain q where q: "frac_secs d = Fin q" "\<bar>q\<bar> \<le> 1" "0 \<le> d \<Longrightarrow> 0 \<le> q" "d \<le> 0 \<Longrightarrow> q \<le> 0"
    using frac_secs_Fin[of d] by blast
  obtain q' where q': "frac_secs d' = Fin q'" "\<bar>q'\<bar> \<le> 1" "0 \<le> d' \<Longrightarrow> 0 \<le> q'" "d' \<le> 0 \<Longrightarrow> q' \<le> 0"
    using frac_secs_Fin[of d'] by blast
  let ?s = "go_quot d second" and ?s' = "go_quot d' second"
  have "(of_int ?s :: rat) + q \<le> of_int ?s' + q'"
  proof (cases "?s = ?s'")
    case True
    then have "go_rem d second \<le> go_rem d' second"
      using assms(1) by (simp add: go_rem_def)
    then have "fle (frac_secs d) (frac_secs d')"
      unfolding frac_secs_def by (intro rnd_mono divide_right_mono) auto
    then show ?thesis using True q(1) q'(1) by simp
  next
    case False
    have sgd: "0 \<le> x \<Longrightarrow> 0 \<le> x div second" for x
      by (simp add: pos_imp_zdiv_nonneg_iff)
    have le: "?s \<le> ?s'"
      using assms(1) zdiv_mono1[OF _ second_pos, of d d'] zdiv_mono1[OF _ second_pos, of "- d'" "- d"]
        sgd[of "- d"] sgd[of d'] by (auto simp: go_quot_second)
    then have lt: "?s + 1 \<le> ?s'" using False by simp
    have sg: "d' \<le> 0 \<or> 0 \<le> d \<or> (d \<le> 0 \<and> 0 \<le> d' \<and> ?s \<le> 0 \<and> 0 \<le> ?s')"
      using sgd[of "- d"] sgd[of d'] by (auto simp: go_quot_second)
    have "(of_int ?s :: rat) + 1 \<le> of_int ?s'" using lt
      by (metis of_int_1 of_int_add of_int_le_iff)
    then show ?thesis using sg q(2-) q'(2-) assms(1) by auto
  qed
  then show ?thesis using assms q(1) q'(1) by (simp add: seconds_alt rnd_mono)
qed

lemma seconds_not_NaN: "in_duration d \<Longrightarrow> seconds d \<noteq> NaN"
  by (metis frac_secs_Fin rnd_not_NaN seconds_alt)

lemma secs_between_not_NaN [simp]: "secs_between t u \<noteq> NaN"
  by (simp add: secs_between_def seconds_not_NaN time_Sub_in_duration)

text \<open>Later readings of the clock never measure a shorter span.\<close>

lemma secs_between_mono: "t \<le> t' \<Longrightarrow> fle (secs_between t u) (secs_between t' u)"
  unfolding secs_between_def
  by (intro seconds_mono time_Sub_in_duration) (simp add: time_Sub_def)

lemma secs_between_antimono: "u \<le> u' \<Longrightarrow> fle (secs_between t u') (secs_between t u)"
  unfolding secs_between_def
  by (intro seconds_mono time_Sub_in_duration) (simp add: time_Sub_def)

lemma secs_between_self [simp]: "secs_between t t = Fin 0"
  by (simp add: secs_between_def time_Sub_def seconds_def go_quot_def go_rem_def
      f64_of_int_def min_duration_def max_duration_def)

lemma secs_between_nonneg: "u \<le> t \<Longrightarrow> fle (Fin 0) (secs_between t u)"
  using secs_between_mono[of u t u] by simp

lemma secs_between_whole:
  assumes "\<bar>k\<bar> \<le> 1000000000" "t = u + k * second"
  shows "secs_between t u = Fin (of_int k)"
proof -
  have d: "time_Sub t u = k * second"
    using assms by (auto simp: time_Sub_def second_def min_duration_def max_duration_def)
  have q: "go_quot (k * second) second = k"
    by (simp add: go_quot_def second_def abs_mult sgn_mult sgn_mult_abs)
  then have r: "go_rem (k * second) second = 0" by (simp add: go_rem_def)
  have "f64_of_int k = Fin (of_int k)" using assms(1) by (intro f64_of_int_exact) simp
  moreover have "rnd (of_int k) = Fin (of_int k)" using assms(1) by (intro rnd_of_int) simp
  ultimately show ?thesis
    by (simp add: secs_between_def d seconds_def q r f64_of_int_def)
qed

end
