(* ===== verification/Adaptor.thy ===== *)
theory Adaptor
  imports GoFloat "HOL-Library.AList"
begin

text \<open>
  The robot vocabulary, \<open>internal/adaptor\<close>: the declared channels, senses and actions
  (\<open>vocabulary.go\<close>), the trajectories an action drives its channels with
  (\<open>trajectory.go\<close>), and the recording sink (\<open>sink.go\<close>). The decoded document is the
  input: JSON and TOML decoding are the library's. A panic of the code (an index out of
  range) is \<open>None\<close>.
\<close>

section \<open>Data\<close>

record channel =
  ch_name :: string
  ch_arity :: int
  ch_neutral :: "f64 list"

record sense =
  s_name :: string
  s_type :: string
  s_age_field :: string

record param =
  p_name :: string
  p_min :: f64
  p_max :: f64

record keyframe =
  kf_t :: f64
  kf_value :: "f64 list"

record easing =
  ea_kind :: string
  ea_from :: "f64 list"
  ea_to :: "f64 list"
  ea_duration :: f64

text \<open>The last three fields are the ones \<open>compile\<close> fills in at load.\<close>

record trajectory =
  tr_keyframes :: "keyframe list"
  tr_easing :: "easing option"
  tr_loops :: bool
  tr_duration :: f64
  tr_arity :: int

text \<open>\<open>Trajectories\<close> is a map of pointers: an entry may be nil.\<close>

record action =
  a_name :: string
  a_claims :: "string list"
  a_loops :: bool
  a_params :: "param list"
  a_trajectories :: "trajectory option gomap"

type_synonym pose = "string \<rightharpoonup> f64 list"

record config =
  cfg_channels :: "channel list"
  cfg_senses :: "sense list"
  cfg_actions :: "action list"

record vocabulary =
  v_origin :: string
  v_channels :: "channel list"
  v_senses :: "sense list"
  v_actions :: "action list"
  channelByName :: "string \<rightharpoonup> channel"
  senseByName :: "string \<rightharpoonup> sense"
  actionByName :: "string \<rightharpoonup> action"

definition validSenseTypes :: "string list" where
  "validSenseTypes = [''float'', ''bool'', ''string'', ''vec3'']"

definition isValidSenseType :: "string \<Rightarrow> bool" where
  "isValidSenseType t \<longleftrightarrow> t \<in> set validSenseTypes"

definition validEasingKinds :: "string list" where
  "validEasingKinds = [''linear'', ''ease_in_out'', ''hold'']"

definition isValidEasingKind :: "string \<Rightarrow> bool" where
  "isValidEasingKind k \<longleftrightarrow> k \<in> set validEasingKinds"

text \<open>What a refusal of this package names; the advice half is a function of it.\<close>

datatype adaptor_what =
    NoChannels | ChannelUnnamed | ChannelTwice string | ChannelArity string int
  | NeutralArity string nat int | NeutralNotFinite string nat f64
  | SenseUnnamed | SenseTwice string | SenseBadType string string
  | AgeUndeclared string string | AgeNotFloat string string string
  | ActionUnnamed | ActionTwice string | ClaimsNone string
  | ClaimUndeclared string string | ClaimTwice string string
  | ParamUnnamed string | ParamTwice string string | ParamBoundNotFinite string string
  | ParamDomainEmpty string string f64 f64
  | TrajUndeclared string string | TrajUnclaimed string string | TrajMissing string string
  | TrajBoth string string | TrajNeither string string
  | EasingBadKind string string string | EasingArity string string string nat int
  | EasingNotFinite string string string nat f64 | EasingDuration string string f64
  | KeyframeStart string string f64 | KeyframeTime string string nat f64
  | KeyframeBack string string nat f64 f64 | KeyframeArity string string nat nat int
  | KeyframeNotFinite string string nat nat f64
  | RefField string | RefAction string | ParamsNoAction string
  | ParamUndeclared string string | ParamNotFinite string string f64
  | ParamOutside string string f64 f64 f64

datatype adaptor_error = AErr string adaptor_what

definition newError :: "string \<Rightarrow> adaptor_what \<Rightarrow> adaptor_error" where
  "newError origin what = AErr origin what"

section \<open>Sampling a trajectory\<close>

fun lerp :: "f64 list \<Rightarrow> f64 list \<Rightarrow> f64 \<Rightarrow> f64 list option" where
  "lerp [] _ u = Some []"
| "lerp (a # as) [] u = None"
| "lerp (a # as) (b # bs) u =
     map_option (\<lambda>vs. fadd a (fmul (fsub b a) u) # vs) (lerp as bs u)"

fun scanKeyframes :: "keyframe list \<Rightarrow> keyframe \<Rightarrow> f64 \<Rightarrow> f64 list option" where
  "scanKeyframes (a # b # rest) final t =
     (if flt t (kf_t a) then Some (kf_value a)
      else if flt t (kf_t b) then
        (let span = fsub (kf_t b) (kf_t a) in
           if fle span (Fin 0) then Some (kf_value b)
           else lerp (kf_value a) (kf_value b) (fdiv (fsub t (kf_t a)) span))
      else scanKeyframes (b # rest) final t)"
| "scanKeyframes _ final t = Some (kf_value final)"

definition sampleKeyframes :: "trajectory \<Rightarrow> f64 \<Rightarrow> f64 list option" where
  "sampleKeyframes tr t =
     (case tr_keyframes tr of [] \<Rightarrow> None
      | _ \<Rightarrow> (let final = last (tr_keyframes tr) in
          if fle (kf_t final) t then Some (kf_value final)
          else scanKeyframes (tr_keyframes tr) final t))"

text \<open>\<open>math.Pi\<close> as a \<open>float64\<close>.\<close>

definition pi_f64 :: f64 where
  "pi_f64 = Fin (884279719003555 / 281474976710656)"

text \<open>
  \<open>math.Cos\<close> is a parameter, \<open>cosf\<close>: the bits of a transcendental function are the
  library's own.
\<close>

definition sampleEasing :: "(f64 \<Rightarrow> f64) \<Rightarrow> easing \<Rightarrow> f64 \<Rightarrow> f64 list option" where
  "sampleEasing cosf e t =
     (if fle (ea_duration e) t then Some (ea_to e)
      else let u = fdiv t (ea_duration e) in
        if ea_kind e = ''hold'' then Some (ea_from e)
        else if ea_kind e = ''ease_in_out'' then
          lerp (ea_from e) (ea_to e)
            (fmul (Fin (1/2)) (fsub (Fin 1) (cosf (fmul pi_f64 u))))
        else lerp (ea_from e) (ea_to e) u)"

text \<open>The behavior-local time a sample is taken at: NaN starts over, a loop wraps.\<close>

definition trajTime :: "trajectory \<Rightarrow> f64 \<Rightarrow> f64" where
  "trajTime tr tLocal =
     (let t0 = (if is_nan tLocal then Fin 0 else tLocal);
          t1 = (if tr_loops tr \<and> flt (Fin 0) (tr_duration tr)
                then let m = math_Mod t0 (tr_duration tr)
                     in if flt m (Fin 0) then fadd m (tr_duration tr) else m
                else t0)
      in if flt t1 (Fin 0) then Fin 0 else t1)"

definition At :: "(f64 \<Rightarrow> f64) \<Rightarrow> trajectory \<Rightarrow> f64 \<Rightarrow> f64 list option" where
  "At cosf tr tLocal =
     (let t = trajTime tr tLocal in
      case tr_easing tr of Some e \<Rightarrow> sampleEasing cosf e t
      | None \<Rightarrow> sampleKeyframes tr t)"

section \<open>Compiling a trajectory\<close>

definition finite_check :: "(nat \<Rightarrow> f64 \<Rightarrow> 'e) \<Rightarrow> f64 list \<Rightarrow> ('e, unit) result" where
  "finite_check err vs = each (\<lambda>p. refuse_if (\<not> isFinite (snd p)) (err (fst p) (snd p)))
     (enumerate 0 vs)"

text \<open>
  \<open>compileEasing\<close> ranges over a map of two entries; the list is one of its two orders.
\<close>

definition easingEnds :: "easing \<Rightarrow> (string \<times> f64 list) list" where
  "easingEnds e = [(''from'', ea_from e), (''to'', ea_to e)]"

definition checkEasingEnd ::
  "string \<Rightarrow> string \<Rightarrow> string \<Rightarrow> int \<Rightarrow> string \<times> f64 list \<Rightarrow> (adaptor_error, unit) result" where
  "checkEasingEnd origin an ch arity lv =
     rbind (refuse_if (int (length (snd lv)) \<noteq> arity)
              (newError origin (EasingArity an ch (fst lv) (length (snd lv)) arity)))
       (\<lambda>_. finite_check (\<lambda>i v. newError origin (EasingNotFinite an ch (fst lv) i v)) (snd lv))"

definition compileEasing ::
  "string \<Rightarrow> string \<Rightarrow> string \<Rightarrow> int \<Rightarrow> easing \<Rightarrow> trajectory \<Rightarrow> (adaptor_error, trajectory) result"
where
  "compileEasing origin an ch arity e tr =
     rbind (refuse_if (\<not> isValidEasingKind (ea_kind e))
              (newError origin (EasingBadKind an ch (ea_kind e)))) (\<lambda>_.
     rbind (each (checkEasingEnd origin an ch arity) (easingEnds e)) (\<lambda>_.
     rbind (refuse_if (\<not> isFinite (ea_duration e) \<or> fle (ea_duration e) (Fin 0))
              (newError origin (EasingDuration an ch (ea_duration e)))) (\<lambda>_.
     Inr (tr\<lparr>tr_duration := ea_duration e\<rparr>))))"

fun checkKeyframes ::
  "string \<Rightarrow> string \<Rightarrow> string \<Rightarrow> int \<Rightarrow> nat \<Rightarrow> f64 \<Rightarrow> keyframe list \<Rightarrow> (adaptor_error, unit) result"
where
  "checkKeyframes origin an ch arity i previous [] = Inr ()"
| "checkKeyframes origin an ch arity i previous (f # fs) =
     rbind (guards
       [(\<not> isFinite (kf_t f) \<or> flt (kf_t f) (Fin 0), newError origin (KeyframeTime an ch i (kf_t f))),
        (flt (kf_t f) previous, newError origin (KeyframeBack an ch i (kf_t f) previous)),
        (int (length (kf_value f)) \<noteq> arity,
           newError origin (KeyframeArity an ch i (length (kf_value f)) arity))]) (\<lambda>_.
     rbind (finite_check (\<lambda>j v. newError origin (KeyframeNotFinite an ch i j v)) (kf_value f)) (\<lambda>_.
     checkKeyframes origin an ch arity (Suc i) (kf_t f) fs))"

definition compileKeyframes ::
  "string \<Rightarrow> string \<Rightarrow> string \<Rightarrow> int \<Rightarrow> trajectory \<Rightarrow> (adaptor_error, trajectory) result"
where
  "compileKeyframes origin an ch arity tr =
     (let t0 = kf_t (hd (tr_keyframes tr)) in
     rbind (refuse_if (\<not> feq t0 (Fin 0)) (newError origin (KeyframeStart an ch t0))) (\<lambda>_.
     rbind (checkKeyframes origin an ch arity 0 NInf (tr_keyframes tr)) (\<lambda>_.
     Inr (tr\<lparr>tr_duration := kf_t (last (tr_keyframes tr))\<rparr>))))"

definition compile_traj ::
  "string \<Rightarrow> action \<Rightarrow> string \<Rightarrow> int \<Rightarrow> trajectory \<Rightarrow> (adaptor_error, trajectory) result"
where
  "compile_traj origin a ch arity tr =
     (let hasKeyframes = tr_keyframes tr \<noteq> []; hasEasing = tr_easing tr \<noteq> None;
          tr' = tr\<lparr>tr_loops := a_loops a, tr_arity := arity\<rparr> in
     rbind (guards [(hasKeyframes \<and> hasEasing, newError origin (TrajBoth (a_name a) ch)),
                    (\<not> hasKeyframes \<and> \<not> hasEasing, newError origin (TrajNeither (a_name a) ch))]) (\<lambda>_.
     case tr_easing tr of
       Some e \<Rightarrow> compileEasing origin (a_name a) ch arity e tr'
     | None \<Rightarrow> compileKeyframes origin (a_name a) ch arity tr'))"

section \<open>Loading a vocabulary\<close>

definition validateChannel ::
  "string \<Rightarrow> channel \<Rightarrow> (string \<rightharpoonup> channel) \<Rightarrow> (adaptor_error, channel) result" where
  "validateChannel origin ch seen =
     rbind (guards
       [(ch_name ch = [], newError origin ChannelUnnamed),
        (seen (ch_name ch) \<noteq> None, newError origin (ChannelTwice (ch_name ch))),
        (ch_arity ch < 1, newError origin (ChannelArity (ch_name ch) (ch_arity ch))),
        (int (length (ch_neutral ch)) \<noteq> ch_arity ch,
           newError origin (NeutralArity (ch_name ch) (length (ch_neutral ch)) (ch_arity ch)))])
     (\<lambda>_. rbind (finite_check (\<lambda>i v. newError origin (NeutralNotFinite (ch_name ch) i v))
             (ch_neutral ch))
     (\<lambda>_. Inr ch))"

definition validateChannels ::
  "string \<Rightarrow> channel list \<Rightarrow> (adaptor_error, string \<rightharpoonup> channel) result" where
  "validateChannels origin chs =
     rbind (refuse_if (chs = []) (newError origin NoChannels))
       (\<lambda>_. foldr_res (index_step ch_name (validateChannel origin)) chs Map.empty)"

definition validateSense ::
  "string \<Rightarrow> sense \<Rightarrow> (string \<rightharpoonup> sense) \<Rightarrow> (adaptor_error, sense) result" where
  "validateSense origin s seen =
     rbind (guards
       [(s_name s = [], newError origin SenseUnnamed),
        (seen (s_name s) \<noteq> None, newError origin (SenseTwice (s_name s))),
        (\<not> isValidSenseType (s_type s), newError origin (SenseBadType (s_name s) (s_type s)))])
     (\<lambda>_. Inr s)"

definition validateAge ::
  "string \<Rightarrow> (string \<rightharpoonup> sense) \<Rightarrow> sense \<Rightarrow> (adaptor_error, unit) result" where
  "validateAge origin byName s =
     (if s_age_field s = [] then Inr ()
      else case byName (s_age_field s) of
        None \<Rightarrow> Inl (newError origin (AgeUndeclared (s_name s) (s_age_field s)))
      | Some age \<Rightarrow> refuse_if (s_type age \<noteq> ''float'')
          (newError origin (AgeNotFloat (s_name s) (s_age_field s) (s_type age))))"

definition validateSenses ::
  "string \<Rightarrow> sense list \<Rightarrow> (adaptor_error, string \<rightharpoonup> sense) result" where
  "validateSenses origin ss =
     rbind (foldr_res (index_step s_name (validateSense origin)) ss Map.empty)
       (\<lambda>byName. rbind (each (validateAge origin byName) ss) (\<lambda>_. Inr byName))"

fun validateClaims ::
  "string \<Rightarrow> (string \<rightharpoonup> channel) \<Rightarrow> string \<Rightarrow> string set \<Rightarrow> string list \<Rightarrow> (adaptor_error, unit) result"
where
  "validateClaims origin chans an seen [] = Inr ()"
| "validateClaims origin chans an seen (c # cs) =
     rbind (guards [(chans c = None, newError origin (ClaimUndeclared an c)),
                    (c \<in> seen, newError origin (ClaimTwice an c))])
       (\<lambda>_. validateClaims origin chans an (insert c seen) cs)"

fun validateActionParams ::
  "string \<Rightarrow> string \<Rightarrow> string set \<Rightarrow> param list \<Rightarrow> (adaptor_error, unit) result" where
  "validateActionParams origin an seen [] = Inr ()"
| "validateActionParams origin an seen (p # ps) =
     rbind (guards
       [(p_name p = [], newError origin (ParamUnnamed an)),
        (p_name p \<in> seen, newError origin (ParamTwice an (p_name p))),
        (\<not> isFinite (p_min p) \<or> \<not> isFinite (p_max p),
           newError origin (ParamBoundNotFinite an (p_name p))),
        (flt (p_max p) (p_min p),
           newError origin (ParamDomainEmpty an (p_name p) (p_min p) (p_max p)))])
       (\<lambda>_. validateActionParams origin an (insert (p_name p) seen) ps)"

text \<open>One claimed channel: look its trajectory up, compile it, and leave it in the map.\<close>

definition compileClaim ::
  "string \<Rightarrow> (string \<rightharpoonup> channel) \<Rightarrow> action \<Rightarrow> string \<Rightarrow> trajectory option gomap
     \<Rightarrow> (adaptor_error, trajectory option gomap) result" where
  "compileClaim origin chans a c trajs =
     (case map_of trajs c of
        Some (Some tr) \<Rightarrow>
          (case chans c of
             Some ch \<Rightarrow> rbind (compile_traj origin a c (ch_arity ch) tr)
                         (\<lambda>tr'. Inr (AList.update c (Some tr') trajs))
           | None \<Rightarrow> rbind (compile_traj origin a c 0 tr)
                      (\<lambda>tr'. Inr (AList.update c (Some tr') trajs)))
      | _ \<Rightarrow> Inl (newError origin (TrajMissing (a_name a) c)))"

definition validateTrajectories ::
  "string \<Rightarrow> (string \<rightharpoonup> channel) \<Rightarrow> action \<Rightarrow> (adaptor_error, action) result" where
  "validateTrajectories origin chans a =
     rbind (each (\<lambda>c. guards
         [(chans c = None, newError origin (TrajUndeclared (a_name a) c)),
          (c \<notin> set (a_claims a), newError origin (TrajUnclaimed (a_name a) c))])
       (keys (a_trajectories a)))
     (\<lambda>_. rbind (foldr_res (compileClaim origin chans a) (a_claims a) (a_trajectories a))
     (\<lambda>trajs. Inr (a\<lparr>a_trajectories := trajs\<rparr>)))"

definition validateAction ::
  "string \<Rightarrow> (string \<rightharpoonup> channel) \<Rightarrow> action \<Rightarrow> (string \<rightharpoonup> action) \<Rightarrow> (adaptor_error, action) result"
where
  "validateAction origin chans a seen =
     rbind (guards
       [(a_name a = [], newError origin ActionUnnamed),
        (seen (a_name a) \<noteq> None, newError origin (ActionTwice (a_name a)))])
     (\<lambda>_. rbind (refuse_if (a_claims a = []) (newError origin (ClaimsNone (a_name a))))
     (\<lambda>_. rbind (validateClaims origin chans (a_name a) {} (a_claims a))
     (\<lambda>_. rbind (validateActionParams origin (a_name a) {} (a_params a))
     (\<lambda>_. validateTrajectories origin chans a))))"

definition validateActions ::
  "string \<Rightarrow> (string \<rightharpoonup> channel) \<Rightarrow> action list \<Rightarrow> (adaptor_error, string \<rightharpoonup> action) result" where
  "validateActions origin chans as =
     foldr_res (index_step a_name (validateAction origin chans)) as Map.empty"

text \<open>
  \<open>parse\<close> past the decoder. The index holds pointers into the action slice, and compiling
  fills the trajectories in place: the slice is read back through the index.
\<close>

definition parse :: "config \<Rightarrow> string \<Rightarrow> (adaptor_error, vocabulary) result" where
  "parse cfg origin =
     rbind (validateChannels origin (cfg_channels cfg)) (\<lambda>chans.
     rbind (validateSenses origin (cfg_senses cfg)) (\<lambda>senses.
     rbind (validateActions origin chans (cfg_actions cfg)) (\<lambda>acts.
     Inr \<lparr>v_origin = origin, v_channels = cfg_channels cfg, v_senses = cfg_senses cfg,
          v_actions = map (\<lambda>a. the (acts (a_name a))) (cfg_actions cfg),
          channelByName = chans, senseByName = senses, actionByName = acts\<rparr>)))"

section \<open>Asking a vocabulary\<close>

definition Neutral :: "vocabulary \<Rightarrow> pose" where
  "Neutral v = foldl (\<lambda>out ch. out(ch_name ch \<mapsto> ch_neutral ch)) Map.empty (v_channels v)"

definition HasField :: "vocabulary \<Rightarrow> string \<Rightarrow> bool" where
  "HasField v n \<longleftrightarrow> senseByName v n \<noteq> None"

definition HasAction :: "vocabulary \<Rightarrow> string \<Rightarrow> bool" where
  "HasAction v n \<longleftrightarrow> actionByName v n \<noteq> None"

definition ActionLoops :: "vocabulary \<Rightarrow> string \<Rightarrow> bool" where
  "ActionLoops v n = (case actionByName v n of None \<Rightarrow> False | Some a \<Rightarrow> a_loops a)"

definition ActionParam :: "vocabulary \<Rightarrow> string \<Rightarrow> string \<Rightarrow> (f64 \<times> f64) option" where
  "ActionParam v an pn =
     (case actionByName v an of None \<Rightarrow> None
      | Some a \<Rightarrow> map_option (\<lambda>p. (p_min p, p_max p)) (List.find (\<lambda>p. p_name p = pn) (a_params a)))"

definition CheckReferences ::
  "vocabulary \<Rightarrow> string list \<Rightarrow> string list \<Rightarrow> (adaptor_error, unit) result" where
  "CheckReferences v fns ans =
     rbind (each (\<lambda>n. refuse_if (\<not> HasField v n) (newError (v_origin v) (RefField n))) fns)
       (\<lambda>_. each (\<lambda>n. refuse_if (\<not> HasAction v n) (newError (v_origin v) (RefAction n))) ans)"

definition checkParam ::
  "vocabulary \<Rightarrow> string \<Rightarrow> string \<times> f64 \<Rightarrow> (adaptor_error, unit) result" where
  "checkParam v an kv =
     (case ActionParam v an (fst kv) of
        None \<Rightarrow> Inl (newError (v_origin v) (ParamUndeclared an (fst kv)))
      | Some (lo, hi) \<Rightarrow> guards
          [(\<not> isFinite (snd kv), newError (v_origin v) (ParamNotFinite an (fst kv) (snd kv))),
           (flt (snd kv) lo \<or> flt hi (snd kv),
              newError (v_origin v) (ParamOutside an (fst kv) (snd kv) lo hi))])"

definition ValidateParams ::
  "vocabulary \<Rightarrow> string \<Rightarrow> f64 gomap \<Rightarrow> (adaptor_error, unit) result" where
  "ValidateParams v an params =
     rbind (refuse_if (actionByName v an = None) (newError (v_origin v) (ParamsNoAction an)))
       (\<lambda>_. each (checkParam v an) params)"

section \<open>The recording sink\<close>

record 'e recording_sink =
  rs_err :: "'e option"
  rs_written :: "pose list"

definition NewRecordingSink :: "'e recording_sink" where
  "NewRecordingSink = \<lparr>rs_err = None, rs_written = []\<rparr>"

definition rs_Write :: "pose \<Rightarrow> 'e recording_sink \<Rightarrow> 'e option \<times> 'e recording_sink" where
  "rs_Write p r = (rs_err r, r\<lparr>rs_written := rs_written r @ [p]\<rparr>)"

definition Written :: "'e recording_sink \<Rightarrow> pose list" where
  "Written r = rs_written r"

definition Reset :: "'e recording_sink \<Rightarrow> 'e recording_sink" where
  "Reset r = r\<lparr>rs_written := []\<rparr>"

section \<open>Well-formedness\<close>

definition all_finite :: "f64 list \<Rightarrow> bool" where
  "all_finite vs \<longleftrightarrow> (\<forall>v \<in> set vs. isFinite v)"

definition keyframe_ok :: "int \<Rightarrow> keyframe \<Rightarrow> bool" where
  "keyframe_ok arity k \<longleftrightarrow> isFinite (kf_t k) \<and> fle (Fin 0) (kf_t k)
     \<and> int (length (kf_value k)) = arity \<and> all_finite (kf_value k)"

definition keyframes_ok :: "int \<Rightarrow> keyframe list \<Rightarrow> bool" where
  "keyframes_ok arity ks \<longleftrightarrow> ks \<noteq> [] \<and> kf_t (hd ks) = Fin 0 \<and> list_all (keyframe_ok arity) ks
     \<and> sorted_wrt (\<lambda>a b. fle (kf_t a) (kf_t b)) ks"

definition easing_ok :: "int \<Rightarrow> easing \<Rightarrow> bool" where
  "easing_ok arity e \<longleftrightarrow> isValidEasingKind (ea_kind e)
     \<and> int (length (ea_from e)) = arity \<and> all_finite (ea_from e)
     \<and> int (length (ea_to e)) = arity \<and> all_finite (ea_to e)
     \<and> isFinite (ea_duration e) \<and> flt (Fin 0) (ea_duration e)"

text \<open>Exactly one of a keyframe list and an easing.\<close>

definition traj_src_ok :: "int \<Rightarrow> trajectory \<Rightarrow> bool" where
  "traj_src_ok arity tr \<longleftrightarrow>
     (case tr_easing tr of None \<Rightarrow> keyframes_ok arity (tr_keyframes tr)
      | Some e \<Rightarrow> tr_keyframes tr = [] \<and> easing_ok arity e)"

definition traj_len :: "trajectory \<Rightarrow> f64" where
  "traj_len tr = (case tr_easing tr of Some e \<Rightarrow> ea_duration e
                  | None \<Rightarrow> kf_t (last (tr_keyframes tr)))"

text \<open>A compiled trajectory: an acceptable source with the derived fields filled in.\<close>

definition compiled :: "bool \<Rightarrow> int \<Rightarrow> trajectory \<Rightarrow> trajectory" where
  "compiled loops arity tr =
     tr\<lparr>tr_loops := loops, tr_arity := arity, tr_duration := traj_len tr\<rparr>"

definition traj_ok :: "bool \<Rightarrow> int \<Rightarrow> trajectory \<Rightarrow> bool" where
  "traj_ok loops arity tr \<longleftrightarrow> traj_src_ok arity tr \<and> tr_loops tr = loops
     \<and> tr_arity tr = arity \<and> tr_duration tr = traj_len tr"

definition channel_ok :: "channel \<Rightarrow> bool" where
  "channel_ok ch \<longleftrightarrow> ch_name ch \<noteq> [] \<and> 1 \<le> ch_arity ch
     \<and> int (length (ch_neutral ch)) = ch_arity ch \<and> all_finite (ch_neutral ch)"

definition channels_ok :: "channel list \<Rightarrow> bool" where
  "channels_ok chs \<longleftrightarrow> chs \<noteq> [] \<and> list_all channel_ok chs \<and> distinct (map ch_name chs)"

definition sense_ok :: "sense \<Rightarrow> bool" where
  "sense_ok s \<longleftrightarrow> s_name s \<noteq> [] \<and> isValidSenseType (s_type s)"

definition senses_ok :: "sense list \<Rightarrow> bool" where
  "senses_ok ss \<longleftrightarrow> list_all sense_ok ss \<and> distinct (map s_name ss)
     \<and> (\<forall>s \<in> set ss. s_age_field s \<noteq> [] \<longrightarrow>
          (\<exists>a \<in> set ss. s_name a = s_age_field s \<and> s_type a = ''float''))"

definition param_ok :: "param \<Rightarrow> bool" where
  "param_ok p \<longleftrightarrow> p_name p \<noteq> [] \<and> isFinite (p_min p) \<and> isFinite (p_max p)
     \<and> fle (p_min p) (p_max p)"

definition index_of :: "('a \<Rightarrow> string) \<Rightarrow> 'a list \<Rightarrow> string \<rightharpoonup> 'a" where
  "index_of k xs = map_of (map (\<lambda>x. (k x, x)) xs)"

definition claims_ok :: "channel list \<Rightarrow> action \<Rightarrow> bool" where
  "claims_ok chs a \<longleftrightarrow> a_claims a \<noteq> [] \<and> distinct (a_claims a)
     \<and> set (a_claims a) \<subseteq> ch_name ` set chs"

definition action_src_ok :: "channel list \<Rightarrow> action \<Rightarrow> bool" where
  "action_src_ok chs a \<longleftrightarrow> a_name a \<noteq> [] \<and> claims_ok chs a
     \<and> distinct (map p_name (a_params a)) \<and> list_all param_ok (a_params a)
     \<and> dom (map_of (a_trajectories a)) = set (a_claims a)
     \<and> (\<forall>ch \<in> set chs. ch_name ch \<in> set (a_claims a) \<longrightarrow>
          (\<exists>tr. map_of (a_trajectories a) (ch_name ch) = Some (Some tr)
              \<and> traj_src_ok (ch_arity ch) tr))"

definition config_ok :: "config \<Rightarrow> bool" where
  "config_ok cfg \<longleftrightarrow> channels_ok (cfg_channels cfg) \<and> senses_ok (cfg_senses cfg)
     \<and> distinct (map a_name (cfg_actions cfg))
     \<and> list_all (action_src_ok (cfg_channels cfg)) (cfg_actions cfg)"

text \<open>A decoded document: its maps are maps.\<close>

definition config_maps :: "config \<Rightarrow> bool" where
  "config_maps cfg \<longleftrightarrow> list_all (\<lambda>a. gomap_ok (a_trajectories a)) (cfg_actions cfg)"

definition action_ok :: "channel list \<Rightarrow> action \<Rightarrow> bool" where
  "action_ok chs a \<longleftrightarrow> a_name a \<noteq> [] \<and> claims_ok chs a
     \<and> distinct (map p_name (a_params a)) \<and> list_all param_ok (a_params a)
     \<and> gomap_ok (a_trajectories a) \<and> dom (map_of (a_trajectories a)) = set (a_claims a)
     \<and> (\<forall>ch \<in> set chs. ch_name ch \<in> set (a_claims a) \<longrightarrow>
          (\<exists>tr. map_of (a_trajectories a) (ch_name ch) = Some (Some tr)
              \<and> traj_ok (a_loops a) (ch_arity ch) tr))"

definition voc_wf :: "vocabulary \<Rightarrow> bool" where
  "voc_wf v \<longleftrightarrow> channels_ok (v_channels v) \<and> senses_ok (v_senses v)
     \<and> distinct (map a_name (v_actions v)) \<and> list_all (action_ok (v_channels v)) (v_actions v)
     \<and> channelByName v = index_of ch_name (v_channels v)
     \<and> senseByName v = index_of s_name (v_senses v)
     \<and> actionByName v = index_of a_name (v_actions v)"

section \<open>Loading accepts exactly the well-formed documents\<close>

lemma index_of_Some:
  assumes "distinct (map k xs)"
  shows "index_of k xs n = Some x \<longleftrightarrow> x \<in> set xs \<and> k x = n"
  using assms by (induction xs) (auto simp: index_of_def image_iff)

lemma index_of_None: "index_of k xs n = None \<longleftrightarrow> n \<notin> k ` set xs"
  by (auto simp: index_of_def map_of_eq_None_iff image_image)

lemma index_of_map:
  assumes "\<And>x. k (f x) = k x"
  shows "index_of k (map f xs) = map_of (map (\<lambda>x. (k x, f x)) xs)"
  by (simp add: index_of_def assms comp_def)

lemma finite_check_Inr [simp]: "finite_check err vs = Inr u \<longleftrightarrow> all_finite vs"
  unfolding finite_check_def all_finite_def each_Inr refuse_if_Inr not_not by (rule ball_enumerate)

lemma checkKeyframes_Inr:
  "prev \<noteq> NaN \<Longrightarrow> checkKeyframes origin an ch arity i prev ks = Inr u \<longleftrightarrow>
     list_all (keyframe_ok arity) ks \<and> (\<forall>k \<in> set ks. fle prev (kf_t k))
     \<and> sorted_wrt (\<lambda>a b. fle (kf_t a) (kf_t b)) ks"
proof (induction ks arbitrary: i prev)
  case (Cons k ks)
  show ?case
  proof (cases "keyframe_ok arity k")
    case True
    then obtain q where q: "kf_t k = Fin q" "0 \<le> q" by (auto simp: keyframe_ok_def)
    have "\<not> flt (kf_t k) prev \<longleftrightarrow> fle prev (kf_t k)"
      using Cons.prems q by (intro not_flt_fle) (auto simp: is_nan_def)
    then show ?thesis
      using True q Cons.IH[of "kf_t k" "Suc i"] fle_trans[of prev "kf_t k"]
      by (auto simp: keyframe_ok_def not_less)
  next
    case False
    then show ?thesis by (auto simp: keyframe_ok_def not_less)
  qed
qed simp

lemma compileKeyframes_Inr:
  assumes "tr_keyframes tr \<noteq> []"
  shows "compileKeyframes origin an ch arity tr = Inr tr' \<longleftrightarrow>
     keyframes_ok arity (tr_keyframes tr) \<and> tr' = tr\<lparr>tr_duration := kf_t (last (tr_keyframes tr))\<rparr>"
proof -
  have "keyframe_ok arity k \<Longrightarrow> fle NInf (kf_t k)" for k by (auto simp: keyframe_ok_def)
  then show ?thesis using assms
    by (auto simp: compileKeyframes_def Let_def keyframes_ok_def checkKeyframes_Inr feq_iff
        list_all_iff)
qed

lemma compileEasing_Inr:
  "compileEasing origin an ch arity e tr = Inr tr' \<longleftrightarrow>
     easing_ok arity e \<and> tr' = tr\<lparr>tr_duration := ea_duration e\<rparr>"
  by (auto simp: compileEasing_def easing_ok_def easingEnds_def checkEasingEnd_def not_le)

text \<open>Which of the two ends is looked at first only picks the error.\<close>

lemma easingEnds_order:
  "each (checkEasingEnd origin an ch arity) (easingEnds e) = Inr () \<longleftrightarrow>
   each (checkEasingEnd origin an ch arity) (rev (easingEnds e)) = Inr ()"
  by (rule each_cong_Inr) simp

lemma compile_traj_Inr:
  "compile_traj origin a ch arity tr = Inr tr' \<longleftrightarrow>
     traj_src_ok arity tr \<and> tr' = compiled (a_loops a) arity tr"
proof (cases "tr_easing tr")
  case None
  then show ?thesis
    by (cases "tr_keyframes tr = []")
      (auto simp: compile_traj_def Let_def traj_src_ok_def compileKeyframes_Inr compiled_def
        traj_len_def keyframes_ok_def)
next
  case (Some e)
  then show ?thesis
    by (auto simp: compile_traj_def Let_def traj_src_ok_def compileEasing_Inr compiled_def
        traj_len_def)
qed

lemma compiled_ok: "traj_src_ok arity tr \<Longrightarrow> traj_ok loops arity (compiled loops arity tr)"
  by (simp add: traj_ok_def traj_src_ok_def compiled_def traj_len_def split: option.splits)

lemma validateChannel_Inr:
  "validateChannel origin ch m = Inr y \<longleftrightarrow> channel_ok ch \<and> m (ch_name ch) = None \<and> y = ch"
  by (auto simp: validateChannel_def channel_ok_def)

lemma validateChannels_Inr:
  "validateChannels origin chs = Inr m \<longleftrightarrow> channels_ok chs \<and> m = index_of ch_name chs"
proof -
  have "foldr_res (index_step ch_name (validateChannel origin)) chs Map.empty = Inr m \<longleftrightarrow>
      list_all channel_ok chs \<and> distinct (map ch_name chs) \<and> m = index_of ch_name chs"
    by (subst index_fold[where ok = channel_ok and val = "\<lambda>x. x"])
      (auto simp: validateChannel_Inr list_all_iff index_of_def)
  then show ?thesis by (auto simp: validateChannels_def channels_ok_def)
qed

lemma validateSense_Inr:
  "validateSense origin s m = Inr y \<longleftrightarrow> sense_ok s \<and> m (s_name s) = None \<and> y = s"
  by (auto simp: validateSense_def sense_ok_def)

lemma age_float_iff:
  assumes "distinct (map s_name ss)" "index_of s_name ss n = Some a"
  shows "(\<exists>b \<in> set ss. s_name b = n \<and> s_type b = ''float'') \<longleftrightarrow> s_type a = ''float''"
  using assms(2) index_of_Some[OF assms(1)] distinct_map_inj[OF assms(1)] by metis

lemma validateAge_Inr:
  assumes "distinct (map s_name ss)"
  shows "validateAge origin (index_of s_name ss) s = Inr u \<longleftrightarrow>
    (s_age_field s \<noteq> [] \<longrightarrow> (\<exists>a \<in> set ss. s_name a = s_age_field s \<and> s_type a = ''float''))"
proof (cases "index_of s_name ss (s_age_field s)")
  case None
  then have "\<not> (\<exists>a \<in> set ss. s_name a = s_age_field s)" by (auto simp: index_of_None image_iff)
  then have "\<not> (\<exists>a \<in> set ss. s_name a = s_age_field s \<and> s_type a = ''float'')" by blast
  then show ?thesis using None by (simp add: validateAge_def)
next
  case (Some a)
  then show ?thesis using age_float_iff[OF assms Some] by (simp add: validateAge_def)
qed

lemma validateSenses_Inr:
  "validateSenses origin ss = Inr m \<longleftrightarrow> senses_ok ss \<and> m = index_of s_name ss"
proof -
  have "foldr_res (index_step s_name (validateSense origin)) ss Map.empty = Inr byName \<longleftrightarrow>
      list_all sense_ok ss \<and> distinct (map s_name ss) \<and> byName = index_of s_name ss" for byName
    by (subst index_fold[where ok = sense_ok and val = id])
      (auto simp: validateSense_Inr list_all_iff index_of_def)
  then show ?thesis
    by (auto simp: validateSenses_def senses_ok_def validateAge_Inr)
qed

lemma validateClaims_Inr:
  "validateClaims origin chans an seen cs = Inr u \<longleftrightarrow>
     set cs \<subseteq> dom chans \<and> distinct cs \<and> set cs \<inter> seen = {}"
  by (induction cs arbitrary: seen) auto

lemma validateActionParams_Inr:
  "validateActionParams origin an seen ps = Inr u \<longleftrightarrow>
     list_all param_ok ps \<and> distinct (map p_name ps) \<and> p_name ` set ps \<inter> seen = {}"
proof (induction ps arbitrary: seen)
  case (Cons p ps)
  have "fle (p_min p) (p_max p) \<longleftrightarrow> \<not> flt (p_max p) (p_min p)"
    if "isFinite (p_min p)" "isFinite (p_max p)" using that by auto
  then show ?case using Cons by (auto simp: param_ok_def)
qed simp

text \<open>The loop over the claims compiles the trajectory of each of them.\<close>

definition compile_entry :: "channel list \<Rightarrow> action \<Rightarrow> string \<Rightarrow> trajectory option option \<Rightarrow> trajectory option option"
where
  "compile_entry chs a c e =
     (case (index_of ch_name chs c, e) of
        (Some ch, Some (Some tr)) \<Rightarrow> Some (Some (compiled (a_loops a) (ch_arity ch) tr))
      | _ \<Rightarrow> e)"

definition entry_ok :: "channel list \<Rightarrow> string \<Rightarrow> trajectory option option \<Rightarrow> bool" where
  "entry_ok chs c e \<longleftrightarrow> (\<exists>ch tr. index_of ch_name chs c = Some ch \<and> e = Some (Some tr)
     \<and> traj_src_ok (ch_arity ch) tr)"

lemma compileClaim_Inr:
  assumes "index_of ch_name chs c = Some ch"
  shows "compileClaim origin (index_of ch_name chs) a c m = Inr m' \<longleftrightarrow>
     entry_ok chs c (map_of m c)
     \<and> m' = AList.update c (the (compile_entry chs a c (map_of m c))) m"
  using assms
  by (auto simp: compileClaim_def entry_ok_def compile_entry_def compile_traj_Inr
      split: option.splits)

definition compile_all :: "channel list \<Rightarrow> action \<Rightarrow> string list \<Rightarrow> trajectory option gomap \<Rightarrow> trajectory option gomap"
where
  "compile_all chs a cs m =
     foldl (\<lambda>m c. AList.update c (the (compile_entry chs a c (map_of m c))) m) m cs"

lemma entry_update:
  "entry_ok chs c (map_of m c) \<Longrightarrow>
    map_of (AList.update c (the (compile_entry chs a c (map_of m c))) m)
    = (map_of m)(c := compile_entry chs a c (map_of m c))"
  by (auto simp: entry_ok_def compile_entry_def update_conv)

lemma compileClaims_Inr:
  assumes "set cs \<subseteq> dom (index_of ch_name chs)" "distinct cs"
  shows "foldr_res (compileClaim origin (index_of ch_name chs) a) cs m = Inr m' \<longleftrightarrow>
      (\<forall>c \<in> set cs. entry_ok chs c (map_of m c)) \<and> m' = compile_all chs a cs m"
  using assms
proof (induction cs arbitrary: m)
  case (Cons c cs)
  let ?m1 = "AList.update c (the (compile_entry chs a c (map_of m c))) m"
  obtain ch where ch: "index_of ch_name chs c = Some ch" using Cons.prems by auto
  have "entry_ok chs c (map_of m c) \<Longrightarrow> \<forall>d \<in> set cs. map_of ?m1 d = map_of m d"
    using Cons.prems entry_update by auto
  then show ?case
    using Cons.IH[of ?m1] Cons.prems compileClaim_Inr[OF ch, of origin a m]
    by (auto simp: compile_all_def)
qed (auto simp: compile_all_def)

lemma compile_all_lookup:
  assumes "\<forall>c \<in> set cs. entry_ok chs c (map_of m c)" "distinct cs"
  shows "map_of (compile_all chs a cs m)
      = (\<lambda>c. if c \<in> set cs then compile_entry chs a c (map_of m c) else map_of m c)"
  using assms
proof (induction cs arbitrary: m)
  case (Cons c cs)
  let ?m1 = "AList.update c (the (compile_entry chs a c (map_of m c))) m"
  have m1: "map_of ?m1 = (map_of m)(c := compile_entry chs a c (map_of m c))"
    using Cons.prems by (intro entry_update) simp
  then have "map_of (compile_all chs a cs ?m1)
      = (\<lambda>d. if d \<in> set cs then compile_entry chs a d (map_of ?m1 d) else map_of ?m1 d)"
    using Cons.prems by (intro Cons.IH) auto
  then show ?case using m1 Cons.prems(2) by (auto simp: compile_all_def fun_eq_iff)
qed (simp add: compile_all_def)

lemma compile_all_gomap: "gomap_ok m \<Longrightarrow> gomap_ok (compile_all chs a cs m)"
  by (induction cs arbitrary: m) (auto simp: compile_all_def gomap_ok_def distinct_update)

definition compiled_action :: "channel list \<Rightarrow> action \<Rightarrow> action" where
  "compiled_action chs a =
     a\<lparr>a_trajectories := compile_all chs a (a_claims a) (a_trajectories a)\<rparr>"

lemma dom_index_of: "dom (index_of k xs) = k ` set xs"
proof (rule set_eqI)
  show "n \<in> dom (index_of k xs) \<longleftrightarrow> n \<in> k ` set xs" for n
    using index_of_None[of k xs n] by (cases "index_of k xs n") auto
qed

lemma validateTrajectories_Inr:
  assumes "claims_ok chs a"
  shows "validateTrajectories origin (index_of ch_name chs) a = Inr a' \<longleftrightarrow>
    dom (map_of (a_trajectories a)) = set (a_claims a)
    \<and> (\<forall>c \<in> set (a_claims a). entry_ok chs c (map_of (a_trajectories a) c))
    \<and> a' = compiled_action chs a"
proof -
  let ?m = "a_trajectories a" and ?cs = "a_claims a"
  have cl: "set ?cs \<subseteq> dom (index_of ch_name chs)" "distinct ?cs"
    using assms by (auto simp: claims_ok_def dom_index_of)
  have "validateTrajectories origin (index_of ch_name chs) a = Inr a' \<longleftrightarrow>
      dom (map_of ?m) \<subseteq> set ?cs
      \<and> (\<forall>c \<in> set ?cs. entry_ok chs c (map_of ?m c)) \<and> a' = compiled_action chs a"
    using cl
    by (auto simp: validateTrajectories_def compileClaims_Inr[OF cl] compiled_action_def set_keys
        subset_iff domIff)
  moreover have "(\<forall>c \<in> set ?cs. entry_ok chs c (map_of ?m c)) \<Longrightarrow> set ?cs \<subseteq> dom (map_of ?m)"
    by (auto simp: entry_ok_def)
  ultimately show ?thesis by auto
qed

lemma entries_ok_channels:
  assumes "distinct (map ch_name chs)" "claims_ok chs a"
  shows "(\<forall>c \<in> set (a_claims a). entry_ok chs c (map_of (a_trajectories a) c)) \<longleftrightarrow>
    (\<forall>ch \<in> set chs. ch_name ch \<in> set (a_claims a) \<longrightarrow>
       (\<exists>tr. map_of (a_trajectories a) (ch_name ch) = Some (Some tr)
           \<and> traj_src_ok (ch_arity ch) tr))"
proof -
  have "entry_ok chs (ch_name ch) e \<longleftrightarrow> (\<exists>tr. e = Some (Some tr) \<and> traj_src_ok (ch_arity ch) tr)"
    if "ch \<in> set chs" for ch e
    using that index_of_Some[OF assms(1), of "ch_name ch" ch] by (auto simp: entry_ok_def)
  moreover have "set (a_claims a) \<subseteq> ch_name ` set chs" using assms(2) by (simp add: claims_ok_def)
  ultimately show ?thesis by (auto simp: subset_iff image_iff Ball_def)
qed

lemma validateAction_Inr:
  assumes "distinct (map ch_name chs)"
  shows "validateAction origin (index_of ch_name chs) a seen = Inr a' \<longleftrightarrow>
    action_src_ok chs a \<and> seen (a_name a) = None \<and> a' = compiled_action chs a"
proof (cases "claims_ok chs a")
  case True
  then show ?thesis
    by (auto simp: validateAction_def validateClaims_Inr validateActionParams_Inr
        validateTrajectories_Inr action_src_ok_def entries_ok_channels[OF assms] dom_index_of
        claims_ok_def)
next
  case False
  then show ?thesis
    by (auto simp: validateAction_def validateClaims_Inr action_src_ok_def claims_ok_def dom_index_of)
qed

lemma compiled_action_name [simp]: "a_name (compiled_action chs a) = a_name a"
  by (simp add: compiled_action_def)

lemma compiled_action_ok:
  assumes "distinct (map ch_name chs)" "action_src_ok chs a" "gomap_ok (a_trajectories a)"
  shows "action_ok chs (compiled_action chs a)"
proof -
  let ?m = "a_trajectories a" and ?cs = "a_claims a"
  have cl: "claims_ok chs a" using assms(2) by (simp add: action_src_ok_def)
  then have ent: "\<forall>c \<in> set ?cs. entry_ok chs c (map_of ?m c)"
    using assms(1,2) entries_ok_channels[OF assms(1)] by (simp add: action_src_ok_def)
  have look: "map_of (compile_all chs a ?cs ?m)
      = (\<lambda>c. if c \<in> set ?cs then compile_entry chs a c (map_of ?m c) else map_of ?m c)"
    using ent cl by (intro compile_all_lookup) (auto simp: claims_ok_def)
  have "dom (map_of (compile_all chs a ?cs ?m)) = set ?cs"
    using ent assms(2)
    by (auto simp: look action_src_ok_def entry_ok_def compile_entry_def split: if_splits)
  moreover have "\<exists>tr. map_of (compile_all chs a ?cs ?m) (ch_name ch) = Some (Some tr)
      \<and> traj_ok (a_loops a) (ch_arity ch) tr"
    if "ch \<in> set chs" "ch_name ch \<in> set ?cs" for ch
    using that ent assms(1) index_of_Some[OF assms(1), of "ch_name ch" ch]
    by (force simp: look entry_ok_def compile_entry_def compiled_ok)
  ultimately show ?thesis
    using assms(2) compile_all_gomap[OF assms(3)]
    by (auto simp: action_ok_def action_src_ok_def compiled_action_def claims_ok_def)
qed

lemma validateActions_Inr:
  assumes "distinct (map ch_name chs)"
  shows "validateActions origin (index_of ch_name chs) as = Inr m \<longleftrightarrow>
    list_all (action_src_ok chs) as \<and> distinct (map a_name as)
    \<and> m = index_of a_name (map (compiled_action chs) as)"
  unfolding validateActions_def
  by (subst index_fold[where ok = "action_src_ok chs" and val = "compiled_action chs"])
    (auto simp: validateAction_Inr[OF assms] list_all_iff index_of_map)

lemma parse_Inr:
  "parse cfg origin = Inr v \<longleftrightarrow> config_ok cfg \<and>
     (let acts = map (compiled_action (cfg_channels cfg)) (cfg_actions cfg) in
      v = \<lparr>v_origin = origin, v_channels = cfg_channels cfg, v_senses = cfg_senses cfg,
           v_actions = acts, channelByName = index_of ch_name (cfg_channels cfg),
           senseByName = index_of s_name (cfg_senses cfg), actionByName = index_of a_name acts\<rparr>)"
proof -
  let ?chs = "cfg_channels cfg"
  let ?acts = "map (compiled_action ?chs) (cfg_actions cfg)"
  have read_back: "map (\<lambda>a. the (index_of a_name ?acts (a_name a))) (cfg_actions cfg) = ?acts"
    if "distinct (map a_name (cfg_actions cfg))"
  proof -
    have "distinct (map a_name ?acts)" using that by (simp add: comp_def)
    then have "index_of a_name ?acts (a_name a) = Some (compiled_action ?chs a)"
      if "a \<in> set (cfg_actions cfg)" for a
      using that index_of_Some[of a_name ?acts "a_name a" "compiled_action ?chs a"] by auto
    then show ?thesis by simp
  qed
  show ?thesis
  proof (cases "channels_ok ?chs")
    case True
    then have "distinct (map ch_name ?chs)" by (simp add: channels_ok_def)
    then show ?thesis using True read_back
      by (auto simp: parse_def validateChannels_Inr validateSenses_Inr validateActions_Inr
          config_ok_def Let_def)
  next
    case False
    then show ?thesis by (auto simp: parse_def validateChannels_Inr config_ok_def)
  qed
qed

lemma parse_voc_wf:
  assumes "parse cfg origin = Inr v" "config_maps cfg"
  shows "voc_wf v"
  using assms
  by (auto simp: parse_Inr Let_def voc_wf_def config_ok_def config_maps_def channels_ok_def
      list_all_iff comp_def compiled_action_ok)

section \<open>Queries on a well-formed vocabulary\<close>

lemma foldl_updates:
  "foldl (\<lambda>out x. out(k x \<mapsto> f x)) m xs = m ++ map_of (rev (map (\<lambda>x. (k x, f x)) xs))"
  by (induction xs arbitrary: m) (auto simp: map_add_def fun_eq_iff split: option.splits)

lemma foldl_updates_distinct:
  assumes "distinct (map k xs)"
  shows "foldl (\<lambda>out x. out(k x \<mapsto> f x)) Map.empty xs = map_of (map (\<lambda>x. (k x, f x)) xs)"
proof -
  have "map_of (rev (map (\<lambda>x. (k x, f x)) xs)) = map_of (map (\<lambda>x. (k x, f x)) xs)"
    by (intro map_of_inject_set[THEN iffD2]) (auto simp: assms comp_def rev_map[symmetric])
  then show ?thesis by (simp add: foldl_updates)
qed

lemma map_of_key_map:
  "distinct (map k xs) \<Longrightarrow> x \<in> set xs \<Longrightarrow> map_of (map (\<lambda>x. (k x, f x)) xs) (k x) = Some (f x)"
  by (rule map_of_is_SomeI) (auto simp: comp_def)

lemma Neutral_channel:
  "channels_ok (v_channels v) \<Longrightarrow> ch \<in> set (v_channels v) \<Longrightarrow>
   Neutral v (ch_name ch) = Some (ch_neutral ch)"
  by (simp add: Neutral_def foldl_updates_distinct map_of_key_map channels_ok_def)

lemma dom_Neutral: "dom (Neutral v) = ch_name ` set (v_channels v)"
  by (auto simp: Neutral_def foldl_updates dom_map_of_conv_image_fst image_image)

lemma voc_action:
  "voc_wf v \<Longrightarrow> actionByName v n = Some a \<longleftrightarrow> a \<in> set (v_actions v) \<and> a_name a = n"
  by (simp add: voc_wf_def index_of_Some)

lemma voc_channels_ok: "voc_wf v \<Longrightarrow> channels_ok (v_channels v)"
  by (simp add: voc_wf_def)

lemma voc_action_ok:
  "voc_wf v \<Longrightarrow> actionByName v n = Some a \<Longrightarrow> action_ok (v_channels v) a"
  by (auto simp: voc_wf_def index_of_Some list_all_iff)

lemma HasField_iff: "voc_wf v \<Longrightarrow> HasField v n \<longleftrightarrow> n \<in> s_name ` set (v_senses v)"
  by (auto simp: HasField_def voc_wf_def index_of_None)

lemma HasAction_iff: "voc_wf v \<Longrightarrow> HasAction v n \<longleftrightarrow> n \<in> a_name ` set (v_actions v)"
  by (auto simp: HasAction_def voc_wf_def index_of_None)

lemma ActionLoops_HasAction: "ActionLoops v n \<Longrightarrow> HasAction v n"
  by (auto simp: ActionLoops_def HasAction_def split: option.splits)

lemma ActionParam_domain:
  assumes "voc_wf v" "ActionParam v an pn = Some (lo, hi)"
  shows "HasAction v an \<and> isFinite lo \<and> isFinite hi \<and> fle lo hi"
proof -
  obtain a p where a: "actionByName v an = Some a"
    and p: "List.find (\<lambda>p. p_name p = pn) (a_params a) = Some p" "lo = p_min p" "hi = p_max p"
    using assms(2) by (auto simp: ActionParam_def split: option.splits)
  have "p \<in> set (a_params a)" using p(1) by (auto simp: find_Some_iff)
  then have "param_ok p" using voc_action_ok[OF assms(1) a] by (auto simp: action_ok_def list_all_iff)
  then show ?thesis using a p by (auto simp: param_ok_def HasAction_def)
qed

lemma CheckReferences_Inr:
  "CheckReferences v fns ans = Inr u \<longleftrightarrow>
     (\<forall>n \<in> set fns. HasField v n) \<and> (\<forall>n \<in> set ans. HasAction v n)"
  by (auto simp: CheckReferences_def)

definition param_in_domain :: "vocabulary \<Rightarrow> string \<Rightarrow> string \<Rightarrow> f64 \<Rightarrow> bool" where
  "param_in_domain v an pn x \<longleftrightarrow>
     (case ActionParam v an pn of None \<Rightarrow> False
      | Some (lo, hi) \<Rightarrow> isFinite x \<and> fle lo x \<and> fle x hi)"

lemma checkParam_Inr:
  "voc_wf v \<Longrightarrow> checkParam v an kv = Inr u \<longleftrightarrow> param_in_domain v an (fst kv) (snd kv)"
proof (cases "ActionParam v an (fst kv)")
  case None
  then show ?thesis by (simp add: checkParam_def param_in_domain_def)
next
  case (Some d)
  assume wf: "voc_wf v"
  obtain lo hi where "ActionParam v an (fst kv) = Some (Fin lo, Fin hi)"
    using ActionParam_domain[OF wf] Some by (cases d) fastforce
  then show ?thesis
    by (cases "snd kv") (auto simp: checkParam_def param_in_domain_def isFinite_def is_nan_def is_inf_def)
qed

lemma ValidateParams_Inr:
  "voc_wf v \<Longrightarrow> ValidateParams v an ps = Inr u \<longleftrightarrow>
     HasAction v an \<and> (\<forall>(k, x) \<in> set ps. param_in_domain v an k x)"
  by (auto simp: ValidateParams_def HasAction_def checkParam_Inr)

section \<open>Samples of a compiled trajectory\<close>

lemma lerp_total:
  "length as \<le> length bs \<Longrightarrow> \<exists>vs. lerp as bs u = Some vs \<and> length vs = length as"
  by (induction as bs u rule: lerp.induct) auto

lemma scanKeyframes_total:
  assumes "\<forall>k \<in> set ks. length (kf_value k) = n" "length (kf_value final) = n"
  shows "\<exists>vs. scanKeyframes ks final t = Some vs \<and> length vs = n"
  using assms
proof (induction ks final t rule: scanKeyframes.induct)
  case (1 a b rest final t)
  then show ?case
    using lerp_total[of "kf_value a" "kf_value b"] by (auto simp: Let_def)
qed auto

lemma sampleEasing_total:
  assumes "easing_ok arity e"
  shows "\<exists>vs. sampleEasing cosf e t = Some vs \<and> int (length vs) = arity"
proof -
  have "length (ea_from e) \<le> length (ea_to e)" using assms by (simp add: easing_ok_def)
  then show ?thesis using assms lerp_total[of "ea_from e" "ea_to e"]
    by (auto simp: sampleEasing_def easing_ok_def Let_def)
qed

lemma sampleKeyframes_total:
  assumes "keyframes_ok arity (tr_keyframes tr)"
  shows "\<exists>vs. sampleKeyframes tr t = Some vs \<and> int (length vs) = arity"
proof -
  have ok: "tr_keyframes tr \<noteq> []" "\<forall>k \<in> set (tr_keyframes tr). int (length (kf_value k)) = arity"
    using assms by (auto simp: keyframes_ok_def list_all_iff keyframe_ok_def)
  then have "\<forall>k \<in> set (tr_keyframes tr). length (kf_value k) = nat arity" by auto
  then have scan: "\<exists>vs. scanKeyframes (tr_keyframes tr) (last (tr_keyframes tr)) t = Some vs
      \<and> length vs = nat arity"
    using ok(1) by (intro scanKeyframes_total) auto
  have "0 \<le> arity" using ok by (metis last_in_set of_nat_0_le_iff)
  then show ?thesis using ok scan
    by (cases "tr_keyframes tr") (auto simp: sampleKeyframes_def Let_def)
qed

lemma At_total:
  assumes "traj_ok loops arity tr"
  shows "\<exists>vs. At cosf tr t = Some vs \<and> int (length vs) = arity"
  using assms sampleEasing_total sampleKeyframes_total
  by (auto simp: traj_ok_def traj_src_ok_def At_def Let_def split: option.splits)

text \<open>The value a trajectory settles on.\<close>

definition traj_final :: "trajectory \<Rightarrow> f64 list" where
  "traj_final tr = (case tr_easing tr of Some e \<Rightarrow> ea_to e
                    | None \<Rightarrow> kf_value (last (tr_keyframes tr)))"

lemma traj_len_finite:
  assumes "traj_src_ok arity tr"
  obtains d where "traj_len tr = Fin d" "0 \<le> d"
proof (cases "tr_easing tr")
  case None
  then have "last (tr_keyframes tr) \<in> set (tr_keyframes tr)"
    "\<forall>k \<in> set (tr_keyframes tr). keyframe_ok arity k"
    using assms by (auto simp: traj_src_ok_def keyframes_ok_def list_all_iff)
  then show ?thesis using that None by (auto simp: traj_len_def keyframe_ok_def)
next
  case (Some e)
  then show ?thesis using assms that by (auto simp: traj_src_ok_def easing_ok_def traj_len_def)
qed

lemma At_past_end:
  assumes "traj_ok False arity tr" "fle (tr_duration tr) t"
  shows "At cosf tr t = Some (traj_final tr)"
proof -
  obtain d where d: "tr_duration tr = Fin d" "0 \<le> d"
    using assms(1) traj_len_finite by (metis traj_ok_def)
  have "\<not> tr_loops tr" using assms(1) by (simp add: traj_ok_def)
  then have "trajTime tr t = t"
    using assms(2) d by (cases t) (auto simp: trajTime_def Let_def is_nan_def)
  then show ?thesis using assms
    by (cases "tr_easing tr"; cases "tr_keyframes tr")
      (auto simp: At_def Let_def traj_ok_def traj_len_def traj_final_def sampleEasing_def
        sampleKeyframes_def traj_src_ok_def keyframes_ok_def)
qed

lemma rat_trunc_add:
  "0 < d \<Longrightarrow> 0 \<le> q \<Longrightarrow> rat_trunc ((q + of_nat k * d) / d) = rat_trunc (q / d) + int k"
proof -
  assume d: "0 < d" and q: "0 \<le> q"
  have "(q + of_nat k * d) / d = q / d + of_int (int k)" using d by (simp add: field_simps)
  then show ?thesis using d q by (simp add: rat_trunc_def)
qed

lemma math_Mod_period:
  "0 < d \<Longrightarrow> 0 \<le> q \<Longrightarrow> math_Mod (Fin (q + of_nat k * d)) (Fin d) = math_Mod (Fin q) (Fin d)"
  using rat_trunc_add[of d q k] by (simp add: algebra_simps)

lemma At_period:
  assumes "traj_ok True arity tr" "tr_duration tr = Fin d" "0 < d" "0 \<le> q"
  shows "At cosf tr (Fin (q + of_nat k * d)) = At cosf tr (Fin q)"
proof -
  have "tr_loops tr" using assms(1) by (simp add: traj_ok_def)
  then have "trajTime tr (Fin (q + of_nat k * d)) = trajTime tr (Fin q)"
    using assms(2-) math_Mod_period[of d q k]
    by (simp add: trajTime_def is_nan_def Let_def del: math_Mod.simps)
  then show ?thesis by (simp add: At_def)
qed

end
