(* ===== verification/Contention.thy ===== *)
theory Contention
  imports Adaptor
begin

text \<open>
  The contention core of \<open>internal/tick\<close>: behaviors and their binding to a vocabulary
  (\<open>behavior.go\<close>), and the pure functions that pick one owner per channel, decide what an
  admission evicts and compose a complete pose (\<open>arbitration.go\<close>).
\<close>

section \<open>Behaviors\<close>

text \<open>\<open>StopClass\<close> is a string in the code; \<open>ClassOther\<close> is any other string, empty included.\<close>

datatype stop_class =
  ClassPassive | ClassStoppable | ClassStopping | ClassUnstoppable | ClassOther string

fun Priority :: "stop_class \<Rightarrow> int" where
  "Priority ClassPassive = 0"
| "Priority ClassStoppable = 1"
| "Priority ClassStopping = 2"
| "Priority ClassUnstoppable = 3"
| "Priority (ClassOther _) = 0"

fun Valid :: "stop_class \<Rightarrow> bool" where
  "Valid (ClassOther _) = False"
| "Valid _ = True"

record lifetime =
  lt_duration :: "f64 option"
  lt_loops :: bool

definition IsExpired :: "lifetime \<Rightarrow> f64 \<Rightarrow> bool" where
  "IsExpired l tLocal = (case lt_duration l of None \<Rightarrow> False | Some d \<Rightarrow> fle d tLocal)"

text \<open>A nil slice under a channel is \<open>Some None\<close>: an abstention, like an absent channel.\<close>

type_synonym contribution = "string \<rightharpoonup> f64 list option"

record behavior =
  b_name :: string
  b_id :: string
  b_class :: stop_class
  b_channels :: "string list"
  b_lifetime :: lifetime
  b_action :: string
  b_params :: "f64 gomap"
  b_admitted_at :: instant
  b_trajectories :: "string \<rightharpoonup> trajectory"
  b_contribute :: "(f64 \<Rightarrow> contribution) option"

definition Claims :: "behavior \<Rightarrow> string \<Rightarrow> bool" where
  "Claims b c \<longleftrightarrow> c \<in> set (b_channels b)"

text \<open>\<open>Contribution\<close> samples each claimed channel; \<open>None\<close> is a panic inside a sample.\<close>

fun sampleChannels ::
  "(f64 \<Rightarrow> f64) \<Rightarrow> behavior \<Rightarrow> f64 \<Rightarrow> string list \<Rightarrow> contribution \<Rightarrow> contribution option" where
  "sampleChannels cosf b t [] out = Some out"
| "sampleChannels cosf b t (c # cs) out =
     (case b_contribute b of
        Some f \<Rightarrow> (case f t c of
            Some (Some vs) \<Rightarrow> sampleChannels cosf b t cs (out(c \<mapsto> Some vs))
          | _ \<Rightarrow> sampleChannels cosf b t cs out)
      | None \<Rightarrow> (case b_trajectories b c of
            Some tr \<Rightarrow> (case At cosf tr t of
                Some vs \<Rightarrow> sampleChannels cosf b t cs (out(c \<mapsto> Some vs))
              | None \<Rightarrow> None)
          | None \<Rightarrow> sampleChannels cosf b t cs out))"

definition Contribution :: "(f64 \<Rightarrow> f64) \<Rightarrow> behavior \<Rightarrow> f64 \<Rightarrow> contribution option" where
  "Contribution cosf b t = sampleChannels cosf b t (b_channels b) Map.empty"

section \<open>Binding a behavior to a vocabulary\<close>

datatype bind_error =
    BindNoVocabulary
  | BindBadClass string stop_class
  | BindNoAction string | BindNoName
  | BindUndeclaredAction string string
  | BindBadParams string adaptor_error
  | BindActionVanished string string
  | BindNoChannel string
  | BindUndeclaredChannel string string
  | BindChannelTwice string string
  | BindDurationNotFinite string f64
  | BindDurationNotPositive string f64
  | BindUnboundedOneShot string bool

definition bindAction ::
  "vocabulary \<Rightarrow> behavior \<Rightarrow> (bind_error, behavior \<times> action option) result" where
  "bindAction v b =
     (if b_action b = [] then
        rbind (guards [(b_contribute b = None, BindNoAction (b_name b)),
                       (b_name b = [], BindNoName)]) (\<lambda>_. Inr (b, None))
      else rbind (refuse_if (\<not> HasAction v (b_action b))
                   (BindUndeclaredAction (b_name b) (b_action b))) (\<lambda>_.
        let b' = (if b_name b = [] then b\<lparr>b_name := b_action b\<rparr> else b) in
        rbind (if b_params b' = [] then Inr ()
               else case ValidateParams v (b_action b') (b_params b') of
                 Inl e \<Rightarrow> Inl (BindBadParams (b_name b') e) | Inr _ \<Rightarrow> Inr ()) (\<lambda>_.
        case List.find (\<lambda>a. a_name a = b_action b') (v_actions v) of
          Some a \<Rightarrow> Inr (b', Some a)
        | None \<Rightarrow> Inl (BindActionVanished (b_name b') (b_action b')))))"

fun checkChannels ::
  "vocabulary \<Rightarrow> string \<Rightarrow> string set \<Rightarrow> string list \<Rightarrow> (bind_error, unit) result" where
  "checkChannels v n seen [] = Inr ()"
| "checkChannels v n seen (c # cs) =
     rbind (guards [(c \<notin> ch_name ` set (v_channels v), BindUndeclaredChannel n c),
                    (c \<in> seen, BindChannelTwice n c)])
       (\<lambda>_. checkChannels v n (insert c seen) cs)"

definition bindChannels ::
  "vocabulary \<Rightarrow> behavior \<Rightarrow> action option \<Rightarrow> (bind_error, behavior) result" where
  "bindChannels v b action =
     rbind (if b_channels b \<noteq> [] then Inr b
            else case action of None \<Rightarrow> Inl (BindNoChannel (b_name b))
                 | Some a \<Rightarrow> Inr (b\<lparr>b_channels := a_claims a\<rparr>)) (\<lambda>b'.
     rbind (checkChannels v (b_name b') {} (b_channels b')) (\<lambda>_.
     case action of None \<Rightarrow> Inr b'
     | Some a \<Rightarrow> Inr (b'\<lparr>b_trajectories :=
         (\<lambda>c. if c \<in> set (b_channels b')
              then (case map_of (a_trajectories a) c of Some (Some tr) \<Rightarrow> Some tr | _ \<Rightarrow> None)
              else None)\<rparr>)))"

definition bindLifetime :: "vocabulary \<Rightarrow> behavior \<Rightarrow> (bind_error, unit) result" where
  "bindLifetime v b =
     (case lt_duration (b_lifetime b) of
        Some d \<Rightarrow> guards [(is_nan d \<or> is_inf d, BindDurationNotFinite (b_name b) d),
                         (fle d (Fin 0), BindDurationNotPositive (b_name b) d)]
      | None \<Rightarrow> refuse_if (\<not> lt_loops (b_lifetime b))
          (BindUnboundedOneShot (b_name b) (b_action b \<noteq> [] \<and> ActionLoops v (b_action b))))"

text \<open>A nil vocabulary is \<open>None\<close>.\<close>

definition Bind :: "vocabulary option \<Rightarrow> behavior \<Rightarrow> (bind_error, behavior) result" where
  "Bind vo b =
     (case vo of None \<Rightarrow> Inl BindNoVocabulary
      | Some v \<Rightarrow>
        rbind (refuse_if (\<not> Valid (b_class b)) (BindBadClass (b_name b) (b_class b))) (\<lambda>_.
        rbind (bindAction v b) (\<lambda>(b1, action).
        rbind (bindChannels v b1 action) (\<lambda>b2.
        rbind (bindLifetime v b2) (\<lambda>_. Inr b2)))))"

section \<open>Arbitration, admission, composition\<close>

definition Unowned :: string where
  "Unowned = []"

text \<open>\<open>contribs\<close> is \<open>None\<close> for the nil map \<open>Admit\<close> passes: selection by claim alone.\<close>

definition abstains :: "(string \<rightharpoonup> contribution) option \<Rightarrow> string \<Rightarrow> behavior \<Rightarrow> bool" where
  "abstains contribs c b =
     (case contribs of None \<Rightarrow> False
      | Some m \<Rightarrow> (case m (b_id b) of None \<Rightarrow> True
          | Some con \<Rightarrow> (case con c of Some (Some vs) \<Rightarrow> False | _ \<Rightarrow> True)))"

fun pickOwner ::
  "(string \<rightharpoonup> contribution) option \<Rightarrow> string \<Rightarrow> behavior option \<Rightarrow> behavior list \<Rightarrow> behavior option"
where
  "pickOwner contribs c best [] = best"
| "pickOwner contribs c best (b # bs) =
     (if \<not> Claims b c \<or> abstains contribs c b then pickOwner contribs c best bs
      else case best of
          None \<Rightarrow> pickOwner contribs c (Some b) bs
        | Some w \<Rightarrow> if Priority (b_class w) \<le> Priority (b_class b)
            then pickOwner contribs c (Some b) bs else pickOwner contribs c best bs)"

definition ownerOf :: "(string \<rightharpoonup> contribution) option \<Rightarrow> behavior list \<Rightarrow> string \<Rightarrow> string" where
  "ownerOf contribs bs c =
     (case pickOwner contribs c None bs of None \<Rightarrow> Unowned | Some b \<Rightarrow> b_id b)"

definition Arbitrate ::
  "string list \<Rightarrow> behavior list \<Rightarrow> (string \<rightharpoonup> contribution) option \<Rightarrow> (string \<rightharpoonup> string)" where
  "Arbitrate channels bs contribs =
     foldl (\<lambda>owners c. owners(c \<mapsto> ownerOf contribs bs c)) Map.empty channels"

record admit_result =
  ar_evicted :: "string list"
  ar_blocked :: "string list"

definition sharesChannel :: "behavior \<Rightarrow> behavior \<Rightarrow> bool" where
  "sharesChannel a b \<longleftrightarrow> (\<exists>c \<in> set (b_channels a). Claims b c)"

text \<open>A missing owner reads as the empty string, Go's zero value.\<close>

definition Admit :: "string list \<Rightarrow> behavior \<Rightarrow> behavior list \<Rightarrow> admit_result" where
  "Admit channels new bs =
     (if b_class new = ClassPassive then \<lparr>ar_evicted = [], ar_blocked = []\<rparr>
      else let
        evicted = (if b_class new = ClassStopping
                   then map b_id (filter (\<lambda>b. b_class b = ClassStoppable \<and> sharesChannel b new) bs)
                   else []);
        prospective = filter (\<lambda>b. b_id b \<notin> set evicted) bs @ [new];
        owners = Arbitrate channels prospective None;
        blocked = filter (\<lambda>c. (case owners c of None \<Rightarrow> [] | Some o' \<Rightarrow> o') \<noteq> b_id new)
                    (b_channels new)
      in \<lparr>ar_evicted = evicted, ar_blocked = sort blocked\<rparr>)"

text \<open>
  \<open>Compose\<close> with the drops it reports: the channels whose owner returned a value of the
  wrong width.
\<close>

definition composeChannel ::
  "(string \<rightharpoonup> string) \<Rightarrow> (string \<rightharpoonup> contribution) \<Rightarrow> pose \<times> string list \<Rightarrow> channel \<Rightarrow> pose \<times> string list"
where
  "composeChannel ownership contribs acc ch =
     (let (p, drops) = acc;
          owner = (case ownership (ch_name ch) of None \<Rightarrow> [] | Some o' \<Rightarrow> o')
      in if owner = Unowned then (p, drops)
         else case contribs owner of None \<Rightarrow> (p, drops)
         | Some con \<Rightarrow> (case con (ch_name ch) of
             Some (Some vs) \<Rightarrow>
               if int (length vs) \<noteq> ch_arity ch then (p, drops @ [ch_name ch])
               else (p(ch_name ch \<mapsto> vs), drops)
           | _ \<Rightarrow> (p, drops)))"

definition Compose ::
  "vocabulary \<Rightarrow> (string \<rightharpoonup> string) \<Rightarrow> (string \<rightharpoonup> contribution) \<Rightarrow> pose \<times> string list" where
  "Compose v ownership contribs =
     foldl (composeChannel ownership contribs) (Neutral v, []) (v_channels v)"

section \<open>One owner per channel\<close>

definition eligible :: "(string \<rightharpoonup> contribution) option \<Rightarrow> string \<Rightarrow> behavior \<Rightarrow> bool" where
  "eligible contribs c b \<longleftrightarrow> Claims b c \<and> \<not> abstains contribs c b"

text \<open>
  The contract, apart from the loop that meets it: the owner is eligible, nothing eligible
  outranks it, and among its equals it is the last admitted.
\<close>

definition wins :: "(string \<rightharpoonup> contribution) option \<Rightarrow> behavior list \<Rightarrow> string \<Rightarrow> behavior \<Rightarrow> bool" where
  "wins contribs bs c w \<longleftrightarrow> (\<exists>older newer. bs = older @ w # newer \<and> eligible contribs c w
     \<and> (\<forall>b \<in> set older. eligible contribs c b \<longrightarrow> Priority (b_class b) \<le> Priority (b_class w))
     \<and> (\<forall>b \<in> set newer. eligible contribs c b \<longrightarrow> Priority (b_class b) < Priority (b_class w)))"

lemma pickOwner_Cons:
  "pickOwner contribs c best (b # bs) = pickOwner contribs c
     (if eligible contribs c b \<and>
         (case best of None \<Rightarrow> True | Some w \<Rightarrow> Priority (b_class w) \<le> Priority (b_class b))
      then Some b else best) bs"
  by (auto simp: eligible_def split: option.splits)

lemma pickOwner_append:
  "pickOwner contribs c best (xs @ ys) = pickOwner contribs c (pickOwner contribs c best xs) ys"
  by (induction xs arbitrary: best) (simp_all add: pickOwner_Cons del: pickOwner.simps(2))

lemma pickOwner_from:
  "pickOwner contribs c best bs = Some w \<Longrightarrow>
     best = Some w \<or> (w \<in> set bs \<and> eligible contribs c w)"
  by (induction bs arbitrary: best)
    (fastforce simp: pickOwner_Cons simp del: pickOwner.simps(2) split: if_splits)+

lemma pickOwner_keep:
  "\<forall>b \<in> set bs. eligible contribs c b \<longrightarrow> Priority (b_class b) < Priority (b_class w) \<Longrightarrow>
     pickOwner contribs c (Some w) bs = Some w"
  by (induction bs) (auto simp: pickOwner_Cons simp del: pickOwner.simps(2))

lemma pickOwner_None:
  "pickOwner contribs c best bs = None \<longleftrightarrow> best = None \<and> (\<forall>b \<in> set bs. \<not> eligible contribs c b)"
  by (induction bs arbitrary: best)
    (auto simp: pickOwner_Cons simp del: pickOwner.simps(2) split: option.splits)

lemma pickOwner_wins: "wins contribs bs c w \<Longrightarrow> pickOwner contribs c None bs = Some w"
proof -
  assume "wins contribs bs c w"
  then obtain older newer where bs: "bs = older @ w # newer" and el: "eligible contribs c w"
    and older: "\<forall>b \<in> set older. eligible contribs c b \<longrightarrow> Priority (b_class b) \<le> Priority (b_class w)"
    and newer: "\<forall>b \<in> set newer. eligible contribs c b \<longrightarrow> Priority (b_class b) < Priority (b_class w)"
    by (auto simp: wins_def)
  have "(case pickOwner contribs c None older of None \<Rightarrow> True
         | Some b \<Rightarrow> Priority (b_class b) \<le> Priority (b_class w))"
    using older pickOwner_from[of contribs c None older] by (auto split: option.splits)
  then show ?thesis
    using el newer by (simp add: bs pickOwner_append pickOwner_Cons pickOwner_keep del: pickOwner.simps(2))
qed

lemma wins_last:
  "eligible contribs c b \<Longrightarrow>
   \<forall>x \<in> set bs. eligible contribs c x \<longrightarrow> Priority (b_class x) \<le> Priority (b_class b) \<Longrightarrow>
   wins contribs (bs @ [b]) c b"
  unfolding wins_def by (rule exI[of _ bs], rule exI[of _ "[]"]) simp

lemma wins_exists:
  "(\<exists>b \<in> set bs. eligible contribs c b) \<Longrightarrow> \<exists>w. wins contribs bs c w"
proof (induction bs rule: rev_induct)
  case (snoc b bs)
  show ?case
  proof (cases "\<exists>x \<in> set bs. eligible contribs c x")
    case True
    then obtain w where w: "wins contribs bs c w" using snoc.IH by auto
    then obtain older newer where sp: "bs = older @ w # newer" "eligible contribs c w"
      "\<forall>x \<in> set older. eligible contribs c x \<longrightarrow> Priority (b_class x) \<le> Priority (b_class w)"
      "\<forall>x \<in> set newer. eligible contribs c x \<longrightarrow> Priority (b_class x) < Priority (b_class w)"
      by (auto simp: wins_def)
    show ?thesis
    proof (cases "eligible contribs c b \<and> Priority (b_class w) \<le> Priority (b_class b)")
      case True
      then have "\<forall>x \<in> set bs. eligible contribs c x \<longrightarrow> Priority (b_class x) \<le> Priority (b_class b)"
        using sp by fastforce
      then show ?thesis using True wins_last by blast
    next
      case False
      then have "wins contribs (bs @ [b]) c w" unfolding wins_def
        using sp by (intro exI[of _ older] exI[of _ "newer @ [b]"]) auto
      then show ?thesis ..
    qed
  next
    case False
    then have "wins contribs (bs @ [b]) c b" using snoc.prems by (intro wins_last) auto
    then show ?thesis ..
  qed
qed simp

lemma pickOwner_iff: "pickOwner contribs c None bs = Some w \<longleftrightarrow> wins contribs bs c w"
proof
  assume w: "pickOwner contribs c None bs = Some w"
  then have "\<exists>b \<in> set bs. eligible contribs c b" using pickOwner_from by fastforce
  then obtain w' where "wins contribs bs c w'" using wins_exists by blast
  then show "wins contribs bs c w" using w pickOwner_wins by fastforce
qed (rule pickOwner_wins)

lemma foldl_fun_upd:
  "foldl (\<lambda>m c. m(c \<mapsto> f c)) m cs x = (if x \<in> set cs then Some (f x) else m x)"
  by (induction cs arbitrary: m) auto

lemma Arbitrate_lookup:
  "Arbitrate channels bs contribs c = (if c \<in> set channels then Some (ownerOf contribs bs c) else None)"
  by (simp add: Arbitrate_def foldl_fun_upd)

lemma wins_member: "wins contribs bs c w \<Longrightarrow> w \<in> set bs \<and> Claims w c \<and> \<not> abstains contribs c w"
  by (auto simp: wins_def eligible_def)

lemma ownerOf_cases:
  obtains (unowned) "ownerOf contribs bs c = Unowned" "\<forall>b \<in> set bs. \<not> eligible contribs c b"
  | (owned) w where "wins contribs bs c w" "ownerOf contribs bs c = b_id w"
  using pickOwner_iff[of contribs c bs] pickOwner_None[of contribs c None bs]
  by (cases "pickOwner contribs c None bs") (auto simp: ownerOf_def)

lemma ownerOf_wins: "wins contribs bs c w \<Longrightarrow> ownerOf contribs bs c = b_id w"
  by (simp add: ownerOf_def pickOwner_iff[THEN iffD2])

lemma ownerOf_unowned: "\<forall>b \<in> set bs. \<not> eligible contribs c b \<Longrightarrow> ownerOf contribs bs c = Unowned"
  by (simp add: ownerOf_def pickOwner_None[THEN iffD2])

section \<open>Admission\<close>

lemma Admit_evicted:
  "set (ar_evicted (Admit channels new bs)) =
     (if b_class new = ClassStopping
      then b_id ` {b \<in> set bs. b_class b = ClassStoppable \<and> sharesChannel b new} else {})"
  by (auto simp: Admit_def Let_def)

lemma Admit_evicted_class:
  assumes "distinct (map b_id bs)" "b \<in> set bs" "b_id b \<in> set (ar_evicted (Admit channels new bs))"
  shows "b_class new = ClassStopping \<and> b_class b = ClassStoppable \<and> sharesChannel b new"
proof -
  obtain b' where "b' \<in> set bs" "b_id b' = b_id b" "b_class new = ClassStopping"
    "b_class b' = ClassStoppable" "sharesChannel b' new"
    using assms(3) by (auto simp: Admit_evicted split: if_splits)
  moreover then have "b' = b" using assms distinct_map_inj by metis
  ultimately show ?thesis by simp
qed

lemma abstains_None [simp]: "\<not> abstains None c b"
  by (simp add: abstains_def)

text \<open>The newcomer waits for a channel exactly when a surviving incumbent outranks it there.\<close>

lemma newcomer_owns:
  assumes "Claims new c" "\<forall>b \<in> set bs. b_id b \<noteq> b_id new"
  shows "ownerOf None (bs @ [new]) c = b_id new \<longleftrightarrow>
     (\<forall>b \<in> set bs. Claims b c \<longrightarrow> Priority (b_class b) \<le> Priority (b_class new))"
proof
  assume all: "\<forall>b \<in> set bs. Claims b c \<longrightarrow> Priority (b_class b) \<le> Priority (b_class new)"
  then have "wins None (bs @ [new]) c new"
    using assms(1) by (intro wins_last) (auto simp: eligible_def)
  then show "ownerOf None (bs @ [new]) c = b_id new" by (rule ownerOf_wins)
next
  assume own: "ownerOf None (bs @ [new]) c = b_id new"
  have "\<exists>w. wins None (bs @ [new]) c w" using assms(1) by (intro wins_exists) (auto simp: eligible_def)
  then obtain w where w: "wins None (bs @ [new]) c w" ..
  then have "b_id w = b_id new" using own ownerOf_wins by metis
  then have "w = new" using wins_member[OF w] assms(2) by auto
  then obtain older newer where sp: "bs @ [new] = older @ new # newer"
    "\<forall>b \<in> set older. eligible None c b \<longrightarrow> Priority (b_class b) \<le> Priority (b_class new)"
    using w by (auto simp: wins_def)
  have "new \<notin> set bs" using assms(2) by auto
  then have "newer = []"
    using sp(1) by (metis append_eq_append_conv2 append_is_Nil_conv butlast.simps(2)
        butlast_append butlast_snoc in_set_conv_decomp list.distinct(1))
  then have "bs = older" using sp(1) by simp
  then show "\<forall>b \<in> set bs. Claims b c \<longrightarrow> Priority (b_class b) \<le> Priority (b_class new)"
    using sp(2) by (simp add: eligible_def)
qed

definition survivors :: "string list \<Rightarrow> behavior \<Rightarrow> behavior list \<Rightarrow> behavior list" where
  "survivors channels new bs = filter (\<lambda>b. b_id b \<notin> set (ar_evicted (Admit channels new bs))) bs"

lemma survivors_alt:
  assumes "distinct (map b_id bs)"
  shows "survivors channels new bs =
    filter (\<lambda>b. \<not> (b_class new = ClassStopping \<and> b_class b = ClassStoppable \<and> sharesChannel b new)) bs"
proof -
  have "b_id b \<in> set (ar_evicted (Admit channels new bs)) \<longleftrightarrow>
      b_class new = ClassStopping \<and> b_class b = ClassStoppable \<and> sharesChannel b new"
    if b: "b \<in> set bs" for b
  proof
    assume "b_id b \<in> set (ar_evicted (Admit channels new bs))"
    then show "b_class new = ClassStopping \<and> b_class b = ClassStoppable \<and> sharesChannel b new"
      by (rule Admit_evicted_class[OF assms b])
  next
    assume "b_class new = ClassStopping \<and> b_class b = ClassStoppable \<and> sharesChannel b new"
    then show "b_id b \<in> set (ar_evicted (Admit channels new bs))"
      using b unfolding Admit_evicted by simp
  qed
  then show ?thesis unfolding survivors_def by (intro filter_cong) auto
qed

lemma Admit_blocked:
  assumes "b_class new \<noteq> ClassPassive" "b_id new \<noteq> Unowned" "\<forall>b \<in> set bs. b_id b \<noteq> b_id new"
    "set (b_channels new) \<subseteq> set channels"
  shows "set (ar_blocked (Admit channels new bs)) =
    {c \<in> set (b_channels new). \<exists>b \<in> set (survivors channels new bs).
       Claims b c \<and> Priority (b_class new) < Priority (b_class b)}"
proof -
  let ?sv = "survivors channels new bs"
  have ne: "\<forall>b \<in> set ?sv. b_id b \<noteq> b_id new" using assms(3) by (simp add: survivors_def)
  have "ownerOf None (?sv @ [new]) c \<noteq> b_id new \<longleftrightarrow>
      (\<exists>b \<in> set ?sv. Claims b c \<and> Priority (b_class new) < Priority (b_class b))"
    if "c \<in> set (b_channels new)" for c
    using that newcomer_owns[of new c ?sv] ne by (auto simp: Claims_def not_le)
  moreover have "set (ar_blocked (Admit channels new bs)) =
      {c \<in> set (b_channels new). ownerOf None (?sv @ [new]) c \<noteq> b_id new}"
    using assms(1,4) by (auto simp: Admit_def Let_def Arbitrate_lookup survivors_def)
  ultimately show ?thesis by auto
qed

section \<open>What binding guarantees\<close>

definition lifetime_ok :: "lifetime \<Rightarrow> bool" where
  "lifetime_ok l \<longleftrightarrow> (case lt_duration l of None \<Rightarrow> lt_loops l
     | Some d \<Rightarrow> isFinite d \<and> flt (Fin 0) d)"

text \<open>
  A behavior the engine may run: a declared class, at least one channel, each declared and
  listed once, a lifetime that can end or was asked to loop, parameters inside the declared
  domain, and trajectories of the width of the channel they drive.
\<close>

definition behavior_ok :: "vocabulary \<Rightarrow> behavior \<Rightarrow> bool" where
  "behavior_ok v b \<longleftrightarrow> Valid (b_class b) \<and> b_name b \<noteq> [] \<and> b_channels b \<noteq> []
     \<and> distinct (b_channels b) \<and> set (b_channels b) \<subseteq> ch_name ` set (v_channels v)
     \<and> lifetime_ok (b_lifetime b)
     \<and> (b_action b = [] \<longrightarrow> b_contribute b \<noteq> None)
     \<and> (b_action b \<noteq> [] \<longrightarrow> HasAction v (b_action b)
          \<and> (\<forall>(k, x) \<in> set (b_params b). param_in_domain v (b_action b) k x))
     \<and> (b_contribute b = None \<longrightarrow> (\<forall>ch \<in> set (v_channels v). ch_name ch \<in> set (b_channels b) \<longrightarrow>
          (\<forall>tr. b_trajectories b (ch_name ch) = Some tr \<longrightarrow>
             (\<exists>loops. traj_ok loops (ch_arity ch) tr))))"

lemma checkChannels_Inr:
  "checkChannels v n seen cs = Inr u \<longleftrightarrow>
     set cs \<subseteq> ch_name ` set (v_channels v) \<and> distinct cs \<and> set cs \<inter> seen = {}"
  by (induction cs arbitrary: seen) auto

lemma bindLifetime_Inr: "bindLifetime v b = Inr u \<longleftrightarrow> lifetime_ok (b_lifetime b)"
proof (cases "lt_duration (b_lifetime b)")
  case (Some d)
  then show ?thesis by (cases d) (auto simp: bindLifetime_def lifetime_ok_def is_nan_def is_inf_def)
qed (simp add: bindLifetime_def lifetime_ok_def)

lemma bindAction_Inr:
  assumes "voc_wf v" "bindAction v b = Inr (b', act)"
  shows "b_name b' \<noteq> [] \<and> (\<exists>n. b' = b\<lparr>b_name := n\<rparr>) \<and>
    (case act of None \<Rightarrow> b_action b = [] \<and> b_contribute b \<noteq> None
     | Some a \<Rightarrow> b_action b \<noteq> [] \<and> HasAction v (b_action b) \<and> a \<in> set (v_actions v)
         \<and> a_name a = b_action b
         \<and> (\<forall>(k, x) \<in> set (b_params b). param_in_domain v (b_action b) k x))"
proof (cases "b_action b = []")
  case True
  have "\<exists>n. b = b\<lparr>b_name := n\<rparr>" by (rule exI[of _ "b_name b"]) simp
  then show ?thesis using True assms(2) by (auto simp: bindAction_def)
next
  case False
  let ?b = "if b_name b = [] then b\<lparr>b_name := b_action b\<rparr> else b"
  obtain a where act: "List.find (\<lambda>a. a_name a = b_action b) (v_actions v) = Some a" "act = Some a"
    using assms(2) False
    by (cases "List.find (\<lambda>a. a_name a = b_action b) (v_actions v)")
      (auto simp: bindAction_def Let_def split: if_splits)
  have b': "b' = ?b" and has: "HasAction v (b_action b)"
    and ps: "b_params b = [] \<or> (\<exists>u. ValidateParams v (b_action b) (b_params b) = Inr u)"
    using assms(2) False
    by (auto simp: bindAction_def Let_def split: option.splits if_splits sum.splits)
  have "?b = b\<lparr>b_name := if b_name b = [] then b_action b else b_name b\<rparr>" by simp
  then have "\<exists>n. b' = b\<lparr>b_name := n\<rparr>" using b' by blast
  moreover have "b_name b' \<noteq> []" using b' False by simp
  moreover have "\<forall>(k, x) \<in> set (b_params b). param_in_domain v (b_action b) k x"
    using ps ValidateParams_Inr[OF assms(1)] by fastforce
  ultimately show ?thesis using act has False by (auto simp: find_Some_iff split: option.splits)
qed

lemma action_trajectory:
  assumes "action_ok chs a" "ch \<in> set chs" "ch_name ch \<in> set (a_claims a)"
  obtains tr where "map_of (a_trajectories a) (ch_name ch) = Some (Some tr)"
    "traj_ok (a_loops a) (ch_arity ch) tr"
  using assms by (auto simp: action_ok_def)

lemma action_trajectory_claimed:
  "action_ok chs a \<Longrightarrow> map_of (a_trajectories a) c = Some e \<Longrightarrow> c \<in> set (a_claims a)"
  by (auto simp: action_ok_def)

lemma Bind_ok:
  assumes "voc_wf v" "Bind (Some v) b = Inr b'"
  shows "behavior_ok v b'"
proof -
  obtain b1 act where cl: "Valid (b_class b)" and b1: "bindAction v b = Inr (b1, act)"
    and b2: "bindChannels v b1 act = Inr b'" and lt: "lifetime_ok (b_lifetime b')"
    using assms(2) by (auto simp: Bind_def bindLifetime_Inr)
  note A = bindAction_Inr[OF assms(1) b1]
  then obtain n where n1: "b1 = b\<lparr>b_name := n\<rparr>" by blast
  moreover have "b_name b1 \<noteq> []" using A by blast
  ultimately have n: "b1 = b\<lparr>b_name := n\<rparr>" "n \<noteq> []" by simp_all
  have frame: "b_class b' = b_class b" "b_name b' = n" "b_lifetime b' = b_lifetime b"
    "b_action b' = b_action b" "b_params b' = b_params b" "b_contribute b' = b_contribute b"
    using b2 n by (auto simp: bindChannels_def split: option.splits if_splits)
  have chans: "b_channels b' \<noteq> []" "distinct (b_channels b')"
    "set (b_channels b') \<subseteq> ch_name ` set (v_channels v)"
  proof -
    have "a_claims a \<noteq> []" if "act = Some a" for a
      using A that assms(1) by (auto simp: voc_wf_def list_all_iff action_ok_def claims_ok_def)
    then show "b_channels b' \<noteq> []" "distinct (b_channels b')"
      "set (b_channels b') \<subseteq> ch_name ` set (v_channels v)"
      using b2 by (auto simp: bindChannels_def checkChannels_Inr split: option.splits if_splits)
  qed
  have traj: "\<exists>loops. traj_ok loops (ch_arity ch) tr"
    if nc: "b_contribute b' = None" and ch: "ch \<in> set (v_channels v)"
      and tr: "b_trajectories b' (ch_name ch) = Some tr" for ch tr
  proof -
    obtain a where a: "act = Some a" "a \<in> set (v_actions v)"
      using A nc frame by (cases act) auto
    then have ok: "action_ok (v_channels v) a" using assms(1) by (simp add: voc_wf_def list_all_iff)
    have e: "map_of (a_trajectories a) (ch_name ch) = Some (Some tr)"
      using b2 a(1) tr
      by (auto simp: bindChannels_def split: option.splits if_splits)
    then show ?thesis
      using action_trajectory[OF ok ch action_trajectory_claimed[OF ok e]] by auto
  qed
  show ?thesis
    unfolding behavior_ok_def using cl frame n chans lt traj A by (cases act) auto
qed

lemma bindAction_id: "bindAction v b = Inr (b', act) \<Longrightarrow> b_id b' = b_id b"
  by (auto simp: bindAction_def Let_def split: option.splits if_splits sum.splits)

lemma bindChannels_id: "bindChannels v b act = Inr b' \<Longrightarrow> b_id b' = b_id b"
  by (auto simp: bindChannels_def split: option.splits if_splits)

lemma Bind_id: "Bind vo b = Inr b' \<Longrightarrow> b_id b' = b_id b"
  using bindAction_id bindChannels_id by (fastforce simp: Bind_def split: option.splits)

section \<open>Contributions of a bound behavior\<close>

text \<open>What a run over the channels \<open>cs\<close> may add to \<open>out\<close>.\<close>

definition sampled :: "(f64 \<Rightarrow> f64) \<Rightarrow> behavior \<Rightarrow> f64 \<Rightarrow> string list \<Rightarrow> contribution \<Rightarrow> contribution \<Rightarrow> bool"
where
  "sampled cosf b t cs out con \<longleftrightarrow> (\<forall>c e. con c = Some e \<longrightarrow> out c = Some e \<or> c \<in> set cs \<and> e \<noteq> None
     \<and> (b_contribute b = None \<longrightarrow> (\<exists>tr. b_trajectories b c = Some tr \<and> e = At cosf tr t)))"

lemma sampled_skip: "sampled cosf b t cs out con \<Longrightarrow> sampled cosf b t (c # cs) out con"
  by (fastforce simp: sampled_def)

lemma sampled_put:
  assumes "sampled cosf b t cs (out(c \<mapsto> Some vs)) con"
    "b_contribute b = None \<Longrightarrow> \<exists>tr. b_trajectories b c = Some tr \<and> At cosf tr t = Some vs"
  shows "sampled cosf b t (c # cs) out con"
  unfolding sampled_def
proof (intro allI impI)
  fix d e assume "con d = Some e"
  then consider "(out(c \<mapsto> Some vs)) d = Some e" | "d \<in> set cs \<and> e \<noteq> None
     \<and> (b_contribute b = None \<longrightarrow> (\<exists>tr. b_trajectories b d = Some tr \<and> e = At cosf tr t))"
    using assms(1) unfolding sampled_def by blast
  then show "out d = Some e \<or> d \<in> set (c # cs) \<and> e \<noteq> None
     \<and> (b_contribute b = None \<longrightarrow> (\<exists>tr. b_trajectories b d = Some tr \<and> e = At cosf tr t))"
  proof cases
    case 1
    then show ?thesis using assms(2) by (cases "d = c") auto
  qed auto
qed

lemma sampleChannels_total:
  assumes "b_contribute b = None \<Longrightarrow> \<forall>c \<in> set cs. \<forall>tr. b_trajectories b c = Some tr \<longrightarrow>
      (\<exists>vs. At cosf tr t = Some vs)"
  shows "\<exists>con. sampleChannels cosf b t cs out = Some con \<and> sampled cosf b t cs out con"
  using assms
proof (induction cs arbitrary: out)
  case Nil
  then show ?case by (simp add: sampled_def)
next
  case (Cons c cs)
  have IH: "\<exists>con. sampleChannels cosf b t cs out' = Some con \<and> sampled cosf b t cs out' con" for out'
    using Cons.prems by (intro Cons.IH) auto
  consider (put) vs where "sampleChannels cosf b t (c # cs) out = sampleChannels cosf b t cs (out(c \<mapsto> Some vs))"
      "b_contribute b = None \<Longrightarrow> \<exists>tr. b_trajectories b c = Some tr \<and> At cosf tr t = Some vs"
    | (skip) "sampleChannels cosf b t (c # cs) out = sampleChannels cosf b t cs out"
  proof (cases "b_contribute b")
    case None
    show ?thesis
    proof (cases "b_trajectories b c")
      case (Some tr)
      then obtain vs where "At cosf tr t = Some vs" using Cons.prems None by auto
      then show ?thesis using None Some by (intro put) auto
    qed (use None in \<open>intro skip, simp\<close>)
  next
    case (Some f)
    show ?thesis
    proof (cases "\<exists>vs. f t c = Some (Some vs)")
      case True
      then show ?thesis using Some by (auto intro: put)
    next
      case False
      then show ?thesis using Some by (intro skip) (auto split: option.splits)
    qed
  qed
  then show ?case
  proof cases
    case put
    obtain con where con: "sampleChannels cosf b t cs (out(c \<mapsto> Some vs)) = Some con"
      "sampled cosf b t cs (out(c \<mapsto> Some vs)) con" using IH by blast
    from con(2) put(2) have "sampled cosf b t (c # cs) out con" by (rule sampled_put)
    then show ?thesis using con(1) put(1) by simp
  next
    case skip
    then show ?thesis using IH[of out] sampled_skip by fastforce
  qed
qed

definition contribution_ok :: "vocabulary \<Rightarrow> behavior \<Rightarrow> contribution \<Rightarrow> bool" where
  "contribution_ok v b con \<longleftrightarrow> dom con \<subseteq> set (b_channels b) \<and> None \<notin> ran con
     \<and> (b_contribute b = None \<longrightarrow> (\<forall>ch \<in> set (v_channels v). \<forall>vs.
          con (ch_name ch) = Some (Some vs) \<longrightarrow> int (length vs) = ch_arity ch))"

lemma Contribution_total:
  assumes "behavior_ok v b"
  obtains con where "Contribution cosf b t = Some con" "contribution_ok v b con"
proof -
  have width: "\<exists>vs. At cosf tr t = Some vs \<and> int (length vs) = ch_arity ch"
    if "b_contribute b = None" "ch \<in> set (v_channels v)" "ch_name ch \<in> set (b_channels b)"
      "b_trajectories b (ch_name ch) = Some tr" for ch tr
    using that assms At_total unfolding behavior_ok_def by metis
  have "\<forall>c \<in> set (b_channels b). \<forall>tr. b_trajectories b c = Some tr \<longrightarrow> (\<exists>vs. At cosf tr t = Some vs)"
    if nc: "b_contribute b = None"
  proof (intro ballI allI impI)
    fix c tr assume c: "c \<in> set (b_channels b)" and tr: "b_trajectories b c = Some tr"
    obtain ch where "ch \<in> set (v_channels v)" "ch_name ch = c"
      using assms c by (auto simp: behavior_ok_def)
    then show "\<exists>vs. At cosf tr t = Some vs" using width[OF nc] c tr by metis
  qed
  then obtain con where con: "Contribution cosf b t = Some con"
    and sp: "\<forall>c e. con c = Some e \<longrightarrow> c \<in> set (b_channels b) \<and> e \<noteq> None \<and>
       (b_contribute b = None \<longrightarrow> (\<exists>tr. b_trajectories b c = Some tr \<and> e = At cosf tr t))"
    using sampleChannels_total[of b "b_channels b" cosf t Map.empty]
    by (auto simp: Contribution_def sampled_def)
  have "contribution_ok v b con"
    unfolding contribution_ok_def
  proof (intro conjI impI ballI allI)
    show "dom con \<subseteq> set (b_channels b)" "None \<notin> ran con" using sp by (auto simp: ran_def)
  next
    fix ch vs assume "b_contribute b = None" "ch \<in> set (v_channels v)" "con (ch_name ch) = Some (Some vs)"
    moreover then obtain tr where "b_trajectories b (ch_name ch) = Some tr" "Some vs = At cosf tr t"
      "ch_name ch \<in> set (b_channels b)" using sp by blast
    ultimately show "int (length vs) = ch_arity ch" using width by force
  qed
  with con show ?thesis by (rule that)
qed

section \<open>Composition is complete\<close>

text \<open>The value a channel is composed to.\<close>

definition offered :: "(string \<rightharpoonup> string) \<Rightarrow> (string \<rightharpoonup> contribution) \<Rightarrow> string \<Rightarrow> f64 list option" where
  "offered ownership contribs c =
     (case ownership c of None \<Rightarrow> None
      | Some owner \<Rightarrow> if owner = Unowned then None
          else case contribs owner of None \<Rightarrow> None
            | Some con \<Rightarrow> (case con c of Some (Some vs) \<Rightarrow> Some vs | _ \<Rightarrow> None))"

lemma composeChannel_alt:
  "composeChannel ownership contribs (p, drops) ch =
     (case offered ownership contribs (ch_name ch) of None \<Rightarrow> (p, drops)
      | Some vs \<Rightarrow> if int (length vs) = ch_arity ch then (p(ch_name ch \<mapsto> vs), drops)
          else (p, drops @ [ch_name ch]))"
  by (auto simp: composeChannel_def offered_def Unowned_def Let_def split: option.splits)

definition composed :: "(string \<rightharpoonup> string) \<Rightarrow> (string \<rightharpoonup> contribution) \<Rightarrow> channel \<Rightarrow> f64 list" where
  "composed ownership contribs ch =
     (case offered ownership contribs (ch_name ch) of
        Some vs \<Rightarrow> if int (length vs) = ch_arity ch then vs else ch_neutral ch
      | None \<Rightarrow> ch_neutral ch)"

lemma compose_fold:
  assumes "distinct (map ch_name chs)" "\<forall>ch \<in> set chs. p (ch_name ch) = Some (ch_neutral ch)"
  shows "fst (foldl (composeChannel ownership contribs) (p, drops) chs) =
     p ++ map_of (map (\<lambda>ch. (ch_name ch, composed ownership contribs ch)) chs)"
  using assms
proof (induction chs arbitrary: p drops)
  case (Cons ch chs)
  obtain p' d' where step: "composeChannel ownership contribs (p, drops) ch = (p', d')" by fastforce
  have p': "p' = p(ch_name ch \<mapsto> composed ownership contribs ch)"
    using step Cons.prems by (auto simp: composeChannel_alt composed_def split: option.splits if_splits)
  have nin: "ch_name ch \<notin> ch_name ` set chs" using Cons.prems(1) by auto
  then have "\<forall>c \<in> set chs. ch_name c \<noteq> ch_name ch" by (metis imageI)
  then have "\<forall>c \<in> set chs. p' (ch_name c) = Some (ch_neutral c)"
    using Cons.prems(2) by (simp add: p')
  then have "fst (foldl (composeChannel ownership contribs) (p', d') chs) =
      p' ++ map_of (map (\<lambda>ch. (ch_name ch, composed ownership contribs ch)) chs)"
    using Cons.prems(1) by (intro Cons.IH) auto
  moreover have "map_of (map (\<lambda>ch. (ch_name ch, composed ownership contribs ch)) chs) (ch_name ch) = None"
    using nin by (simp add: map_of_eq_None_iff image_image)
  ultimately show ?case using step p'
    by (auto simp: map_add_def fun_eq_iff split: option.splits)
qed simp

lemma Compose_value:
  assumes "channels_ok (v_channels v)" "ch \<in> set (v_channels v)"
  shows "fst (Compose v ownership contribs) (ch_name ch) = Some (composed ownership contribs ch)"
  using assms
  by (simp add: Compose_def compose_fold Neutral_channel channels_ok_def map_of_key_map map_add_def)

lemma Compose_dom:
  assumes "channels_ok (v_channels v)"
  shows "dom (fst (Compose v ownership contribs)) = ch_name ` set (v_channels v)"
  using assms
  by (simp add: Compose_def compose_fold Neutral_channel channels_ok_def dom_Neutral
      dom_map_of_conv_image_fst image_image)

text \<open>A complete pose: every declared channel and nothing else, each at its arity.\<close>

definition pose_complete :: "vocabulary \<Rightarrow> pose \<Rightarrow> bool" where
  "pose_complete v p \<longleftrightarrow> dom p = ch_name ` set (v_channels v)
     \<and> (\<forall>ch \<in> set (v_channels v). \<exists>vs. p (ch_name ch) = Some vs \<and> int (length vs) = ch_arity ch)"

lemma composed_length: "channel_ok ch \<Longrightarrow> int (length (composed ownership contribs ch)) = ch_arity ch"
  by (auto simp: composed_def channel_ok_def split: option.splits)

lemma Compose_complete: "channels_ok (v_channels v) \<Longrightarrow> pose_complete v (fst (Compose v o' cs))"
  by (auto simp: pose_complete_def Compose_dom Compose_value channels_ok_def list_all_iff
      composed_length)

lemma Neutral_complete: "channels_ok (v_channels v) \<Longrightarrow> pose_complete v (Neutral v)"
  by (auto simp: pose_complete_def dom_Neutral Neutral_channel channels_ok_def list_all_iff
      channel_ok_def)

end
