(* ===== verification/GoStrings.thy ===== *)
theory GoStrings
  imports Prelude "HOL-Library.Sublist"
begin

text \<open>
  What the code uses of Go's \<open>strings\<close> and \<open>unicode/utf8\<close>: cutting at the first
  occurrence of a separator, and the runes of a byte string, with an invalid byte read as
  the replacement rune of width one, as \<open>utf8.DecodeRuneInString\<close> does.
\<close>

section \<open>Cutting\<close>

text \<open>
  \<open>cut sep s\<close> is \<open>s[:i]\<close> and \<open>s[i+len(sep):]\<close> for \<open>i = strings.Index(s, sep)\<close>;
  \<open>None\<close> where \<open>Index\<close> is negative.
\<close>

fun cut :: "string \<Rightarrow> string \<Rightarrow> (string \<times> string) option" where
  "cut sep [] = (if sep = [] then Some ([], []) else None)"
| "cut sep (c # cs) =
     (if prefix sep (c # cs) then Some ([], drop (length sep) (c # cs))
      else map_option (\<lambda>(a, b). (c # a, b)) (cut sep cs))"

lemma cut_first:
  assumes "s \<notin> set a"
  shows "cut (s # sep) (a @ s # sep @ b) = Some (a, b)"
  using assms by (induction a) auto

lemma cut_none: "s \<notin> set a \<Longrightarrow> cut (s # sep) a = None"
  by (induction a) auto

lemma cut_split: "cut sep s = Some (a, b) \<Longrightarrow> s = a @ sep @ b"
  by (induction sep s arbitrary: a rule: cut.induct)
    (auto simp: prefix_def split: if_splits)

section \<open>Runes\<close>

definition cont_byte :: "nat \<Rightarrow> bool" where
  "cont_byte b \<longleftrightarrow> 128 \<le> b \<and> b \<le> 191"

definition rune_error :: nat where
  "rune_error = 65533"

text \<open>The first rune of a non-empty byte list and its width.\<close>

definition decode_rune :: "nat list \<Rightarrow> nat \<times> nat" where
  "decode_rune bs = (case bs of
     [] \<Rightarrow> (rune_error, 0)
   | b0 # t0 \<Rightarrow>
      if b0 < 128 then (b0, 1)
      else case t0 of [] \<Rightarrow> (rune_error, 1)
      | b1 # t1 \<Rightarrow>
        if 194 \<le> b0 \<and> b0 \<le> 223 \<and> cont_byte b1 then ((b0 - 192) * 64 + (b1 - 128), 2)
        else case t1 of [] \<Rightarrow> (rune_error, 1)
        | b2 # t2 \<Rightarrow>
          if 224 \<le> b0 \<and> b0 \<le> 239 \<and> cont_byte b1 \<and> cont_byte b2
             \<and> (b0 = 224 \<longrightarrow> 160 \<le> b1) \<and> (b0 = 237 \<longrightarrow> b1 \<le> 159)
          then ((b0 - 224) * 4096 + (b1 - 128) * 64 + (b2 - 128), 3)
          else case t2 of [] \<Rightarrow> (rune_error, 1)
          | b3 # t3 \<Rightarrow>
            if 240 \<le> b0 \<and> b0 \<le> 244 \<and> cont_byte b1 \<and> cont_byte b2 \<and> cont_byte b3
               \<and> (b0 = 240 \<longrightarrow> 144 \<le> b1) \<and> (b0 = 244 \<longrightarrow> b1 \<le> 143)
            then ((b0 - 240) * 262144 + (b1 - 128) * 4096 + (b2 - 128) * 64 + (b3 - 128), 4)
            else (rune_error, 1))"

definition byte_of :: "char \<Rightarrow> nat" where
  "byte_of c = of_char c"

definition rune_at :: "string \<Rightarrow> nat \<times> nat" where
  "rune_at s = decode_rune (map byte_of (take 4 s))"

text \<open>The runes of a string, each with the bytes that spell it.\<close>

function runes :: "string \<Rightarrow> (nat \<times> string) list" where
  "runes [] = []"
| "runes (c # cs) =
     (let (r, w) = rune_at (c # cs)
      in (r, c # take (w - 1) cs) # runes (drop (w - 1) cs))"
  by pat_completeness auto
termination
  by (relation "measure length") auto

declare runes.simps(2) [simp del]

definition RuneCount :: "string \<Rightarrow> nat" where
  "RuneCount s = length (runes s)"

lemma runes_concat: "concat (map snd (runes s)) = s"
  by (induction s rule: runes.induct) (auto simp: runes.simps(2) split: prod.splits)

lemma byte_of_less: "byte_of c < 256"
  by (simp add: byte_of_def)

lemma decode_rune_low:
  "decode_rune (b0 # bs) = (r, w) \<Longrightarrow> r < 128 \<Longrightarrow> r = b0 \<and> b0 < 128 \<and> w = 1"
  by (auto simp: decode_rune_def rune_error_def cont_byte_def split: if_splits list.splits)

lemma decode_rune_ascii: "b0 < 128 \<Longrightarrow> decode_rune (b0 # bs) = (b0, 1)"
  by (simp add: decode_rune_def)

lemma decode_rune_high:
  "decode_rune (b0 # bs) = (r, w) \<Longrightarrow> 128 \<le> r \<Longrightarrow> 128 \<le> b0 \<and> (\<forall>b \<in> set (take (w - 1) bs). 128 \<le> b)"
  by (auto simp: decode_rune_def rune_error_def cont_byte_def split: if_splits list.splits)

lemma runes_low:
  "(r, bs) \<in> set (runes s) \<Longrightarrow> r < 128 \<Longrightarrow> \<exists>c \<in> set s. byte_of c = r \<and> bs = [c]"
proof (induction s rule: runes.induct)
  case (2 c cs)
  obtain r' w where rw: "rune_at (c # cs) = (r', w)" by fastforce
  show ?case
  proof (cases "(r, bs) \<in> set (runes (drop (w - 1) cs))")
    case True
    then show ?thesis using "2.IH"[OF rw[symmetric]] "2.prems"(2) rw
      by (auto dest: in_set_dropD)
  next
    case False
    then have "r' = r" "bs = c # take (w - 1) cs"
      using "2.prems"(1) rw by (auto simp: runes.simps(2))
    moreover then have "r = byte_of c" "w = 1"
      using rw "2.prems"(2) decode_rune_low[of "byte_of c" "map byte_of (take 3 cs)" r w]
      by (auto simp: rune_at_def)
    ultimately show ?thesis by simp
  qed
qed simp

lemma runes_high:
  "(r, bs) \<in> set (runes s) \<Longrightarrow> 128 \<le> r \<Longrightarrow> \<forall>c \<in> set bs. 128 \<le> byte_of c"
proof (induction s rule: runes.induct)
  case (2 c cs)
  obtain r' w where rw: "rune_at (c # cs) = (r', w)" by fastforce
  show ?case
  proof (cases "(r, bs) \<in> set (runes (drop (w - 1) cs))")
    case True
    then show ?thesis using "2.IH"[OF rw[symmetric]] "2.prems"(2) rw by auto
  next
    case False
    then have e: "r' = r" "bs = c # take (w - 1) cs"
      using "2.prems"(1) rw by (auto simp: runes.simps(2))
    then have d: "decode_rune (byte_of c # map byte_of (take 3 cs)) = (r, w)"
      using rw by (simp add: rune_at_def)
    have "w \<le> 4" using d by (auto simp: decode_rune_def split: if_splits list.splits)
    then have "take (w - 1) (map byte_of (take 3 cs)) = map byte_of (take (w - 1) cs)"
      by (simp add: take_map min_def)
    then show ?thesis using decode_rune_high[OF d "2.prems"(2)] e by auto
  qed
qed simp

lemma ascii_rune: "c \<in> set s \<Longrightarrow> byte_of c < 128 \<Longrightarrow> \<exists>(r, bs) \<in> set (runes s). r = byte_of c"
proof -
  assume c: "c \<in> set s" "byte_of c < 128"
  then have "c \<in> set (concat (map snd (runes s)))" by (simp add: runes_concat)
  then obtain r bs where rb: "(r, bs) \<in> set (runes s)" "c \<in> set bs" by auto
  then have "r < 128" using runes_high[OF rb(1)] c(2) by (auto simp: not_le[symmetric])
  then have "r = byte_of c" using runes_low[OF rb(1)] rb(2) by auto
  then show ?thesis using rb by auto
qed

section \<open>White space\<close>

text \<open>\<open>unicode.IsSpace\<close>, and \<open>strings.TrimSpace(s) == ""\<close>.\<close>

definition is_space :: "nat \<Rightarrow> bool" where
  "is_space r \<longleftrightarrow> r \<in> {9, 10, 11, 12, 13, 32, 133, 160, 5760, 8232, 8233, 8239, 8287, 12288}
     \<or> (8192 \<le> r \<and> r \<le> 8202)"

definition blank :: "string \<Rightarrow> bool" where
  "blank s \<longleftrightarrow> list_all (\<lambda>(r, _). is_space r) (runes s)"

lemma blank_Nil [simp]: "blank []"
  by (simp add: blank_def)

lemma not_blankI:
  assumes "c \<in> set s" "byte_of c < 128" "\<not> is_space (byte_of c)"
  shows "\<not> blank s"
proof -
  obtain r bs where "(r, bs) \<in> set (runes s)" "r = byte_of c" using ascii_rune[OF assms(1,2)] by blast
  then show ?thesis using assms(3) by (auto simp: blank_def list_all_iff)
qed

text \<open>A string that starts with a lower-case letter is not blank.\<close>

lemma not_blank_letter: "96 < byte_of c \<Longrightarrow> byte_of c < 123 \<Longrightarrow> \<not> blank (c # s)"
  by (rule not_blankI[of c]) (auto simp: is_space_def)

end
