(* ===== verification/Senselog.thy ===== *)
theory Senselog
  imports GoStrings
begin

text \<open>
  The one-line log grammar of \<open>internal/senselog\<close>: writing a line (\<open>senselog.go\<close>), parsing
  it back (\<open>parse.go\<close>), and the gated-episode tracker that turns a run of suppressed ticks
  into an entry line, one line per change of reason and one summary (\<open>streak.go\<close>).
\<close>

section \<open>Writing a line\<close>

definition replaceChar :: "char \<Rightarrow> string \<Rightarrow> string" where
  "replaceChar x s = map (\<lambda>c. if c = x then CHR ''_'' else c) s"

definition sanitize :: "string \<Rightarrow> string" where
  "sanitize value = replaceChar (CHR '']'') (replaceChar (CHR '' '') value)"

definition isControl :: "nat \<Rightarrow> bool" where
  "isControl r \<longleftrightarrow> r < 32 \<or> r = 127"

definition hasControl :: "string \<Rightarrow> bool" where
  "hasControl s \<longleftrightarrow> (\<exists>p \<in> set (runes s). isControl (fst p))"

text \<open>\<open>strings.Map\<close> writes the replacement rune where a byte decodes to no rune.\<close>

definition replacement :: string where
  "replacement = [CHR 0xEF, CHR 0xBF, CHR 0xBD]"

definition sanitizeRune :: "nat \<times> string \<Rightarrow> string" where
  "sanitizeRune p = (if isControl (fst p) then ''_''
     else if fst p = rune_error \<and> length (snd p) = 1 then replacement else snd p)"

definition sanitizeDetail :: "string \<Rightarrow> string" where
  "sanitizeDetail detail =
     (if \<not> hasControl detail then detail else concat (map sanitizeRune (runes detail)))"

definition log_prefix :: string where
  "log_prefix = ''[SENSE stage=''"

definition sourceMark :: string where
  "sourceMark = '' source=''"

definition eventMark :: string where
  "eventMark = '' event=''"

definition closeMark :: string where
  "closeMark = ''] ''"

definition dropPrefix :: string where
  "dropPrefix = ''dropped reason=''"

definition newline :: char where
  "newline = CHR 0x0A"

definition log_write :: "string \<Rightarrow> string \<Rightarrow> string \<Rightarrow> string \<Rightarrow> string" where
  "log_write stage source event detail =
     log_prefix @ sanitize stage @ sourceMark @ sanitize source @ eventMark @ sanitize event
     @ closeMark @ sanitizeDetail detail @ [newline]"

definition log_Stage :: "string \<Rightarrow> string \<Rightarrow> string \<Rightarrow> string \<Rightarrow> string" where
  "log_Stage stage source event detail = log_write stage source event detail"

definition log_Drop :: "string \<Rightarrow> string \<Rightarrow> string \<Rightarrow> string \<Rightarrow> string \<Rightarrow> string" where
  "log_Drop stage source event reason detail =
     (let msg = dropPrefix @ sanitize reason;
          msg' = (if detail \<noteq> [] then msg @ '' '' @ detail else msg)
      in log_write stage source event msg')"

section \<open>Parsing it back\<close>

record log_line =
  ll_stage :: string
  ll_source :: string
  ll_event :: string
  ll_dropped :: bool
  ll_reason :: string
  ll_detail :: string

datatype parse_error =
  ControlCharacter | BadPrefix | MissingSource | MissingEvent | MissingClose | EmptyField

definition trimNewlines :: "string \<Rightarrow> string" where
  "trimNewlines s = rev (dropWhile (\<lambda>c. c = newline) (rev s))"

definition parseDetail :: "string \<Rightarrow> string \<Rightarrow> string \<Rightarrow> string \<Rightarrow> log_line" where
  "parseDetail stage source event detail =
     (if prefix dropPrefix detail then
        (let remainder = drop (length dropPrefix) detail in
         case cut '' '' remainder of
           Some (reason, rest) \<Rightarrow> \<lparr>ll_stage = stage, ll_source = source, ll_event = event,
             ll_dropped = True, ll_reason = reason, ll_detail = rest\<rparr>
         | None \<Rightarrow> \<lparr>ll_stage = stage, ll_source = source, ll_event = event,
             ll_dropped = True, ll_reason = remainder, ll_detail = []\<rparr>)
      else \<lparr>ll_stage = stage, ll_source = source, ll_event = event,
             ll_dropped = False, ll_reason = [], ll_detail = detail\<rparr>)"

definition log_Parse :: "string \<Rightarrow> (parse_error, log_line) result" where
  "log_Parse line0 =
     (let line = trimNewlines line0 in
      if hasControl line then Inl ControlCharacter
      else if \<not> prefix log_prefix line then Inl BadPrefix
      else case cut sourceMark (drop (length log_prefix) line) of
        None \<Rightarrow> Inl MissingSource
      | Some (stage, r1) \<Rightarrow> (case cut eventMark r1 of
          None \<Rightarrow> Inl MissingEvent
        | Some (source, r2) \<Rightarrow> (case cut closeMark r2 of
            None \<Rightarrow> Inl MissingClose
          | Some (event, detail) \<Rightarrow>
              if stage = [] \<or> source = [] \<or> event = [] then Inl EmptyField
              else Inr (parseDetail stage source event detail))))"

section \<open>Episodes\<close>

text \<open>
  A \<open>Streak\<close> over reasons of any type: the entry and reason-change lines carry one reason,
  the summary carries every reason seen and the number of ticks.
\<close>

datatype 'r streak_line = SDrop 'r | SSummary "'r list" nat

record 'r streak =
  st_open :: bool
  st_reason :: "'r option"
  st_reasons :: "'r list"
  st_ticks :: nat

definition NewStreak :: "'r streak" where
  "NewStreak = \<lparr>st_open = False, st_reason = None, st_reasons = [], st_ticks = 0\<rparr>"

definition streak_Enter :: "'r \<Rightarrow> 'r streak \<Rightarrow> 'r streak \<times> 'r streak_line list" where
  "streak_Enter reason s0 =
     (let s = s0\<lparr>st_ticks := Suc (st_ticks s0)\<rparr> in
      if \<not> st_open s then
        (s\<lparr>st_open := True, st_reason := Some reason, st_reasons := st_reasons s @ [reason]\<rparr>,
         [SDrop reason])
      else if st_reason s = Some reason then (s, [])
      else (s\<lparr>st_reason := Some reason,
              st_reasons := (if reason \<in> set (st_reasons s) then st_reasons s
                             else st_reasons s @ [reason])\<rparr>,
            [SDrop reason]))"

definition streak_End :: "'r streak \<Rightarrow> 'r streak \<times> 'r streak_line list" where
  "streak_End s =
     (if \<not> st_open s then (s, [])
      else (NewStreak, [SSummary (st_reasons s) (st_ticks s)]))"

text \<open>\<open>Fire\<close> ends the streak; its own line comes after what this returns.\<close>

definition streak_Fire :: "'r streak \<Rightarrow> 'r streak \<times> 'r streak_line list" where
  "streak_Fire s = streak_End s"

fun streak_run :: "'r list \<Rightarrow> 'r streak \<Rightarrow> 'r streak \<times> 'r streak_line list" where
  "streak_run [] s = (s, [])"
| "streak_run (r # rs) s =
     (let (s1, l1) = streak_Enter r s; (s2, l2) = streak_run rs s1 in (s2, l1 @ l2))"

section \<open>The grammar is read back as it was written\<close>

lemma sanitize_map:
  "sanitize s = map (\<lambda>c. if c = CHR '' '' \<or> c = CHR '']'' then CHR ''_'' else c) s"
  by (simp add: sanitize_def replaceChar_def)

lemma sanitize_clean: "CHR '' '' \<notin> set (sanitize s)" "CHR '']'' \<notin> set (sanitize s)"
  by (auto simp: sanitize_map split: if_splits)

lemma sanitize_Nil [simp]: "sanitize s = [] \<longleftrightarrow> s = []"
  by (simp add: sanitize_map)

definition controlFree :: "string \<Rightarrow> bool" where
  "controlFree s \<longleftrightarrow> (\<forall>c \<in> set s. \<not> isControl (byte_of c))"

lemma hasControl_iff: "hasControl s \<longleftrightarrow> \<not> controlFree s"
proof
  assume "hasControl s"
  then obtain r bs where rb: "(r, bs) \<in> set (runes s)" "isControl r"
    by (auto simp: hasControl_def)
  then have "r < 128" by (auto simp: isControl_def)
  then show "\<not> controlFree s"
    using runes_low[OF rb(1)] rb(2) by (auto simp: controlFree_def)
next
  assume "\<not> controlFree s"
  then obtain c where c: "c \<in> set s" "isControl (byte_of c)" by (auto simp: controlFree_def)
  then have "byte_of c < 128" by (auto simp: isControl_def)
  then obtain b where "(byte_of c, b) \<in> set (runes s)" using ascii_rune[OF c(1)] by auto
  then show "hasControl s" using c(2) unfolding hasControl_def by force
qed

lemma controlFree_simps [simp]:
  "controlFree []" "controlFree (c # s) \<longleftrightarrow> \<not> isControl (byte_of c) \<and> controlFree s"
  "controlFree (s @ t) \<longleftrightarrow> controlFree s \<and> controlFree t"
  by (auto simp: controlFree_def)

lemma controlFree_sanitize: "controlFree s \<Longrightarrow> controlFree (sanitize s)"
  by (auto simp: controlFree_def sanitize_map isControl_def byte_of_def)

lemma sanitize_controlFree: "controlFree (sanitize s) \<Longrightarrow> controlFree s"
  by (auto simp: controlFree_def sanitize_map isControl_def byte_of_def split: if_splits)

lemma controlFree_marks:
  "controlFree log_prefix" "controlFree sourceMark" "controlFree eventMark"
  "controlFree closeMark" "controlFree dropPrefix"
  by (simp_all add: log_prefix_def sourceMark_def eventMark_def closeMark_def dropPrefix_def
      isControl_def byte_of_def)

lemma controlFree_sanitizeDetail: "controlFree (sanitizeDetail d)"
proof (cases "hasControl d")
  case True
  have "controlFree (sanitizeRune p)" if "p \<in> set (runes d)" for p
  proof -
    obtain r bs where p: "p = (r, bs)" by fastforce
    consider "isControl r" | "\<not> isControl r" "r < 128" | "128 \<le> r" by linarith
    then show ?thesis
    proof cases
      case 2
      then show ?thesis using runes_low[of r bs d] that p
        by (auto simp: sanitizeRune_def rune_error_def)
    next
      case 3
      then have "\<forall>c \<in> set bs. 128 \<le> byte_of c" using runes_high[of r bs d] that p by auto
      then have "controlFree bs" by (force simp: controlFree_def isControl_def)
      then show ?thesis using p by (simp add: sanitizeRune_def replacement_def isControl_def byte_of_def)
    qed (simp add: p sanitizeRune_def isControl_def byte_of_def)
  qed
  then show ?thesis using True
    by (auto simp: sanitizeDetail_def controlFree_def)
qed (simp add: sanitizeDetail_def hasControl_iff)

lemma sanitizeDetail_id: "controlFree d \<Longrightarrow> sanitizeDetail d = d"
  by (simp add: sanitizeDetail_def hasControl_iff)

lemma newline_control: "isControl (byte_of newline)"
  by (simp add: newline_def isControl_def byte_of_def)

lemma trimNewlines_one: "controlFree s \<Longrightarrow> trimNewlines (s @ [newline]) = s"
proof -
  assume cf: "controlFree s"
  then have "newline \<notin> set s" using newline_control by (auto simp: controlFree_def)
  then have "dropWhile (\<lambda>c. c = newline) (rev s) = rev s"
    by (cases "rev s") (auto simp: rev_swap)
  then show ?thesis by (simp add: trimNewlines_def)
qed

text \<open>Cutting a written line apart.\<close>

lemma log_Parse_body:
  assumes "controlFree stage" "controlFree source" "controlFree event"
    "stage \<noteq> []" "source \<noteq> []" "event \<noteq> []"
  shows "log_Parse (log_write stage source event detail) =
    Inr (parseDetail (sanitize stage) (sanitize source) (sanitize event) (sanitizeDetail detail))"
proof -
  let ?d = "sanitizeDetail detail"
  let ?r2 = "sanitize event @ closeMark @ ?d"
  let ?r1 = "sanitize source @ eventMark @ ?r2"
  let ?line = "log_prefix @ sanitize stage @ sourceMark @ ?r1"
  have w: "log_write stage source event detail = ?line @ [newline]" by (simp add: log_write_def)
  have cf: "controlFree ?line"
    using assms controlFree_marks by (simp add: controlFree_sanitize controlFree_sanitizeDetail)
  have c1: "cut sourceMark (sanitize stage @ sourceMark @ ?r1) = Some (sanitize stage, ?r1)"
    unfolding sourceMark_def
    using cut_first[OF sanitize_clean(1)[of stage], of "''source=''" ?r1] by simp
  have c2: "cut eventMark ?r1 = Some (sanitize source, ?r2)"
    unfolding eventMark_def
    using cut_first[OF sanitize_clean(1)[of source], of "''event=''" ?r2] by simp
  have c3: "cut closeMark ?r2 = Some (sanitize event, ?d)"
    unfolding closeMark_def
    using cut_first[OF sanitize_clean(2)[of event], of "'' ''" ?d] by simp
  show ?thesis
    unfolding w log_Parse_def Let_def trimNewlines_one[OF cf]
    using cf assms(4-) c1 c2 c3 by (simp add: hasControl_iff)
qed

lemma log_Drop_round_trip:
  assumes "controlFree stage" "controlFree source" "controlFree event"
    "stage \<noteq> []" "source \<noteq> []" "event \<noteq> []" "controlFree reason" "controlFree detail"
  shows "log_Parse (log_Drop stage source event reason detail) =
    Inr \<lparr>ll_stage = sanitize stage, ll_source = sanitize source, ll_event = sanitize event,
         ll_dropped = True, ll_reason = sanitize reason, ll_detail = detail\<rparr>"
proof -
  let ?msg = "dropPrefix @ sanitize reason @ (if detail = [] then [] else '' '' @ detail)"
  have "controlFree ?msg"
    using assms controlFree_marks by (simp add: controlFree_sanitize isControl_def byte_of_def)
  then have d: "sanitizeDetail ?msg = ?msg" by (rule sanitizeDetail_id)
  have "log_Drop stage source event reason detail = log_write stage source event ?msg"
    by (simp add: log_Drop_def Let_def)
  moreover have "cut '' '' (sanitize reason @ '' '' @ detail) = Some (sanitize reason, detail)"
    using cut_first[OF sanitize_clean(1)[of reason], of "[]" detail] by simp
  moreover have "cut '' '' (sanitize reason) = None"
    using cut_none[OF sanitize_clean(1)] by simp
  ultimately show ?thesis
    using log_Parse_body[OF assms(1-6), of ?msg] by (simp add: d parseDetail_def Let_def)
qed

lemma log_Stage_round_trip:
  assumes "controlFree stage" "controlFree source" "controlFree event"
    "stage \<noteq> []" "source \<noteq> []" "event \<noteq> []" "\<not> prefix dropPrefix (sanitizeDetail detail)"
  shows "log_Parse (log_Stage stage source event detail) =
    Inr \<lparr>ll_stage = sanitize stage, ll_source = sanitize source, ll_event = sanitize event,
         ll_dropped = False, ll_reason = [], ll_detail = sanitizeDetail detail\<rparr>"
  using log_Parse_body[OF assms(1-6), of detail] assms(7)
  by (simp add: log_Stage_def parseDetail_def)

text \<open>
  A control character in a keyed field is not removed by \<open>sanitize\<close>: the line that carries
  it is refused by the reader.
\<close>

lemma log_write_control_refused:
  assumes "\<not> controlFree event"
  shows "log_Parse (log_write stage source event detail) = Inl ControlCharacter"
proof -
  let ?body = "log_prefix @ sanitize stage @ sourceMark @ sanitize source @ eventMark"
  let ?rest = "sanitize event @ CHR '']'' # CHR '' '' # sanitizeDetail detail"
  have nn: "newline \<noteq> CHR '' ''" "newline \<noteq> CHR '']''" by (simp_all add: newline_def)
  have "newline \<notin> set (sanitizeDetail detail)"
    using controlFree_sanitizeDetail newline_control by (auto simp: controlFree_def)
  then have "dropWhile (\<lambda>c. c = newline) (rev (sanitizeDetail detail) @ xs @ ys) =
      rev (sanitizeDetail detail) @ xs @ ys" if "xs = [CHR '' '']" for xs ys
    using nn that by (cases "rev (sanitizeDetail detail)") (auto simp: rev_swap)
  from this[of "[CHR '' '']" "rev (?body @ sanitize event @ [CHR '']''])"]
  have "trimNewlines (log_write stage source event detail) = ?body @ ?rest"
    by (simp add: trimNewlines_def log_write_def closeMark_def)
  moreover have "\<not> controlFree (?body @ ?rest)"
    using assms sanitize_controlFree by auto
  ultimately show ?thesis by (simp add: log_Parse_def hasControl_iff)
qed

section \<open>One line per transition\<close>

text \<open>The reasons in the order they were first seen.\<close>

definition first_seen :: "'a list \<Rightarrow> 'a list" where
  "first_seen xs = rev (remdups (rev xs))"

lemma first_seen_snoc:
  "first_seen (xs @ [x]) = (if x \<in> set xs then first_seen xs else first_seen xs @ [x])"
  by (simp add: first_seen_def)

lemma set_first_seen [simp]: "set (first_seen xs) = set xs"
  by (simp add: first_seen_def)

definition streak_at :: "'r list \<Rightarrow> 'r streak" where
  "streak_at rs = (if rs = [] then NewStreak
     else \<lparr>st_open = True, st_reason = Some (last rs), st_reasons = first_seen rs,
           st_ticks = length rs\<rparr>)"

lemma streak_Enter_at:
  "streak_Enter r (streak_at rs) = (streak_at (rs @ [r]),
     if rs \<noteq> [] \<and> last rs = r then [] else [SDrop r])"
proof (cases "rs = []")
  case True
  then show ?thesis by (simp add: streak_Enter_def streak_at_def NewStreak_def first_seen_def)
next
  case False
  then have "last rs = r \<Longrightarrow> r \<in> set rs" using last_in_set by metis
  then show ?thesis using False by (auto simp: streak_Enter_def streak_at_def first_seen_snoc)
qed

lemma remdups_adj_snoc':
  "remdups_adj (xs @ [x]) = (if xs \<noteq> [] \<and> last xs = x then remdups_adj xs else remdups_adj xs @ [x])"
  by (induction xs rule: remdups_adj.induct) auto

lemma streak_run_at:
  "streak_run ns (streak_at rs) = (s', ls) \<Longrightarrow>
     s' = streak_at (rs @ ns) \<and> map SDrop (remdups_adj rs) @ ls = map SDrop (remdups_adj (rs @ ns))"
proof (induction ns arbitrary: rs ls)
  case (Cons n ns)
  obtain l2 where l2: "streak_run ns (streak_at (rs @ [n])) = (s', l2)"
    and ls: "ls = (if rs \<noteq> [] \<and> last rs = n then [] else [SDrop n]) @ l2"
    using Cons.prems by (auto simp: streak_Enter_at split: prod.splits if_splits)
  show ?case using Cons.IH[OF l2] ls by (auto simp: remdups_adj_snoc')
qed auto

lemma streak_episode:
  assumes "rs \<noteq> []"
  shows "(let (s1, l1) = streak_run rs NewStreak; (s2, l2) = streak_End s1 in (s2, l1 @ l2))
    = (NewStreak, map SDrop (remdups_adj rs) @ [SSummary (first_seen rs) (length rs)])"
proof -
  obtain s1 l1 where run: "streak_run rs NewStreak = (s1, l1)" by fastforce
  then have "streak_run rs (streak_at []) = (s1, l1)" by (simp add: streak_at_def)
  from streak_run_at[OF this] have "s1 = streak_at rs" "l1 = map SDrop (remdups_adj rs)" by auto
  then show ?thesis using run assms by (simp add: streak_at_def streak_End_def)
qed

end
