(* ===== verification/Engine.thy ===== *)
theory Engine
  imports Contention Senselog
begin

text \<open>
  The tick engine, \<open>internal/tick/engine.go\<close> and \<open>droplog.go\<close>: the active set, the bounded
  inbox, one tick, the run loop, and the calls a tick seam may make.

  The world around the engine is part of its state. \<open>e_clock k\<close> is what the \<open>k\<close>-th reading of
  the injected clock returns and \<open>e_sink k\<close> the outcome of the \<open>k\<close>-th write, \<open>None\<close> for a
  success; \<open>e_written\<close> is what the sink was handed. \<open>e_log\<close> is the SENSE log without its
  free-text details. A consumer registered by \<open>OnEvent\<close> maps an event to \<open>None\<close> when it returns
  and to a text when it panics. The counters are unbounded.
\<close>

section \<open>State\<close>

datatype log_entry =
    LDrop string string string
  | LInboxFull nat
  | LNote string string
  | LOverrun "string streak_line"

datatype 's command = AdmitCmd behavior | EvictCmd string | SetSeamCmd "'s option" | UnknownCmd

record active_behavior =
  ab_behavior :: behavior
  ab_isBase :: bool

record engine_config =
  ec_period :: duration
  ec_baseLayer :: bool
  ec_baseAction :: string
  ec_maxErrors :: int
  ec_settle :: "bool option"
  ec_inboxSize :: int

type_synonym clock = "nat \<Rightarrow> instant"
type_synonym sink = "nat \<Rightarrow> string option"

record ('s, 'ev) engine =
  e_voc :: vocabulary
  e_cfg :: engine_config
  e_clock :: clock
  e_reads :: nat
  e_sink :: sink
  e_written :: "pose list"
  e_channels :: "string list"
  e_inbox :: "'s command list"
  e_active :: "active_behavior list"
  e_seq :: nat
  e_seam :: "'s option"
  e_lastPose :: pose
  e_lastOwnership :: "string \<rightharpoonup> string"
  e_overrun :: "string streak"
  e_inOverrun :: bool
  e_sinkFailures :: int
  e_ticks :: nat
  e_overruns :: nat
  e_drops :: nat
  e_sinkErrors :: nat
  e_inboxDrops :: nat
  e_seamPanics :: nat
  e_consumers :: "('ev \<Rightarrow> string option) list"
  e_log :: "log_entry list"

record stats =
  Ticks :: nat
  Overruns :: nat
  Drops :: nat
  SinkErrors :: nat
  SeamPanics :: nat

definition clock_Now :: "('s, 'ev) engine \<Rightarrow> instant \<times> ('s, 'ev) engine" where
  "clock_Now e = (e_clock e (e_reads e), e\<lparr>e_reads := Suc (e_reads e)\<rparr>)"

definition sink_Write :: "pose \<Rightarrow> ('s, 'ev) engine \<Rightarrow> string option \<times> ('s, 'ev) engine" where
  "sink_Write p e = (e_sink e (length (e_written e)), e\<lparr>e_written := e_written e @ [p]\<rparr>)"

text \<open>The drop log: \<open>drop\<close> counts, \<open>line\<close> and \<open>note\<close> do not.\<close>

definition log_append :: "log_entry list \<Rightarrow> ('s, 'ev) engine \<Rightarrow> ('s, 'ev) engine" where
  "log_append xs e = e\<lparr>e_log := e_log e @ xs\<rparr>"

definition log_drop :: "string \<Rightarrow> string \<Rightarrow> string \<Rightarrow> ('s, 'ev) engine \<Rightarrow> ('s, 'ev) engine" where
  "log_drop source event reason e = log_append [LDrop source event reason] (e\<lparr>e_drops := Suc (e_drops e)\<rparr>)"

section \<open>Construction\<close>

definition defaultInboxSize :: int where
  "defaultInboxSize = 64"

definition defaultMaxErrors :: int where
  "defaultMaxErrors = 5"

datatype new_error = NewNoVocabulary | NewNoSink | NewBadPeriod duration | NewNoBaseAction

definition New ::
  "vocabulary option \<Rightarrow> engine_config \<Rightarrow> sink option \<Rightarrow> clock \<Rightarrow> (new_error, ('s, 'ev) engine) result" where
  "New vo cfg so clk =
     (case vo of None \<Rightarrow> Inl NewNoVocabulary
      | Some v \<Rightarrow> (case so of None \<Rightarrow> Inl NewNoSink
      | Some snk \<Rightarrow>
        rbind (guards [(ec_period cfg \<le> 0, NewBadPeriod (ec_period cfg)),
                       (ec_baseLayer cfg \<and> ec_baseAction cfg = [], NewNoBaseAction)]) (\<lambda>_.
        let cfg' = cfg\<lparr>ec_maxErrors := (if ec_maxErrors cfg \<le> 0 then defaultMaxErrors else ec_maxErrors cfg),
                       ec_inboxSize := (if ec_inboxSize cfg \<le> 0 then defaultInboxSize else ec_inboxSize cfg)\<rparr>;
            chans = map ch_name (v_channels v)
        in Inr \<lparr>e_voc = v, e_cfg = cfg', e_clock = clk, e_reads = 0, e_sink = snk, e_written = [],
                e_channels = chans, e_inbox = [], e_active = [], e_seq = 0, e_seam = None,
                e_lastPose = Neutral v,
                e_lastOwnership = foldl (\<lambda>m n. m(n \<mapsto> Unowned)) Map.empty chans,
                e_overrun = NewStreak, e_inOverrun = False, e_sinkFailures = 0, e_ticks = 0,
                e_overruns = 0, e_drops = 0, e_sinkErrors = 0, e_inboxDrops = 0, e_seamPanics = 0,
                e_consumers = [], e_log = []\<rparr>)))"

text \<open>\<open>Send\<close> never blocks: a full inbox is a counted drop.\<close>

definition Send :: "'s command \<Rightarrow> ('s, 'ev) engine \<Rightarrow> bool \<times> ('s, 'ev) engine" where
  "Send cmd e =
     (if int (length (e_inbox e)) < ec_inboxSize (e_cfg e)
      then (True, e\<lparr>e_inbox := e_inbox e @ [cmd]\<rparr>)
      else (False, e\<lparr>e_drops := Suc (e_drops e), e_inboxDrops := Suc (e_inboxDrops e)\<rparr>))"

definition sendAll :: "'s command list \<Rightarrow> ('s, 'ev) engine \<Rightarrow> ('s, 'ev) engine" where
  "sendAll cs e = fold (\<lambda>c e. snd (Send c e)) cs e"

definition OnEvent :: "('ev \<Rightarrow> string option) option \<Rightarrow> ('s, 'ev) engine \<Rightarrow> ('s, 'ev) engine" where
  "OnEvent fn e = (case fn of None \<Rightarrow> e | Some f \<Rightarrow> e\<lparr>e_consumers := e_consumers e @ [f]\<rparr>)"

definition Stats :: "('s, 'ev) engine \<Rightarrow> stats" where
  "Stats e = \<lparr>Ticks = e_ticks e, Overruns = e_overruns e, Drops = e_drops e,
     SinkErrors = e_sinkErrors e, SeamPanics = e_seamPanics e\<rparr>"

section \<open>Ids\<close>

text \<open>\<open>fmt.Sprintf("%s-%d", name, seq)\<close>.\<close>

fun decimal :: "nat \<Rightarrow> string" where
  "decimal n = (if n < 10 then [] else decimal (n div 10)) @ [char_of (48 + n mod 10)]"

declare decimal.simps [simp del]

definition candidate :: "string \<Rightarrow> nat \<Rightarrow> string" where
  "candidate name k = name @ CHR ''-'' # decimal k"

definition behaviors :: "('s, 'ev) engine \<Rightarrow> behavior list" where
  "behaviors e = map ab_behavior (e_active e)"

definition active_ids :: "('s, 'ev) engine \<Rightarrow> string list" where
  "active_ids e = map b_id (behaviors e)"

definition idIsActive :: "('s, 'ev) engine \<Rightarrow> string \<Rightarrow> bool" where
  "idIsActive e i \<longleftrightarrow> (\<exists>ab \<in> set (e_active e). b_id (ab_behavior ab) = i)"

lemma idIsActive_iff: "idIsActive e i \<longleftrightarrow> i \<in> set (active_ids e)"
  by (auto simp: idIsActive_def active_ids_def behaviors_def)

fun read_decimal :: "nat \<Rightarrow> string \<Rightarrow> nat" where
  "read_decimal acc [] = acc"
| "read_decimal acc (c # cs) = read_decimal (10 * acc + (of_char c - 48)) cs"

lemma read_decimal_append: "read_decimal acc (xs @ ys) = read_decimal (read_decimal acc xs) ys"
  by (induction xs arbitrary: acc) auto

lemma of_char_digit: "(of_char (char_of (48 + n mod 10)) :: nat) = 48 + n mod 10"
proof -
  have "48 + n mod 10 < (256::nat)" by (rule less_trans[of _ 58]) auto
  then show ?thesis by simp
qed

lemma read_decimal_decimal: "read_decimal 0 (decimal n) = n"
proof (induction n rule: decimal.induct)
  case (1 n)
  show ?case
  proof (cases "n < 10")
    case True
    then show ?thesis using of_char_digit[of n] by (simp add: decimal.simps[of n])
  next
    case False
    then show ?thesis using 1 of_char_digit[of n]
      by (simp add: decimal.simps[of n] read_decimal_append del: of_char_of)
  qed
qed

lemma decimal_inj: "decimal m = decimal n \<longleftrightarrow> m = n"
  using read_decimal_decimal by metis

lemma candidate_inj: "candidate name m = candidate name n \<longleftrightarrow> m = n"
  by (simp add: candidate_def decimal_inj)

text \<open>
  The loop of \<open>nextID\<close> ends: the candidates of one name are pairwise distinct, so only as many
  of them can be live as there are live ids.
\<close>

lemma live_candidates_finite: "finite {k. s < k \<and> candidate name k \<in> set ids}"
proof (rule finite_subset)
  show "{k. s < k \<and> candidate name k \<in> set ids} \<subseteq> candidate name -` set ids" by auto
  show "finite (candidate name -` set ids)"
    by (rule finite_vimageI) (auto simp: inj_def candidate_inj)
qed

function nextSeq :: "string \<Rightarrow> string list \<Rightarrow> nat \<Rightarrow> nat" where
  "nextSeq name ids s =
     (if candidate name (Suc s) \<in> set ids then nextSeq name ids (Suc s) else Suc s)"
  by pat_completeness auto

termination
proof (relation "measure (\<lambda>(name, ids, s). card {k. s < k \<and> candidate name k \<in> set ids})")
  fix name ids s
  assume live: "candidate name (Suc s) \<in> set ids"
  let ?A = "\<lambda>n. {k. n < k \<and> candidate name k \<in> set ids}"
  have "?A s = insert (Suc s) (?A (Suc s))" using live by (auto simp: Suc_le_eq less_Suc_eq)
  then have "card (?A s) = Suc (card (?A (Suc s)))"
    using live_candidates_finite[of "Suc s" name ids] by simp
  then show "((name, ids, Suc s), (name, ids, s)) \<in>
      measure (\<lambda>(name, ids, s). card {k. s < k \<and> candidate name k \<in> set ids})"
    by simp
qed simp

declare nextSeq.simps [simp del]

definition nextID :: "string \<Rightarrow> ('s, 'ev) engine \<Rightarrow> string \<times> ('s, 'ev) engine" where
  "nextID name e =
     (let s = nextSeq name (active_ids e) (e_seq e) in (candidate name s, e\<lparr>e_seq := s\<rparr>))"

section \<open>Admission and eviction\<close>

datatype admit_error = Refused bind_error | DuplicateID string

text \<open>The part of \<open>admit\<close> after the id and the admission time are settled.\<close>

definition place :: "behavior \<Rightarrow> ('s, 'ev) engine \<Rightarrow> ('s, 'ev) engine \<times> admit_result" where
  "place b e =
     (let result = Admit (e_channels e) b (behaviors e);
          gone = (\<lambda>ab. b_id (ab_behavior ab) \<in> set (ar_evicted result))
      in (log_append (map (\<lambda>ab. LNote ''evict'' (b_id (ab_behavior ab))) (filter gone (e_active e)))
            (e\<lparr>e_active := filter (\<lambda>ab. \<not> gone ab) (e_active e)
                             @ [\<lparr>ab_behavior = b, ab_isBase = False\<rparr>]\<rparr>), result))"

definition stampID :: "behavior \<Rightarrow> ('s, 'ev) engine \<Rightarrow> behavior \<times> ('s, 'ev) engine" where
  "stampID b e =
     (if b_id b = [] then let (i, e') = nextID (b_name b) e in (b\<lparr>b_id := i\<rparr>, e') else (b, e))"

definition stampTime :: "behavior \<Rightarrow> ('s, 'ev) engine \<Rightarrow> behavior \<times> ('s, 'ev) engine" where
  "stampTime b e =
     (if time_IsZero (b_admitted_at b)
      then let (t, e') = clock_Now e in (b\<lparr>b_admitted_at := t\<rparr>, e') else (b, e))"

definition admit ::
  "behavior \<Rightarrow> ('s, 'ev) engine \<Rightarrow> ('s, 'ev) engine \<times> (admit_error, admit_result) result" where
  "admit b e =
     (case Bind (Some (e_voc e)) b of
        Inl err \<Rightarrow> (e, Inl (Refused err))
      | Inr bound \<Rightarrow>
          if b_id bound \<noteq> [] \<and> idIsActive e (b_id bound)
          then (log_drop ''admit'' (b_id bound) ''duplicate-id'' e, Inl (DuplicateID (b_id bound)))
          else let (b1, e1) = stampID bound e;
                   (b2, e2) = stampTime b1 e1;
                   (e3, result) = place b2 e2
               in (e3, Inr result))"

definition evict :: "string \<Rightarrow> ('s, 'ev) engine \<Rightarrow> nat \<times> ('s, 'ev) engine" where
  "evict name e =
     (if name = [] then (0, e)
      else let hit = (\<lambda>ab. b_id (ab_behavior ab) = name \<or> b_name (ab_behavior ab) = name)
           in (length (filter hit (e_active e)),
               e\<lparr>e_active := filter (\<lambda>ab. \<not> hit ab) (e_active e)\<rparr>))"

definition behaviorLabel :: "behavior \<Rightarrow> string" where
  "behaviorLabel b = (if b_id b \<noteq> [] then b_id b else if b_name b \<noteq> [] then b_name b
     else if b_action b \<noteq> [] then b_action b else ''unnamed'')"

fun commandName :: "'s command \<Rightarrow> string" where
  "commandName (AdmitCmd _) = ''admit''"
| "commandName (EvictCmd _) = ''evict''"
| "commandName (SetSeamCmd _) = ''seam''"
| "commandName UnknownCmd = ''unknown''"

fun apply_cmd :: "'s command \<Rightarrow> ('s, 'ev) engine \<Rightarrow> ('s, 'ev) engine" where
  "apply_cmd (AdmitCmd b) e =
     (let (e', r) = admit b e in
      case r of Inl (Refused _) \<Rightarrow> log_drop ''admit'' (behaviorLabel b) ''refused'' e' | _ \<Rightarrow> e')"
| "apply_cmd (EvictCmd n) e = snd (evict n e)"
| "apply_cmd (SetSeamCmd s) e = e\<lparr>e_seam := s\<rparr>"
| "apply_cmd UnknownCmd e = log_drop ''inbox'' (commandName (UnknownCmd :: 's command)) ''unknown-command'' e"

text \<open>
  Draining interleaves with the producers: the \<open>i\<close>-th element of the list is what they send
  just before the \<open>i\<close>-th receive, and what is left of it arrives after the drain.
\<close>

fun drainLoop :: "nat \<Rightarrow> 's command list list \<Rightarrow> ('s, 'ev) engine \<Rightarrow> ('s, 'ev) engine" where
  "drainLoop 0 during e = sendAll (concat during) e"
| "drainLoop (Suc n) during e =
     (let e1 = sendAll (case during of [] \<Rightarrow> [] | d # _ \<Rightarrow> d) e in
      case e_inbox e1 of
        [] \<Rightarrow> sendAll (concat (tl during)) e1
      | c # cs \<Rightarrow> drainLoop n (tl during) (apply_cmd c (e1\<lparr>e_inbox := cs\<rparr>)))"

definition drainInbox :: "'s command list list \<Rightarrow> ('s, 'ev) engine \<Rightarrow> ('s, 'ev) engine" where
  "drainInbox during e =
     (let dropped = e_inboxDrops e;
          e1 = e\<lparr>e_inboxDrops := 0\<rparr>;
          e2 = (if 0 < dropped then log_append [LInboxFull dropped] e1 else e1)
      in drainLoop (nat (ec_inboxSize (e_cfg e))) during e2)"

section \<open>One tick\<close>

definition localTime :: "behavior \<Rightarrow> instant \<Rightarrow> f64" where
  "localTime b now = secs_between now (b_admitted_at b)"

definition expired :: "instant \<Rightarrow> active_behavior \<Rightarrow> bool" where
  "expired now ab = IsExpired (b_lifetime (ab_behavior ab)) (localTime (ab_behavior ab) now)"

definition dropExpired :: "instant \<Rightarrow> ('s, 'ev) engine \<Rightarrow> ('s, 'ev) engine" where
  "dropExpired now e =
     log_append (map (\<lambda>ab. LNote ''expire'' (b_id (ab_behavior ab))) (filter (expired now) (e_active e)))
       (e\<lparr>e_active := filter (\<lambda>ab. \<not> expired now ab) (e_active e)\<rparr>)"

text \<open>Every live behavior is sampled once; a panic in a sample is \<open>None\<close>.\<close>

fun sampleAll ::
  "(f64 \<Rightarrow> f64) \<Rightarrow> instant \<Rightarrow> behavior list \<Rightarrow> (string \<rightharpoonup> contribution) \<Rightarrow> (string \<rightharpoonup> contribution) option"
where
  "sampleAll cosf now [] m = Some m"
| "sampleAll cosf now (b # bs) m =
     (case Contribution cosf b (localTime b now) of
        None \<Rightarrow> None
      | Some c \<Rightarrow> sampleAll cosf now bs (m(b_id b \<mapsto> c)))"

record tick_pose =
  tp_pose :: pose
  tp_ownership :: "string \<rightharpoonup> string"
  tp_contribs :: "string \<rightharpoonup> contribution"

definition composeTick ::
  "(f64 \<Rightarrow> f64) \<Rightarrow> instant \<Rightarrow> ('s, 'ev) engine \<Rightarrow> (tick_pose \<times> ('s, 'ev) engine) option" where
  "composeTick cosf now e =
     (let e1 = dropExpired now e in
      case sampleAll cosf now (behaviors e1) Map.empty of
        None \<Rightarrow> None
      | Some contribs \<Rightarrow>
          (let own = Arbitrate (e_channels e1) (behaviors e1) (Some contribs);
               (p, bad) = Compose (e_voc e1) own contribs
           in Some (\<lparr>tp_pose = p, tp_ownership = own, tp_contribs = contribs\<rparr>,
                    fold (\<lambda>c. log_drop ''compose'' c ''arity'') bad e1)))"

text \<open>\<open>writePose\<close> (\<open>write\<close> in the code) returns the error that ends the run, if any.\<close>

definition writePose :: "pose \<Rightarrow> ('s, 'ev) engine \<Rightarrow> string option \<times> ('s, 'ev) engine" where
  "writePose p e =
     (let (err, e1) = sink_Write p e in
      case err of
        None \<Rightarrow> (None, e1\<lparr>e_sinkFailures := 0\<rparr>)
      | Some _ \<Rightarrow>
          (let e2 = log_drop ''sink'' ''write'' ''write-failed''
                      (e1\<lparr>e_sinkFailures := e_sinkFailures e1 + 1, e_sinkErrors := Suc (e_sinkErrors e1)\<rparr>)
           in (if ec_maxErrors (e_cfg e2) \<le> e_sinkFailures e2 then err else None, e2)))"

text \<open>A recovered panic: counted, named, and the caller goes on.\<close>

definition recoverPanic :: "string \<Rightarrow> string option \<Rightarrow> ('s, 'ev) engine \<Rightarrow> ('s, 'ev) engine" where
  "recoverPanic source p e =
     (case p of None \<Rightarrow> e
      | Some _ \<Rightarrow> log_drop source ''callback'' ''panic'' (e\<lparr>e_seamPanics := Suc (e_seamPanics e)\<rparr>))"

definition emit :: "'ev \<Rightarrow> ('s, 'ev) engine \<Rightarrow> ('s, 'ev) engine" where
  "emit ev e = fold (\<lambda>fn. recoverPanic ''event'' (fn ev)) (e_consumers e) e"

text \<open>What a seam is handed, apart from the engine it calls back into.\<close>

record tick_context =
  tc_Now :: instant
  tc_Tick :: nat
  tc_contribs :: "string \<rightharpoonup> contribution"

definition ActiveNames :: "('s, 'ev) engine \<Rightarrow> string list" where
  "ActiveNames e = map b_name (behaviors e)"

definition ctx_Pose :: "('s, 'ev) engine \<Rightarrow> pose" where
  "ctx_Pose e = e_lastPose e"

definition ctx_Ownership :: "('s, 'ev) engine \<Rightarrow> (string \<rightharpoonup> string)" where
  "ctx_Ownership e = e_lastOwnership e"

text \<open>
  A seam is a value of type \<open>'s\<close> that \<open>seamf\<close> runs: on a context and the state \<open>'u\<close> the seams
  of the run close over, it leaves the engine and that state, and the text of its panic if it
  panicked.
\<close>

type_synonym ('s, 'u, 'ev) seam_fn =
  "'s \<Rightarrow> tick_context \<Rightarrow> 'u \<Rightarrow> ('s, 'ev) engine \<Rightarrow> string option \<times> 'u \<times> ('s, 'ev) engine"

definition invokeSeam ::
  "('s, 'u, 'ev) seam_fn \<Rightarrow> instant \<Rightarrow> (string \<rightharpoonup> contribution) \<Rightarrow> 'u \<Rightarrow> ('s, 'ev) engine
     \<Rightarrow> 'u \<times> ('s, 'ev) engine" where
  "invokeSeam seamf now contribs u e =
     (case e_seam e of None \<Rightarrow> (u, e)
      | Some s \<Rightarrow>
          (let (p, u', e') = seamf s \<lparr>tc_Now = now, tc_Tick = e_ticks e, tc_contribs = contribs\<rparr> u e
           in (u', recoverPanic ''seam'' p e')))"

definition endOverrun :: "('s, 'ev) engine \<Rightarrow> ('s, 'ev) engine" where
  "endOverrun e =
     (if e_inOverrun e
      then let (s, ls) = streak_End (e_overrun e)
           in log_append (map LOverrun ls) (e\<lparr>e_overrun := s, e_inOverrun := False\<rparr>)
      else e)"

definition accountBudget :: "instant \<Rightarrow> ('s, 'ev) engine \<Rightarrow> ('s, 'ev) engine" where
  "accountBudget start e =
     (let (t, e1) = clock_Now e in
      if ec_period (e_cfg e1) < time_Sub t start
      then let (s, ls) = streak_Enter ''overrun'' (e_overrun e1)
           in log_append (map LOverrun ls)
                (e1\<lparr>e_overruns := Suc (e_overruns e1), e_overrun := s, e_inOverrun := True\<rparr>)
      else endOverrun e1)"

text \<open>
  One pass of the loop of \<open>Run\<close>. The head of \<open>arrivals\<close> is what producers sent since the last
  tick, the rest what they send during the drain. \<open>None\<close> is a crash of the process; the first
  component of the result is the error that ends the run.
\<close>

definition tickOnce ::
  "(f64 \<Rightarrow> f64) \<Rightarrow> ('s, 'u, 'ev) seam_fn \<Rightarrow> 's command list list \<Rightarrow> 'u \<Rightarrow> ('s, 'ev) engine
     \<Rightarrow> (string option \<times> 'u \<times> ('s, 'ev) engine) option" where
  "tickOnce cosf seamf arrivals u e =
     (let e0 = sendAll (case arrivals of [] \<Rightarrow> [] | a # _ \<Rightarrow> a) e;
          (now, e1) = clock_Now e0;
          e2 = e1\<lparr>e_ticks := Suc (e_ticks e1)\<rparr>;
          e3 = drainInbox (tl arrivals) e2
      in case composeTick cosf now e3 of
           None \<Rightarrow> None
         | Some (tp, e4) \<Rightarrow>
             (case writePose (tp_pose tp) e4 of
                (Some err, e5) \<Rightarrow> Some (Some err, u, e5)
              | (None, e5) \<Rightarrow>
                  (let e6 = e5\<lparr>e_lastPose := tp_pose tp, e_lastOwnership := tp_ownership tp\<rparr>;
                       (u', e7) = invokeSeam seamf now (tp_contribs tp) u e6
                   in Some (None, u', accountBudget now e7))))"

fun runLoop ::
  "(f64 \<Rightarrow> f64) \<Rightarrow> ('s, 'u, 'ev) seam_fn \<Rightarrow> 's command list list list \<Rightarrow> 'u \<Rightarrow> ('s, 'ev) engine
     \<Rightarrow> (string option \<times> 'u \<times> ('s, 'ev) engine) option" where
  "runLoop cosf seamf [] u e = Some (None, u, e)"
| "runLoop cosf seamf (i # is) u e =
     (case tickOnce cosf seamf i u e of
        None \<Rightarrow> None
      | Some (Some err, u', e') \<Rightarrow> Some (Some err, u', e')
      | Some (None, u', e') \<Rightarrow> runLoop cosf seamf is u' e')"

definition settle :: "('s, 'ev) engine \<Rightarrow> ('s, 'ev) engine" where
  "settle e =
     (if ec_settle (e_cfg e) = Some False then e
      else let (err, e1) = sink_Write (Neutral (e_voc e)) e
           in case err of None \<Rightarrow> e1 | Some _ \<Rightarrow> log_drop ''settle'' ''write'' ''write-failed'' e1)"

datatype seed_error = SeedUndeclared string | SeedBind bind_error

definition seedBaseLayer :: "('s, 'ev) engine \<Rightarrow> (seed_error, ('s, 'ev) engine) result" where
  "seedBaseLayer e =
     (if \<not> ec_baseLayer (e_cfg e) then Inr e
      else if \<not> HasAction (e_voc e) (ec_baseAction (e_cfg e))
      then Inl (SeedUndeclared (ec_baseAction (e_cfg e)))
      else let (t, e1) = clock_Now e;
               base = \<lparr>b_name = [], b_id = [], b_class = ClassPassive, b_channels = [],
                 b_lifetime = \<lparr>lt_duration = None, lt_loops = True\<rparr>,
                 b_action = ec_baseAction (e_cfg e), b_params = [], b_admitted_at = t,
                 b_trajectories = Map.empty, b_contribute = None\<rparr>
           in case Bind (Some (e_voc e)) base of
                Inl err \<Rightarrow> Inl (SeedBind err)
              | Inr bound \<Rightarrow>
                  (let (i, e2) = nextID (b_name bound) e1
                   in Inr (e2\<lparr>e_active := e_active e2
                         @ [\<lparr>ab_behavior = bound\<lparr>b_id := i\<rparr>, ab_isBase = True\<rparr>]\<rparr>)))"

text \<open>
  \<open>Run\<close>, over the ticks its ticker delivers; \<open>None\<close> is a crash, \<open>Inl\<close> a refused base layer.
\<close>

definition Run ::
  "(f64 \<Rightarrow> f64) \<Rightarrow> ('s, 'u, 'ev) seam_fn \<Rightarrow> 's command list list list \<Rightarrow> 'u \<Rightarrow> ('s, 'ev) engine
     \<Rightarrow> (seed_error, string option \<times> 'u \<times> ('s, 'ev) engine) result option" where
  "Run cosf seamf ticks u e =
     (case seedBaseLayer e of
        Inl err \<Rightarrow> Some (Inl err)
      | Inr e0 \<Rightarrow>
          (case runLoop cosf seamf ticks u e0 of
             None \<Rightarrow> None
           | Some (err, u', e1) \<Rightarrow> Some (Inr (err, u', settle (endOverrun e1)))))"

end
