(* ===== verification/Rules.thy ===== *)
theory Rules
  imports Adaptor GoStrings
begin

text \<open>
  The behavior-rules schema, \<open>internal/rules\<close>: the data model (\<open>model.go\<close>), the refusals
  (\<open>errors.go\<close>) and the validation of one decoded file (\<open>validate.go\<close>).

  A decoded TOML value is an \<open>any\<close>; a table is a list of its entries in the order the map is
  ranged over. An \<open>Error\<close> keeps its path, rule id and label and a constructor for its message.
\<close>

section \<open>Decoded values\<close>

datatype any =
    ANil
  | ABool bool
  | AInt int
  | AFloat f64
  | AStr string
  | ATime int
  | AList "any list"
  | AMap "(string \<times> any) list"
  | AMaps "(string \<times> any) list list"

type_synonym table = "any gomap"

text \<open>\<open>table[key]\<close>, nil when the key is absent.\<close>

definition lookup :: "table \<Rightarrow> string \<Rightarrow> any" where
  "lookup t k = (case map_of t k of None \<Rightarrow> ANil | Some v \<Rightarrow> v)"

definition present :: "table \<Rightarrow> string \<Rightarrow> bool" where
  "present t k \<longleftrightarrow> map_of t k \<noteq> None"

text \<open>A type assertion to \<open>string\<close> followed by the test that it is not blank.\<close>

definition as_text :: "any \<Rightarrow> string option" where
  "as_text v = (case v of AStr s \<Rightarrow> if blank s then None else Some s | _ \<Rightarrow> None)"

fun toFloat :: "any \<Rightarrow> f64 option" where
  "toFloat (AInt n) = Some (f64_of_int n)"
| "toFloat (AFloat x) = Some x"
| "toFloat _ = None"

fun as_map :: "any \<Rightarrow> table option" where
  "as_map (AMap t) = Some t"
| "as_map _ = None"

fun all_maps :: "any list \<Rightarrow> table list option" where
  "all_maps [] = Some []"
| "all_maps (v # vs) =
     (case as_map v of None \<Rightarrow> None | Some t \<Rightarrow> map_option ((#) t) (all_maps vs))"

fun asMaps :: "any \<Rightarrow> table list option" where
  "asMaps (AMaps ts) = Some ts"
| "asMaps (AList vs) = all_maps vs"
| "asMaps _ = None"

definition unknownKeys :: "table \<Rightarrow> string list \<Rightarrow> string list" where
  "unknownKeys t allowed = sort (filter (\<lambda>k. k \<notin> set allowed) (keys t))"

definition sortedMapKeys :: "'v gomap \<Rightarrow> string list" where
  "sortedMapKeys m = sort (keys m)"

text \<open>A loop that maps and stops at the first error.\<close>

fun map_res :: "('a \<Rightarrow> ('e, 'b) result) \<Rightarrow> 'a list \<Rightarrow> ('e, 'b list) result" where
  "map_res f [] = Inr []"
| "map_res f (x # xs) = rbind (f x) (\<lambda>y. rbind (map_res f xs) (\<lambda>ys. Inr (y # ys)))"

lemma map_res_cong [fundef_cong]:
  "xs = ys \<Longrightarrow> (\<And>x. x \<in> set ys \<Longrightarrow> f x = g x) \<Longrightarrow> map_res f xs = map_res g ys"
proof (induction ys arbitrary: xs)
  case (Cons y ys)
  then have "map_res f ys = map_res g ys" by simp
  then show ?case using Cons.prems by simp
qed simp

lemma map_res_Inr: "map_res f xs = Inr ys \<longleftrightarrow> list_all2 (\<lambda>x y. f x = Inr y) xs ys"
proof (induction xs arbitrary: ys)
  case (Cons x xs)
  then show ?case by (cases ys) auto
qed auto

lemma map_res_mem: "map_res f xs = Inr ys \<Longrightarrow> y \<in> set ys \<Longrightarrow> \<exists>x \<in> set xs. f x = Inr y"
  unfolding map_res_Inr by (induction rule: list_all2_induct) auto

section \<open>The data model\<close>

definition SchemaVersion1 :: int where "SchemaVersion1 = 1"
definition SchemaVersion2 :: int where "SchemaVersion2 = 2"
definition KindReact :: string where "KindReact = ''react''"
definition KindInhibit :: string where "KindInhibit = ''inhibit''"

definition priorities :: "string list" where
  "priorities = [''LOW'', ''NORMAL'', ''HIGH'', ''CRITICAL'']"

definition urgencies :: "string list" where
  "urgencies = [''BACKGROUND'', ''DEFERRABLE'', ''NOW'', ''IMMEDIATE'']"

definition voices :: "string list" where
  "voices = [''silent'', ''brief'', ''free'', ''none'']"

definition DefaultVoice :: string where "DefaultVoice = ''free''"
definition DefaultLLMEvaluate :: bool where "DefaultLLMEvaluate = True"
definition DefaultCooldownS :: f64 where "DefaultCooldownS = Fin 5"
definition DefaultHysteresis :: f64 where "DefaultHysteresis = Fin 0"
definition MaxSayChars :: nat where "MaxSayChars = 500"

definition orderedOps :: "string list" where
  "orderedOps = [''lt'', ''gt'', ''ge'', ''le'']"

definition equalityOps :: "string list" where
  "equalityOps = [''eq'', ''ne'']"

definition booleanOps :: "string list" where
  "booleanOps = [''is_true'', ''is_false'']"

definition durationOps :: "string list" where
  "durationOps = [''absent_for'']"

definition Comparators :: "string list" where
  "Comparators = orderedOps @ equalityOps @ booleanOps @ durationOps"

definition eventFieldOps :: "string list" where
  "eventFieldOps = booleanOps @ durationOps"

lemmas op_defs = Comparators_def eventFieldOps_def orderedOps_def equalityOps_def booleanOps_def
  durationOps_def

text \<open>The interface a robot's vocabulary offers the rules package.\<close>

record rules_vocabulary =
  rv_HasField :: "string \<Rightarrow> bool"
  rv_HasAction :: "string \<Rightarrow> bool"
  rv_ActionLoops :: "string \<Rightarrow> bool"
  rv_ActionParam :: "string \<Rightarrow> string \<Rightarrow> (f64 \<times> f64) option"

datatype predicate =
  Pred (p_Field: string) (p_Op: string) (p_Value: any) (p_All: "predicate list") (p_Any: "predicate list")

definition IsLeaf :: "predicate \<Rightarrow> bool" where
  "IsLeaf p \<longleftrightarrow> p_All p = [] \<and> p_Any p = []"

record rule =
  r_ID :: string
  r_Kind :: string
  r_When :: predicate
  r_Run :: string
  r_Disable :: "string list"
  r_Params :: "f64 gomap"
  r_CooldownS :: f64
  r_Hysteresis :: f64
  r_DurationS :: "f64 option"
  r_Say :: string
  r_Source :: string

record event =
  ev_Source :: string
  ev_Type :: string
  ev_Priority :: string
  ev_Urgency :: string
  ev_LLMEvaluate :: bool
  ev_InjectTemplate :: string
  ev_Voice :: string
  ev_Sense :: string
  ev_Dedupe :: string
  ev_Path :: string

definition event_ID :: "event \<Rightarrow> string" where
  "event_ID e = ev_Source e @ ''/'' @ ev_Type e"

record event_default =
  ed_Priority :: string
  ed_Urgency :: string
  ed_LLMEvaluate :: bool
  ed_Voice :: string

record rules_config =
  rc_SchemaVersion :: int
  rc_ActiveMode :: string
  rc_Modes :: "string \<rightharpoonup> f64 gomap"
  rc_React :: "rule list"
  rc_Inhibit :: "rule list"
  rc_Disabled :: "string list"
  rc_Events :: "event list"
  rc_EventDefault :: "event_default option"

text \<open>The rules of a configuration of both kinds.\<close>

definition config_rules :: "rules_config \<Rightarrow> rule list" where
  "config_rules cfg = rc_React cfg @ rc_Inhibit cfg"

definition ActiveModeParams :: "rules_config option \<Rightarrow> f64 gomap option" where
  "ActiveModeParams c = (case c of None \<Rightarrow> None
     | Some c \<Rightarrow> if rc_ActiveMode c = [] then None else rc_Modes c (rc_ActiveMode c))"

section \<open>Refusals\<close>

record ctx =
  cx_path :: string
  cx_ruleID :: string
  cx_label :: string

definition cx_rule :: "ctx \<Rightarrow> string \<Rightarrow> ctx" where
  "cx_rule c i = c\<lparr>cx_ruleID := i, cx_label := ''rule''\<rparr>"

definition cx_event :: "ctx \<Rightarrow> string \<Rightarrow> ctx" where
  "cx_event c i = c\<lparr>cx_ruleID := i, cx_label := ''event''\<rparr>"

datatype rules_what =
    UnknownTopLevel "string list" | NotAList string | UnknownFields "string list"
  | NoSchemaVersion | BadSchemaVersion any | BadEnabled any
  | BadText string any | MissingFields "string list"
  | WhenNotTable any | WhenUnknownFields "string list" | WhenField any | WhenOp any
  | GroupVersion string int | GroupBoth | GroupExtra string "string list" | GroupTooDeep
  | GroupNotList string any | GroupEmpty string
  | ValueForbidden string any | ValueMissing string | ValueNotNumber string any
  | ValueNotFinite string any | ValueNegative string f64 | ValueNotScalar string any
  | ParamsNotTable any | ParamNotNumber string any | ParamNotFinite string any
  | DisableNotList any | DisableEmpty | DisableEntry any
  | SayTooLong nat
  | ModesNotTable any | ModeNotTable string any | ModeNotNumber string string any
  | ModeNotFinite string string any | NoActiveMode "string list" | BadActiveMode any
  | DefaultNotTable any | BadEnum string any | BadBool string any
  | NotNumber string any | NotFinite string any | OutOfRange string f64
  | DuplicateInFile | DuplicateInLayer string
  | UnknownAction string | UnboundedLoop string | UndeclaredParam string string
  | ParamOutOfRange string f64 | DisableUnknown string | EventOp string string | UnknownField string
  | Unreadable

datatype rules_error = RulesError ctx rules_what

definition errf :: "ctx \<Rightarrow> rules_what \<Rightarrow> rules_error" where
  "errf c w = RulesError c w"

section \<open>Field readers\<close>

definition nonNegative :: "ctx \<Rightarrow> table \<Rightarrow> string \<Rightarrow> f64 \<Rightarrow> (rules_error, f64) result" where
  "nonNegative c raw name def =
     (case lookup raw name of ANil \<Rightarrow> Inr def
      | v \<Rightarrow> (case toFloat v of None \<Rightarrow> Inl (errf c (NotNumber name v))
         | Some x \<Rightarrow>
             if is_nan x \<or> is_inf x then Inl (errf c (NotFinite name v))
             else if flt x (Fin 0) then Inl (errf c (OutOfRange name x)) else Inr x))"

definition positive :: "ctx \<Rightarrow> table \<Rightarrow> string \<Rightarrow> (rules_error, f64 option) result" where
  "positive c raw name =
     (case lookup raw name of ANil \<Rightarrow> Inr None
      | v \<Rightarrow> (case toFloat v of None \<Rightarrow> Inl (errf c (NotNumber name v))
         | Some x \<Rightarrow>
             if is_nan x \<or> is_inf x then Inl (errf c (NotFinite name v))
             else if fle x (Fin 0) then Inl (errf c (OutOfRange name x)) else Inr (Some x)))"

definition requiredEnum :: "ctx \<Rightarrow> table \<Rightarrow> string \<Rightarrow> string list \<Rightarrow> (rules_error, string) result" where
  "requiredEnum c raw name domain =
     (case lookup raw name of
        AStr s \<Rightarrow> if s \<in> set domain then Inr s else Inl (errf c (BadEnum name (AStr s)))
      | v \<Rightarrow> Inl (errf c (BadEnum name v)))"

definition optionalEnum ::
  "ctx \<Rightarrow> table \<Rightarrow> string \<Rightarrow> string list \<Rightarrow> string \<Rightarrow> (rules_error, string) result" where
  "optionalEnum c raw name domain def =
     (case lookup raw name of
        ANil \<Rightarrow> Inr def
      | AStr s \<Rightarrow> if s \<in> set domain then Inr s else Inl (errf c (BadEnum name (AStr s)))
      | v \<Rightarrow> Inl (errf c (BadEnum name v)))"

definition optionalBool :: "ctx \<Rightarrow> table \<Rightarrow> string \<Rightarrow> bool \<Rightarrow> (rules_error, bool) result" where
  "optionalBool c raw name def =
     (case lookup raw name of ANil \<Rightarrow> Inr def | ABool b \<Rightarrow> Inr b | v \<Rightarrow> Inl (errf c (BadBool name v)))"

definition optionalString :: "ctx \<Rightarrow> table \<Rightarrow> string \<Rightarrow> (rules_error, string) result" where
  "optionalString c raw name =
     (case lookup raw name of ANil \<Rightarrow> Inr []
      | v \<Rightarrow> (case as_text v of None \<Rightarrow> Inl (errf c (BadText name v)) | Some s \<Rightarrow> Inr s))"

definition missing :: "table \<Rightarrow> string list \<Rightarrow> string list" where
  "missing t required = sort (filter (\<lambda>k. \<not> present t k) required)"

section \<open>Predicates\<close>

definition predicateFields :: "string list" where
  "predicateFields = [''field'', ''op'', ''value'']"

definition groupFields :: "string list" where
  "groupFields = [''all'', ''any'']"

definition validatePredicateValue :: "ctx \<Rightarrow> table \<Rightarrow> string \<Rightarrow> (rules_error, any) result" where
  "validatePredicateValue c t op =
     (let raw = lookup t ''value'' in
      if op \<in> set booleanOps then
        (if raw \<noteq> ANil then Inl (errf c (ValueForbidden op raw)) else Inr ANil)
      else if op \<in> set orderedOps \<or> op \<in> set durationOps then
        (if \<not> present t ''value'' then Inl (errf c (ValueMissing op))
         else case toFloat raw of
             None \<Rightarrow> Inl (errf c (ValueNotNumber op raw))
           | Some v \<Rightarrow>
               if is_nan v \<or> is_inf v then Inl (errf c (ValueNotFinite op raw))
               else if flt v (Fin 0) then Inl (errf c (ValueNegative op v))
               else Inr (AFloat v))
      else
        (if \<not> present t ''value'' then Inl (errf c (ValueMissing op))
         else case raw of
             AStr s \<Rightarrow> Inr (AStr s)
           | ABool b \<Rightarrow> Inr (ABool b)
           | _ \<Rightarrow> (case toFloat raw of
                 None \<Rightarrow> Inl (errf c (ValueNotScalar op raw))
               | Some f \<Rightarrow> if is_nan f \<or> is_inf f then Inl (errf c (ValueNotFinite op raw))
                           else Inr (AFloat f))))"

definition validateLeaf :: "ctx \<Rightarrow> table \<Rightarrow> (rules_error, predicate) result" where
  "validateLeaf c t =
     (let unknown = unknownKeys t predicateFields in
      if unknown \<noteq> [] then Inl (errf c (WhenUnknownFields unknown))
      else case as_text (lookup t ''field'') of
          None \<Rightarrow> Inl (errf c (WhenField (lookup t ''field'')))
        | Some f \<Rightarrow> (case lookup t ''op'' of
            AStr op \<Rightarrow> if op \<notin> set Comparators then Inl (errf c (WhenOp (AStr op)))
              else rbind (validatePredicateValue c t op) (\<lambda>v. Inr (Pred f op v [] []))
          | v \<Rightarrow> Inl (errf c (WhenOp v))))"

function validatePredicate :: "ctx \<Rightarrow> any \<Rightarrow> int \<Rightarrow> nat \<Rightarrow> (rules_error, predicate) result"
  and validateGroup :: "ctx \<Rightarrow> table \<Rightarrow> int \<Rightarrow> nat \<Rightarrow> bool \<Rightarrow> bool \<Rightarrow> (rules_error, predicate) result"
where
  "validatePredicate c raw version depth =
     (case raw of
        AMap t \<Rightarrow>
          (let hasAll = present t ''all''; hasAny = present t ''any'' in
           if hasAll \<or> hasAny then validateGroup c t version depth hasAll hasAny
           else validateLeaf c t)
      | _ \<Rightarrow> Inl (errf c (WhenNotTable raw)))"
| "validateGroup c t version depth hasAll hasAny =
     (let key = (if hasAny then ''any'' else ''all''); unknown = unknownKeys t groupFields in
      if version < SchemaVersion2 then Inl (errf c (GroupVersion key version))
      else if hasAll \<and> hasAny then Inl (errf c GroupBoth)
      else if unknown \<noteq> [] then Inl (errf c (GroupExtra key unknown))
      else if 2 \<le> depth then Inl (errf c GroupTooDeep)
      else case asMaps (lookup t key) of
          None \<Rightarrow> Inl (errf c (GroupNotList key (lookup t key)))
        | Some children \<Rightarrow>
            if children = [] then Inl (errf c (GroupEmpty key))
            else rbind (map_res (\<lambda>child. validatePredicate c (AMap child) version (Suc depth)) children)
              (\<lambda>ps. Inr (if hasAny then Pred [] [] ANil [] ps else Pred [] [] ANil ps [])))"
  by pat_completeness auto
termination
  by (relation "measure (\<lambda>x. case x of Inl (_, _, _, d) \<Rightarrow> 2 * (3 - d) + 1
        | Inr (_, _, _, d, _, _) \<Rightarrow> 2 * (3 - d))") (auto simp: Suc_diff_le)

declare validatePredicate.simps [simp del] validateGroup.simps [simp del]

section \<open>Rules\<close>

definition reactFields :: "string list" where
  "reactFields = [''id'', ''enabled'', ''when'', ''run'', ''params'', ''cooldown_s'', ''hysteresis'',
     ''duration_s'', ''say'']"

definition inhibitFields :: "string list" where
  "inhibitFields = [''id'', ''enabled'', ''when'', ''disable'', ''cooldown_s'', ''hysteresis'']"

definition reactRequired :: "string list" where
  "reactRequired = [''id'', ''run'', ''when'']"

definition inhibitRequired :: "string list" where
  "inhibitRequired = [''id'', ''disable'', ''when'']"

definition isTombstone :: "ctx \<Rightarrow> table \<Rightarrow> (rules_error, bool) result" where
  "isTombstone c raw =
     (case map_of raw ''enabled'' of
        None \<Rightarrow> Inr False
      | Some (ABool b) \<Rightarrow> Inr (\<not> b)
      | Some v \<Rightarrow> Inl (errf c (BadEnabled v)))"

definition validateParam :: "ctx \<Rightarrow> table \<Rightarrow> string \<Rightarrow> (rules_error, string \<times> f64) result" where
  "validateParam c t key =
     (case toFloat (lookup t key) of
        None \<Rightarrow> Inl (errf c (ParamNotNumber key (lookup t key)))
      | Some v \<Rightarrow> if is_nan v \<or> is_inf v then Inl (errf c (ParamNotFinite key (lookup t key)))
                  else Inr (key, v))"

definition validateParams :: "ctx \<Rightarrow> any \<Rightarrow> (rules_error, f64 gomap) result" where
  "validateParams c raw =
     (case raw of ANil \<Rightarrow> Inr []
      | AMap t \<Rightarrow> map_res (validateParam c t) (sortedMapKeys t)
      | _ \<Rightarrow> Inl (errf c (ParamsNotTable raw)))"

fun disableNames :: "ctx \<Rightarrow> string list \<Rightarrow> any list \<Rightarrow> (rules_error, string list) result" where
  "disableNames c names [] = Inr names"
| "disableNames c names (item # items) =
     (case as_text item of
        None \<Rightarrow> Inl (errf c (DisableEntry item))
      | Some n \<Rightarrow> disableNames c (if n \<in> set names then names else names @ [n]) items)"

definition validateDisable :: "ctx \<Rightarrow> any \<Rightarrow> (rules_error, string list) result" where
  "validateDisable c raw =
     (case raw of
        AList items \<Rightarrow>
          if items = [] then Inl (errf c DisableEmpty)
          else rbind (disableNames c [] items) (\<lambda>names. Inr (sort names))
      | _ \<Rightarrow> Inl (errf c (DisableNotList raw)))"

definition validateSay :: "ctx \<Rightarrow> any \<Rightarrow> (rules_error, string) result" where
  "validateSay c raw =
     (if raw = ANil then Inr []
      else case as_text raw of
          None \<Rightarrow> Inl (errf c (BadText ''say'' raw))
        | Some text \<Rightarrow> if MaxSayChars < RuneCount text then Inl (errf c (SayTooLong (RuneCount text)))
                       else Inr text)"

text \<open>An entry of a file: a live rule or event, or the id of a tombstone.\<close>

datatype 'r entry = Live 'r | Tombstone string

text \<open>The positional label stands in for an id that cannot be used; its number is not modelled.\<close>

definition ruleLabel :: "string \<Rightarrow> table \<Rightarrow> string" where
  "ruleLabel kind raw = (case as_text (lookup raw ''id'') of Some i \<Rightarrow> i | None \<Rightarrow> kind @ ''[]'')"

definition validateReact :: "ctx \<Rightarrow> table \<Rightarrow> rule \<Rightarrow> (rules_error, rule) result" where
  "validateReact rc raw r =
     (case as_text (lookup raw ''run'') of
        None \<Rightarrow> Inl (errf rc (BadText ''run'' (lookup raw ''run'')))
      | Some run \<Rightarrow>
          rbind (positive rc raw ''duration_s'') (\<lambda>d.
          rbind (validateParams rc (lookup raw ''params'')) (\<lambda>ps.
          rbind (validateSay rc (lookup raw ''say'')) (\<lambda>say.
          Inr (r\<lparr>r_Run := run, r_DurationS := d, r_Params := ps, r_Say := say\<rparr>)))))"

definition validateRule :: "ctx \<Rightarrow> string \<Rightarrow> table \<Rightarrow> int \<Rightarrow> (rules_error, rule entry) result" where
  "validateRule c kind raw version =
     (let allowed = (if kind = KindInhibit then inhibitFields else reactFields);
          required = (if kind = KindInhibit then inhibitRequired else reactRequired);
          rc = cx_rule c (ruleLabel kind raw);
          unknown = unknownKeys raw allowed in
      if unknown \<noteq> [] then Inl (errf rc (UnknownFields unknown))
      else rbind (isTombstone rc raw) (\<lambda>tombstone.
        case as_text (lookup raw ''id'') of
          None \<Rightarrow> Inl (errf rc (BadText ''id'' (lookup raw ''id'')))
        | Some i \<Rightarrow>
            if tombstone then Inr (Tombstone i)
            else if missing raw required \<noteq> [] then Inl (errf rc (MissingFields (missing raw required)))
            else rbind (validatePredicate rc (lookup raw ''when'') version 0) (\<lambda>w.
              rbind (nonNegative rc raw ''cooldown_s'' DefaultCooldownS) (\<lambda>cd.
              rbind (nonNegative rc raw ''hysteresis'' DefaultHysteresis) (\<lambda>hy.
              let r = \<lparr>r_ID = i, r_Kind = kind, r_When = w, r_Run = [], r_Disable = [], r_Params = [],
                       r_CooldownS = cd, r_Hysteresis = hy, r_DurationS = None, r_Say = [],
                       r_Source = []\<rparr> in
              if kind = KindInhibit
              then rbind (validateDisable rc (lookup raw ''disable'')) (\<lambda>ds.
                     Inr (Live (r\<lparr>r_Disable := ds\<rparr>)))
              else rbind (validateReact rc raw r) (\<lambda>r'. Inr (Live r')))))))"

section \<open>Modes\<close>

definition validateModeParam :: "ctx \<Rightarrow> string \<Rightarrow> table \<Rightarrow> string \<Rightarrow> (rules_error, string \<times> f64) result" where
  "validateModeParam c name body key =
     (case toFloat (lookup body key) of
        None \<Rightarrow> Inl (errf c (ModeNotNumber name key (lookup body key)))
      | Some v \<Rightarrow> if is_nan v \<or> is_inf v then Inl (errf c (ModeNotFinite name key (lookup body key)))
                  else Inr (key, v))"

definition validateMode :: "ctx \<Rightarrow> table \<Rightarrow> string \<Rightarrow> (rules_error, string \<times> f64 gomap) result" where
  "validateMode c t name =
     (case lookup t name of
        AMap body \<Rightarrow>
          rbind (map_res (validateModeParam c name body) (sortedMapKeys body)) (\<lambda>ps. Inr (name, ps))
      | v \<Rightarrow> Inl (errf c (ModeNotTable name v)))"

definition validateModes :: "ctx \<Rightarrow> any \<Rightarrow> (rules_error, f64 gomap gomap) result" where
  "validateModes c raw =
     (case raw of ANil \<Rightarrow> Inr []
      | AMap t \<Rightarrow> map_res (validateMode c t) (sortedMapKeys t)
      | _ \<Rightarrow> Inl (errf c (ModesNotTable raw)))"

definition validateActiveMode :: "ctx \<Rightarrow> any \<Rightarrow> f64 gomap gomap \<Rightarrow> (rules_error, string) result" where
  "validateActiveMode c raw modes =
     (case raw of
        ANil \<Rightarrow> if modes \<noteq> [] then Inl (errf c (NoActiveMode (sortedMapKeys modes))) else Inr []
      | AStr name \<Rightarrow> if map_of modes name = None then Inl (errf c (BadActiveMode raw)) else Inr name
      | _ \<Rightarrow> Inl (errf c (BadActiveMode raw)))"

section \<open>Events\<close>

definition eventFields :: "string list" where
  "eventFields = [''source'', ''type'', ''enabled'', ''priority'', ''urgency'', ''llm_evaluate'',
     ''inject_template'', ''voice'', ''sense'', ''dedupe'']"

definition eventDefaultFields :: "string list" where
  "eventDefaultFields = [''priority'', ''urgency'', ''llm_evaluate'', ''voice'']"

definition eventRequired :: "string list" where
  "eventRequired = [''source'', ''type'', ''priority'', ''urgency'']"

definition eventDefaultRequired :: "string list" where
  "eventDefaultRequired = [''priority'', ''urgency'']"

definition eventLabel :: "table \<Rightarrow> string" where
  "eventLabel raw = (case (as_text (lookup raw ''source''), as_text (lookup raw ''type'')) of
     (Some s, Some t) \<Rightarrow> s @ ''/'' @ t | _ \<Rightarrow> ''event[]'')"

definition validateEventBody ::
  "ctx \<Rightarrow> table \<Rightarrow> string \<Rightarrow> string \<Rightarrow> (rules_error, event) result" where
  "validateEventBody rc raw source type =
     rbind (requiredEnum rc raw ''priority'' priorities) (\<lambda>priority.
     rbind (requiredEnum rc raw ''urgency'' urgencies) (\<lambda>urgency.
     rbind (optionalBool rc raw ''llm_evaluate'' DefaultLLMEvaluate) (\<lambda>llm.
     rbind (optionalEnum rc raw ''voice'' voices DefaultVoice) (\<lambda>voice.
     rbind (optionalString rc raw ''inject_template'') (\<lambda>template.
     rbind (optionalString rc raw ''sense'') (\<lambda>sense'.
     rbind (optionalString rc raw ''dedupe'') (\<lambda>dedupe.
     Inr \<lparr>ev_Source = source, ev_Type = type, ev_Priority = priority, ev_Urgency = urgency,
          ev_LLMEvaluate = llm, ev_InjectTemplate = template, ev_Voice = voice,
          ev_Sense = sense', ev_Dedupe = dedupe, ev_Path = []\<rparr>)))))))"

definition validateEvent :: "ctx \<Rightarrow> table \<Rightarrow> (rules_error, event entry) result" where
  "validateEvent c raw =
     (let rc = cx_event c (eventLabel raw); unknown = unknownKeys raw eventFields in
      if unknown \<noteq> [] then Inl (errf rc (UnknownFields unknown))
      else rbind (isTombstone rc raw) (\<lambda>tombstone.
        case as_text (lookup raw ''source'') of
          None \<Rightarrow> Inl (errf rc (BadText ''source'' (lookup raw ''source'')))
        | Some source \<Rightarrow> (case as_text (lookup raw ''type'') of
            None \<Rightarrow> Inl (errf rc (BadText ''type'' (lookup raw ''type'')))
          | Some type \<Rightarrow>
              if tombstone then Inr (Tombstone (source @ ''/'' @ type))
              else if missing raw eventRequired \<noteq> []
              then Inl (errf rc (MissingFields (missing raw eventRequired)))
              else rbind (validateEventBody rc raw source type) (\<lambda>e. Inr (Live e)))))"

definition validateEventDefault :: "ctx \<Rightarrow> any \<Rightarrow> (rules_error, event_default option) result" where
  "validateEventDefault c raw =
     (case raw of
        ANil \<Rightarrow> Inr None
      | AMap t \<Rightarrow>
          (let unknown = unknownKeys t eventDefaultFields in
           if unknown \<noteq> [] then Inl (errf c (UnknownFields unknown))
           else if missing t eventDefaultRequired \<noteq> []
           then Inl (errf c (MissingFields (missing t eventDefaultRequired)))
           else rbind (requiredEnum c t ''priority'' priorities) (\<lambda>priority.
             rbind (requiredEnum c t ''urgency'' urgencies) (\<lambda>urgency.
             rbind (optionalBool c t ''llm_evaluate'' DefaultLLMEvaluate) (\<lambda>llm.
             rbind (optionalEnum c t ''voice'' voices DefaultVoice) (\<lambda>voice.
             Inr (Some \<lparr>ed_Priority = priority, ed_Urgency = urgency, ed_LLMEvaluate = llm,
                        ed_Voice = voice\<rparr>))))))
      | _ \<Rightarrow> Inl (errf c (DefaultNotTable raw)))"

section \<open>One file\<close>

definition topLevelFields :: "string list" where
  "topLevelFields = [''schema_version'', ''active_mode'', ''react'', ''inhibit'', ''modes'', ''event'',
     ''event_default'']"

record rules_file =
  f_path :: string
  f_schemaVersion :: int
  f_ordered :: "rule list"
  f_disabled :: "string list"
  f_modes :: "f64 gomap gomap"
  f_activeMode :: string
  f_events :: "event list"
  f_eventDisabled :: "string list"
  f_eventDefault :: "event_default option"

definition ids :: "rule list \<Rightarrow> string list" where
  "ids rs = map r_ID rs"

definition eventIDs :: "event list \<Rightarrow> string list" where
  "eventIDs es = map event_ID es"

text \<open>The first id that repeats one before it.\<close>

fun firstDuplicate :: "string set \<Rightarrow> string list \<Rightarrow> string option" where
  "firstDuplicate seen [] = None"
| "firstDuplicate seen (i # is) =
     (if i \<in> seen then Some i else firstDuplicate (insert i seen) is)"

definition checkDuplicateIDs :: "ctx \<Rightarrow> rules_file \<Rightarrow> (rules_error, unit) result" where
  "checkDuplicateIDs c f =
     (case firstDuplicate {} (ids (f_ordered f) @ f_disabled f) of
        None \<Rightarrow> Inr () | Some i \<Rightarrow> Inl (errf (cx_rule c i) DuplicateInFile))"

definition checkDuplicateEventIDs :: "ctx \<Rightarrow> rules_file \<Rightarrow> (rules_error, unit) result" where
  "checkDuplicateEventIDs c f =
     (case firstDuplicate {} (eventIDs (f_events f) @ f_eventDisabled f) of
        None \<Rightarrow> Inr () | Some i \<Rightarrow> Inl (errf (cx_event c i) DuplicateInFile))"

definition validateSchemaVersion :: "ctx \<Rightarrow> table \<Rightarrow> (rules_error, int) result" where
  "validateSchemaVersion c data =
     (case map_of data ''schema_version'' of
        None \<Rightarrow> Inl (errf c NoSchemaVersion)
      | Some (AInt v) \<Rightarrow> if v = SchemaVersion1 \<or> v = SchemaVersion2 then Inr v
                       else Inl (errf c (BadSchemaVersion (AInt v)))
      | Some v \<Rightarrow> Inl (errf c (BadSchemaVersion v)))"

definition addRule :: "string \<Rightarrow> rule entry \<Rightarrow> rules_file \<Rightarrow> rules_file" where
  "addRule path en f =
     (case en of Tombstone i \<Rightarrow> f\<lparr>f_disabled := f_disabled f @ [i]\<rparr>
      | Live r \<Rightarrow> f\<lparr>f_ordered := f_ordered f @ [r\<lparr>r_Source := path\<rparr>]\<rparr>)"

definition addEvent :: "string \<Rightarrow> event entry \<Rightarrow> rules_file \<Rightarrow> rules_file" where
  "addEvent path en f =
     (case en of Tombstone i \<Rightarrow> f\<lparr>f_eventDisabled := f_eventDisabled f @ [i]\<rparr>
      | Live e \<Rightarrow> f\<lparr>f_events := f_events f @ [e\<lparr>ev_Path := path\<rparr>]\<rparr>)"

text \<open>One array of tables of the document: absent, or a list whose every entry is read.\<close>

definition readEntries ::
  "ctx \<Rightarrow> table \<Rightarrow> string \<Rightarrow> (table \<Rightarrow> (rules_error, 'r entry) result) \<Rightarrow> ('r entry \<Rightarrow> rules_file \<Rightarrow> rules_file) \<Rightarrow> rules_file
     \<Rightarrow> (rules_error, rules_file) result" where
  "readEntries c data key read add f =
     (case map_of data key of
        None \<Rightarrow> Inr f
      | Some raw \<Rightarrow> (case asMaps raw of
          None \<Rightarrow> Inl (errf c (NotAList key))
        | Some entries \<Rightarrow> foldr_res (\<lambda>en f. rbind (read en) (\<lambda>x. Inr (add x f))) entries f))"

definition validate :: "string \<Rightarrow> table \<Rightarrow> (rules_error, rules_file) result" where
  "validate path data =
     (let c = \<lparr>cx_path = path, cx_ruleID = [], cx_label = []\<rparr>; unknown = unknownKeys data topLevelFields in
      if unknown \<noteq> [] then Inl (errf c (UnknownTopLevel unknown))
      else rbind (validateSchemaVersion c data) (\<lambda>version.
        let f0 = \<lparr>f_path = path, f_schemaVersion = version, f_ordered = [], f_disabled = [], f_modes = [],
                  f_activeMode = [], f_events = [], f_eventDisabled = [], f_eventDefault = None\<rparr> in
        rbind (readEntries c data KindReact (\<lambda>t. validateRule c KindReact t version) (addRule path) f0) (\<lambda>f1.
        rbind (readEntries c data KindInhibit (\<lambda>t. validateRule c KindInhibit t version) (addRule path) f1) (\<lambda>f2.
        rbind (checkDuplicateIDs c f2) (\<lambda>_.
        rbind (validateModes c (lookup data ''modes'')) (\<lambda>modes.
        rbind (validateActiveMode c (lookup data ''active_mode'') modes) (\<lambda>active.
        rbind (readEntries c data ''event'' (validateEvent c) (addEvent path)
                 (f2\<lparr>f_modes := modes, f_activeMode := active\<rparr>)) (\<lambda>f3.
        rbind (checkDuplicateEventIDs c f3) (\<lambda>_.
        rbind (validateEventDefault c (lookup data ''event_default'')) (\<lambda>ed.
        Inr (f3\<lparr>f_eventDefault := ed\<rparr>)))))))))))"

section \<open>Names\<close>

fun checkPredicateNames ::
  "ctx \<Rightarrow> predicate \<Rightarrow> rules_vocabulary \<Rightarrow> string set \<Rightarrow> (rules_error, unit) result" where
  "checkPredicateNames c (Pred f op v alls anys) voc events =
     (if alls \<noteq> [] \<or> anys \<noteq> [] then
        rbind (each (\<lambda>p. checkPredicateNames c p voc events) alls)
          (\<lambda>_. each (\<lambda>p. checkPredicateNames c p voc events) anys)
      else if rv_HasField voc f then Inr ()
      else if f \<in> events then refuse_if (op \<notin> set eventFieldOps) (errf c (EventOp f op))
      else Inl (errf c (UnknownField f)))"

definition checkRuleParam ::
  "ctx \<Rightarrow> rules_vocabulary \<Rightarrow> rule \<Rightarrow> string \<Rightarrow> (rules_error, unit) result" where
  "checkRuleParam rc voc r key =
     (case rv_ActionParam voc (r_Run r) key of
        None \<Rightarrow> Inl (errf rc (UndeclaredParam (r_Run r) key))
      | Some (lo, hi) \<Rightarrow>
          (let v = the (map_of (r_Params r) key) in
           refuse_if (flt v lo \<or> flt hi v) (errf rc (ParamOutOfRange key v))))"

definition checkRuleNames ::
  "ctx \<Rightarrow> rules_vocabulary \<Rightarrow> string set \<Rightarrow> rule \<Rightarrow> (rules_error, unit) result" where
  "checkRuleNames c voc events r =
     (let rc = cx_rule c (r_ID r) in
      rbind (checkPredicateNames rc (r_When r) voc events) (\<lambda>_.
      rbind (if r_Kind r = KindReact then
               rbind (refuse_if (\<not> rv_HasAction voc (r_Run r)) (errf rc (UnknownAction (r_Run r)))) (\<lambda>_.
               rbind (refuse_if (r_DurationS r = None \<and> rv_ActionLoops voc (r_Run r))
                        (errf rc (UnboundedLoop (r_Run r)))) (\<lambda>_.
               each (checkRuleParam rc voc r) (sortedMapKeys (r_Params r))))
             else Inr ()) (\<lambda>_.
      each (\<lambda>n. refuse_if (\<not> rv_HasAction voc n) (errf rc (DisableUnknown n))) (r_Disable r))))"

definition applyVocabulary ::
  "rules_file \<Rightarrow> rules_vocabulary option \<Rightarrow> string set \<Rightarrow> (rules_error, unit) result" where
  "applyVocabulary f vocab events =
     (case vocab of None \<Rightarrow> Inr ()
      | Some voc \<Rightarrow>
          each (checkRuleNames \<lparr>cx_path = f_path f, cx_ruleID = [], cx_label = []\<rparr> voc events)
            (f_ordered f))"

end
