(* ===== verification/Rules_Wf.thy ===== *)
theory Rules_Wf
  imports Rules
begin

text \<open>
  What the validation of a rules file guarantees: well-formed predicates, rules, events and files,
  and the documents that encode them. \<open>pred_wf\<close>, \<open>rule_wf\<close> and \<open>event_wf\<close> describe exactly the
  values \<open>validatePredicate\<close>, \<open>validateRule\<close> and \<open>validateEvent\<close> can return.
\<close>

section \<open>Numbers\<close>

definition fin_pos0 :: "f64 \<Rightarrow> bool" where
  "fin_pos0 x \<longleftrightarrow> (\<exists>q. x = Fin q \<and> 0 \<le> q)"

lemma fin_pos0_Fin [simp]: "fin_pos0 (Fin q) \<longleftrightarrow> 0 \<le> q"
  by (simp add: fin_pos0_def)

lemma finite_f64: "\<not> (is_nan x \<or> is_inf x) \<longleftrightarrow> (\<exists>q. x = Fin q)"
  by (cases x) (auto simp: is_nan_def is_inf_def)

lemma nonneg_f64: "\<not> (is_nan x \<or> is_inf x) \<and> \<not> flt x (Fin 0) \<longleftrightarrow> fin_pos0 x"
  by (cases x) (auto simp: is_nan_def is_inf_def fin_pos0_def)

lemma positive_f64: "\<not> (is_nan x \<or> is_inf x) \<and> \<not> fle x (Fin 0) \<longleftrightarrow> (\<exists>q. x = Fin q \<and> 0 < q)"
  by (cases x) (auto simp: is_nan_def is_inf_def)

lemma nonNegative_alt:
  "nonNegative c raw name def = (let v = lookup raw name in if v = ANil then Inr def
     else case toFloat v of None \<Rightarrow> Inl (errf c (NotNumber name v))
       | Some x \<Rightarrow> if is_nan x \<or> is_inf x then Inl (errf c (NotFinite name v))
           else if flt x (Fin 0) then Inl (errf c (OutOfRange name x)) else Inr x)"
  by (cases "lookup raw name") (simp_all add: nonNegative_def)

lemma positive_alt:
  "positive c raw name = (let v = lookup raw name in if v = ANil then Inr None
     else case toFloat v of None \<Rightarrow> Inl (errf c (NotNumber name v))
       | Some x \<Rightarrow> if is_nan x \<or> is_inf x then Inl (errf c (NotFinite name v))
           else if fle x (Fin 0) then Inl (errf c (OutOfRange name x)) else Inr (Some x))"
  by (cases "lookup raw name") (simp_all add: positive_def)

lemma nonNegative_Inr:
  "nonNegative c raw name def = Inr x \<Longrightarrow> fin_pos0 def \<Longrightarrow> fin_pos0 x"
  using nonneg_f64[of x] by (auto simp: nonNegative_alt Let_def split: option.splits if_splits)

lemma nonNegative_value [simp]:
  "lookup raw name = AFloat x \<Longrightarrow> fin_pos0 x \<Longrightarrow> nonNegative c raw name def = Inr x"
  using nonneg_f64[of x] by (simp add: nonNegative_def)

lemma positive_Inr: "positive c raw name = Inr (Some x) \<Longrightarrow> \<exists>q. x = Fin q \<and> 0 < q"
  using positive_f64[of x] by (auto simp: positive_alt Let_def split: option.splits if_splits)

lemma positive_value [simp]:
  "lookup raw name = AFloat (Fin q) \<Longrightarrow> 0 < q \<Longrightarrow> positive c raw name = Inr (Some (Fin q))"
  by (simp add: positive_def is_nan_def is_inf_def)

lemma positive_absent [simp]: "lookup raw name = ANil \<Longrightarrow> positive c raw name = Inr None"
  by (simp add: positive_def)

lemma as_text_Some: "as_text v = Some s \<longleftrightarrow> v = AStr s \<and> \<not> blank s"
  by (auto simp: as_text_def split: any.splits if_splits)

section \<open>Predicates\<close>

definition leaf_value_ok :: "string \<Rightarrow> any \<Rightarrow> bool" where
  "leaf_value_ok op v \<longleftrightarrow>
     (if op \<in> set booleanOps then v = ANil
      else if op \<in> set orderedOps \<or> op \<in> set durationOps then (\<exists>x. v = AFloat x \<and> fin_pos0 x)
      else (\<exists>s. v = AStr s) \<or> (\<exists>b. v = ABool b) \<or> (\<exists>q. v = AFloat (Fin q)))"

text \<open>A predicate whose groups nest at most \<open>n\<close> deep.\<close>

fun pred_wf :: "nat \<Rightarrow> predicate \<Rightarrow> bool" where
  "pred_wf n (Pred f op v [] []) \<longleftrightarrow> \<not> blank f \<and> op \<in> set Comparators \<and> leaf_value_ok op v"
| "pred_wf 0 (Pred f op v ps qs) \<longleftrightarrow> False"
| "pred_wf (Suc n) (Pred f op v ps qs) \<longleftrightarrow> f = [] \<and> op = [] \<and> v = ANil \<and> (ps = [] \<or> qs = [])
     \<and> (\<forall>p \<in> set ps. pred_wf n p) \<and> (\<forall>p \<in> set qs. pred_wf n p)"

text \<open>The levels of grouping left at a depth under a schema version: none under version 1, two under version 2.\<close>

definition groups_left :: "int \<Rightarrow> nat \<Rightarrow> nat" where
  "groups_left version depth = (if version < SchemaVersion2 then 0 else 2 - depth)"

fun encode_pred :: "predicate \<Rightarrow> table" where
  "encode_pred (Pred f op v ps qs) =
     (if qs \<noteq> [] then [(''any'', AMaps (map encode_pred qs))]
      else if ps \<noteq> [] then [(''all'', AMaps (map encode_pred ps))]
      else [(''field'', AStr f), (''op'', AStr op)] @ (if v = ANil then [] else [(''value'', v)]))"

lemma validatePredicateValue_ok:
  assumes "validatePredicateValue c t op = Inr v"
  shows "leaf_value_ok op v"
proof -
  consider "op \<in> set booleanOps" | "op \<notin> set booleanOps" "op \<in> set orderedOps \<or> op \<in> set durationOps"
    | (eq) "op \<notin> set booleanOps" "\<not> (op \<in> set orderedOps \<or> op \<in> set durationOps)" by blast
  then show ?thesis
  proof cases
    case 1
    then show ?thesis using assms
      by (simp add: validatePredicateValue_def leaf_value_ok_def Let_def split: if_splits)
  next
    case 2
    then have c: "(op \<in> set orderedOps \<or> op \<in> set durationOps) = True" by blast
    show ?thesis using assms 2(1) nonneg_f64 unfolding validatePredicateValue_def Let_def c
      by (auto simp: leaf_value_ok_def c split: option.splits if_splits)
  next
    case eq
    then have c: "(op \<in> set orderedOps \<or> op \<in> set durationOps) = False" by blast
    show ?thesis using assms eq(1) finite_f64 unfolding validatePredicateValue_def Let_def c
      by (cases "lookup t ''value''") (auto simp: leaf_value_ok_def c dest: sym split: option.splits if_splits)
  qed
qed

lemma validateLeaf_ok: "validateLeaf c t = Inr p \<Longrightarrow> pred_wf n p"
  by (auto simp: validateLeaf_def Let_def as_text_Some split: if_splits option.splits any.splits
      dest: validatePredicateValue_ok)

lemma validatePredicate_ok:
  "validatePredicate c raw version depth = Inr p \<Longrightarrow> pred_wf (groups_left version depth) p"
  "validateGroup c t version depth hasAll hasAny = Inr p \<Longrightarrow> pred_wf (groups_left version depth) p"
proof (induction c raw version depth and c t version depth hasAll hasAny arbitrary: p and p
    rule: validatePredicate_validateGroup.induct)
  case (1 c raw version depth)
  then show ?case
    by (auto simp: validatePredicate.simps[of c raw] Let_def split: any.splits if_splits
        intro: validateLeaf_ok)
next
  case (2 c t version depth hasAll hasAny)
  let ?key = "if hasAny then ''any'' else ''all''"
  from 2(2) obtain children ps where v: "\<not> version < SchemaVersion2" "\<not> (hasAll \<and> hasAny)" "\<not> 2 \<le> depth"
      "unknownKeys t groupFields = []" "asMaps (lookup t ?key) = Some children" "children \<noteq> []"
    and ps: "map_res (\<lambda>child. validatePredicate c (AMap child) version (Suc depth)) children = Inr ps"
    and p: "p = (if hasAny then Pred [] [] ANil [] ps else Pred [] [] ANil ps [])"
    by (auto simp: validateGroup.simps[of c t] Let_def split: if_splits option.splits)
  have g: "groups_left version depth = Suc (groups_left version (Suc depth))"
    using v by (simp add: groups_left_def)
  have "pred_wf (groups_left version (Suc depth)) q" if q: "q \<in> set ps" for q
  proof -
    obtain child where ch: "child \<in> set children"
      and e: "validatePredicate c (AMap child) version (Suc depth) = Inr q"
      using map_res_mem[OF ps q] by blast
    show ?thesis by (rule 2(1)[OF refl refl v(1) v(2) _ v(3) v(5) v(6) ch e]) (use v(4) in simp)
  qed
  then show ?case using ps v(6) by (cases ps) (auto simp: p g map_res_Inr)
qed

lemma lookup_Cons [simp]: "lookup ((k, v) # t) i = (if i = k then v else lookup t i)"
  by (simp add: lookup_def)

lemma lookup_Nil [simp]: "lookup [] i = ANil"
  by (simp add: lookup_def)

lemma present_Cons [simp]: "present ((k, v) # t) i \<longleftrightarrow> i = k \<or> present t i"
  by (simp add: present_def)

lemma present_Nil [simp]: "\<not> present [] i"
  by (simp add: present_def)

lemma unknownKeys_Nil: "unknownKeys t allowed = [] \<longleftrightarrow> set (keys t) \<subseteq> set allowed"
proof -
  have "unknownKeys t allowed = [] \<longleftrightarrow> filter (\<lambda>k. k \<notin> set allowed) (keys t) = []"
    unfolding unknownKeys_def by (metis set_sort set_empty)
  then show ?thesis by (auto simp: filter_empty_conv)
qed

lemma missing_Nil: "missing t required = [] \<longleftrightarrow> (\<forall>k \<in> set required. present t k)"
proof -
  have "missing t required = [] \<longleftrightarrow> filter (\<lambda>k. \<not> present t k) required = []"
    unfolding missing_def by (metis set_sort set_empty)
  then show ?thesis by (auto simp: filter_empty_conv)
qed

lemma validatePredicateValue_encoded:
  assumes "op \<in> set Comparators" "leaf_value_ok op v"
  shows "validatePredicateValue c ([(''field'', AStr f), (''op'', AStr op)] @ (if v = ANil then [] else [(''value'', v)])) op
     = Inr v"
proof -
  consider "op \<in> set booleanOps" | "op \<notin> set booleanOps" "op \<in> set orderedOps \<or> op \<in> set durationOps"
    | (eq) "op \<notin> set booleanOps" "\<not> (op \<in> set orderedOps \<or> op \<in> set durationOps)" by blast
  then show ?thesis
  proof cases
    case 1
    then show ?thesis using assms by (simp add: leaf_value_ok_def validatePredicateValue_def)
  next
    case 2
    then have c: "(op \<in> set orderedOps \<or> op \<in> set durationOps) = True" by blast
    obtain x where x: "v = AFloat x" "fin_pos0 x" using 2(1) assms(2) by (auto simp: leaf_value_ok_def c)
    then show ?thesis using 2(1) nonneg_f64[of x] unfolding validatePredicateValue_def Let_def c by simp
  next
    case eq
    then have c: "(op \<in> set orderedOps \<or> op \<in> set durationOps) = False" by blast
    have "(\<exists>s. v = AStr s) \<or> (\<exists>b. v = ABool b) \<or> (\<exists>q. v = AFloat (Fin q))"
      using eq(1) assms(2) by (simp add: leaf_value_ok_def c)
    then show ?thesis using eq(1) unfolding validatePredicateValue_def Let_def c
      by (auto simp: is_nan_def is_inf_def)
  qed
qed

lemma encode_pred_keys: "set (keys (encode_pred p)) \<subseteq>
    (if p_Any p \<noteq> [] then {''any''} else if p_All p \<noteq> [] then {''all''} else {''field'', ''op'', ''value''})"
  by (cases p) (simp add: keys_def)

lemma pred_wf_group:
  "ps \<noteq> [] \<or> qs \<noteq> [] \<Longrightarrow> pred_wf n (Pred f op v ps qs) \<longleftrightarrow> 0 < n \<and> f = [] \<and> op = [] \<and> v = ANil
     \<and> (ps = [] \<or> qs = []) \<and> (\<forall>p \<in> set (ps @ qs). pred_wf (n - 1) p)"
  by (cases n; cases ps; cases qs) auto

lemma validateLeaf_encoded:
  assumes "pred_wf n (Pred f op v [] [])"
  shows "validateLeaf c (encode_pred (Pred f op v [] [])) = Inr (Pred f op v [] [])"
proof -
  let ?t = "[(''field'', AStr f), (''op'', AStr op)] @ (if v = ANil then [] else [(''value'', v)])"
  have v: "validatePredicateValue c ?t op = Inr v"
    by (rule validatePredicateValue_encoded) (use assms in auto)
  have u: "unknownKeys ?t predicateFields = []"
    by (simp add: unknownKeys_Nil keys_def predicateFields_def)
  have tx: "as_text (lookup ?t ''field'') = Some f" using assms by (simp add: as_text_Some)
  have op: "lookup ?t ''op'' = AStr op" by simp
  have e: "encode_pred (Pred f op v [] []) = ?t" by simp
  show ?thesis using assms v unfolding validateLeaf_def Let_def e u tx op by simp
qed

lemma validatePredicate_encoded:
  "pred_wf (groups_left version depth) p \<Longrightarrow> validatePredicate c (AMap (encode_pred p)) version depth = Inr p"
proof (induction p arbitrary: depth)
  case (Pred f op v ps qs)
  show ?case
  proof (cases "ps = [] \<and> qs = []")
    case True
    then have "\<not> present (encode_pred (Pred f op v ps qs)) ''all''" "\<not> present (encode_pred (Pred f op v ps qs)) ''any''"
      by auto
    then show ?thesis using True Pred.prems validateLeaf_encoded
      by (simp add: validatePredicate.simps[of c "AMap _"] Let_def del: encode_pred.simps)
  next
    case False
    define cs where "cs = (if qs = [] then ps else qs)"
    have w: "0 < groups_left version depth" "f = []" "op = []" "v = ANil" "ps = [] \<or> qs = []"
      "\<forall>p \<in> set (ps @ qs). pred_wf (groups_left version depth - 1) p"
      using False Pred.prems pred_wf_group[of ps qs] by blast+
    have g: "\<not> version < SchemaVersion2" "\<not> 2 \<le> depth"
      "groups_left version depth - 1 = groups_left version (Suc depth)"
      using w(1) by (auto simp: groups_left_def split: if_splits)
    have "validatePredicate c (AMap (encode_pred q)) version (Suc depth) = Inr q" if "q \<in> set cs" for q
      using that Pred.IH w(6) unfolding g(3) by (auto simp: cs_def split: if_splits)
    then have m: "map_res (\<lambda>child. validatePredicate c (AMap child) version (Suc depth)) (map encode_pred cs) = Inr cs"
      by (auto simp: map_res_Inr list.rel_map intro: list.rel_refl_strong)
    have e: "encode_pred (Pred f op v ps qs) = [(if qs \<noteq> [] then ''any'' else ''all'', AMaps (map encode_pred cs))]"
      using False by (auto simp: cs_def)
    have "cs \<noteq> []" using False by (auto simp: cs_def)
    show ?thesis
      using m g(1,2) w(2-5) \<open>cs \<noteq> []\<close> unfolding e
      by (auto simp: validatePredicate.simps[of c "AMap _"] validateGroup.simps[of c] Let_def cs_def
          unknownKeys_Nil keys_def groupFields_def split: if_splits)
  qed
qed

section \<open>Rules\<close>

text \<open>A decoded document: every table in it has each key once.\<close>

fun any_ok :: "any \<Rightarrow> bool" where
  "any_ok (AMap t) \<longleftrightarrow> distinct (map fst t) \<and> (\<forall>kv \<in> set t. any_ok (snd kv))"
| "any_ok (AMaps ts) \<longleftrightarrow> (\<forall>t \<in> set ts. distinct (map fst t) \<and> (\<forall>kv \<in> set t. any_ok (snd kv)))"
| "any_ok (AList vs) \<longleftrightarrow> (\<forall>v \<in> set vs. any_ok v)"
| "any_ok _ \<longleftrightarrow> True"

lemma lookup_ok: "any_ok (AMap t) \<Longrightarrow> any_ok (lookup t k)"
  by (fastforce simp: lookup_def split: option.splits dest: map_of_SomeD)

lemma all_maps_mem: "all_maps vs = Some ts \<Longrightarrow> t \<in> set ts \<Longrightarrow> AMap t \<in> set vs"
proof (induction vs arbitrary: ts)
  case (Cons v vs)
  then show ?case by (cases v) (auto split: option.splits)
qed simp

lemma asMaps_ok: "any_ok v \<Longrightarrow> asMaps v = Some ts \<Longrightarrow> t \<in> set ts \<Longrightarrow> any_ok (AMap t)"
  using all_maps_mem by (cases v) fastforce+

definition params_wf :: "f64 gomap \<Rightarrow> bool" where
  "params_wf ps \<longleftrightarrow> sorted (keys ps) \<and> distinct (keys ps) \<and> (\<forall>kv \<in> set ps. \<exists>q. snd kv = Fin q)"

definition say_ok :: "string \<Rightarrow> bool" where
  "say_ok s \<longleftrightarrow> s = [] \<or> (\<not> blank s \<and> RuneCount s \<le> MaxSayChars)"

definition rule_wf :: "int \<Rightarrow> rule \<Rightarrow> bool" where
  "rule_wf version r \<longleftrightarrow>
     \<not> blank (r_ID r) \<and> pred_wf (groups_left version 0) (r_When r)
     \<and> fin_pos0 (r_CooldownS r) \<and> fin_pos0 (r_Hysteresis r)
     \<and> (r_Kind r = KindReact \<and> \<not> blank (r_Run r) \<and> r_Disable r = [] \<and> params_wf (r_Params r)
          \<and> (r_DurationS r = None \<or> (\<exists>q. r_DurationS r = Some (Fin q) \<and> 0 < q)) \<and> say_ok (r_Say r)
        \<or> r_Kind r = KindInhibit \<and> r_Disable r \<noteq> [] \<and> sorted (r_Disable r) \<and> distinct (r_Disable r)
          \<and> (\<forall>n \<in> set (r_Disable r). \<not> blank n)
          \<and> r_Run r = [] \<and> r_Params r = [] \<and> r_DurationS r = None \<and> r_Say r = [])"

lemma keys_Cons [simp]: "keys ((k, v) # m) = k # keys m" and keys_Nil [simp]: "keys [] = []"
  by (simp_all add: keys_def)

lemma keyed_map_res:
  assumes "map_res f xs = Inr ys" "\<And>x y. f x = Inr y \<Longrightarrow> fst y = x"
  shows "keys ys = xs"
  using assms(1) unfolding map_res_Inr keys_def by (induction rule: list_all2_induct) (auto dest: assms(2))

lemma validateParam_Inr: "validateParam c t k = Inr y \<Longrightarrow> fst y = k \<and> (\<exists>q. snd y = Fin q)"
  using finite_f64 by (auto simp: validateParam_def split: option.splits if_splits)

lemma validateParams_wf:
  assumes "validateParams c raw = Inr ps" "any_ok raw"
  shows "params_wf ps"
proof (cases raw)
  case (AMap t)
  then have m: "map_res (validateParam c t) (sortedMapKeys t) = Inr ps"
    using assms(1) by (simp add: validateParams_def)
  have "keys ps = sortedMapKeys t" by (rule keyed_map_res[OF m]) (auto dest: validateParam_Inr)
  moreover have "\<exists>q. snd y = Fin q" if "y \<in> set ps" for y
    using map_res_mem[OF m that] validateParam_Inr by blast
  ultimately show ?thesis using assms(2) AMap by (auto simp: params_wf_def sortedMapKeys_def keys_def)
qed (use assms in \<open>simp_all add: validateParams_def params_wf_def\<close>)

lemma sorted_self: "sorted xs \<Longrightarrow> sort xs = xs"
  by (simp add: sorted_sort_id)

lemma validateParams_encoded:
  assumes "params_wf ps"
  shows "validateParams c (AMap (map (\<lambda>(k, x). (k, AFloat x)) ps)) = Inr ps"
proof -
  let ?t = "map (\<lambda>(k, x). (k, AFloat x)) ps"
  have d: "distinct (map fst ps)" using assms by (simp add: params_wf_def keys_def)
  have k: "keys ?t = map fst ps" by (simp add: keys_def comp_def case_prod_beta)
  then have sk: "sortedMapKeys ?t = map fst ps"
    using assms unfolding sortedMapKeys_def k by (simp add: params_wf_def keys_def sorted_self)
  have "validateParam c ?t (fst kv) = Inr kv" if kv: "kv \<in> set ps" for kv
  proof -
    obtain a x where p: "kv = (a, x)" by (cases kv)
    have "map_of ?t a = Some (AFloat x)"
      by (rule map_of_is_SomeI) (use d kv p in \<open>force simp: comp_def case_prod_beta\<close>)+
    moreover obtain q where "x = Fin q" using assms kv p by (auto simp: params_wf_def)
    ultimately show ?thesis by (simp add: p validateParam_def lookup_def is_nan_def is_inf_def)
  qed
  then have "map_res (validateParam c ?t) (map fst ps) = Inr ps"
    by (auto simp: map_res_Inr list.rel_map intro: list.rel_refl_strong)
  then show ?thesis by (simp add: validateParams_def sk)
qed

lemma disableNames_Inr:
  "disableNames c ns items = Inr ms \<Longrightarrow> distinct ns \<Longrightarrow> \<forall>n \<in> set ns. \<not> blank n \<Longrightarrow>
     distinct ms \<and> (\<forall>n \<in> set ms. \<not> blank n) \<and> set ns \<subseteq> set ms \<and> (items \<noteq> [] \<longrightarrow> ms \<noteq> [])"
proof (induction items arbitrary: ns)
  case (Cons item items)
  from Cons.prems(1) obtain n where n: "as_text item = Some n"
    and r: "disableNames c (if n \<in> set ns then ns else ns @ [n]) items = Inr ms"
    by (auto split: option.splits)
  have b: "\<not> blank n" using n by (simp add: as_text_Some)
  have "distinct ms \<and> (\<forall>n \<in> set ms. \<not> blank n)
      \<and> set (if n \<in> set ns then ns else ns @ [n]) \<subseteq> set ms \<and> (items \<noteq> [] \<longrightarrow> ms \<noteq> [])"
    by (rule Cons.IH[OF r]) (use Cons.prems b in auto)
  then have m: "distinct ms" "\<forall>n \<in> set ms. \<not> blank n" "set ns \<subseteq> set ms" "n \<in> set ms"
    by (auto split: if_splits)
  then have "ms \<noteq> []" by auto
  then show ?case using m by simp
qed auto

lemma sort_Nil_iff [simp]: "sort xs = [] \<longleftrightarrow> xs = []"
  by (metis set_sort set_empty)

lemma validateDisable_wf:
  "validateDisable c raw = Inr ds \<Longrightarrow> ds \<noteq> [] \<and> sorted ds \<and> distinct ds \<and> (\<forall>n \<in> set ds. \<not> blank n)"
  by (cases raw) (auto simp: validateDisable_def split: if_splits dest!: disableNames_Inr)

lemma disableNames_encoded:
  "distinct (ns @ ds) \<Longrightarrow> \<forall>n \<in> set ds. \<not> blank n \<Longrightarrow> disableNames c ns (map AStr ds) = Inr (ns @ ds)"
  by (induction ds arbitrary: ns) (auto simp: as_text_def)

lemma validateDisable_encoded:
  assumes "ds \<noteq> []" "sorted ds" "distinct ds" "\<forall>n \<in> set ds. \<not> blank n"
  shows "validateDisable c (AList (map AStr ds)) = Inr ds"
  using assms disableNames_encoded[of "[]" ds c] by (simp add: validateDisable_def sorted_self)

lemma validateSay_wf: "validateSay c raw = Inr s \<Longrightarrow> say_ok s"
  by (auto simp: validateSay_def say_ok_def as_text_Some split: if_splits option.splits)

lemma validateSay_encoded: "say_ok s \<Longrightarrow> validateSay c (if s = [] then ANil else AStr s) = Inr s"
  by (auto simp: validateSay_def say_ok_def as_text_def)

lemma validateReact_wf:
  assumes "validateReact rc raw r = Inr r'" "any_ok (AMap raw)"
  shows "\<exists>run d ps say. r' = r\<lparr>r_Run := run, r_DurationS := d, r_Params := ps, r_Say := say\<rparr>
     \<and> \<not> blank run \<and> (d = None \<or> (\<exists>q. d = Some (Fin q) \<and> 0 < q)) \<and> params_wf ps \<and> say_ok say"
proof -
  obtain run d ps say where run: "as_text (lookup raw ''run'') = Some run"
    and d: "positive rc raw ''duration_s'' = Inr d" and ps: "validateParams rc (lookup raw ''params'') = Inr ps"
    and say: "validateSay rc (lookup raw ''say'') = Inr say"
    and r': "r' = r\<lparr>r_Run := run, r_DurationS := d, r_Params := ps, r_Say := say\<rparr>"
    using assms(1) by (auto simp: validateReact_def split: option.splits)
  have "d = None \<or> (\<exists>q. d = Some (Fin q) \<and> 0 < q)" using d positive_Inr by (cases d) auto
  then show ?thesis
    using run validateParams_wf[OF ps lookup_ok[OF assms(2)]] validateSay_wf[OF say]
    unfolding r' as_text_Some by blast
qed

lemma default_pos0 [simp]: "fin_pos0 DefaultCooldownS" "fin_pos0 DefaultHysteresis"
  by (auto simp: fin_pos0_def DefaultCooldownS_def DefaultHysteresis_def)

lemma KindInhibit_neq [simp]: "KindReact \<noteq> KindInhibit" "KindInhibit \<noteq> KindReact"
  by (simp_all add: KindReact_def KindInhibit_def)

lemma validateRule_wf:
  assumes "validateRule c kind raw version = Inr (Live r)" "kind \<in> {KindReact, KindInhibit}" "any_ok (AMap raw)"
  shows "rule_wf version r \<and> r_Kind r = kind \<and> r_Source r = [] \<and> lookup raw ''id'' = AStr (r_ID r)"
proof -
  define rc where "rc = cx_rule c (ruleLabel kind raw)"
  obtain i w cd hy where i: "as_text (lookup raw ''id'') = Some i"
    and w: "validatePredicate rc (lookup raw ''when'') version 0 = Inr w"
    and cd: "nonNegative rc raw ''cooldown_s'' DefaultCooldownS = Inr cd"
    and hy: "nonNegative rc raw ''hysteresis'' DefaultHysteresis = Inr hy"
    and rest: "(let r = \<lparr>r_ID = i, r_Kind = kind, r_When = w, r_Run = [], r_Disable = [], r_Params = [],
                       r_CooldownS = cd, r_Hysteresis = hy, r_DurationS = None, r_Say = [],
                       r_Source = []\<rparr> in
              if kind = KindInhibit
              then rbind (validateDisable rc (lookup raw ''disable'')) (\<lambda>ds.
                     Inr (Live (r\<lparr>r_Disable := ds\<rparr>)))
              else rbind (validateReact rc raw r) (\<lambda>r'. Inr (Live r'))) = Inr (Live r)"
    using assms(1) unfolding validateRule_def Let_def rc_def[symmetric]
    by (auto split: if_splits option.splits)
  note num = nonNegative_Inr[OF cd default_pos0(1)] nonNegative_Inr[OF hy default_pos0(2)]
  show ?thesis
  proof (cases "kind = KindInhibit")
    case True
    then show ?thesis
      using rest i validatePredicate_ok(1)[OF w] num validateDisable_wf
      by (auto simp: rule_wf_def as_text_Some)
  next
    case False
    then obtain r0 where "validateReact rc raw r0 = Inr r"
      and r0: "r0 = \<lparr>r_ID = i, r_Kind = kind, r_When = w, r_Run = [], r_Disable = [], r_Params = [],
                       r_CooldownS = cd, r_Hysteresis = hy, r_DurationS = None, r_Say = [],
                       r_Source = []\<rparr>" using rest by (auto simp: Let_def)
    from validateReact_wf[OF this(1) assms(3)] show ?thesis
      using False assms(2) i validatePredicate_ok(1)[OF w] num by (auto simp: rule_wf_def as_text_Some r0)
  qed
qed

lemma validateRule_tombstone:
  "validateRule c kind raw version = Inr (Tombstone i) \<Longrightarrow> lookup raw ''id'' = AStr i \<and> \<not> blank i"
  by (auto simp: validateRule_def Let_def as_text_Some split: if_splits option.splits)

text \<open>The document of a rule.\<close>

definition encode_rule :: "rule \<Rightarrow> table" where
  "encode_rule r =
     [(''id'', AStr (r_ID r)), (''when'', AMap (encode_pred (r_When r))),
      (''cooldown_s'', AFloat (r_CooldownS r)), (''hysteresis'', AFloat (r_Hysteresis r))]
     @ (if r_Kind r = KindInhibit then [(''disable'', AList (map AStr (r_Disable r)))]
        else [(''run'', AStr (r_Run r)), (''params'', AMap (map (\<lambda>(k, x). (k, AFloat x)) (r_Params r)))]
          @ (if r_Say r = [] then [] else [(''say'', AStr (r_Say r))])
          @ (case r_DurationS r of None \<Rightarrow> [] | Some d \<Rightarrow> [(''duration_s'', AFloat d)]))"

lemma lookup_if: "lookup (if b then t else u) k = (if b then lookup t k else lookup u k)"
  by simp

lemma lookup_say: "lookup ((if s = [] then [] else [(''say'', AStr s)]) @ t) ''say'' =
   (if s = [] then lookup t ''say'' else AStr s)"
  by simp

lemma encode_rule_ok:
  assumes "rule_wf version r"
  shows "unknownKeys (encode_rule r) (if r_Kind r = KindInhibit then inhibitFields else reactFields) = []"
    "missing (encode_rule r) (if r_Kind r = KindInhibit then inhibitRequired else reactRequired) = []"
    "isTombstone c (encode_rule r) = Inr False"
    "lookup (encode_rule r) ''id'' = AStr (r_ID r)"
    "lookup (encode_rule r) ''when'' = AMap (encode_pred (r_When r))"
    "lookup (encode_rule r) ''cooldown_s'' = AFloat (r_CooldownS r)"
    "lookup (encode_rule r) ''hysteresis'' = AFloat (r_Hysteresis r)"
  by (auto simp: encode_rule_def unknownKeys_Nil missing_Nil inhibitFields_def reactFields_def
      inhibitRequired_def reactRequired_def keys_def isTombstone_def split: option.splits)

lemma validateReact_encoded:
  assumes "rule_wf version r" "r_Kind r = KindReact"
  shows "validateReact rc (encode_rule r) (r\<lparr>r_Run := [], r_DurationS := None, r_Params := [], r_Say := []\<rparr>) = Inr r"
proof -
  let ?t = "encode_rule r"
  have run: "as_text (lookup ?t ''run'') = Some (r_Run r)"
    using assms by (simp add: rule_wf_def encode_rule_def as_text_def)
  have ps: "validateParams rc (lookup ?t ''params'') = Inr (r_Params r)"
    using assms validateParams_encoded by (simp add: rule_wf_def encode_rule_def)
  have d: "positive rc ?t ''duration_s'' = Inr (r_DurationS r)"
    using assms by (auto simp: rule_wf_def encode_rule_def)
  have "lookup ?t ''say'' = (if r_Say r = [] then ANil else AStr (r_Say r))"
    using assms by (simp add: encode_rule_def split: option.splits)
  then have say: "validateSay rc (lookup ?t ''say'') = Inr (r_Say r)"
    using assms validateSay_encoded by (simp add: rule_wf_def)
  show ?thesis by (simp add: validateReact_def run ps d say)
qed

lemma validateRule_encoded:
  assumes "rule_wf version r" "r_Source r = []"
  shows "validateRule c (r_Kind r) (encode_rule r) version = Inr (Live r)"
proof -
  note e = encode_rule_ok[OF assms(1)]
  have i: "as_text (AStr (r_ID r)) = Some (r_ID r)" using assms(1) by (simp add: as_text_def rule_wf_def)
  have w: "validatePredicate rc (AMap (encode_pred (r_When r))) version 0 = Inr (r_When r)" for rc
    by (rule validatePredicate_encoded) (use assms(1) in \<open>simp add: rule_wf_def\<close>)
  have n: "nonNegative rc (encode_rule r) ''cooldown_s'' d = Inr (r_CooldownS r)"
    "nonNegative rc (encode_rule r) ''hysteresis'' d = Inr (r_Hysteresis r)" for rc d
    using assms(1) e(6,7) by (simp_all add: rule_wf_def)
  consider (i) "r_Kind r = KindInhibit" | (r) "r_Kind r = KindReact" using assms(1) by (auto simp: rule_wf_def)
  then show ?thesis
  proof cases
    case i
    have ds: "validateDisable rc (lookup (encode_rule r) ''disable'') = Inr (r_Disable r)" for rc
      using validateDisable_encoded[of "r_Disable r"] assms(1) i by (simp add: rule_wf_def encode_rule_def)
    show ?thesis using e i ds w n assms unfolding validateRule_def Let_def
      by (simp add: as_text_def rule_wf_def)
  next
    case r
    have r0: "r\<lparr>r_Run := [], r_DurationS := None, r_Params := [], r_Say := []\<rparr> =
        \<lparr>r_ID = r_ID r, r_Kind = KindReact, r_When = r_When r, r_Run = [], r_Disable = [], r_Params = [],
         r_CooldownS = r_CooldownS r, r_Hysteresis = r_Hysteresis r, r_DurationS = None, r_Say = [],
         r_Source = []\<rparr>"
      using r assms by (simp add: rule_wf_def)
    show ?thesis using e r w n assms validateReact_encoded[OF assms(1) r, unfolded r0] unfolding validateRule_def Let_def
      by (simp add: as_text_def rule_wf_def)
  qed
qed

section \<open>Events\<close>

definition opt_text_ok :: "string \<Rightarrow> bool" where
  "opt_text_ok s \<longleftrightarrow> s = [] \<or> \<not> blank s"

definition event_wf :: "event \<Rightarrow> bool" where
  "event_wf e \<longleftrightarrow> \<not> blank (ev_Source e) \<and> \<not> blank (ev_Type e) \<and> ev_Priority e \<in> set priorities
     \<and> ev_Urgency e \<in> set urgencies \<and> ev_Voice e \<in> set voices \<and> opt_text_ok (ev_InjectTemplate e)
     \<and> opt_text_ok (ev_Sense e) \<and> opt_text_ok (ev_Dedupe e)"

definition default_wf :: "event_default \<Rightarrow> bool" where
  "default_wf d \<longleftrightarrow> ed_Priority d \<in> set priorities \<and> ed_Urgency d \<in> set urgencies \<and> ed_Voice d \<in> set voices"

lemma requiredEnum_Inr: "requiredEnum c raw name dm = Inr s \<longleftrightarrow> lookup raw name = AStr s \<and> s \<in> set dm"
  by (cases "lookup raw name") (auto simp: requiredEnum_def)

lemma optionalEnum_Inr:
  "optionalEnum c raw name dm def = Inr s \<longleftrightarrow>
     (lookup raw name = ANil \<and> s = def) \<or> (lookup raw name = AStr s \<and> s \<in> set dm)"
  by (cases "lookup raw name") (auto simp: optionalEnum_def)

lemma optionalString_Inr:
  "optionalString c raw name = Inr s \<longleftrightarrow>
     (lookup raw name = ANil \<and> s = []) \<or> (lookup raw name = AStr s \<and> \<not> blank s)"
  by (cases "lookup raw name") (auto simp: optionalString_def as_text_def)

lemma DefaultVoice_voice [simp]: "DefaultVoice \<in> set voices"
  by (simp add: DefaultVoice_def voices_def)

lemma validateEventBody_wf:
  assumes "validateEventBody rc raw src ty = Inr e" "\<not> blank src" "\<not> blank ty"
  shows "event_wf e \<and> ev_Source e = src \<and> ev_Type e = ty \<and> ev_Path e = []"
proof -
  have opt: "opt_text_ok s" if "optionalString c raw n = Inr s" for c n s
    using that by (auto simp: optionalString_Inr opt_text_ok_def)
  have voice: "s \<in> set voices" if "optionalEnum c raw n voices DefaultVoice = Inr s" for c n s
    using that by (auto simp: optionalEnum_Inr)
  obtain p u l v t sn d where
    "requiredEnum rc raw ''priority'' priorities = Inr p" "requiredEnum rc raw ''urgency'' urgencies = Inr u"
    "optionalBool rc raw ''llm_evaluate'' DefaultLLMEvaluate = Inr l"
    and v: "optionalEnum rc raw ''voice'' voices DefaultVoice = Inr v"
    and t: "optionalString rc raw ''inject_template'' = Inr t"
    and sn: "optionalString rc raw ''sense'' = Inr sn" and d: "optionalString rc raw ''dedupe'' = Inr d"
    and e: "e = \<lparr>ev_Source = src, ev_Type = ty, ev_Priority = p, ev_Urgency = u, ev_LLMEvaluate = l,
        ev_InjectTemplate = t, ev_Voice = v, ev_Sense = sn, ev_Dedupe = d, ev_Path = []\<rparr>"
    using assms(1) unfolding validateEventBody_def rbind_Inr_iff by blast
  then show ?thesis using assms(2,3) opt[OF t] opt[OF sn] opt[OF d] voice[OF v]
    by (simp add: event_wf_def e requiredEnum_Inr)
qed

lemma validateEvent_wf:
  assumes "validateEvent c raw = Inr (Live e)"
  shows "event_wf e \<and> ev_Path e = [] \<and> lookup raw ''source'' = AStr (ev_Source e) \<and> lookup raw ''type'' = AStr (ev_Type e)"
  using assms
  by (auto simp: validateEvent_def Let_def as_text_Some split: if_splits option.splits dest!: validateEventBody_wf)

definition encode_event :: "event \<Rightarrow> table" where
  "encode_event e =
     [(''source'', AStr (ev_Source e)), (''type'', AStr (ev_Type e)), (''priority'', AStr (ev_Priority e)),
      (''urgency'', AStr (ev_Urgency e)), (''llm_evaluate'', ABool (ev_LLMEvaluate e)),
      (''voice'', AStr (ev_Voice e))]
     @ (if ev_InjectTemplate e = [] then [] else [(''inject_template'', AStr (ev_InjectTemplate e))])
     @ (if ev_Sense e = [] then [] else [(''sense'', AStr (ev_Sense e))])
     @ (if ev_Dedupe e = [] then [] else [(''dedupe'', AStr (ev_Dedupe e))])"

lemma validateEvent_encoded:
  assumes "event_wf e" "ev_Path e = []"
  shows "validateEvent c (encode_event e) = Inr (Live e)"
proof -
  let ?t = "encode_event e"
  have u: "unknownKeys ?t eventFields = []" "missing ?t eventRequired = []"
    by (auto simp: encode_event_def unknownKeys_Nil missing_Nil eventFields_def eventRequired_def keys_def)
  have tx: "as_text (lookup ?t ''source'') = Some (ev_Source e)" "as_text (lookup ?t ''type'') = Some (ev_Type e)"
    using assms(1) by (simp_all add: encode_event_def event_wf_def as_text_def)
  have enb: "isTombstone rc ?t = Inr False" for rc by (simp add: isTombstone_def encode_event_def)
  have tbl: "requiredEnum rc ?t ''priority'' priorities = Inr (ev_Priority e)"
    "requiredEnum rc ?t ''urgency'' urgencies = Inr (ev_Urgency e)"
    "optionalBool rc ?t ''llm_evaluate'' b = Inr (ev_LLMEvaluate e)"
    "optionalEnum rc ?t ''voice'' voices v = Inr (ev_Voice e)"
    "optionalString rc ?t ''inject_template'' = Inr (ev_InjectTemplate e)"
    "optionalString rc ?t ''sense'' = Inr (ev_Sense e)"
    "optionalString rc ?t ''dedupe'' = Inr (ev_Dedupe e)" for rc b v
    using assms(1) by (auto simp: requiredEnum_Inr optionalEnum_Inr optionalString_Inr optionalBool_def
        encode_event_def event_wf_def opt_text_ok_def)
  have b: "validateEventBody rc ?t (ev_Source e) (ev_Type e) = Inr e" for rc
    using assms(2) by (simp add: validateEventBody_def tbl)
  show ?thesis by (simp add: validateEvent_def u tx enb b)
qed

section \<open>Files\<close>

lemma firstDuplicate_None:
  "firstDuplicate seen is = None \<longleftrightarrow> distinct is \<and> set is \<inter> seen = {}"
  by (induction "is" arbitrary: seen) auto

definition modes_wf :: "f64 gomap gomap \<Rightarrow> bool" where
  "modes_wf ms \<longleftrightarrow> sorted (keys ms) \<and> distinct (keys ms) \<and> (\<forall>kv \<in> set ms. params_wf (snd kv))"

definition file_wf :: "string \<Rightarrow> rules_file \<Rightarrow> bool" where
  "file_wf path f \<longleftrightarrow> f_path f = path \<and> f_schemaVersion f \<in> {SchemaVersion1, SchemaVersion2}
     \<and> (\<forall>r \<in> set (f_ordered f). rule_wf (f_schemaVersion f) r \<and> r_Source r = path)
     \<and> distinct (ids (f_ordered f) @ f_disabled f)
     \<and> (\<forall>e \<in> set (f_events f). event_wf e \<and> ev_Path e = path)
     \<and> distinct (eventIDs (f_events f) @ f_eventDisabled f)
     \<and> modes_wf (f_modes f)
     \<and> (if f_modes f = [] then f_activeMode f = [] else f_activeMode f \<in> set (keys (f_modes f)))
     \<and> (\<forall>d. f_eventDefault f = Some d \<longrightarrow> default_wf d)"

lemma rule_wf_Source [simp]: "rule_wf v (r\<lparr>r_Source := p\<rparr>) = rule_wf v r"
  by (simp add: rule_wf_def)

lemma event_wf_Path [simp]: "event_wf (e\<lparr>ev_Path := p\<rparr>) = event_wf e"
  by (simp add: event_wf_def)

lemma validateModeParam_Inr: "validateModeParam c n body k = Inr y \<Longrightarrow> fst y = k \<and> (\<exists>q. snd y = Fin q)"
  using finite_f64 by (auto simp: validateModeParam_def split: option.splits if_splits)

lemma sorted_keyed_params:
  assumes "map_res f (sortedMapKeys t) = Inr ps" "distinct (map fst t)"
    and "\<And>k y. f k = Inr y \<Longrightarrow> fst y = k \<and> P (snd y)"
  shows "sorted (keys ps) \<and> distinct (keys ps) \<and> (\<forall>kv \<in> set ps. P (snd kv))"
proof -
  have "keys ps = sortedMapKeys t" by (rule keyed_map_res[OF assms(1)]) (auto dest: assms(3))
  moreover have "P (snd y)" if "y \<in> set ps" for y using map_res_mem[OF assms(1) that] assms(3) by blast
  ultimately show ?thesis using assms(2) by (simp add: sortedMapKeys_def keys_def)
qed

lemma validateMode_Inr:
  assumes "validateMode c t name = Inr y" "any_ok (AMap t)"
  shows "fst y = name \<and> params_wf (snd y)"
proof -
  obtain body ps where b: "lookup t name = AMap body"
    and ps: "map_res (validateModeParam c name body) (sortedMapKeys body) = Inr ps" "y = (name, ps)"
    using assms(1) by (auto simp: validateMode_def split: any.splits)
  have "any_ok (AMap body)" using lookup_ok[OF assms(2), of name] b by simp
  then have "distinct (map fst body)" by simp
  from sorted_keyed_params[OF ps(1) this validateModeParam_Inr] show ?thesis
    using ps(2) by (simp add: params_wf_def)
qed

lemma validateModes_wf:
  assumes "validateModes c raw = Inr ms" "any_ok raw"
  shows "modes_wf ms"
proof (cases raw)
  case (AMap t)
  then have m: "map_res (validateMode c t) (sortedMapKeys t) = Inr ms" and d: "distinct (map fst t)"
    using assms by (simp_all add: validateModes_def)
  show ?thesis unfolding modes_wf_def
    by (rule sorted_keyed_params[OF m d]) (use validateMode_Inr assms(2) AMap in blast)
qed (use assms in \<open>simp_all add: validateModes_def modes_wf_def\<close>)

lemma validateActiveMode_ok:
  "validateActiveMode c raw ms = Inr a \<Longrightarrow> if ms = [] then a = [] else a \<in> set (keys ms)"
  by (cases raw) (auto simp: validateActiveMode_def set_keys split: if_splits)

lemma validateEventDefault_wf: "validateEventDefault c raw = Inr (Some d) \<Longrightarrow> default_wf d"
  by (cases raw) (auto simp: validateEventDefault_def Let_def requiredEnum_Inr optionalEnum_Inr default_wf_def
      split: if_splits)

lemma readEntries_inv:
  assumes "readEntries c data key rd add f = Inr f'" "any_ok (AMap data)" "P f"
    and "\<And>t x g. rd t = Inr x \<Longrightarrow> any_ok (AMap t) \<Longrightarrow> P g \<Longrightarrow> P (add x g)"
  shows "P f'"
proof (cases "map_of data key")
  case None
  then show ?thesis using assms(1,3) by (simp add: readEntries_def)
next
  case (Some raw)
  then obtain es where es: "asMaps raw = Some es"
    and fd: "foldr_res (\<lambda>en f. rbind (rd en) (\<lambda>x. Inr (add x f))) es f = Inr f'"
    using assms(1) by (auto simp: readEntries_def split: option.splits)
  have "any_ok raw" using assms(2) Some by (auto dest: map_of_SomeD)
  then show ?thesis
    by (intro foldr_res_inv[where P = P, OF fd assms(3)]) (auto intro!: assms(4) intro: asMaps_ok[OF _ es])
qed

text \<open>The fields of the file that each array of entries fills.\<close>

definition rules_part :: "string \<Rightarrow> int \<Rightarrow> rules_file \<Rightarrow> bool" where
  "rules_part path v f \<longleftrightarrow> f_path f = path \<and> f_schemaVersion f = v
     \<and> (\<forall>r \<in> set (f_ordered f). rule_wf v r \<and> r_Source r = path)
     \<and> f_events f = [] \<and> f_eventDisabled f = [] \<and> f_eventDefault f = None"

definition events_part :: "string \<Rightarrow> rules_file \<Rightarrow> rules_file \<Rightarrow> bool" where
  "events_part path g f \<longleftrightarrow> (\<forall>e \<in> set (f_events f). event_wf e \<and> ev_Path e = path)
     \<and> f\<lparr>f_events := [], f_eventDisabled := []\<rparr> = g"

lemma addRule_part:
  assumes "validateRule c kind t v = Inr x" "kind \<in> {KindReact, KindInhibit}" "any_ok (AMap t)"
    and "rules_part path v f"
  shows "rules_part path v (addRule path x f)"
proof (cases x)
  case (Live r)
  then show ?thesis using validateRule_wf[of c kind t v r] assms
    by (auto simp: rules_part_def addRule_def)
qed (use assms in \<open>simp add: rules_part_def addRule_def\<close>)

lemma addEvent_part:
  assumes "validateEvent c t = Inr x" "events_part path g f"
  shows "events_part path g (addEvent path x f)"
proof (cases x)
  case (Live e)
  then show ?thesis using validateEvent_wf[of c t e] assms
    by (auto simp: events_part_def addEvent_def)
qed (use assms in \<open>simp add: events_part_def addEvent_def\<close>)

lemma validate_wf:
  assumes "validate path data = Inr f" "any_ok (AMap data)"
  shows "file_wf path f"
proof -
  define c where "c = \<lparr>cx_path = path, cx_ruleID = [], cx_label = []\<rparr>"
  obtain v f1 f2 ms ac f3 ed where v: "validateSchemaVersion c data = Inr v"
    and f1: "readEntries c data KindReact (\<lambda>t. validateRule c KindReact t v) (addRule path)
        \<lparr>f_path = path, f_schemaVersion = v, f_ordered = [], f_disabled = [], f_modes = [],
         f_activeMode = [], f_events = [], f_eventDisabled = [], f_eventDefault = None\<rparr> = Inr f1"
    and f2: "readEntries c data KindInhibit (\<lambda>t. validateRule c KindInhibit t v) (addRule path) f1 = Inr f2"
    and dup: "checkDuplicateIDs c f2 = Inr ()" and ms: "validateModes c (lookup data ''modes'') = Inr ms"
    and ac: "validateActiveMode c (lookup data ''active_mode'') ms = Inr ac"
    and f3: "readEntries c data ''event'' (validateEvent c) (addEvent path)
        (f2\<lparr>f_modes := ms, f_activeMode := ac\<rparr>) = Inr f3"
    and edup: "checkDuplicateEventIDs c f3 = Inr ()"
    and ed: "validateEventDefault c (lookup data ''event_default'') = Inr ed"
    and f: "f = f3\<lparr>f_eventDefault := ed\<rparr>"
    using assms(1) unfolding validate_def Let_def c_def[symmetric] by (auto split: if_splits)
  have "rules_part path v \<lparr>f_path = path, f_schemaVersion = v, f_ordered = [], f_disabled = [],
      f_modes = [], f_activeMode = [], f_events = [], f_eventDisabled = [], f_eventDefault = None\<rparr>"
    by (simp add: rules_part_def)
  then have p1: "rules_part path v f1"
    by (rule readEntries_inv[where P = "rules_part path v", OF f1 assms(2)])
      (auto intro: addRule_part[of c KindReact])
  have p2: "rules_part path v f2"
    by (rule readEntries_inv[where P = "rules_part path v", OF f2 assms(2) p1])
      (auto intro: addRule_part[of c KindInhibit])
  let ?g = "f2\<lparr>f_modes := ms, f_activeMode := ac\<rparr>"
  have p3: "events_part path ?g f3"
    by (rule readEntries_inv[where P = "events_part path ?g", OF f3 assms(2)])
      (use p2 in \<open>auto simp: rules_part_def events_part_def[of _ _ ?g] intro: addEvent_part\<close>)
  then have g: "f3\<lparr>f_events := [], f_eventDisabled := []\<rparr> = ?g" by (simp add: events_part_def)
  have same: "f_path f3 = f_path f2" "f_schemaVersion f3 = f_schemaVersion f2" "f_ordered f3 = f_ordered f2"
    "f_disabled f3 = f_disabled f2" "f_modes f3 = ms" "f_activeMode f3 = ac"
    using arg_cong[OF g, of f_path] arg_cong[OF g, of f_schemaVersion] arg_cong[OF g, of f_ordered]
      arg_cong[OF g, of f_disabled] arg_cong[OF g, of f_modes] arg_cong[OF g, of f_activeMode] by simp_all
  have vv: "v \<in> {SchemaVersion1, SchemaVersion2}"
    using v by (auto simp: validateSchemaVersion_def split: option.splits any.splits if_splits)
  have d: "distinct (ids (f_ordered f2) @ f_disabled f2)"
    using dup by (auto simp: checkDuplicateIDs_def firstDuplicate_None split: option.splits)
  have de: "distinct (eventIDs (f_events f3) @ f_eventDisabled f3)"
    using edup by (auto simp: checkDuplicateEventIDs_def firstDuplicate_None split: option.splits)
  show ?thesis
    using p2 p3 vv d de validateModes_wf[OF ms lookup_ok[OF assms(2)]] validateActiveMode_ok[OF ac]
      validateEventDefault_wf[of c "lookup data ''event_default''"] ed
    unfolding file_wf_def f by (simp add: rules_part_def events_part_def same)
qed

end
