(* ===== verification/Predicates.thy ===== *)
theory Predicates
  imports Rules_Wf
begin

text \<open>
  Predicate evaluation, \<open>internal/ruleeval/predicate.go\<close>. A view is a lookup; a nil reading is
  \<open>ANil\<close>. \<open>None\<close> is the panic of a Go interface comparison whose operands have one and the same
  uncomparable dynamic type. \<open>absent\<close> is the injected function, \<open>None\<close> when it is nil.
\<close>

type_synonym view = "string \<rightharpoonup> any"

section \<open>Readings\<close>

definition Present :: "view \<Rightarrow> string \<Rightarrow> bool" where
  "Present v field = (case v field of None \<Rightarrow> False | Some ANil \<Rightarrow> False | Some (ABool b) \<Rightarrow> b | Some _ \<Rightarrow> True)"

text \<open>Every width of number a transport may feed is an \<open>AInt\<close> or an \<open>AFloat\<close>.\<close>

fun view_toFloat :: "any \<Rightarrow> f64 option" where
  "view_toFloat (AFloat x) = Some x"
| "view_toFloat (AInt n) = Some (f64_of_int n)"
| "view_toFloat _ = None"

definition compareFloat :: "string \<Rightarrow> f64 \<Rightarrow> f64 \<Rightarrow> bool" where
  "compareFloat op l r =
     (if is_nan l \<or> is_nan r then op = ''ne''
      else if op = ''gt'' then flt r l
      else if op = ''lt'' then flt l r
      else if op = ''ge'' then fle r l
      else if op = ''le'' then fle l r
      else if op = ''eq'' then feq l r
      else if op = ''ne'' then \<not> feq l r
      else False)"

definition compareString :: "string \<Rightarrow> string \<Rightarrow> string \<Rightarrow> bool" where
  "compareString op l r =
     (if op = ''gt'' then l > r
      else if op = ''lt'' then l < r
      else if op = ''ge'' then l \<ge> r
      else if op = ''le'' then l \<le> r
      else if op = ''eq'' then l = r
      else if op = ''ne'' then l \<noteq> r
      else False)"

text \<open>\<open>left != right\<close> on interface values.\<close>

fun uncomparable :: "any \<Rightarrow> any \<Rightarrow> bool" where
  "uncomparable (AList _) (AList _) \<longleftrightarrow> True"
| "uncomparable (AMap _) (AMap _) \<longleftrightarrow> True"
| "uncomparable (AMaps _) (AMaps _) \<longleftrightarrow> True"
| "uncomparable _ _ \<longleftrightarrow> False"

definition compare :: "string \<Rightarrow> any \<Rightarrow> any \<Rightarrow> bool option" where
  "compare op left right =
     (case view_toFloat left of
        Some l \<Rightarrow> (case view_toFloat right of Some r \<Rightarrow> Some (compareFloat op l r) | None \<Rightarrow> Some (op = ''ne''))
      | None \<Rightarrow> (case left of
          AStr l \<Rightarrow> (case right of AStr r \<Rightarrow> Some (compareString op l r) | _ \<Rightarrow> Some (op = ''ne''))
        | ABool l \<Rightarrow> (case right of
              ABool r \<Rightarrow> Some (if op = ''eq'' then l = r else if op = ''ne'' then l \<noteq> r else False)
            | _ \<Rightarrow> Some (op = ''ne''))
        | _ \<Rightarrow> if op \<noteq> ''ne'' then Some False
               else if uncomparable left right then None else Some (left \<noteq> right)))"

section \<open>Evaluation\<close>

text \<open>The loops of \<open>evalGroup\<close>: they stop at the first child that decides.\<close>

fun every :: "('a \<Rightarrow> bool option) \<Rightarrow> 'a list \<Rightarrow> bool option" where
  "every f [] = Some True"
| "every f (x # xs) = (case f x of None \<Rightarrow> None | Some b \<Rightarrow> if \<not> b then Some False else every f xs)"

fun some :: "('a \<Rightarrow> bool option) \<Rightarrow> 'a list \<Rightarrow> bool option" where
  "some f [] = Some False"
| "some f (x # xs) = (case f x of None \<Rightarrow> None | Some b \<Rightarrow> if b then Some True else some f xs)"

lemma every_cong [fundef_cong]:
  "xs = ys \<Longrightarrow> (\<And>x. x \<in> set ys \<Longrightarrow> f x = g x) \<Longrightarrow> every f xs = every g ys"
proof (induction ys arbitrary: xs)
  case (Cons y ys)
  then have "every f ys = every g ys" by simp
  then show ?case using Cons.prems by (simp split: option.split)
qed simp

lemma some_cong [fundef_cong]:
  "xs = ys \<Longrightarrow> (\<And>x. x \<in> set ys \<Longrightarrow> f x = g x) \<Longrightarrow> some f xs = some g ys"
proof (induction ys arbitrary: xs)
  case (Cons y ys)
  then have "some f ys = some g ys" by simp
  then show ?case using Cons.prems by (simp split: option.split)
qed simp

definition evalLeaf :: "string \<Rightarrow> string \<Rightarrow> any \<Rightarrow> view \<Rightarrow> (string \<Rightarrow> f64) option \<Rightarrow> bool option" where
  "evalLeaf f op v view absent =
     (if op = ''absent_for'' then
        (case absent of None \<Rightarrow> Some False
         | Some ab \<Rightarrow> (case view_toFloat v of None \<Rightarrow> Some False | Some want \<Rightarrow> Some (fle want (ab f))))
      else if op = ''is_true'' then Some (Present view f)
      else if op = ''is_false'' then Some (\<not> Present view f)
      else (case view f of None \<Rightarrow> Some False
            | Some left \<Rightarrow> if left = ANil then Some False else compare op left v))"

fun Eval :: "predicate \<Rightarrow> view \<Rightarrow> (string \<Rightarrow> f64) option \<Rightarrow> bool option"
  and evalGroup :: "predicate \<Rightarrow> view \<Rightarrow> (string \<Rightarrow> f64) option \<Rightarrow> bool option" where
  "Eval (Pred f op v alls anys) view absent =
     (if alls \<noteq> [] \<or> anys \<noteq> [] then evalGroup (Pred f op v alls anys) view absent
      else evalLeaf f op v view absent)"
| "evalGroup (Pred f op v alls anys) view absent =
     (case every (\<lambda>p. Eval p view absent) alls of
        None \<Rightarrow> None
      | Some b \<Rightarrow> if \<not> b then Some False
          else if anys = [] then Some True
          else some (\<lambda>p. Eval p view absent) anys)"

section \<open>What a condition means\<close>

definition same_reading :: "any \<Rightarrow> any \<Rightarrow> bool" where
  "same_reading r v \<longleftrightarrow>
     (case (view_toFloat r, view_toFloat v) of
        (Some a, Some b) \<Rightarrow> feq a b
      | (None, None) \<Rightarrow> r = v
      | _ \<Rightarrow> False)"

text \<open>Only numbers are ordered by a validated condition, whose value is then a number.\<close>

definition number_related :: "(f64 \<Rightarrow> f64 \<Rightarrow> bool) \<Rightarrow> any \<Rightarrow> any \<Rightarrow> bool" where
  "number_related R r v \<longleftrightarrow> (\<exists>a b. view_toFloat r = Some a \<and> view_toFloat v = Some b \<and> R a b)"

definition reading_holds :: "string \<Rightarrow> any \<Rightarrow> any \<Rightarrow> bool" where
  "reading_holds op r v \<longleftrightarrow>
     (if op = ''eq'' then same_reading r v
      else if op = ''ne'' then \<not> same_reading r v
      else if op = ''lt'' then number_related flt r v
      else if op = ''le'' then number_related fle r v
      else if op = ''gt'' then number_related (\<lambda>a b. flt b a) r v
      else number_related (\<lambda>a b. fle b a) r v)"

definition leaf_holds :: "view \<Rightarrow> (string \<Rightarrow> f64) \<Rightarrow> string \<Rightarrow> string \<Rightarrow> any \<Rightarrow> bool" where
  "leaf_holds view ab f op v \<longleftrightarrow>
     (if op = ''absent_for'' then (\<exists>x. v = AFloat x \<and> fle x (ab f))
      else if op = ''is_true'' then Present view f
      else if op = ''is_false'' then \<not> Present view f
      else (\<exists>r. view f = Some r \<and> r \<noteq> ANil \<and> reading_holds op r v))"

fun holds :: "view \<Rightarrow> (string \<Rightarrow> f64) \<Rightarrow> predicate \<Rightarrow> bool" where
  "holds view ab (Pred f op v alls anys) \<longleftrightarrow>
     (if alls = [] \<and> anys = [] then leaf_holds view ab f op v
      else (\<forall>p \<in> set alls. holds view ab p) \<and> (anys = [] \<or> (\<exists>p \<in> set anys. holds view ab p)))"

lemma every_Some: "(\<And>x. x \<in> set xs \<Longrightarrow> f x = Some (g x)) \<Longrightarrow> every f xs = Some (\<forall>x \<in> set xs. g x)"
  by (induction xs) auto

lemma some_Some: "(\<And>x. x \<in> set xs \<Longrightarrow> f x = Some (g x)) \<Longrightarrow> some f xs = Some (\<exists>x \<in> set xs. g x)"
  by (induction xs) auto

lemma view_toFloat_None: "view_toFloat r = None \<longleftrightarrow> (\<forall>n. r \<noteq> AInt n) \<and> (\<forall>x. r \<noteq> AFloat x)"
  by (cases r) auto

lemma feq_nan [simp]: "\<not> feq NaN x" "\<not> feq x NaN"
  by (simp_all add: feq_iff)

lemma compareFloat_eq: "compareFloat ''eq'' a b = feq a b" "compareFloat ''ne'' a b = (\<not> feq a b)"
  by (auto simp: compareFloat_def is_nan_def)

lemma compareFloat_ord:
  "compareFloat ''lt'' a b = flt a b" "compareFloat ''le'' a b = fle a b"
  "compareFloat ''gt'' a b = flt b a" "compareFloat ''ge'' a b = fle b a"
  by (auto simp: compareFloat_def is_nan_def)

lemma compare_equality:
  assumes "op = ''eq'' \<or> op = ''ne''"
    and "(\<exists>s. v = AStr s) \<or> (\<exists>b. v = ABool b) \<or> (\<exists>q. v = AFloat (Fin q))"
  shows "compare op r v = Some (if op = ''eq'' then same_reading r v else \<not> same_reading r v)"
proof -
  have ne: "op = ''ne'' \<longleftrightarrow> op \<noteq> ''eq''" using assms(1) by auto
  have fl: "compareFloat op a b = (if op = ''eq'' then feq a b else \<not> feq a b)" for a b
    using assms(1) compareFloat_eq by auto
  have st: "compareString op a b = (if op = ''eq'' then a = b else a \<noteq> b)" for a b
    using assms(1) by (auto simp: compareString_def)
  from assms(2) consider s where "v = AStr s" | b where "v = ABool b" | q where "v = AFloat (Fin q)" by blast
  then show ?thesis
  proof cases
    case 1
    then show ?thesis by (cases r) (simp_all add: compare_def same_reading_def fl st ne)
  next
    case 2
    then show ?thesis by (cases r) (simp_all add: compare_def same_reading_def fl st ne)
  next
    case 3
    then have v: "view_toFloat v = Some (Fin q)" by simp
    show ?thesis
    proof (cases "view_toFloat r")
      case None
      then show ?thesis using 3 by (cases r) (auto simp: compare_def same_reading_def ne)
    next
      case (Some a)
      have "compare op r v = Some (compareFloat op a (Fin q))" "same_reading r v = feq a (Fin q)"
        by (simp_all only: compare_def same_reading_def v Some option.case prod.case)
      then show ?thesis by (simp only: fl split: if_split)
    qed
  qed
qed

lemma compare_ordered:
  assumes "op \<in> set orderedOps"
  shows "compare op r (AFloat x) = Some (reading_holds op r (AFloat x))"
proof (cases "view_toFloat r")
  case None
  have "op \<noteq> ''ne''" "op \<noteq> ''eq''" using assms by (auto simp: orderedOps_def)
  then show ?thesis using None
    by (cases r) (simp_all add: compare_def reading_holds_def number_related_def)
next
  case (Some a)
  have c: "compare op r (AFloat x) = Some (compareFloat op a x)"
    by (simp only: compare_def Some view_toFloat.simps option.case)
  have n: "number_related R r (AFloat x) = R a x" for R by (simp add: number_related_def Some)
  have "op \<in> {''lt'', ''gt'', ''ge'', ''le''}" using assms by (auto simp: orderedOps_def)
  then have "compareFloat op a x = reading_holds op r (AFloat x)"
    by (elim insertE emptyE) (simp_all add: reading_holds_def n compareFloat_ord)
  then show ?thesis using c by simp
qed

lemma evalLeaf_holds:
  assumes "op \<in> set Comparators" "leaf_value_ok op v"
  shows "evalLeaf f op v view (Some ab) = Some (leaf_holds view ab f op v)"
proof -
  consider "op \<in> set booleanOps" | "op \<in> set durationOps" | (o) "op \<in> set orderedOps" | (e) "op \<in> set equalityOps"
    using assms(1) by (auto simp: Comparators_def)
  then show ?thesis
  proof cases
    case 1
    then show ?thesis by (auto simp: booleanOps_def evalLeaf_def leaf_holds_def)
  next
    case 2
    then have op: "op = ''absent_for''" by (simp add: durationOps_def)
    then obtain x where "v = AFloat x" using assms(2) by (auto simp: leaf_value_ok_def op_defs)
    then show ?thesis by (simp add: op evalLeaf_def leaf_holds_def)
  next
    case o
    then have op: "op \<noteq> ''absent_for''" "op \<noteq> ''is_true''" "op \<noteq> ''is_false''" by (auto simp: orderedOps_def)
    obtain x where "v = AFloat x" using assms(2) o by (auto simp: leaf_value_ok_def op_defs)
    then show ?thesis using compare_ordered[OF o]
      by (cases "view f") (simp_all add: evalLeaf_def leaf_holds_def op)
  next
    case e
    then have op: "op \<noteq> ''absent_for''" "op \<noteq> ''is_true''" "op \<noteq> ''is_false''" and eo: "op = ''eq'' \<or> op = ''ne''"
      by (auto simp: equalityOps_def)
    have "(\<exists>s. v = AStr s) \<or> (\<exists>b. v = ABool b) \<or> (\<exists>q. v = AFloat (Fin q))"
      using assms(2) e by (auto simp: leaf_value_ok_def op_defs)
    note c = compare_equality[OF eo this]
    have "reading_holds op r v = (if op = ''eq'' then same_reading r v else \<not> same_reading r v)" for r
      using eo by (auto simp: reading_holds_def)
    then show ?thesis by (cases "view f") (simp_all add: evalLeaf_def leaf_holds_def op c)
  qed
qed

lemma Eval_holds:
  "pred_wf n p \<Longrightarrow> Eval p view (Some ab) = Some (holds view ab p)"
proof (induction p arbitrary: n)
  case (Pred f op v alls anys)
  show ?case
  proof (cases "alls = [] \<and> anys = []")
    case True
    then show ?thesis using Pred.prems evalLeaf_holds by (simp del: evalGroup.simps)
  next
    case False
    then have w: "\<forall>p \<in> set (alls @ anys). pred_wf (n - 1) p"
      using Pred.prems pred_wf_group[of alls anys n f op v] by blast
    have a: "every (\<lambda>p. Eval p view (Some ab)) alls = Some (\<forall>p \<in> set alls. holds view ab p)"
      by (rule every_Some, rule Pred.IH(1)) (use w in auto)
    have s: "some (\<lambda>p. Eval p view (Some ab)) anys = Some (\<exists>p \<in> set anys. holds view ab p)"
      by (rule some_Some, rule Pred.IH(2)) (use w in auto)
    show ?thesis using False by (auto simp: a s)
  qed
qed

end
