(* ===== verification/Registry.thy ===== *)
theory Registry
  imports Engine Predicates
begin

text \<open>
  The admission registry, \<open>internal/ruleeval/registry.go\<close>: the requests it queues, the standing
  goals, the inhibited names. The evaluator a registry is bound to enters only through its vocabulary.
  A reason is a constructor instead of its text; the mutex is left out, so each call is one step.
\<close>

section \<open>State\<close>

definition KindRunOnce :: string where "KindRunOnce = ''run-once''"
definition KindStandingGoal :: string where "KindStandingGoal = ''standing-goal''"
definition intent_KindInhibit :: string where "intent_KindInhibit = ''inhibit''"
definition OriginRule :: string where "OriginRule = ''rule''"
definition OriginAgent :: string where "OriginAgent = ''agent''"

datatype reason =
    ReasonFired | ReasonCooldown | ReasonRearming | ReasonInhibited | ReasonAlreadyActive
  | ReasonAdmitted | ReasonInvalid admit_error

record request =
  rq_Name :: string
  rq_Action :: string
  rq_Params :: "f64 gomap"
  rq_DurationS :: "f64 option"
  rq_Loops :: bool
  rq_Class :: stop_class
  rq_Origin :: string
  rq_RuleID :: string

definition zero_request :: request where
  "zero_request = \<lparr>rq_Name = [], rq_Action = [], rq_Params = [], rq_DurationS = None, rq_Loops = False,
     rq_Class = ClassOther [], rq_Origin = [], rq_RuleID = []\<rparr>"

record admission =
  am_Admitted :: bool
  am_Reason :: reason
  am_ID :: string
  am_Params :: "f64 gomap"
  am_Evicted :: "string list"
  am_Blocked :: "string list"

record goal =
  g_name :: string
  g_action :: string
  g_params :: "f64 gomap"
  g_class :: stop_class

record pending =
  pd_kind :: string
  pd_request :: request
  pd_evict :: string

record registry =
  rg_queue :: "pending list"
  rg_goals :: "string \<rightharpoonup> goal"
  rg_goalOrder :: "string list"
  rg_inhibited :: "string set"
  rg_seq :: nat

definition NewRegistry :: registry where
  "NewRegistry = \<lparr>rg_queue = [], rg_goals = Map.empty, rg_goalOrder = [], rg_inhibited = {}, rg_seq = 0\<rparr>"

section \<open>Calls from any goroutine\<close>

definition enqueue :: "pending \<Rightarrow> registry \<Rightarrow> registry" where
  "enqueue p r = r\<lparr>rg_queue := rg_queue r @ [p]\<rparr>"

definition enqueueEvict :: "string \<Rightarrow> registry \<Rightarrow> registry" where
  "enqueueEvict name r =
     enqueue \<lparr>pd_kind = KindStandingGoal, pd_request = zero_request, pd_evict = name\<rparr> r"

datatype run_once_error = NoAction | NegativeDuration f64 | UnboundedLoopOnce

definition registry_actionLoops :: "vocabulary option \<Rightarrow> string \<Rightarrow> bool" where
  "registry_actionLoops bound action = (case bound of None \<Rightarrow> False | Some v \<Rightarrow> ActionLoops v action)"

definition RunOnce ::
  "vocabulary option \<Rightarrow> string \<Rightarrow> f64 gomap \<Rightarrow> f64 \<Rightarrow> registry \<Rightarrow> (run_once_error, registry) result" where
  "RunOnce bound action params duration r =
     (if action = [] then Inl NoAction
      else let loops = registry_actionLoops bound action;
               lim = (if flt (Fin 0) duration then Some duration else None)
           in if lim = None \<and> flt duration (Fin 0) then Inl (NegativeDuration duration)
              else if lim = None \<and> loops then Inl UnboundedLoopOnce
              else Inr (enqueue \<lparr>pd_kind = KindRunOnce,
                     pd_request = \<lparr>rq_Name = [], rq_Action = action, rq_Params = params,
                       rq_DurationS = lim, rq_Loops = loops, rq_Class = ClassOther [],
                       rq_Origin = OriginAgent, rq_RuleID = []\<rparr>,
                     pd_evict = []\<rparr> r))"

definition sameParams :: "f64 gomap \<Rightarrow> f64 gomap \<Rightarrow> bool" where
  "sameParams a b \<longleftrightarrow> length a = length b
     \<and> list_all (\<lambda>(k, v). case map_of b k of None \<Rightarrow> False | Some w \<Rightarrow> feq w v) a"

definition StandingGoal :: "string \<Rightarrow> string \<Rightarrow> f64 gomap \<Rightarrow> registry \<Rightarrow> (unit, registry) result" where
  "StandingGoal name action params r =
     (if name = [] \<or> action = [] then Inl ()
      else let previous = rg_goals r name;
               r1 = r\<lparr>rg_goals := (rg_goals r)(name \<mapsto>
                       \<lparr>g_name = name, g_action = action, g_params = params, g_class = ClassOther []\<rparr>),
                      rg_goalOrder := (if previous = None then rg_goalOrder r @ [name] else rg_goalOrder r)\<rparr>;
               replaced = (case previous of None \<Rightarrow> False
                  | Some g \<Rightarrow> g_action g \<noteq> action \<or> \<not> sameParams (g_params g) params)
           in Inr (if replaced then enqueueEvict name r1 else r1))"

definition Withdraw :: "string \<Rightarrow> registry \<Rightarrow> bool \<times> registry" where
  "Withdraw name r =
     (if rg_goals r name = None then (False, r)
      else (True, enqueueEvict name
              (r\<lparr>rg_goals := (rg_goals r)(name := None),
                 rg_goalOrder := filter (\<lambda>n. n \<noteq> name) (rg_goalOrder r)\<rparr>)))"

definition Goals :: "registry \<Rightarrow> string list" where
  "Goals r = rg_goalOrder r"

definition Inhibit :: "string list \<Rightarrow> registry \<Rightarrow> registry" where
  "Inhibit names r = r\<lparr>rg_inhibited := rg_inhibited r \<union> set (filter (\<lambda>n. n \<noteq> []) names)\<rparr>"

definition Uninhibit :: "string list \<Rightarrow> registry \<Rightarrow> registry" where
  "Uninhibit names r = r\<lparr>rg_inhibited := rg_inhibited r - set names\<rparr>"

definition Inhibitions :: "registry \<Rightarrow> string list" where
  "Inhibitions r = sorted_list_of_set (rg_inhibited r)"

section \<open>Calls from the tick\<close>

definition blocks :: "string set \<Rightarrow> string \<Rightarrow> string \<Rightarrow> registry \<Rightarrow> bool" where
  "blocks byRules name action r \<longleftrightarrow>
     list_ex (\<lambda>token. token \<noteq> [] \<and> (token \<in> rg_inhibited r \<or> token \<in> byRules)) [name, action]"

definition drain :: "registry \<Rightarrow> pending list \<times> registry" where
  "drain r = (rg_queue r, r\<lparr>rg_queue := []\<rparr>)"

definition registry_nextID :: "string \<Rightarrow> string \<Rightarrow> registry \<Rightarrow> string \<times> registry" where
  "registry_nextID pre name r =
     (pre @ '':'' @ name @ '':'' @ decimal (Suc (rg_seq r)), r\<lparr>rg_seq := Suc (rg_seq r)\<rparr>)"

definition goalsSnapshotLocked :: "registry \<Rightarrow> goal list" where
  "goalsSnapshotLocked r = List.map_filter (rg_goals r) (rg_goalOrder r)"

text \<open>The names an inhibit keeps off the robot: a goal is blocked by its action's name too.\<close>

definition blockGoal :: "goal \<Rightarrow> string set \<Rightarrow> string set" where
  "blockGoal g blocked = (if g_action g \<in> blocked then insert (g_name g) blocked else blocked)"

definition blockedNames :: "string set \<Rightarrow> registry \<Rightarrow> string set" where
  "blockedNames byRules r = fold blockGoal (goalsSnapshotLocked r) (rg_inhibited r \<union> byRules)"

section \<open>The goal ledger\<close>

definition registry_ok :: "registry \<Rightarrow> bool" where
  "registry_ok r \<longleftrightarrow> distinct (rg_goalOrder r) \<and> set (rg_goalOrder r) = dom (rg_goals r)
     \<and> (\<forall>n g. rg_goals r n = Some g \<longrightarrow> g_name g = n \<and> n \<noteq> [] \<and> g_action g \<noteq> [])
     \<and> [] \<notin> rg_inhibited r \<and> finite (rg_inhibited r)"

lemma NewRegistry_ok: "registry_ok NewRegistry"
  by (simp add: registry_ok_def NewRegistry_def)

lemma enqueue_ok [simp]: "registry_ok (enqueue p r) = registry_ok r"
  "registry_ok (enqueueEvict n r) = registry_ok r"
  by (simp_all add: registry_ok_def enqueue_def enqueueEvict_def)

lemma RunOnce_ok: "RunOnce bound a ps d r = Inr r' \<Longrightarrow> registry_ok r \<Longrightarrow> registry_ok r'"
  by (auto simp: RunOnce_def Let_def split: if_splits)

lemma add_goal_ok:
  assumes "registry_ok r" "g_name g = n" "n \<noteq> []" "g_action g \<noteq> []"
  shows "registry_ok (r\<lparr>rg_goals := (rg_goals r)(n \<mapsto> g),
    rg_goalOrder := (if rg_goals r n = None then rg_goalOrder r @ [n] else rg_goalOrder r)\<rparr>)"
  using assms by (auto simp: registry_ok_def)

lemma StandingGoal_ok:
  assumes "StandingGoal n a ps r = Inr r'" "registry_ok r"
  shows "registry_ok r'"
proof -
  have "n \<noteq> []" "a \<noteq> []" using assms(1) by (auto simp: StandingGoal_def split: if_splits)
  then show ?thesis
    using assms add_goal_ok[OF assms(2), of "\<lparr>g_name = n, g_action = a, g_params = ps, g_class = ClassOther []\<rparr>" n]
    by (auto simp: StandingGoal_def Let_def split: if_splits)
qed

lemma Withdraw_ok: "registry_ok r \<Longrightarrow> registry_ok (snd (Withdraw n r))"
  by (auto simp: Withdraw_def registry_ok_def enqueueEvict_def enqueue_def split: if_splits)

lemma Inhibit_ok: "registry_ok r \<Longrightarrow> registry_ok (Inhibit ns r)" "registry_ok r \<Longrightarrow> registry_ok (Uninhibit ns r)"
  by (auto simp: registry_ok_def Inhibit_def Uninhibit_def)

lemma drain_ok: "registry_ok r \<Longrightarrow> registry_ok (snd (drain r))"
  "registry_ok r \<Longrightarrow> registry_ok (snd (registry_nextID p n r))"
  by (simp_all add: registry_ok_def drain_def registry_nextID_def)

lemma goals_listed:
  assumes "registry_ok r"
  shows "map g_name (goalsSnapshotLocked r) = Goals r"
    "g \<in> set (goalsSnapshotLocked r) \<longleftrightarrow> rg_goals r (g_name g) = Some g"
proof -
  have all: "\<forall>n \<in> set (rg_goalOrder r). \<exists>g. rg_goals r n = Some g \<and> g_name g = n"
    using assms by (auto simp: registry_ok_def)
  have "map g_name (List.map_filter (rg_goals r) xs) = xs" if "\<forall>n \<in> set xs. \<exists>g. rg_goals r n = Some g \<and> g_name g = n" for xs
    using that by (induction xs) (auto simp: List.map_filter_simps)
  then show "map g_name (goalsSnapshotLocked r) = Goals r"
    using all by (simp add: goalsSnapshotLocked_def Goals_def)
  have "g \<in> set (List.map_filter (rg_goals r) xs) \<longleftrightarrow> (\<exists>n \<in> set xs. rg_goals r n = Some g)" for xs
    by (induction xs) (auto simp: List.map_filter_simps split: option.splits)
  moreover have "rg_goals r n = Some g \<Longrightarrow> g_name g = n \<and> n \<in> set (rg_goalOrder r)" for n
    using assms by (auto simp: registry_ok_def)
  ultimately show "g \<in> set (goalsSnapshotLocked r) \<longleftrightarrow> rg_goals r (g_name g) = Some g"
    by (auto simp: goalsSnapshotLocked_def)
qed

lemma blockGoal_mono: "B \<subseteq> fold blockGoal gs B"
proof (induction gs arbitrary: B)
  case (Cons g gs)
  have "B \<subseteq> blockGoal g B" by (auto simp: blockGoal_def)
  then show ?case using Cons[of "blockGoal g B"] by (simp add: subset_trans)
qed simp

lemma blockedNames_mono: "rg_inhibited r \<union> byRules \<subseteq> blockedNames byRules r"
  unfolding blockedNames_def by (rule blockGoal_mono)

lemma blocks_iff:
  "blocks byRules name action r \<longleftrightarrow>
     (name \<noteq> [] \<and> name \<in> rg_inhibited r \<union> byRules) \<or> (action \<noteq> [] \<and> action \<in> rg_inhibited r \<union> byRules)"
  by (auto simp: blocks_def)

end
