(* ===== verification/Sense.thy ===== *)
theory Sense
  imports Rules
begin

text \<open>
  The perception snapshot, \<open>internal/sense/snapshot.go\<close>: frames that set, clear or leave a field,
  and the per-tick view with its derived ages. The lock is left out; a nil snapshot is \<open>None\<close> where
  it is used. A reading is an \<open>any\<close>, \<open>ANil\<close> the cleared one.
\<close>

section \<open>State and operations\<close>

definition AgeSuffix :: string where
  "AgeSuffix = ''_age_s''"

record snapshot =
  sn_values :: "string \<rightharpoonup> any"
  sn_lastSeen :: "instant gomap"

definition sense_New :: snapshot where
  "sense_New = \<lparr>sn_values = Map.empty, sn_lastSeen = []\<rparr>"

definition updateField :: "instant \<Rightarrow> string \<times> any \<Rightarrow> snapshot \<Rightarrow> snapshot" where
  "updateField now nv s =
     (if snd nv = ANil then s\<lparr>sn_values := (sn_values s)(fst nv := None)\<rparr>
      else s\<lparr>sn_values := (sn_values s)(fst nv \<mapsto> snd nv),
             sn_lastSeen := AList.update (fst nv) now (sn_lastSeen s)\<rparr>)"

definition Update :: "table \<Rightarrow> instant \<Rightarrow> snapshot \<Rightarrow> snapshot" where
  "Update frame now s = fold (updateField now) frame s"

definition sense_Get :: "snapshot \<Rightarrow> string \<Rightarrow> any option" where
  "sense_Get s n = sn_values s n"

definition AgeS :: "snapshot \<Rightarrow> string \<Rightarrow> instant \<Rightarrow> f64 option" where
  "AgeS s n now = map_option (\<lambda>t. secs_between now t) (map_of (sn_lastSeen s) n)"

definition LastSeen :: "snapshot \<Rightarrow> string \<Rightarrow> instant option" where
  "LastSeen s n = map_of (sn_lastSeen s) n"

definition addAge :: "instant \<Rightarrow> string \<times> instant \<Rightarrow> (string \<rightharpoonup> any) \<Rightarrow> (string \<rightharpoonup> any)" where
  "addAge now na out =
     (let key = fst na @ AgeSuffix in
      if out key \<noteq> None then out else out(key \<mapsto> AFloat (secs_between now (snd na))))"

definition View :: "snapshot \<Rightarrow> instant \<Rightarrow> (string \<rightharpoonup> any)" where
  "View s now = fold (addAge now) (sn_lastSeen s) (sn_values s)"

section \<open>What a frame does, field by field\<close>

definition snapshot_ok :: "snapshot \<Rightarrow> bool" where
  "snapshot_ok s \<longleftrightarrow> distinct (map fst (sn_lastSeen s)) \<and> ANil \<notin> ran (sn_values s)
     \<and> dom (sn_values s) \<subseteq> fst ` set (sn_lastSeen s)"

lemma sense_New_ok: "snapshot_ok sense_New"
  by (simp add: snapshot_ok_def sense_New_def)

lemma updateField_ok: "snapshot_ok s \<Longrightarrow> snapshot_ok (updateField now nv s)"
  by (auto simp: snapshot_ok_def updateField_def distinct_update dom_update ran_def split: if_splits)

lemma Update_ok: "snapshot_ok s \<Longrightarrow> snapshot_ok (Update frame now s)"
  unfolding Update_def by (induction frame arbitrary: s) (auto simp: updateField_ok)

lemma Update_values:
  assumes "distinct (map fst frame)"
  shows "sn_values (Update frame now s) n =
     (case map_of frame n of None \<Rightarrow> sn_values s n | Some v \<Rightarrow> if v = ANil then None else Some v)"
  using assms unfolding Update_def
proof (induction frame arbitrary: s)
  case (Cons nv frame)
  then have "map_of frame (fst nv) = None" by (auto simp: map_of_eq_None_iff)
  then show ?case using Cons by (auto simp: updateField_def split: option.splits)
qed simp

lemma Update_lastSeen:
  assumes "distinct (map fst frame)"
  shows "map_of (sn_lastSeen (Update frame now s)) n =
     (case map_of frame n of None \<Rightarrow> map_of (sn_lastSeen s) n
      | Some v \<Rightarrow> if v = ANil then map_of (sn_lastSeen s) n else Some now)"
  using assms unfolding Update_def
proof (induction frame arbitrary: s)
  case (Cons nv frame)
  then have "map_of frame (fst nv) = None" by (auto simp: map_of_eq_None_iff)
  then show ?case using Cons by (auto simp: updateField_def update_conv split: option.splits)
qed simp

section \<open>The view\<close>

lemma addAge_fold:
  assumes "distinct (map fst ls)"
  shows "fold (addAge now) ls out k =
     (case out k of Some v \<Rightarrow> Some v
      | None \<Rightarrow> map_option (\<lambda>t. AFloat (secs_between now t))
          (map_of (map (\<lambda>(n, t). (n @ AgeSuffix, t)) ls) k))"
  using assms
proof (induction ls arbitrary: out)
  case (Cons na ls)
  obtain n t where p: "na = (n, t)" by (cases na)
  have "map_of (map (\<lambda>(n, t). (n @ AgeSuffix, t)) ls) (n @ AgeSuffix) = None"
    using Cons.prems p by (auto simp: map_of_eq_None_iff image_iff)
  then show ?case using Cons p by (auto simp: addAge_def Let_def split: option.splits)
qed (simp split: option.splits)

lemma map_of_suffix:
  "map_of (map (\<lambda>(n, t). (n @ suf, t)) ls) (n @ suf) = map_of ls n"
  by (induction ls) auto

lemma View_field:
  assumes "snapshot_ok s" "\<forall>n. k \<noteq> n @ AgeSuffix"
  shows "View s now k = sn_values s k"
proof -
  have "map_of (map (\<lambda>(n, t). (n @ AgeSuffix, t)) (sn_lastSeen s)) k = None"
    using assms(2) by (auto simp: map_of_eq_None_iff)
  then show ?thesis using assms(1)
    by (simp add: View_def addAge_fold snapshot_ok_def split: option.splits)
qed

lemma View_age:
  assumes "snapshot_ok s"
  shows "View s now (n @ AgeSuffix) =
     (case sn_values s (n @ AgeSuffix) of Some v \<Rightarrow> Some v | None \<Rightarrow> map_option AFloat (AgeS s n now))"
  using assms
  by (simp add: View_def addAge_fold snapshot_ok_def map_of_suffix AgeS_def option.map_comp comp_def
      split: option.splits)

lemma View_not_nil: "snapshot_ok s \<Longrightarrow> View s now k \<noteq> Some ANil"
  by (auto simp: View_def addAge_fold snapshot_ok_def ran_def split: option.splits)

section \<open>A run of frames\<close>

definition frames_run :: "(instant \<times> table) list \<Rightarrow> snapshot \<Rightarrow> snapshot" where
  "frames_run fs s = fold (\<lambda>(now, frame). Update frame now) fs s"

text \<open>The last frame that mentions a field, and the last one that gives it a reading.\<close>

definition last_mention :: "string \<Rightarrow> (instant \<times> table) list \<Rightarrow> any option" where
  "last_mention k fs = (case List.find (\<lambda>(_, f). map_of f k \<noteq> None) (rev fs) of
     None \<Rightarrow> None | Some (_, f) \<Rightarrow> map_of f k)"

definition last_reading :: "string \<Rightarrow> (instant \<times> table) list \<Rightarrow> instant option" where
  "last_reading k fs = map_option fst
     (List.find (\<lambda>(_, f). map_of f k \<noteq> None \<and> map_of f k \<noteq> Some ANil) (rev fs))"

lemma frames_run_ok: "snapshot_ok s \<Longrightarrow> snapshot_ok (frames_run fs s)"
  unfolding frames_run_def by (induction fs arbitrary: s) (auto simp: Update_ok)

lemma frames_run_fields:
  assumes "\<forall>(_, f) \<in> set fs. distinct (map fst f)"
  shows "sn_values (frames_run fs sense_New) k =
      (case last_mention k fs of None \<Rightarrow> None | Some v \<Rightarrow> if v = ANil then None else Some v)"
    "map_of (sn_lastSeen (frames_run fs sense_New)) k = last_reading k fs"
proof -
  have "sn_values (frames_run fs sense_New) k =
      (case last_mention k fs of None \<Rightarrow> None | Some v \<Rightarrow> if v = ANil then None else Some v)
    \<and> map_of (sn_lastSeen (frames_run fs sense_New)) k = last_reading k fs"
    using assms
  proof (induction fs rule: rev_induct)
    case Nil
    then show ?case by (simp add: frames_run_def last_mention_def last_reading_def sense_New_def)
  next
    case (snoc x fs)
    obtain t f where x: "x = (t, f)" by (rule prod.exhaust)
    have d: "distinct (map fst f)" using snoc.prems x by auto
    have r: "frames_run (fs @ [x]) sense_New = Update f t (frames_run fs sense_New)"
      by (simp add: frames_run_def x)
    have IH: "sn_values (frames_run fs sense_New) k =
        (case last_mention k fs of None \<Rightarrow> None | Some v \<Rightarrow> if v = ANil then None else Some v)"
      "map_of (sn_lastSeen (frames_run fs sense_New)) k = last_reading k fs" using snoc by auto
    show ?case unfolding r Update_values[OF d] Update_lastSeen[OF d] IH
      by (auto simp: last_mention_def last_reading_def x split: option.splits)
  qed
  then show "sn_values (frames_run fs sense_New) k =
      (case last_mention k fs of None \<Rightarrow> None | Some v \<Rightarrow> if v = ANil then None else Some v)"
    "map_of (sn_lastSeen (frames_run fs sense_New)) k = last_reading k fs" by blast+
qed

end
