(* ===== verification/Events.thy ===== *)
theory Events
  imports Rules Senselog
begin

text \<open>
  The event router, \<open>internal/events/router.go\<close>: resolving an event against the entries and the
  default, the dedupe window, and the one-tick fields. \<open>show_any\<close> is how \<open>fmt\<close> prints a payload
  value with \<open>%v\<close> and is a parameter; a dropped event leaves its source, type and dedupe key. The
  lock is left out.
\<close>

section \<open>State\<close>

definition DefaultWindow :: duration where
  "DefaultWindow = 10 * second"

record incoming =
  in_Source :: string
  in_Type :: string
  in_Payload :: "string \<rightharpoonup> any"

record routed =
  ro_Source :: string
  ro_Type :: string
  ro_Priority :: string
  ro_Urgency :: string
  ro_LLMEvaluate :: bool
  ro_Voice :: string
  ro_Sense :: string
  ro_Inject :: string
  ro_Deliver :: bool

record router =
  rt_default :: "event_default option"
  rt_byID :: "string \<rightharpoonup> event"
  rt_window :: duration
  rt_lastAt :: "string \<rightharpoonup> instant"
  rt_tickKeys :: "string set"
  rt_drops :: "(string \<times> string \<times> string) list"

definition router_New :: "rules_config \<Rightarrow> duration option \<Rightarrow> router" where
  "router_New cfg window =
     \<lparr>rt_default = rc_EventDefault cfg,
      rt_byID = foldl (\<lambda>m e. m(event_ID e \<mapsto> e)) Map.empty (rc_Events cfg),
      rt_window = (case window of None \<Rightarrow> DefaultWindow | Some d \<Rightarrow> d),
      rt_lastAt = Map.empty, rt_tickKeys = {}, rt_drops = []\<rparr>"

section \<open>Templates\<close>

text \<open>A placeholder whose key the payload lacks is left literal.\<close>

function renderTemplate :: "(any \<Rightarrow> string) \<Rightarrow> string \<Rightarrow> (string \<rightharpoonup> any) \<Rightarrow> string" where
  "renderTemplate show_any [] payload = []"
| "renderTemplate show_any (c # cs) payload =
     (if c = CHR ''{'' \<and> CHR ''}'' \<in> set cs
         \<and> payload (takeWhile (\<lambda>x. x \<noteq> CHR ''}'') cs) \<noteq> None
      then show_any (the (payload (takeWhile (\<lambda>x. x \<noteq> CHR ''}'') cs)))
             @ renderTemplate show_any (tl (dropWhile (\<lambda>x. x \<noteq> CHR ''}'') cs)) payload
      else c # renderTemplate show_any cs payload)"
  by pat_completeness auto
termination
  by (relation "measure (\<lambda>(_, t, _). length t)")
    (auto intro: le_imp_less_Suc[OF le_trans[OF diff_le_self length_dropWhile_le]])

section \<open>Routing\<close>

definition voice_of :: "string \<Rightarrow> string" where
  "voice_of v = (if v = [] then DefaultVoice else v)"

definition resolve :: "(any \<Rightarrow> string) \<Rightarrow> router \<Rightarrow> incoming \<Rightarrow> routed \<times> string" where
  "resolve show_any r ev =
     (let i = in_Source ev @ ''/'' @ in_Type ev;
          bare = \<lparr>ro_Source = in_Source ev, ro_Type = in_Type ev, ro_Priority = [], ro_Urgency = [],
                  ro_LLMEvaluate = False, ro_Voice = [], ro_Sense = [], ro_Inject = [], ro_Deliver = False\<rparr>;
          (routed, key) =
            (case rt_byID r i of
               Some en \<Rightarrow> (bare\<lparr>ro_Priority := ev_Priority en, ro_Urgency := ev_Urgency en,
                   ro_LLMEvaluate := ev_LLMEvaluate en, ro_Voice := ev_Voice en, ro_Sense := ev_Sense en,
                   ro_Inject := renderTemplate show_any (ev_InjectTemplate en) (in_Payload ev)\<rparr>,
                 if ev_Dedupe en \<noteq> [] then ev_Dedupe en else i)
             | None \<Rightarrow> (case rt_default r of
                 Some d \<Rightarrow> (bare\<lparr>ro_Priority := ed_Priority d, ro_Urgency := ed_Urgency d,
                   ro_LLMEvaluate := ed_LLMEvaluate d, ro_Voice := ed_Voice d\<rparr>, i)
               | None \<Rightarrow> (bare, i)))
      in (routed\<lparr>ro_Voice := voice_of (ro_Voice routed),
                 ro_Deliver := (voice_of (ro_Voice routed) \<noteq> ''none'')\<rparr>, key))"

definition router_admit :: "instant \<Rightarrow> string \<Rightarrow> router \<Rightarrow> bool \<times> router" where
  "router_admit now key r =
     (if (case rt_lastAt r key of None \<Rightarrow> False | Some t \<Rightarrow> time_Sub now t < rt_window r)
      then (False, r) else (True, r\<lparr>rt_lastAt := (rt_lastAt r)(key \<mapsto> now)\<rparr>))"

definition Route :: "(any \<Rightarrow> string) \<Rightarrow> instant \<Rightarrow> incoming \<Rightarrow> router \<Rightarrow> routed option \<times> router" where
  "Route show_any now ev r =
     (let (routed, key) = resolve show_any r ev; (ok, r1) = router_admit now key r
      in if \<not> ok then (None, r1\<lparr>rt_drops := rt_drops r1 @ [(in_Source ev, in_Type ev, key)]\<rparr>)
         else (Some routed, r1\<lparr>rt_tickKeys := insert (in_Source ev @ ''/'' @ in_Type ev) (rt_tickKeys r1)\<rparr>))"

definition TickFields :: "router \<Rightarrow> (string \<rightharpoonup> any) \<times> router" where
  "TickFields r = (\<lambda>k. if k \<in> rt_tickKeys r then Some (ABool True) else None, r\<lparr>rt_tickKeys := {}\<rparr>)"

section \<open>Rate limiting\<close>

text \<open>
  A component that accepts an attempt on a key only when the last accepted one on that key is far
  enough in the past, and stamps what it accepts.
\<close>

locale rate_limiter =
  fixes attempt :: "'i \<Rightarrow> 's \<Rightarrow> bool \<times> 's"
    and key_of :: "'i \<Rightarrow> 'k"
    and time_of :: "'i \<Rightarrow> instant"
    and last_at :: "'s \<Rightarrow> 'k \<Rightarrow> instant option"
    and far :: "'k \<Rightarrow> instant \<Rightarrow> instant \<Rightarrow> bool"
    and ok :: "'s \<Rightarrow> bool"
  assumes accepts: "attempt i s = (True, s') \<Longrightarrow> ok s \<Longrightarrow> last_at s (key_of i) = Some t \<Longrightarrow> far (key_of i) (time_of i) t"
    and stamps: "attempt i s = (b, s') \<Longrightarrow> ok s \<Longrightarrow>
      last_at s' = (if b then (last_at s)(key_of i \<mapsto> time_of i) else last_at s)"
    and keeps: "attempt i s = (b, s') \<Longrightarrow> ok s \<Longrightarrow> ok s'"
begin

text \<open>The accepted attempts on a key, in order.\<close>

primrec accepted :: "'k \<Rightarrow> 'i list \<Rightarrow> 's \<Rightarrow> instant list" where
  "accepted k [] s = []"
| "accepted k (i # is) s =
     (let (b, s') = attempt i s
      in if b \<and> key_of i = k then time_of i # accepted k is s' else accepted k is s')"

lemma accepted_spaced:
  assumes "ok s"
  shows "successively (\<lambda>t u. far k u t) (accepted k is s)
     \<and> (\<forall>t u. last_at s k = Some t \<longrightarrow> accepted k is s \<noteq> [] \<longrightarrow> far k (hd (accepted k is s)) t)"
  using assms
proof (induction "is" arbitrary: s)
  case (Cons i "is")
  obtain b s' where a: "attempt i s = (b, s')" by fastforce
  note IH = Cons.IH[OF keeps[OF a Cons.prems]] and st = stamps[OF a Cons.prems]
  show ?case
  proof (cases "b \<and> key_of i = k")
    case True
    then have "last_at s' k = Some (time_of i)" using st by auto
    then have "accepted k is s' \<noteq> [] \<longrightarrow> far k (hd (accepted k is s')) (time_of i)" using IH by blast
    moreover have "last_at s k = Some t \<Longrightarrow> far k (time_of i) t" for t
      using accepts[of i s s' t] a Cons.prems True by auto
    ultimately show ?thesis using IH True a
      by (cases "accepted k is s'") auto
  next
    case False
    then have "last_at s' k = last_at s k" using st by auto
    then show ?thesis using IH False a by (auto split: if_splits)
  qed
qed simp

end

text \<open>The dedupe window of the router is one.\<close>

definition route_attempt :: "(any \<Rightarrow> string) \<Rightarrow> router \<Rightarrow> instant \<times> incoming \<Rightarrow> router \<Rightarrow> bool \<times> router" where
  "route_attempt show_any r0 i r =
     (let (res, r') = Route show_any (fst i) (snd i) r in (res \<noteq> None, r'))"

definition dedupe_key :: "(any \<Rightarrow> string) \<Rightarrow> router \<Rightarrow> instant \<times> incoming \<Rightarrow> string" where
  "dedupe_key show_any r0 i = snd (resolve show_any r0 (snd i))"

definition same_rules :: "router \<Rightarrow> router \<Rightarrow> bool" where
  "same_rules r0 r \<longleftrightarrow> rt_byID r = rt_byID r0 \<and> rt_default r = rt_default r0 \<and> rt_window r = rt_window r0"

lemma resolve_same: "same_rules r0 r \<Longrightarrow> resolve show_any r ev = resolve show_any r0 ev"
proof -
  assume "same_rules r0 r"
  then have e: "rt_byID r = rt_byID r0" "rt_default r = rt_default r0" by (simp_all add: same_rules_def)
  show ?thesis unfolding resolve_def e ..
qed

lemma Route_state:
  assumes "Route show_any now ev r = (res, r')"
  defines "key \<equiv> snd (resolve show_any r ev)"
  shows "res \<noteq> None \<longleftrightarrow> (\<forall>t. rt_lastAt r key = Some t \<longrightarrow> rt_window r \<le> time_Sub now t)"
    "rt_lastAt r' = (if res \<noteq> None then (rt_lastAt r)(key \<mapsto> now) else rt_lastAt r)"
    "same_rules r r'"
    "rt_tickKeys r' = (if res \<noteq> None then insert (in_Source ev @ ''/'' @ in_Type ev) (rt_tickKeys r) else rt_tickKeys r)"
  using assms(1) unfolding key_def same_rules_def
  by (auto simp: Route_def Let_def router_admit_def split: prod.splits if_splits option.splits)

lemma same_rules_trans: "same_rules r0 r \<Longrightarrow> same_rules r r' \<Longrightarrow> same_rules r0 r'"
  by (simp add: same_rules_def)

interpretation dedupe: rate_limiter "route_attempt show_any r0" "dedupe_key show_any r0" fst rt_lastAt
  "\<lambda>_ t u. rt_window r0 \<le> time_Sub t u" "same_rules r0"
proof unfold_locales
  fix i s b s' t
  assume a: "route_attempt show_any r0 i s = (b, s')" and o: "same_rules r0 s"
  obtain res where r: "Route show_any (fst i) (snd i) s = (res, s')" and b: "b = (res \<noteq> None)"
    using a by (auto simp: route_attempt_def split: prod.splits)
  have k: "snd (resolve show_any s (snd i)) = dedupe_key show_any r0 i"
    by (simp add: dedupe_key_def resolve_same[OF o])
  have w: "rt_window s = rt_window r0" using o by (simp add: same_rules_def)
  note st = Route_state[OF r, unfolded k w, folded b]
  show "rt_lastAt s' = (if b then (rt_lastAt s)(dedupe_key show_any r0 i \<mapsto> fst i) else rt_lastAt s)"
    by (rule st(2))
  show "same_rules r0 s'" by (rule same_rules_trans[OF o st(3)])
next
  fix i s s' t
  assume a: "route_attempt show_any r0 i s = (True, s')" and o: "same_rules r0 s"
    and l: "rt_lastAt s (dedupe_key show_any r0 i) = Some t"
  obtain res where r: "Route show_any (fst i) (snd i) s = (res, s')" and b: "res \<noteq> None"
    using a by (auto simp: route_attempt_def split: prod.splits)
  have k: "snd (resolve show_any s (snd i)) = dedupe_key show_any r0 i"
    by (simp add: dedupe_key_def resolve_same[OF o])
  show "rt_window r0 \<le> time_Sub (fst i) t"
    using Route_state(1)[OF r] b l o unfolding k by (simp add: same_rules_def)
qed

section \<open>Runs of the router\<close>

text \<open>The instants at which the events of a run that share the dedupe key \<open>k\<close> were let through.\<close>

primrec routed_times :: "(any \<Rightarrow> string) \<Rightarrow> string \<Rightarrow> (instant \<times> incoming) list \<Rightarrow> router \<Rightarrow> instant list" where
  "routed_times show_any k [] r = []"
| "routed_times show_any k (i # is) r =
     (let (res, r') = Route show_any (fst i) (snd i) r
      in if res \<noteq> None \<and> snd (resolve show_any r (snd i)) = k then fst i # routed_times show_any k is r'
         else routed_times show_any k is r')"

primrec route_all :: "(any \<Rightarrow> string) \<Rightarrow> (instant \<times> incoming) list \<Rightarrow> router \<Rightarrow> routed option list \<times> router" where
  "route_all show_any [] r = ([], r)"
| "route_all show_any (i # is) r =
     (let (res, r1) = Route show_any (fst i) (snd i) r; (ress, r2) = route_all show_any is r1 in (res # ress, r2))"

lemma routed_times_accepted:
  assumes "same_rules r0 r"
  shows "routed_times show_any k is r = dedupe.accepted show_any r0 k is r"
  using assms
proof (induction "is" arbitrary: r)
  case (Cons i "is")
  obtain res r' where r: "Route show_any (fst i) (snd i) r = (res, r')" by (rule prod.exhaust)
  have "same_rules r0 r'" by (rule same_rules_trans[OF Cons.prems Route_state(3)[OF r]])
  note IH = Cons.IH[OF this]
  have "route_attempt show_any r0 i r = (res \<noteq> None, r')" by (simp add: route_attempt_def r)
  moreover have "dedupe_key show_any r0 i = snd (resolve show_any r (snd i))"
    by (simp add: dedupe_key_def resolve_same[OF Cons.prems])
  ultimately show ?case using IH by (simp add: r)
qed simp

lemma routed_spaced:
  "successively (\<lambda>t u. rt_window r \<le> time_Sub u t) (routed_times show_any k is r)
   \<and> (\<forall>u. rt_lastAt r k = Some u \<longrightarrow> routed_times show_any k is r \<noteq> [] \<longrightarrow>
        rt_window r \<le> time_Sub (hd (routed_times show_any k is r)) u)"
proof -
  have "same_rules r r" by (simp add: same_rules_def)
  from dedupe.accepted_spaced[OF this] routed_times_accepted[OF this] show ?thesis by simp
qed

lemma Route_some: "Route show_any now ev r = (Some ro, r') \<Longrightarrow> ro_Source ro = in_Source ev \<and> ro_Type ro = in_Type ev"
  by (auto simp: Route_def resolve_def Let_def split: prod.splits option.splits if_splits)

lemma route_all_keys:
  assumes "route_all show_any is r = (ress, r')"
  shows "rt_tickKeys r' = rt_tickKeys r \<union> {ro_Source ro @ ''/'' @ ro_Type ro | ro. Some ro \<in> set ress}"
  using assms
proof (induction "is" arbitrary: r ress)
  case (Cons i "is")
  obtain res r1 where r: "Route show_any (fst i) (snd i) r = (res, r1)" by (rule prod.exhaust)
  obtain rest where a: "route_all show_any is r1 = (rest, r')" "ress = res # rest"
    using Cons.prems by (auto simp: r split: prod.splits)
  show ?case
  proof (cases res)
    case None
    then show ?thesis using Cons.IH[OF a(1)] Route_state(4)[OF r] a(2) by simp
  next
    case (Some ro)
    then have e: "ro_Source ro = in_Source (snd i)" "ro_Type ro = in_Type (snd i)" using Route_some r by blast+
    have "{ro_Source ro @ ''/'' @ ro_Type ro | ro. Some ro \<in> set ress}
        = insert (ro_Source ro @ ''/'' @ ro_Type ro) {ro_Source ro @ ''/'' @ ro_Type ro | ro. Some ro \<in> set rest}"
      using a(2) Some by auto
    then show ?thesis using Cons.IH[OF a(1)] Route_state(4)[OF r] Some by (simp add: e)
  qed
qed simp

end
