(* ===== verification/Evaluator.thy ===== *)
theory Evaluator
  imports Registry Sense Events
begin

text \<open>
  Rule evaluation on the tick, \<open>internal/ruleeval/eval.go\<close>, and the methods of the registry that
  need a tick (\<open>admit\<close>, \<open>apply\<close>, \<open>enforce\<close>, \<open>sustain\<close>). An operation works on the evaluator and on
  the engine it calls back into; where it may panic it returns the panic's text first, and the two
  states as they were at that point. Log lines and events are structured; the summary text of an
  episode is its reasons and its length.
\<close>

section \<open>State\<close>

record rule_state =
  rs_lastFire :: instant
  rs_hasFired :: bool
  rs_falseSince :: instant
  rs_hasFalseSince :: bool
  rs_armed :: bool
  rs_suppressReason :: "reason option"
  rs_suppressTicks :: nat
  rs_suppressReasons :: "reason list"
  rs_streak :: "reason streak"

definition fresh_rule_state :: rule_state where
  "fresh_rule_state = \<lparr>rs_lastFire = 0, rs_hasFired = False, rs_falseSince = 0, rs_hasFalseSince = False,
     rs_armed = True, rs_suppressReason = None, rs_suppressTicks = 0, rs_suppressReasons = [],
     rs_streak = NewStreak\<rparr>"

datatype rule_log =
    RStreak string "reason streak_line"
  | RFired string string string "string list" string
  | RApplied string string string
  | RDropped string string reason

datatype suppress_what = Because reason | Episode "reason list" nat

text \<open>The published events; \<open>field\<close>, \<open>op\<close>, \<open>ts\<close> and \<open>tick\<close> are as in the payload.\<close>

record event_head =
  eh_rule :: string
  eh_kind :: string
  eh_field :: string
  eh_op :: string
  eh_ts :: f64
  eh_tick :: nat

datatype rule_event =
    EventFire event_head string string "f64 gomap" "string list"
  | EventSuppress event_head suppress_what
  | EventApplied request string string "f64 gomap" string f64 nat
  | EventBlocked string string reason f64 nat

record evaluator =
  el_cfg :: rules_config
  el_voc :: vocabulary
  el_snapshot :: "snapshot option"
  el_router :: "router option"
  el_registry :: registry
  el_log :: "rule_log list"
  el_idPrefix :: string
  el_states :: "string \<rightharpoonup> rule_state"
  el_lastPresent :: "string \<rightharpoonup> instant"
  el_startedAt :: instant
  el_started :: bool
  el_activeMode :: string

type_synonym 's world = "evaluator \<times> ('s, rule_event) engine"

record eval_config =
  ev_Rules :: "rules_config option"
  ev_Vocabulary :: "vocabulary option"
  ev_Snapshot :: "snapshot option"
  ev_Router :: "router option"
  ev_Registry :: "registry option"
  ev_IDPrefix :: string

datatype new_error = NoRules | NoVocabulary | UnboundedReact string string

definition StageRule :: string where "StageRule = ''rule''"

definition evaluator_New :: "eval_config \<Rightarrow> (new_error, evaluator) result" where
  "evaluator_New c =
     (case ev_Rules c of None \<Rightarrow> Inl NoRules
      | Some cfg \<Rightarrow> (case ev_Vocabulary c of None \<Rightarrow> Inl NoVocabulary
        | Some voc \<Rightarrow>
            rbind (each (\<lambda>r. refuse_if (r_DurationS r = None \<and> ActionLoops voc (r_Run r))
                                (UnboundedReact (r_ID r) (r_Run r))) (rc_React cfg)) (\<lambda>_.
            Inr \<lparr>el_cfg = cfg, el_voc = voc, el_snapshot = ev_Snapshot c, el_router = ev_Router c,
                 el_registry = (case ev_Registry c of None \<Rightarrow> NewRegistry | Some r \<Rightarrow> r), el_log = [],
                 el_idPrefix = (if ev_IDPrefix c = [] then StageRule else ev_IDPrefix c),
                 el_states = foldl (\<lambda>m r. m(r_ID r \<mapsto> fresh_rule_state)) Map.empty (config_rules cfg),
                 el_lastPresent = Map.empty, el_startedAt = 0, el_started = False,
                 el_activeMode = rc_ActiveMode cfg\<rparr>)))"

definition SetActiveMode :: "string \<Rightarrow> evaluator \<Rightarrow> (string, evaluator) result" where
  "SetActiveMode name ev =
     (if name \<noteq> [] \<and> rc_Modes (el_cfg ev) name = None then Inl name
      else Inr (ev\<lparr>el_activeMode := name\<rparr>))"

text \<open>The registry's own call; without an evaluator it is refused.\<close>

datatype set_mode_error = ErrNoEvaluator | NoMode string

definition SetMode :: "string \<Rightarrow> evaluator option \<Rightarrow> (set_mode_error, evaluator) result" where
  "SetMode name bound =
     (case bound of None \<Rightarrow> Inl ErrNoEvaluator
      | Some ev \<Rightarrow> (case SetActiveMode name ev of Inl n \<Rightarrow> Inl (NoMode n) | Inr ev' \<Rightarrow> Inr ev'))"

section \<open>The view and the clocks\<close>

definition tick_snapshot :: "instant \<Rightarrow> evaluator \<Rightarrow> view \<times> evaluator" where
  "tick_snapshot now ev =
     (let v = (case el_snapshot ev of None \<Rightarrow> Map.empty | Some s \<Rightarrow> View s now)
      in case el_router ev of None \<Rightarrow> (v, ev)
         | Some r \<Rightarrow> (let (fs, r') = TickFields r in (v ++ fs, ev\<lparr>el_router := Some r'\<rparr>)))"

definition trackPresence :: "view \<Rightarrow> instant \<Rightarrow> evaluator \<Rightarrow> evaluator" where
  "trackPresence v now ev =
     (let names = map s_name (v_senses (el_voc ev));
          ev1 = (if el_started ev then ev
                 else ev\<lparr>el_lastPresent := fold (\<lambda>n m. m(n \<mapsto> now)) names (el_lastPresent ev),
                         el_startedAt := now, el_started := True\<rparr>)
      in ev1\<lparr>el_lastPresent := fold (\<lambda>n m. if Present v n then m(n \<mapsto> now) else m) names (el_lastPresent ev1)\<rparr>)"

definition absentFunc :: "evaluator \<Rightarrow> instant \<Rightarrow> string \<Rightarrow> f64" where
  "absentFunc ev now field =
     secs_between now (case el_lastPresent ev field of None \<Rightarrow> el_startedAt ev | Some t \<Rightarrow> t)"

fun currentInhibited :: "rule list \<Rightarrow> view \<Rightarrow> (string \<Rightarrow> f64) \<Rightarrow> string set \<Rightarrow> string set option" where
  "currentInhibited [] v absent blocked = Some blocked"
| "currentInhibited (r # rs) v absent blocked =
     (case Eval (r_When r) v (Some absent) of
        None \<Rightarrow> None
      | Some b \<Rightarrow> currentInhibited rs v absent (if b then blocked \<union> set (r_Disable r) else blocked))"

section \<open>Timing\<close>

definition stepArming :: "rule \<Rightarrow> bool \<Rightarrow> instant \<Rightarrow> rule_state \<Rightarrow> rule_state" where
  "stepArming r matched now st =
     (if matched then st\<lparr>rs_hasFalseSince := False\<rparr>
      else let st1 = (if rs_hasFalseSince st then st
                      else st\<lparr>rs_falseSince := now, rs_hasFalseSince := True\<rparr>)
           in if \<not> rs_armed st1 \<and> fle (r_Hysteresis r) (secs_between now (rs_falseSince st1))
              then st1\<lparr>rs_armed := True\<rparr> else st1)"

definition fireReason :: "rule \<Rightarrow> rule_state \<Rightarrow> instant \<Rightarrow> reason" where
  "fireReason r st now =
     (if \<not> rs_armed st then ReasonRearming
      else if rs_hasFired st \<and> flt (secs_between now (rs_lastFire st)) (r_CooldownS r) then ReasonCooldown
      else ReasonFired)"

definition markFired :: "rule \<Rightarrow> instant \<Rightarrow> rule_state \<Rightarrow> rule_state" where
  "markFired r now st =
     (let st1 = st\<lparr>rs_lastFire := now, rs_hasFired := True\<rparr>
      in if flt (Fin 0) (r_Hysteresis r) then st1\<lparr>rs_armed := False, rs_hasFalseSince := False\<rparr> else st1)"

section \<open>Episodes and events\<close>

definition groupField :: string where "groupField = ''group''"

definition sourceField :: "rule \<Rightarrow> string" where
  "sourceField r = (if IsLeaf (r_When r) \<and> p_Field (r_When r) \<noteq> [] then p_Field (r_When r) else groupField)"

text \<open>\<open>UnixNano\<close> is an \<open>int64\<close> and counts from 1970, an instant from the zero time of year 1.\<close>

definition unix_epoch :: instant where
  "unix_epoch = 62135596800000000000"

definition UnixNano :: "instant \<Rightarrow> int" where
  "UnixNano now = (now - unix_epoch + 2 ^ 63) mod 2 ^ 64 - 2 ^ 63"

definition nowSeconds :: "instant \<Rightarrow> f64" where
  "nowSeconds now = fdiv (f64_of_int (UnixNano now)) (f64_of_int second)"

definition event_head_of :: "tick_context \<Rightarrow> rule \<Rightarrow> event_head" where
  "event_head_of ctx r = \<lparr>eh_rule = r_ID r, eh_kind = r_Kind r, eh_field = sourceField r,
     eh_op = p_Op (r_When r), eh_ts = nowSeconds (tc_Now ctx), eh_tick = tc_Tick ctx\<rparr>"

definition putState :: "rule \<Rightarrow> rule_state \<Rightarrow> rule_log list \<Rightarrow> evaluator \<Rightarrow> evaluator" where
  "putState r st ls ev = ev\<lparr>el_states := (el_states ev)(r_ID r \<mapsto> st), el_log := el_log ev @ ls\<rparr>"

definition emitSuppress :: "tick_context \<Rightarrow> rule \<Rightarrow> suppress_what \<Rightarrow> ('s, rule_event) engine \<Rightarrow> ('s, rule_event) engine" where
  "emitSuppress ctx r what en = emit (EventSuppress (event_head_of ctx r) what) en"

definition suppress :: "tick_context \<Rightarrow> rule \<Rightarrow> rule_state \<Rightarrow> reason \<Rightarrow> 's world \<Rightarrow> 's world" where
  "suppress ctx r st rsn w =
     (let (sk, ls) = streak_Enter rsn (rs_streak st);
          st1 = st\<lparr>rs_suppressTicks := Suc (rs_suppressTicks st), rs_streak := sk\<rparr>;
          log = map (RStreak (r_ID r)) ls
      in if rs_suppressReason st1 = Some rsn then (putState r st1 log (fst w), snd w)
         else (putState r (st1\<lparr>rs_suppressReasons := (if rsn \<in> set (rs_suppressReasons st1) then rs_suppressReasons st1
                                                     else rs_suppressReasons st1 @ [rsn]),
                              rs_suppressReason := Some rsn\<rparr>) log (fst w),
               emitSuppress ctx r (Because rsn) (snd w)))"

definition release :: "tick_context \<Rightarrow> rule \<Rightarrow> rule_state \<Rightarrow> 's world \<Rightarrow> rule_state \<times> 's world" where
  "release ctx r st w =
     (if rs_suppressReason st = None then (st, putState r st [] (fst w), snd w)
      else let (sk, ls) = streak_End (rs_streak st);
               st' = st\<lparr>rs_streak := sk, rs_suppressReason := None, rs_suppressTicks := 0, rs_suppressReasons := []\<rparr>
           in (st', putState r st' (map (RStreak (r_ID r)) ls) (fst w),
               emitSuppress ctx r (Episode (rs_suppressReasons st) (rs_suppressTicks st)) (snd w)))"

text \<open>The fire itself: the state is marked, then the line and the event go out.\<close>

definition emitFire ::
  "tick_context \<Rightarrow> rule \<Rightarrow> rule_state \<Rightarrow> string \<Rightarrow> string list \<Rightarrow> f64 gomap \<Rightarrow> 's world \<Rightarrow> 's world" where
  "emitFire ctx r st run disabled params w =
     (let (sk, ls) = streak_Fire (rs_streak st)
      in (putState r (st\<lparr>rs_streak := sk\<rparr>)
            (map (RStreak (r_ID r)) ls @ [RFired (r_ID r) (r_Kind r) run disabled (r_Say r)]) (fst w),
          emit (EventFire (event_head_of ctx r) run (r_Say r) params disabled) (snd w)))"

definition dropIntent :: "tick_context \<Rightarrow> string \<Rightarrow> string \<Rightarrow> reason \<Rightarrow> 's world \<Rightarrow> 's world" where
  "dropIntent ctx kind name rsn w =
     ((fst w)\<lparr>el_log := el_log (fst w) @ [RDropped kind name rsn]\<rparr>,
      emit (EventBlocked kind name rsn (nowSeconds (tc_Now ctx)) (tc_Tick ctx)) (snd w))"

definition request_name :: "request \<Rightarrow> string" where
  "request_name req = (if rq_Name req = [] then rq_Action req else rq_Name req)"

definition observeIntent :: "tick_context \<Rightarrow> string \<Rightarrow> request \<Rightarrow> admission \<Rightarrow> 's world \<Rightarrow> 's world" where
  "observeIntent ctx kind req out w =
     (if \<not> am_Admitted out then dropIntent ctx kind (request_name req) (am_Reason out) w
      else ((fst w)\<lparr>el_log := el_log (fst w) @ [RApplied kind (request_name req) (am_ID out)]\<rparr>,
            emit (EventApplied req kind (am_ID out) (am_Params out) (request_name req)
                    (nowSeconds (tc_Now ctx)) (tc_Tick ctx)) (snd w)))"

section \<open>Admission\<close>

definition activeModeParams :: "evaluator \<Rightarrow> f64 gomap" where
  "activeModeParams ev =
     (if el_activeMode ev = [] then []
      else case rc_Modes (el_cfg ev) (el_activeMode ev) of None \<Rightarrow> [] | Some ps \<Rightarrow> ps)"

definition mergeParams :: "evaluator \<Rightarrow> string \<Rightarrow> f64 gomap \<Rightarrow> f64 gomap" where
  "mergeParams ev action own =
     fold (\<lambda>(k, v) out. AList.update k v out) own
       (fold (\<lambda>(k, v) out. if ActionParam (el_voc ev) action k \<noteq> None then AList.update k v out else out)
          (activeModeParams ev) [])"

definition longest :: "(string \<times> trajectory option) list \<Rightarrow> f64" where
  "longest ts = fold (\<lambda>(_, t) m. case t of None \<Rightarrow> m
      | Some tr \<Rightarrow> if flt m (tr_duration tr) then tr_duration tr else m) ts (Fin 0)"

definition actionDuration :: "vocabulary \<Rightarrow> string \<Rightarrow> f64 option" where
  "actionDuration v action =
     (case List.find (\<lambda>a. a_name a = action) (v_actions v) of
        None \<Rightarrow> None
      | Some a \<Rightarrow> (let m = longest (a_trajectories a) in if flt (Fin 0) m then Some m else None))"

definition build :: "evaluator \<Rightarrow> string \<Rightarrow> string \<Rightarrow> request \<Rightarrow> behavior" where
  "build ev i name req =
     \<lparr>b_name = name, b_id = i,
      b_class = (if rq_Class req = ClassOther [] then ClassStoppable else rq_Class req),
      b_channels = [],
      b_lifetime = \<lparr>lt_duration = (case rq_DurationS req of Some d \<Rightarrow> Some d
          | None \<Rightarrow> if \<not> rq_Loops req then actionDuration (el_voc ev) (rq_Action req) else None),
        lt_loops = rq_Loops req\<rparr>,
      b_action = rq_Action req, b_params = mergeParams ev (rq_Action req) (rq_Params req),
      b_admitted_at = 0, b_trajectories = Map.empty, b_contribute = None\<rparr>"

definition registry_admit :: "request \<Rightarrow> string set \<Rightarrow> 's world \<Rightarrow> admission \<times> 's world" where
  "registry_admit req byRules w =
     (let (ev, en) = w; name = request_name req in
      if blocks byRules name (rq_Action req) (el_registry ev)
      then (\<lparr>am_Admitted = False, am_Reason = ReasonInhibited, am_ID = [], am_Params = [],
             am_Evicted = [], am_Blocked = []\<rparr>, w)
      else let (i, rg) = registry_nextID (el_idPrefix ev) name (el_registry ev);
               ev1 = ev\<lparr>el_registry := rg\<rparr>;
               b = build ev1 i name req;
               (en1, res) = admit b en
           in ((case res of
                  Inl err \<Rightarrow> \<lparr>am_Admitted = False, am_Reason = ReasonInvalid err, am_ID = [], am_Params = [],
                       am_Evicted = [], am_Blocked = []\<rparr>
                | Inr ar \<Rightarrow> \<lparr>am_Admitted = True, am_Reason = ReasonAdmitted, am_ID = b_id b,
                       am_Params = b_params b, am_Evicted = ar_evicted ar, am_Blocked = ar_blocked ar\<rparr>),
               ev1, en1))"

definition applyPending :: "tick_context \<Rightarrow> string set \<Rightarrow> pending \<Rightarrow> 's world \<Rightarrow> 's world" where
  "applyPending ctx byRules p w =
     (if pd_evict p \<noteq> [] then (fst w, snd (evict (pd_evict p) (snd w)))
      else let (out, w1) = registry_admit (pd_request p) byRules w
           in observeIntent ctx (pd_kind p) (pd_request p) out w1)"

definition registry_apply :: "tick_context \<Rightarrow> string set \<Rightarrow> 's world \<Rightarrow> 's world" where
  "registry_apply ctx byRules w =
     (let (ps, rg) = drain (el_registry (fst w))
      in fold (applyPending ctx byRules) ps ((fst w)\<lparr>el_registry := rg\<rparr>, snd w))"

definition enforceName :: "tick_context \<Rightarrow> string \<Rightarrow> 's world \<Rightarrow> 's world" where
  "enforceName ctx name w =
     dropIntent ctx intent_KindInhibit name ReasonInhibited (fst w, snd (evict name (snd w)))"

definition enforce :: "tick_context \<Rightarrow> string set \<Rightarrow> 's world \<Rightarrow> 's world" where
  "enforce ctx byRules w =
     (let blocked = blockedNames byRules (el_registry (fst w));
          names = sort (remdups (filter (\<lambda>n. n \<in> blocked) (ActiveNames (snd w))))
      in fold (enforceName ctx) names w)"

definition goal_request :: "goal \<Rightarrow> request" where
  "goal_request g = \<lparr>rq_Name = g_name g, rq_Action = g_action g, rq_Params = g_params g, rq_DurationS = None,
     rq_Loops = True, rq_Class = g_class g, rq_Origin = OriginAgent, rq_RuleID = []\<rparr>"

definition sustainGoal :: "tick_context \<Rightarrow> string set \<Rightarrow> string set \<Rightarrow> goal \<Rightarrow> 's world \<Rightarrow> 's world" where
  "sustainGoal ctx byRules active g w =
     (if g_name g \<in> active then w
      else let (out, w1) = registry_admit (goal_request g) byRules w
           in observeIntent ctx KindStandingGoal (goal_request g) out w1)"

definition sustain :: "tick_context \<Rightarrow> string set \<Rightarrow> 's world \<Rightarrow> 's world" where
  "sustain ctx byRules w =
     fold (sustainGoal ctx byRules (set (ActiveNames (snd w)))) (goalsSnapshotLocked (el_registry (fst w))) w"

section \<open>The tick\<close>

definition eval_panic :: string where
  "eval_panic = ''comparing uncomparable type''"

definition nil_panic :: string where
  "nil_panic = ''invalid memory address or nil pointer dereference''"

definition inhibitStep ::
  "tick_context \<Rightarrow> view \<Rightarrow> (string \<Rightarrow> f64) \<Rightarrow> rule \<Rightarrow> 's world \<Rightarrow> string option \<times> 's world" where
  "inhibitStep ctx v absent r w =
     (let now = tc_Now ctx in
      case Eval (r_When r) v (Some absent) of None \<Rightarrow> (Some eval_panic, w)
      | Some matched \<Rightarrow> (case el_states (fst w) (r_ID r) of None \<Rightarrow> (Some nil_panic, w)
        | Some st0 \<Rightarrow>
           (let st = stepArming r matched now st0 in
            if \<not> matched then (None, snd (release ctx r st w))
            else if fireReason r st now \<noteq> ReasonFired then (None, suppress ctx r st (fireReason r st now) w)
            else let (st1, ev1, en1) = release ctx r st w;
                     en2 = fold (\<lambda>n en. snd (evict n en)) (r_Disable r) en1
                 in (None, emitFire ctx r (markFired r now st1) [] (r_Disable r) [] (ev1, en2)))))"

fun runInhibit ::
  "tick_context \<Rightarrow> view \<Rightarrow> (string \<Rightarrow> f64) \<Rightarrow> rule list \<Rightarrow> 's world \<Rightarrow> string option \<times> 's world" where
  "runInhibit ctx v absent [] w = (None, w)"
| "runInhibit ctx v absent (r # rs) w =
     (case inhibitStep ctx v absent r w of
        (Some p, w') \<Rightarrow> (Some p, w') | (None, w') \<Rightarrow> runInhibit ctx v absent rs w')"

definition react_request :: "evaluator \<Rightarrow> rule \<Rightarrow> request" where
  "react_request ev r = \<lparr>rq_Name = [], rq_Action = r_Run r, rq_Params = r_Params r, rq_DurationS = r_DurationS r,
     rq_Loops = ActionLoops (el_voc ev) (r_Run r), rq_Class = ClassOther [], rq_Origin = OriginRule,
     rq_RuleID = r_ID r\<rparr>"

definition fireReact ::
  "tick_context \<Rightarrow> view \<Rightarrow> (string \<Rightarrow> f64) \<Rightarrow> string set \<Rightarrow> string set \<Rightarrow> rule \<Rightarrow> 's world
     \<Rightarrow> string option \<times> bool \<times> 's world" where
  "fireReact ctx v absent byRules active r w =
     (let now = tc_Now ctx in
      case Eval (r_When r) v (Some absent) of None \<Rightarrow> (Some eval_panic, False, w)
      | Some matched \<Rightarrow> (case el_states (fst w) (r_ID r) of None \<Rightarrow> (Some nil_panic, False, w)
        | Some st0 \<Rightarrow>
           (let st = stepArming r matched now st0 in
            if \<not> matched then (None, False, snd (release ctx r st w))
            else if blocks byRules (r_Run r) (r_Run r) (el_registry (fst w))
            then (None, False, suppress ctx r st ReasonInhibited w)
            else if fireReason r st now \<noteq> ReasonFired
            then (None, False, suppress ctx r st (fireReason r st now) w)
            else if r_Run r \<in> active then (None, False, suppress ctx r st ReasonAlreadyActive w)
            else let (out, w1) = registry_admit (react_request (fst w) r) byRules w
                 in if \<not> am_Admitted out then (None, False, suppress ctx r st (am_Reason out) w1)
                    else let (st1, w2) = release ctx r st w1
                         in (None, True, emitFire ctx r (markFired r now st1) (r_Run r) [] (am_Params out) w2))))"

fun reactLoop ::
  "tick_context \<Rightarrow> view \<Rightarrow> (string \<Rightarrow> f64) \<Rightarrow> string set \<Rightarrow> string set \<Rightarrow> rule list \<Rightarrow> 's world
     \<Rightarrow> string option \<times> 's world" where
  "reactLoop ctx v absent byRules active [] w = (None, w)"
| "reactLoop ctx v absent byRules active (r # rs) w =
     (case fireReact ctx v absent byRules active r w of
        (Some p, _, w') \<Rightarrow> (Some p, w')
      | (None, fired, w') \<Rightarrow>
          reactLoop ctx v absent byRules (if fired then insert (r_Run r) active else active) rs w')"

definition runReact ::
  "tick_context \<Rightarrow> view \<Rightarrow> (string \<Rightarrow> f64) \<Rightarrow> string set \<Rightarrow> rule list \<Rightarrow> 's world \<Rightarrow> string option \<times> 's world" where
  "runReact ctx v absent byRules rs w =
     reactLoop ctx v absent byRules (set (ActiveNames (snd w))) rs w"

definition Tick :: "tick_context \<Rightarrow> 's world \<Rightarrow> string option \<times> 's world" where
  "Tick ctx w =
     (let now = tc_Now ctx;
          (v, ev1) = tick_snapshot now (fst w);
          ev2 = trackPresence v now ev1;
          absent = absentFunc ev2 now;
          cfg = el_cfg ev2
      in case currentInhibited (rc_Inhibit cfg) v absent {} of
           None \<Rightarrow> (Some eval_panic, ev2, snd w)
         | Some byRules \<Rightarrow>
             (case runInhibit ctx v absent (rc_Inhibit cfg) (registry_apply ctx byRules (ev2, snd w)) of
                (Some p, w1) \<Rightarrow> (Some p, w1)
              | (None, w1) \<Rightarrow>
                  (case runReact ctx v absent byRules (rc_React cfg) w1 of
                     (Some p, w2) \<Rightarrow> (Some p, w2)
                   | (None, w2) \<Rightarrow> (None, sustain ctx byRules (enforce ctx byRules w2)))))"

text \<open>As a tick seam: its own state is the user state of the seam.\<close>

definition Seam :: "('s, evaluator, rule_event) seam_fn" where
  "Seam s ctx ev en = Tick ctx (ev, en)"

end
