(* ===== verification/Engine_Invariants.thy ===== *)
theory Engine_Invariants
  imports Engine
begin

text \<open>
  What every operation of the engine keeps: the active set is a set of bound behaviors under
  distinct non-empty ids, the inbox stays in its bound, the counters agree with the log, and an
  open overrun episode accounts for every overrun that no summary has accounted for.
\<close>

section \<open>The fixed part\<close>

text \<open>What no operation changes, and what only a tick changes.\<close>

definition fixed_part :: "('s, 'ev) engine \<Rightarrow> vocabulary \<times> engine_config \<times> clock \<times> sink \<times> string list" where
  "fixed_part e = (e_voc e, e_cfg e, e_clock e, e_sink e, e_channels e)"

definition tick_part ::
  "('s, 'ev) engine \<Rightarrow> pose list \<times> pose \<times> (string \<rightharpoonup> string) \<times> int \<times> nat \<times> nat" where
  "tick_part e =
     (e_written e, e_lastPose e, e_lastOwnership e, e_sinkFailures e, e_ticks e, e_sinkErrors e)"

fun overrun_line :: "log_entry \<Rightarrow> string streak_line list" where
  "overrun_line (LOverrun l) = [l]"
| "overrun_line _ = []"

definition overrun_part ::
  "('s, 'ev) engine \<Rightarrow> string streak \<times> bool \<times> nat \<times> string streak_line list" where
  "overrun_part e = (e_overrun e, e_inOverrun e, e_overruns e, concat (map overrun_line (e_log e)))"

text \<open>The three parts together: what a call of the seam leaves alone.\<close>

definition frame :: "('s, 'ev) engine \<Rightarrow> _" where
  "frame e = (fixed_part e, tick_part e, overrun_part e)"

lemmas frame_defs = frame_def fixed_part_def tick_part_def overrun_part_def
lemmas log_defs = log_append_def log_drop_def

lemma frame_fields:
  assumes "frame e' = frame e"
  shows "e_voc e' = e_voc e" "e_cfg e' = e_cfg e" "e_clock e' = e_clock e" "e_sink e' = e_sink e"
    "e_channels e' = e_channels e" "e_written e' = e_written e" "e_lastPose e' = e_lastPose e"
    "e_lastOwnership e' = e_lastOwnership e" "e_sinkFailures e' = e_sinkFailures e"
    "e_ticks e' = e_ticks e" "e_sinkErrors e' = e_sinkErrors e" "overrun_part e' = overrun_part e"
  using assms by (simp_all add: frame_defs)

lemma frame_log_drop [simp]: "frame (log_drop s v r e) = frame e"
  by (simp add: frame_defs log_defs)

lemma overrun_line_notes [simp]: "concat (map overrun_line (map (\<lambda>x. LNote s (f x)) xs)) = []"
  by (induction xs) auto

lemma frame_notes [simp]: "frame (log_append (map (\<lambda>x. LNote s (f x)) xs) e) = frame e"
  by (simp add: frame_defs log_defs del: map_map concat_map_singleton)

lemma frame_active [simp]: "frame (e\<lparr>e_active := x\<rparr>) = frame e"
  by (simp add: frame_defs)

lemma frame_Send [simp]: "frame (snd (Send c e)) = frame e"
  by (simp add: Send_def frame_defs)

lemma frame_fold:
  "(\<And>x e. frame (f x e) = frame e) \<Longrightarrow> frame (fold f xs e) = frame e"
  by (induction xs arbitrary: e) auto

lemma frame_sendAll [simp]: "frame (sendAll cs e) = frame e"
  by (simp add: sendAll_def frame_fold)

lemma frame_stampID [simp]: "frame (snd (stampID b e)) = frame e"
  by (simp add: stampID_def nextID_def Let_def frame_defs)

lemma frame_stampTime [simp]: "frame (snd (stampTime b e)) = frame e"
  by (simp add: stampTime_def clock_Now_def frame_defs)

lemma frame_place [simp]: "frame (fst (place b e)) = frame e"
  by (simp add: place_def Let_def)

text \<open>\<open>admit\<close> as one case distinction.\<close>

lemma admit_cases:
  obtains (refused) err where "Bind (Some (e_voc e)) b = Inl err" "admit b e = (e, Inl (Refused err))"
  | (duplicate) b' where "Bind (Some (e_voc e)) b = Inr b'" "b_id b' \<noteq> []" "idIsActive e (b_id b')"
      "admit b e = (log_drop ''admit'' (b_id b') ''duplicate-id'' e, Inl (DuplicateID (b_id b')))"
  | (placed) b' b2 e2 where "Bind (Some (e_voc e)) b = Inr b'"
      "b_id b' \<noteq> [] \<longrightarrow> \<not> idIsActive e (b_id b')"
      "b2 = fst (stampTime (fst (stampID b' e)) (snd (stampID b' e)))"
      "e2 = snd (stampTime (fst (stampID b' e)) (snd (stampID b' e)))"
      "admit b e = (fst (place b2 e2), Inr (snd (place b2 e2)))"
proof (cases "Bind (Some (e_voc e)) b")
  case (Inr b')
  show ?thesis
  proof (cases "b_id b' \<noteq> [] \<and> idIsActive e (b_id b')")
    case True
    then show ?thesis using Inr by (intro duplicate) (auto simp: admit_def)
  next
    case False
    then show ?thesis using Inr
      by (intro placed[OF Inr _ refl refl]) (auto simp: admit_def Let_def split: prod.splits)
  qed
qed (rule refused, simp_all add: admit_def)

lemma frame_admit [simp]: "frame (fst (admit b e)) = frame e"
  by (cases rule: admit_cases[of e b]) simp_all

lemma frame_evict [simp]: "frame (snd (evict n e)) = frame e"
  by (simp add: evict_def Let_def)

lemma frame_seam [simp]: "frame (e\<lparr>e_seam := s\<rparr>) = frame e"
  by (simp add: frame_defs)

lemma frame_inbox [simp]: "frame (e\<lparr>e_inbox := q\<rparr>) = frame e"
  by (simp add: frame_defs)

lemma frame_apply_cmd [simp]: "frame (apply_cmd c e) = frame e"
proof (cases c)
  case (AdmitCmd b)
  then show ?thesis using frame_admit[of b e]
    by (cases "admit b e") (auto split: sum.splits admit_error.splits)
qed simp_all

lemma frame_drainLoop [simp]: "frame (drainLoop n during e) = frame e"
  by (induction n during e rule: drainLoop.induct) (auto simp: Let_def split: list.splits)

lemma frame_drainInbox [simp]: "frame (drainInbox during e) = frame e"
proof -
  have "frame (e\<lparr>e_inboxDrops := 0\<rparr>) = frame e"
    "frame (log_append [LInboxFull n] (e\<lparr>e_inboxDrops := 0\<rparr>)) = frame e" for n
    by (simp_all add: frame_defs log_defs)
  then show ?thesis by (simp add: drainInbox_def Let_def)
qed

lemma frame_recoverPanic [simp]: "frame (recoverPanic s p e) = frame e"
proof -
  have "frame (e\<lparr>e_seamPanics := n\<rparr>) = frame e" for n by (simp add: frame_defs)
  then show ?thesis by (simp add: recoverPanic_def split: option.splits)
qed

lemma frame_emit [simp]: "frame (emit ev e) = frame e"
  by (simp add: emit_def frame_fold)

section \<open>The active set, the inbox and the counters\<close>

definition active_wf :: "vocabulary \<Rightarrow> behavior list \<Rightarrow> bool" where
  "active_wf v bs \<longleftrightarrow> distinct (map b_id bs) \<and> Unowned \<notin> b_id ` set bs \<and> (\<forall>b \<in> set bs. behavior_ok v b)"

fun counted :: "log_entry \<Rightarrow> nat" where
  "counted (LDrop _ _ _) = 1"
| "counted (LInboxFull n) = n"
| "counted _ = 0"

fun panicked :: "log_entry \<Rightarrow> nat" where
  "panicked (LDrop _ _ r) = (if r = ''panic'' then 1 else 0)"
| "panicked _ = 0"

definition counters_ok :: "('s, 'ev) engine \<Rightarrow> bool" where
  "counters_ok e \<longleftrightarrow> e_drops e = sum_list (map counted (e_log e)) + e_inboxDrops e
     \<and> e_seamPanics e = sum_list (map panicked (e_log e))"

definition inbox_ok :: "('s, 'ev) engine \<Rightarrow> bool" where
  "inbox_ok e \<longleftrightarrow> int (length (e_inbox e)) \<le> ec_inboxSize (e_cfg e)"

definition set_inv :: "('s, 'ev) engine \<Rightarrow> bool" where
  "set_inv e \<longleftrightarrow> voc_wf (e_voc e) \<and> e_channels e = map ch_name (v_channels (e_voc e))
     \<and> active_wf (e_voc e) (behaviors e) \<and> inbox_ok e \<and> counters_ok e"

lemma behaviors_simps [simp]:
  "behaviors (e\<lparr>e_active := xs\<rparr>) = map ab_behavior xs"
  "behaviors (log_append ls e) = behaviors e" "behaviors (log_drop s v r e) = behaviors e"
  "behaviors (e\<lparr>e_reads := n\<rparr>) = behaviors e" "behaviors (e\<lparr>e_seq := n\<rparr>) = behaviors e"
  "behaviors (e\<lparr>e_inbox := q\<rparr>) = behaviors e" "behaviors (e\<lparr>e_seam := sm\<rparr>) = behaviors e"
  "behaviors (e\<lparr>e_ticks := n\<rparr>) = behaviors e" "behaviors (e\<lparr>e_inboxDrops := n\<rparr>) = behaviors e"
  "behaviors (e\<lparr>e_drops := n\<rparr>) = behaviors e" "behaviors (e\<lparr>e_seamPanics := n\<rparr>) = behaviors e"
  by (simp_all add: behaviors_def log_defs)

lemma behaviors_place:
  "behaviors (fst (place b e)) =
     filter (\<lambda>x. b_id x \<notin> set (ar_evicted (Admit (e_channels e) b (behaviors e)))) (behaviors e) @ [b]"
  by (simp add: place_def Let_def behaviors_def log_defs filter_map comp_def)

lemma active_wf_sub:
  assumes "active_wf v (map ab_behavior xs)"
  shows "active_wf v (map ab_behavior (filter P xs))"
  using assms by (auto simp: active_wf_def distinct_map_filter comp_def)

lemma behavior_ok_stamp [simp]:
  "behavior_ok v (b\<lparr>b_id := i\<rparr>) = behavior_ok v b"
  "behavior_ok v (b\<lparr>b_admitted_at := t\<rparr>) = behavior_ok v b"
  by (simp_all add: behavior_ok_def)

lemma set_inv_drop: "set_inv e \<Longrightarrow> r \<noteq> ''panic'' \<Longrightarrow> set_inv (log_drop s v r e)"
  by (simp add: set_inv_def inbox_ok_def counters_ok_def log_defs behaviors_def)

lemma sum_notes [simp]:
  "sum_list (map counted (map (\<lambda>x. LNote s (f x)) xs)) = 0"
  "sum_list (map panicked (map (\<lambda>x. LNote s (f x)) xs)) = 0"
  by (induction xs) auto

lemma set_inv_notes:
  "set_inv e \<Longrightarrow> set_inv (log_append (map (\<lambda>x. LNote s (f x)) xs) e)"
  by (simp add: set_inv_def inbox_ok_def counters_ok_def log_defs behaviors_def del: map_map)

lemma set_inv_filter:
  assumes "set_inv e"
  shows "set_inv (e\<lparr>e_active := filter P (e_active e)\<rparr>)"
  using assms active_wf_sub[of "e_voc e" "e_active e" P]
  by (simp add: set_inv_def inbox_ok_def counters_ok_def) (simp add: behaviors_def)

lemma set_inv_append:
  assumes "set_inv e" "behavior_ok (e_voc e) b" "b_id b \<noteq> Unowned" "b_id b \<notin> set (active_ids e)"
  shows "set_inv (e\<lparr>e_active := e_active e @ [\<lparr>ab_behavior = b, ab_isBase = base\<rparr>]\<rparr>)"
  using assms
  by (auto simp: set_inv_def inbox_ok_def counters_ok_def active_wf_def active_ids_def behaviors_def
      image_image comp_def)

lemma set_inv_Send: "set_inv e \<Longrightarrow> set_inv (snd (Send c e))"
  by (auto simp: Send_def set_inv_def inbox_ok_def counters_ok_def behaviors_def)

lemma set_inv_fold: "(\<And>x e. set_inv e \<Longrightarrow> set_inv (f x e)) \<Longrightarrow> set_inv e \<Longrightarrow> set_inv (fold f xs e)"
  by (induction xs arbitrary: e) auto

lemma set_inv_sendAll: "set_inv e \<Longrightarrow> set_inv (sendAll cs e)"
  unfolding sendAll_def by (rule set_inv_fold) (rule set_inv_Send)

lemma nextSeq_fresh: "candidate name (nextSeq name ids s) \<notin> set ids"
  by (induction name ids s rule: nextSeq.induct) (subst nextSeq.simps, simp)

lemma nextSeq_later: "s < nextSeq name ids s"
  by (induction name ids s rule: nextSeq.induct) (subst nextSeq.simps, auto)

lemma candidate_owned [simp]: "candidate name k \<noteq> Unowned" "candidate name k \<noteq> []"
  by (simp_all add: candidate_def Unowned_def)

lemma nextID_props:
  "fst (nextID name e) \<noteq> Unowned" "fst (nextID name e) \<notin> set (active_ids e)"
  "active_ids (snd (nextID name e)) = active_ids e" "frame (snd (nextID name e)) = frame e"
  "set_inv e \<Longrightarrow> set_inv (snd (nextID name e))"
proof -
  show "fst (nextID name e) \<notin> set (active_ids e)"
    by (simp add: nextID_def Let_def nextSeq_fresh del: list.set_map)
qed (simp_all add: nextID_def Let_def set_inv_def inbox_ok_def counters_ok_def frame_defs active_ids_def)

text \<open>A behavior with its id settled: not empty and not live.\<close>

lemma stampID_fresh:
  assumes "b_id b \<noteq> [] \<longrightarrow> \<not> idIsActive e (b_id b)"
  shows "b_id (fst (stampID b e)) \<noteq> Unowned" "b_id (fst (stampID b e)) \<notin> set (active_ids e)"
    "active_ids (snd (stampID b e)) = active_ids e"
  using assms nextSeq_fresh[of "b_name b" "map (b_id \<circ> ab_behavior) (e_active e)" "e_seq e"]
  by (auto simp: stampID_def nextID_def Let_def candidate_owned nextSeq_fresh Unowned_def
      idIsActive_def active_ids_def behaviors_def)

lemma stamps_ok [simp]:
  "behavior_ok v (fst (stampID b e)) = behavior_ok v b"
  "behavior_ok v (fst (stampTime b e)) = behavior_ok v b"
  "b_id (fst (stampTime b e)) = b_id b" "active_ids (snd (stampTime b e)) = active_ids e"
  by (simp_all add: stampID_def stampTime_def nextID_def clock_Now_def Let_def active_ids_def)

lemma set_inv_stamps:
  "set_inv e \<Longrightarrow> set_inv (snd (stampID b e))" "set_inv e \<Longrightarrow> set_inv (snd (stampTime b e))"
  by (simp_all add: stampID_def stampTime_def nextID_def clock_Now_def Let_def set_inv_def
      inbox_ok_def counters_ok_def)

lemma set_inv_place:
  assumes "set_inv e" "behavior_ok (e_voc e) b" "b_id b \<noteq> Unowned" "b_id b \<notin> set (active_ids e)"
  shows "set_inv (fst (place b e))"
proof -
  let ?P = "\<lambda>ab. \<not> b_id (ab_behavior ab) \<in> set (ar_evicted (Admit (e_channels e) b (behaviors e)))"
  let ?e = "e\<lparr>e_active := filter ?P (e_active e)\<rparr>"
  have "set_inv (?e\<lparr>e_active := e_active ?e @ [\<lparr>ab_behavior = b, ab_isBase = False\<rparr>]\<rparr>)"
    using assms by (intro set_inv_append set_inv_filter) (auto simp: active_ids_def behaviors_def)
  then show ?thesis unfolding place_def Let_def by (simp add: set_inv_notes)
qed

lemma voc_frame: "frame e' = frame e \<Longrightarrow> e_voc e' = e_voc e"
  by (rule frame_fields)

lemma set_inv_admit:
  assumes "set_inv e"
  shows "set_inv (fst (admit b e))"
proof (cases rule: admit_cases[of e b])
  case (placed b' b2 e2)
  have "behavior_ok (e_voc e) b'" using assms placed(1) Bind_ok by (auto simp: set_inv_def)
  moreover have "e_voc e2 = e_voc e" unfolding placed(4) by (rule voc_frame) simp
  moreover have "b_id b2 \<noteq> Unowned" "b_id b2 \<notin> set (active_ids e2)"
    using stampID_fresh[OF placed(2)] by (simp_all add: placed(3,4))
  moreover have "set_inv e2" using assms by (simp add: placed(4) set_inv_stamps)
  ultimately have "set_inv (fst (place b2 e2))" by (intro set_inv_place) (simp_all add: placed(3))
  then show ?thesis by (simp add: placed(5))
qed (use assms in \<open>simp_all add: set_inv_drop\<close>)

lemma set_inv_evict: "set_inv e \<Longrightarrow> set_inv (snd (evict n e))"
  by (simp add: evict_def Let_def set_inv_filter)

lemma set_inv_recoverPanic: "set_inv e \<Longrightarrow> set_inv (recoverPanic s p e)"
  by (auto simp: recoverPanic_def set_inv_def inbox_ok_def counters_ok_def log_defs behaviors_def
      split: option.splits)

lemma set_inv_emit: "set_inv e \<Longrightarrow> set_inv (emit ev e)"
  unfolding emit_def by (rule set_inv_fold) (rule set_inv_recoverPanic)

lemma set_inv_seam: "set_inv e \<Longrightarrow> set_inv (e\<lparr>e_seam := s\<rparr>)"
  by (simp add: set_inv_def inbox_ok_def counters_ok_def)

lemma set_inv_apply_cmd:
  assumes "set_inv e"
  shows "set_inv (apply_cmd c e)"
proof (cases c)
  case (AdmitCmd b)
  then show ?thesis using set_inv_admit[OF assms, of b]
    by (cases "admit b e") (auto simp: set_inv_drop split: sum.splits admit_error.splits)
qed (use assms in \<open>simp_all add: set_inv_evict set_inv_seam set_inv_drop\<close>)

lemma set_inv_receive: "set_inv e \<Longrightarrow> e_inbox e = c # cs \<Longrightarrow> set_inv (e\<lparr>e_inbox := cs\<rparr>)"
  by (simp add: set_inv_def inbox_ok_def counters_ok_def)

lemma set_inv_drainLoop: "set_inv e \<Longrightarrow> set_inv (drainLoop n during e)"
proof (induction n arbitrary: during e)
  case (Suc n)
  let ?e1 = "sendAll (case during of [] \<Rightarrow> [] | d # _ \<Rightarrow> d) e"
  have e1: "set_inv ?e1" using Suc.prems by (rule set_inv_sendAll)
  show ?case
  proof (cases "e_inbox ?e1")
    case Nil
    then show ?thesis using e1 by (simp add: Let_def set_inv_sendAll)
  next
    case (Cons c cs)
    have "set_inv (apply_cmd c (?e1\<lparr>e_inbox := cs\<rparr>))"
      using e1 Cons by (intro set_inv_apply_cmd set_inv_receive)
    then show ?thesis using Cons Suc.IH by (simp add: Let_def)
  qed
qed (simp add: set_inv_sendAll)

lemma set_inv_drainInbox: "set_inv e \<Longrightarrow> set_inv (drainInbox during e)"
  unfolding drainInbox_def Let_def
  by (intro set_inv_drainLoop)
    (auto simp: set_inv_def inbox_ok_def counters_ok_def log_defs behaviors_def)

text \<open>Applying a command neither reads nor writes the inbox.\<close>

lemma admit_inbox: "admit b (e\<lparr>e_inbox := q\<rparr>) = (fst (admit b e)\<lparr>e_inbox := q\<rparr>, snd (admit b e))"
  by (auto simp: admit_def stampID_def nextID_def stampTime_def clock_Now_def place_def idIsActive_def
      active_ids_def Let_def log_defs split: sum.splits prod.splits)

lemma apply_cmd_inbox: "apply_cmd c (e\<lparr>e_inbox := q\<rparr>) = (apply_cmd c e)\<lparr>e_inbox := q\<rparr>"
proof (cases c)
  case (AdmitCmd b)
  then show ?thesis
    by (cases "admit b e") (auto simp: admit_inbox log_defs split: sum.splits admit_error.splits)
qed (simp_all add: evict_def Let_def log_defs)

end
