(* ===== verification/Engine_Run.thy ===== *)
theory Engine_Run
  imports Engine_Invariants
begin

text \<open>
  The run loop under any seam that only uses the calls its context offers: no tick crashes,
  every tick writes one complete pose, and the run stops with an error exactly at the
  \<open>MaxErrors\<close>-th consecutive failed write.
\<close>

section \<open>What a seam may do\<close>

text \<open>The effect on the engine of a sequence of calls of \<open>TickContext\<close>'s mutating methods.\<close>

inductive api :: "('s, 'ev) engine \<Rightarrow> ('s, 'ev) engine \<Rightarrow> bool" where
  api_refl: "api e e"
| api_admit: "api e e' \<Longrightarrow> api e (fst (admit b e'))"
| api_evict: "api e e' \<Longrightarrow> api e (snd (evict n e'))"
| api_emit: "api e e' \<Longrightarrow> api e (emit ev e')"

lemma api_trans: "api b c \<Longrightarrow> api a b \<Longrightarrow> api a c"
  by (induction rule: api.induct) (auto intro: api.intros)

lemma api_frame: "api e e' \<Longrightarrow> frame e' = frame e"
  by (induction rule: api.induct) auto

lemma api_set_inv: "api e e' \<Longrightarrow> set_inv e \<Longrightarrow> set_inv e'"
  by (induction rule: api.induct) (auto intro: set_inv_admit set_inv_evict set_inv_emit)

section \<open>Sampling and composing\<close>

lemma sampleAll_total:
  assumes "\<forall>b \<in> set bs. behavior_ok v b"
  shows "\<exists>m'. sampleAll cosf now bs m = Some m'"
  using assms
proof (induction bs arbitrary: m)
  case (Cons b bs)
  then obtain c where "Contribution cosf b (localTime b now) = Some c"
    using Contribution_total by (metis list.set_intros(1))
  then show ?case using Cons by simp
qed simp

lemma set_inv_dropExpired: "set_inv e \<Longrightarrow> set_inv (dropExpired now e)"
  unfolding dropExpired_def by (intro set_inv_notes set_inv_filter)

lemma frame_dropExpired [simp]: "frame (dropExpired now e) = frame e"
  by (simp add: dropExpired_def)

lemma behaviors_drops [simp]: "behaviors (fold (\<lambda>c. log_drop s c r) xs e) = behaviors e"
  by (induction xs arbitrary: e) auto

text \<open>Sampled contributions are those of the live behaviors.\<close>

lemma sampleAll_other:
  "sampleAll cosf now bs m = Some m' \<Longrightarrow> i \<notin> b_id ` set bs \<Longrightarrow> m' i = m i"
  by (induction bs arbitrary: m) (auto split: option.splits)

lemma sampleAll_lookup:
  assumes "sampleAll cosf now bs m = Some m'" "distinct (map b_id bs)" "b \<in> set bs"
  shows "m' (b_id b) = Contribution cosf b (localTime b now)"
  using assms
proof (induction bs arbitrary: m)
  case (Cons a bs)
  then obtain c where c: "Contribution cosf a (localTime a now) = Some c"
    "sampleAll cosf now bs (m(b_id a \<mapsto> c)) = Some m'" by (auto split: option.splits)
  show ?case
  proof (cases "b = a")
    case True
    then show ?thesis using sampleAll_other[OF c(2), of "b_id a"] c(1) Cons.prems(2) by simp
  next
    case False
    then show ?thesis using Cons.prems by (intro Cons.IH[OF c(2)]) auto
  qed
qed simp

text \<open>The pose a tick composes, over the behaviors that have not expired.\<close>

lemma composeTick_total:
  assumes "set_inv e"
  obtains tp e' where "composeTick cosf now e = Some (tp, e')" "set_inv e'" "frame e' = frame e"
    "pose_complete (e_voc e) (tp_pose tp)" "dom (tp_ownership tp) = set (e_channels e)"
    "behaviors e' = filter (\<lambda>b. \<not> IsExpired (b_lifetime b) (localTime b now)) (behaviors e)"
    "\<forall>b \<in> set (behaviors e'). tp_contribs tp (b_id b) = Contribution cosf b (localTime b now)"
    "tp_ownership tp = Arbitrate (e_channels e) (behaviors e') (Some (tp_contribs tp))"
    "tp_pose tp = fst (Compose (e_voc e) (tp_ownership tp) (tp_contribs tp))"
proof -
  let ?e1 = "dropExpired now e"
  have inv1: "set_inv ?e1" using assms by (rule set_inv_dropExpired)
  have fr: "e_voc ?e1 = e_voc e" "e_channels ?e1 = e_channels e"
    using frame_fields[of ?e1 e] by simp_all
  have ok: "\<forall>b \<in> set (behaviors ?e1). behavior_ok (e_voc e) b" "distinct (map b_id (behaviors ?e1))"
    using inv1 by (simp_all add: set_inv_def active_wf_def fr)
  obtain m where m: "sampleAll cosf now (behaviors ?e1) Map.empty = Some m"
    using sampleAll_total[OF ok(1)] by blast
  let ?own = "Arbitrate (e_channels e) (behaviors ?e1) (Some m)"
  obtain p bad where pb: "Compose (e_voc e) ?own m = (p, bad)" by fastforce
  let ?tp = "\<lparr>tp_pose = p, tp_ownership = ?own, tp_contribs = m\<rparr>"
  let ?e' = "fold (\<lambda>c. log_drop ''compose'' c ''arity'') bad ?e1"
  have "composeTick cosf now e = Some (?tp, ?e')"
    by (simp add: composeTick_def Let_def m fr pb)
  moreover have "set_inv ?e'"
    by (rule set_inv_fold[OF _ inv1]) (rule set_inv_drop, simp_all)
  moreover have "frame ?e' = frame e" by (simp add: frame_fold)
  moreover have "pose_complete (e_voc e) p"
    using Compose_complete[of "e_voc e" ?own m] pb assms
    by (simp add: set_inv_def voc_channels_ok)
  moreover have "dom ?own = set (e_channels e)"
    by (auto simp: dom_def Arbitrate_lookup split: if_splits)
  moreover have "behaviors ?e1 = filter (\<lambda>b. \<not> IsExpired (b_lifetime b) (localTime b now)) (behaviors e)"
    by (simp add: dropExpired_def expired_def behaviors_def log_defs filter_map comp_def)
  ultimately show ?thesis using that[of ?tp ?e'] sampleAll_lookup[OF m ok(2)] pb by simp
qed

section \<open>Writes and overruns\<close>

text \<open>How many of the writes before the \<open>n\<close>-th failed, counting back from it without a break.\<close>

fun failed_run :: "sink \<Rightarrow> nat \<Rightarrow> nat" where
  "failed_run snk 0 = 0"
| "failed_run snk (Suc n) = (if snk n = None then 0 else Suc (failed_run snk n))"

definition failures :: "sink \<Rightarrow> nat \<Rightarrow> nat" where
  "failures snk n = length (filter (\<lambda>k. snk k \<noteq> None) [0..<n])"

lemma failures_Suc: "failures snk (Suc n) = failures snk n + (if snk n = None then 0 else 1)"
  by (simp add: failures_def)

fun line_entry :: "'r streak_line \<Rightarrow> nat" where
  "line_entry (SDrop _) = 1" | "line_entry (SSummary _ _) = 0"

fun line_summary :: "'r streak_line \<Rightarrow> nat" where
  "line_summary (SDrop _) = 0" | "line_summary (SSummary _ _) = 1"

fun line_ticks :: "'r streak_line \<Rightarrow> nat" where
  "line_ticks (SDrop _) = 0" | "line_ticks (SSummary _ n) = n"

text \<open>
  Every overrun is in exactly one episode: an entry line per episode, a summary with its length
  for each that has ended, and the ticks of the open one.
\<close>

fun overrun_ok :: "string streak \<times> bool \<times> nat \<times> string streak_line list \<Rightarrow> bool" where
  "overrun_ok (s, inO, n, ls) \<longleftrightarrow>
     s = streak_at (replicate (st_ticks s) ''overrun'') \<and> (inO \<longleftrightarrow> 0 < st_ticks s)
     \<and> n = sum_list (map line_ticks ls) + st_ticks s
     \<and> sum_list (map line_entry ls) = sum_list (map line_summary ls) + (if inO then 1 else 0)"

lemma overrun_lines_simps [simp]:
  "concat (map overrun_line (map LOverrun ls)) = ls"
  by (induction ls) auto

lemma st_ticks_at [simp]: "st_ticks (streak_at rs) = length rs"
  by (simp add: streak_at_def NewStreak_def)

lemma streak_Enter_again:
  "streak_Enter r (streak_at (replicate k r)) = (streak_at (replicate (Suc k) r), if 0 < k then [] else [SDrop r])"
  by (cases k) (auto simp: streak_Enter_at replicate_append_same)

lemma set_inv_clock: "set_inv e \<Longrightarrow> set_inv (snd (clock_Now e))"
  by (simp add: clock_Now_def set_inv_def inbox_ok_def counters_ok_def)

lemma frame_clock [simp]: "frame (snd (clock_Now e)) = frame e"
  by (simp add: clock_Now_def frame_defs)

lemma set_inv_overrun_lines:
  "set_inv e \<Longrightarrow> set_inv (log_append (map LOverrun ls) (e\<lparr>e_overruns := n, e_overrun := s, e_inOverrun := b\<rparr>))"
  "set_inv e \<Longrightarrow> set_inv (log_append (map LOverrun ls) (e\<lparr>e_overrun := s, e_inOverrun := b\<rparr>))"
proof -
  have "sum_list (map counted (map LOverrun ls)) = 0" "sum_list (map panicked (map LOverrun ls)) = 0"
    by (induction ls) auto
  then show "set_inv e \<Longrightarrow> set_inv (log_append (map LOverrun ls) (e\<lparr>e_overruns := n, e_overrun := s, e_inOverrun := b\<rparr>))"
    "set_inv e \<Longrightarrow> set_inv (log_append (map LOverrun ls) (e\<lparr>e_overrun := s, e_inOverrun := b\<rparr>))"
    by (simp_all add: set_inv_def inbox_ok_def counters_ok_def log_defs behaviors_def del: map_map)
qed

lemma endOverrun_inv:
  assumes "set_inv e" "overrun_ok (overrun_part e)"
  shows "set_inv (endOverrun e)" "overrun_ok (overrun_part (endOverrun e))"
    "\<not> e_inOverrun (endOverrun e)" "fixed_part (endOverrun e) = fixed_part e"
    "tick_part (endOverrun e) = tick_part e" "e_overruns (endOverrun e) = e_overruns e"
proof -
  define k where "k = st_ticks (e_overrun e)"
  have k: "e_overrun e = streak_at (replicate k ''overrun'')" "e_inOverrun e \<longleftrightarrow> 0 < k"
    "e_overruns e = sum_list (map line_ticks (concat (map overrun_line (e_log e)))) + k"
    using assms(2) by (simp_all add: overrun_part_def k_def)
  have se: "0 < k \<Longrightarrow> streak_End (e_overrun e) =
      (streak_at (replicate 0 ''overrun''), [SSummary (first_seen (replicate k ''overrun'')) k])"
    by (simp add: k(1) streak_End_def streak_at_def)
  show "set_inv (endOverrun e)" using assms(1)
    by (auto simp: endOverrun_def Let_def set_inv_overrun_lines split: prod.splits)
  show "\<not> e_inOverrun (endOverrun e)" "fixed_part (endOverrun e) = fixed_part e"
    "tick_part (endOverrun e) = tick_part e" "e_overruns (endOverrun e) = e_overruns e"
    by (auto simp: endOverrun_def Let_def log_defs fixed_part_def tick_part_def split: prod.splits)
  show "overrun_ok (overrun_part (endOverrun e))"
  proof (cases "0 < k")
    case True
    then show ?thesis using k(2,3) se assms(2)
      by (auto simp: endOverrun_def log_defs overrun_part_def)
  next
    case False
    then show ?thesis using assms(2) k(2) by (simp add: endOverrun_def)
  qed
qed

lemma overrun_enter:
  assumes "overrun_ok (s, inO, n, ls)" "streak_Enter ''overrun'' s = (s', ls')"
  shows "overrun_ok (s', True, Suc n, ls @ ls')"
proof -
  have "streak_Enter ''overrun'' s = (streak_at (replicate (Suc (st_ticks s)) ''overrun''),
      if 0 < st_ticks s then [] else [SDrop ''overrun''])"
    using assms(1) streak_Enter_again[of "''overrun''" "st_ticks s"] by simp
  then show ?thesis using assms by (auto split: if_splits)
qed

lemma accountBudget_inv:
  assumes "set_inv e" "overrun_ok (overrun_part e)"
  shows "set_inv (accountBudget start e)" "overrun_ok (overrun_part (accountBudget start e))"
    "fixed_part (accountBudget start e) = fixed_part e" "tick_part (accountBudget start e) = tick_part e"
proof -
  obtain t e1 where c: "clock_Now e = (t, e1)" by fastforce
  have e1: "set_inv e1" "frame e1 = frame e"
    using set_inv_clock[OF assms(1)] frame_clock[of e] c by simp_all
  then have ov: "overrun_ok (overrun_part e1)" using assms(2) by (simp add: frame_def)
  obtain s' ls' where en: "streak_Enter ''overrun'' (e_overrun e1) = (s', ls')" by fastforce
  let ?over = "log_append (map LOverrun ls')
      (e1\<lparr>e_overruns := Suc (e_overruns e1), e_overrun := s', e_inOverrun := True\<rparr>)"
  have ab: "accountBudget start e =
      (if ec_period (e_cfg e1) < time_Sub t start then ?over else endOverrun e1)"
    by (simp add: accountBudget_def c en)
  have "set_inv ?over" by (rule set_inv_overrun_lines(1)[OF e1(1)])
  moreover have "overrun_ok (overrun_part ?over)"
    using overrun_enter[OF _ en, of "e_inOverrun e1" "e_overruns e1"] ov
    by (simp add: overrun_part_def log_defs del: overrun_ok.simps map_map)
  moreover have "fixed_part ?over = fixed_part e1" "tick_part ?over = tick_part e1"
    by (simp_all add: fixed_part_def tick_part_def log_defs)
  ultimately show "set_inv (accountBudget start e)" "overrun_ok (overrun_part (accountBudget start e))"
    "fixed_part (accountBudget start e) = fixed_part e" "tick_part (accountBudget start e) = tick_part e"
    using endOverrun_inv[OF e1(1) ov] e1(2) unfolding ab by (simp_all add: frame_def)
qed

section \<open>The invariant of the loop\<close>

text \<open>The writes and what a seam is shown of them.\<close>

definition stream_ok :: "('s, 'ev) engine \<Rightarrow> bool" where
  "stream_ok e \<longleftrightarrow> (\<forall>p \<in> set (e_written e). pose_complete (e_voc e) p)
     \<and> pose_complete (e_voc e) (e_lastPose e) \<and> dom (e_lastOwnership e) = set (e_channels e)
     \<and> 0 < ec_maxErrors (e_cfg e)
     \<and> e_sinkFailures e = int (failed_run (e_sink e) (length (e_written e)))
     \<and> e_sinkErrors e = failures (e_sink e) (length (e_written e))
     \<and> (\<forall>m < length (e_written e). int (failed_run (e_sink e) m) < ec_maxErrors (e_cfg e))"

definition going :: "('s, 'ev) engine \<Rightarrow> bool" where
  "going e \<longleftrightarrow> e_sinkFailures e < ec_maxErrors (e_cfg e)"

definition loop_inv :: "('s, 'ev) engine \<Rightarrow> bool" where
  "loop_inv e \<longleftrightarrow> set_inv e \<and> overrun_ok (overrun_part e) \<and> stream_ok e \<and> e_ticks e = length (e_written e)"

lemma stream_ok_frame: "fixed_part e' = fixed_part e \<Longrightarrow> tick_part e' = tick_part e \<Longrightarrow> stream_ok e' = stream_ok e"
  by (simp add: stream_ok_def fixed_part_def tick_part_def)

lemma frame_parts:
  assumes "frame e' = frame e"
  shows "fixed_part e' = fixed_part e" "tick_part e' = tick_part e" "overrun_part e' = overrun_part e"
  using assms by (simp_all add: frame_def)

lemma writePose_inv:
  assumes "set_inv e" "stream_ok e" "going e" "pose_complete (e_voc e) p" "writePose p e = (r, e')"
  shows "set_inv e'" "stream_ok e'" "fixed_part e' = fixed_part e" "overrun_part e' = overrun_part e"
    "e_written e' = e_written e @ [p]" "e_ticks e' = e_ticks e"
    "r = None \<longleftrightarrow> going e'" "r \<noteq> None \<Longrightarrow> r = e_sink e (length (e_written e))"
proof -
  have e': "set_inv e' \<and> fixed_part e' = fixed_part e \<and> overrun_part e' = overrun_part e
      \<and> e_written e' = e_written e @ [p] \<and> e_ticks e' = e_ticks e
      \<and> e_lastPose e' = e_lastPose e \<and> e_lastOwnership e' = e_lastOwnership e"
    using assms(1,5)
    by (auto simp: writePose_def sink_Write_def set_inv_def inbox_ok_def counters_ok_def log_defs
        behaviors_def fixed_part_def overrun_part_def split: option.splits if_splits)
  have fp: "e_voc e' = e_voc e" "e_cfg e' = e_cfg e" "e_sink e' = e_sink e" "e_channels e' = e_channels e"
    using e' by (simp_all add: fixed_part_def)
  have cnt: "e_sinkFailures e' = int (failed_run (e_sink e) (Suc (length (e_written e))))"
    "e_sinkErrors e' = failures (e_sink e) (Suc (length (e_written e)))"
    "r = None \<longleftrightarrow> going e'" "r \<noteq> None \<Longrightarrow> r = e_sink e (length (e_written e))"
    using assms(2,5)
    by (auto simp: writePose_def sink_Write_def stream_ok_def going_def log_defs failures_Suc
        split: option.splits if_splits)
  show "set_inv e'" "fixed_part e' = fixed_part e" "overrun_part e' = overrun_part e"
    "e_written e' = e_written e @ [p]" "e_ticks e' = e_ticks e" "r = None \<longleftrightarrow> going e'"
    "r \<noteq> None \<Longrightarrow> r = e_sink e (length (e_written e))"
    using e' cnt by auto
  show "stream_ok e'" using assms(2-4) e' cnt(1,2)
    by (auto simp: stream_ok_def going_def fp less_Suc_eq)
qed

text \<open>Any seam whose effect on the engine is a sequence of context calls.\<close>

locale seam_contract =
  fixes seamf :: "('s, 'u, 'ev) seam_fn"
  assumes calls: "seamf s ctx u e = (p, u', e') \<Longrightarrow> api e e'"
begin

lemma invokeSeam_inv:
  assumes "set_inv e"
  shows "set_inv (snd (invokeSeam seamf now contribs u e))"
    "frame (snd (invokeSeam seamf now contribs u e)) = frame e"
proof -
  have "api e e' \<Longrightarrow> set_inv (recoverPanic src p e')" "api e e' \<Longrightarrow> frame (recoverPanic src p e') = frame e"
    for src p e'
    using api_set_inv[OF _ assms] by (simp_all add: set_inv_recoverPanic api_frame)
  then show "set_inv (snd (invokeSeam seamf now contribs u e))"
    "frame (snd (invokeSeam seamf now contribs u e)) = frame e"
    using assms calls by (auto simp: invokeSeam_def split: option.splits prod.splits)
qed

text \<open>One tick from a going engine: exactly one more pose, and never a crash.\<close>

lemma tick_step:
  assumes "loop_inv e" "going e"
  obtains r u' e' where "tickOnce cosf seamf arrivals u e = Some (r, u', e')" "loop_inv e'"
    "fixed_part e' = fixed_part e" "\<exists>p. e_written e' = e_written e @ [p]"
    "r = None \<longleftrightarrow> going e'" "r \<noteq> None \<Longrightarrow> r = e_sink e (length (e_written e))"
proof -
  let ?e0 = "sendAll (case arrivals of [] \<Rightarrow> [] | a # _ \<Rightarrow> a) e"
  obtain now e1 where now: "clock_Now ?e0 = (now, e1)" by fastforce
  define e2 where "e2 = e1\<lparr>e_ticks := Suc (e_ticks e1)\<rparr>"
  define e3 where "e3 = drainInbox (tl arrivals) e2"
  have i0: "set_inv e" using assms(1) by (simp add: loop_inv_def)
  have i1: "set_inv e1" "frame e1 = frame e"
    using set_inv_clock[OF set_inv_sendAll[OF i0], of "case arrivals of [] \<Rightarrow> [] | a # _ \<Rightarrow> a"]
      frame_clock[of ?e0] now by simp_all
  have "set_inv e2" using i1(1) by (simp add: e2_def set_inv_def inbox_ok_def counters_ok_def)
  moreover have "fixed_part e2 = fixed_part e" "overrun_part e2 = overrun_part e"
    "tick_part (e2\<lparr>e_ticks := e_ticks e\<rparr>) = tick_part e" "e_ticks e2 = Suc (e_ticks e)"
    using frame_fields[OF i1(2)]
    by (simp_all add: e2_def fixed_part_def tick_part_def overrun_part_def)
  ultimately have i2: "set_inv e2" "fixed_part e2 = fixed_part e" "overrun_part e2 = overrun_part e"
    "tick_part (e2\<lparr>e_ticks := e_ticks e\<rparr>) = tick_part e" "e_ticks e2 = Suc (e_ticks e)"
    by simp_all
  have i3: "set_inv e3" "frame e3 = frame e2" by (simp_all add: e3_def set_inv_drainInbox i2)
  obtain tp e4 where tp: "composeTick cosf now e3 = Some (tp, e4)" "set_inv e4" "frame e4 = frame e3"
    "pose_complete (e_voc e3) (tp_pose tp)" "dom (tp_ownership tp) = set (e_channels e3)"
    using composeTick_total[OF i3(1)] by metis
  have f4: "frame e4 = frame e2" using tp(3) i3(2) by simp
  have s4: "stream_ok e4" "going e4"
    using assms i2 frame_fields[OF f4]
    by (auto simp: loop_inv_def stream_ok_def going_def fixed_part_def tick_part_def)
  have v4: "e_voc e4 = e_voc e3" "e_channels e4 = e_channels e3" "e_sink e4 = e_sink e"
    "e_written e4 = e_written e"
    using frame_fields[OF tp(3)] frame_fields[OF f4] i2 by (auto simp: fixed_part_def tick_part_def)
  obtain r e5 where w: "writePose (tp_pose tp) e4 = (r, e5)" by fastforce
  note w5 = writePose_inv[OF tp(2) s4 _ w]
  have t4: "e_ticks e4 = Suc (e_ticks e)" using frame_fields(10)[OF f4] i2(5) by simp
  have pc: "pose_complete (e_voc e4) (tp_pose tp)" using tp(4) v4 by simp
  note w5 = w5[OF pc]
  have fx: "fixed_part e5 = fixed_part e" using w5(3) frame_parts[OF f4] i2(2) by simp
  have ov5: "overrun_ok (overrun_part e5)"
    using w5(4) frame_parts[OF f4] i2(3) assms(1) by (simp add: loop_inv_def)
  have tk: "e_ticks e5 = length (e_written e5)" using w5(5,6) t4 v4(4) assms(1) by (simp add: loop_inv_def)
  show ?thesis
  proof (cases r)
    case (Some err)
    then have "tickOnce cosf seamf arrivals u e = Some (r, u, e5)"
      by (simp add: tickOnce_def Let_def now e2_def[symmetric] e3_def[symmetric] tp(1) w)
    moreover have "loop_inv e5" using w5(1,2) ov5 tk by (simp add: loop_inv_def)
    moreover have "e_sink e (length (e_written e)) = Some err" using w5(8) v4(3,4) Some by simp
    ultimately show ?thesis using w5(5,7) fx v4(4) Some
      by (intro that[of "Some err" u e5]) auto
  next
    case None
    let ?e6 = "e5\<lparr>e_lastPose := tp_pose tp, e_lastOwnership := tp_ownership tp\<rparr>"
    obtain u' e7 where e7: "invokeSeam seamf now (tp_contribs tp) u ?e6 = (u', e7)" by fastforce
    have v5: "e_voc e5 = e_voc e3" "e_channels e5 = e_channels e3"
      using w5(3) v4 by (simp_all add: fixed_part_def)
    have s6: "set_inv ?e6" "stream_ok ?e6" "overrun_part ?e6 = overrun_part e5"
      "fixed_part ?e6 = fixed_part e5"
      using w5(1,2) tp(4,5) v5
      by (simp_all add: set_inv_def inbox_ok_def counters_ok_def behaviors_def stream_ok_def
          overrun_part_def fixed_part_def)
    have s7: "set_inv e7" "frame e7 = frame ?e6"
      using invokeSeam_inv[OF s6(1), of now "tp_contribs tp" u] e7 by simp_all
    have ov7: "overrun_ok (overrun_part e7)" using frame_parts(3)[OF s7(2)] s6(3) ov5 by simp
    note b = accountBudget_inv[OF s7(1) ov7, of now]
    let ?e8 = "accountBudget now e7"
    have "stream_ok ?e8" using stream_ok_frame[of ?e8 ?e6] b(3,4) s6(2) frame_parts[OF s7(2)] by simp
    moreover have "e_written ?e8 = e_written e5" "e_ticks ?e8 = e_ticks e5" "e_sinkFailures ?e8 = e_sinkFailures e5"
      using b(4) frame_fields[OF s7(2)] by (simp_all add: tick_part_def)
    moreover have "fixed_part ?e8 = fixed_part e" using b(3) frame_parts[OF s7(2)] s6(4) fx by simp
    moreover have "going ?e8"
      using w5(7) None calculation(4,5) fx by (simp add: going_def fixed_part_def)
    moreover have "tickOnce cosf seamf arrivals u e = Some (None, u', ?e8)"
      by (simp add: tickOnce_def Let_def now e2_def[symmetric] e3_def[symmetric] tp(1) w None e7)
    moreover have "loop_inv ?e8" using b(1,2) tk calculation(1-3) by (simp add: loop_inv_def)
    ultimately show ?thesis using w5(5) v4(4) by (intro that[of None u' ?e8]) auto
  qed
qed

text \<open>The whole loop: it runs every tick, or stops at the write that reaches the ceiling.\<close>

lemma runLoop_spec:
  assumes "loop_inv e" "going e"
  shows "\<exists>r u' e' ps. runLoop cosf seamf ticks u e = Some (r, u', e') \<and> loop_inv e'
     \<and> fixed_part e' = fixed_part e \<and> e_written e' = e_written e @ ps
     \<and> (if r = None then length ps = length ticks \<and> going e'
        else ps \<noteq> [] \<and> length ps \<le> length ticks \<and> \<not> going e'
             \<and> r = e_sink e (length (e_written e') - 1))"
  using assms
proof (induction ticks arbitrary: u e)
  case (Cons i ticks)
  obtain r u1 e1 where t: "tickOnce cosf seamf i u e = Some (r, u1, e1)" "loop_inv e1"
    "fixed_part e1 = fixed_part e" "\<exists>p. e_written e1 = e_written e @ [p]" "r = None \<longleftrightarrow> going e1"
    "r \<noteq> None \<Longrightarrow> r = e_sink e (length (e_written e))"
    using tick_step[OF Cons.prems] by metis
  show ?case
  proof (cases r)
    case None
    then obtain r2 u2 e2 ps where IH: "runLoop cosf seamf ticks u1 e1 = Some (r2, u2, e2)" "loop_inv e2"
      "fixed_part e2 = fixed_part e1" "e_written e2 = e_written e1 @ ps"
      "if r2 = None then length ps = length ticks \<and> going e2
       else ps \<noteq> [] \<and> length ps \<le> length ticks \<and> \<not> going e2 \<and> r2 = e_sink e1 (length (e_written e2) - 1)"
      using Cons.IH[OF t(2)] t(5) by blast
    obtain p where p: "e_written e1 = e_written e @ [p]" using t(4) by blast
    have "e_sink e1 = e_sink e" using t(3) by (simp add: fixed_part_def)
    then show ?thesis using IH t(1,3) None p
      by (intro exI[of _ r2] exI[of _ u2] exI[of _ e2] exI[of _ "p # ps"]) (auto split: if_splits)
  next
    case (Some err)
    obtain p where "e_written e1 = e_written e @ [p]" using t(4) by blast
    moreover have "e_sink e (length (e_written e)) = Some err" "\<not> going e1" using t(5,6) Some by auto
    ultimately show ?thesis using t(1-3) Some
      by (intro exI[of _ "Some err"] exI[of _ u1] exI[of _ e1] exI[of _ "[p]"]) auto
  qed
qed simp

end

section \<open>From construction on\<close>

lemma dom_unowned: "dom (foldl (\<lambda>m n. m(n \<mapsto> x)) m xs) = dom m \<union> set xs"
  by (induction xs arbitrary: m) auto

lemma New_inv:
  assumes "voc_wf v" "New (Some v) cfg (Some snk) clk = Inr e"
  shows "loop_inv e" "going e" "e_voc e = v" "e_sink e = snk" "e_clock e = clk" "e_written e = []"
proof -
  obtain cfg' where e: "e = \<lparr>e_voc = v, e_cfg = cfg', e_clock = clk, e_reads = 0, e_sink = snk,
      e_written = [], e_channels = map ch_name (v_channels v), e_inbox = [], e_active = [], e_seq = 0,
      e_seam = None, e_lastPose = Neutral v,
      e_lastOwnership = foldl (\<lambda>m n. m(n \<mapsto> Unowned)) Map.empty (map ch_name (v_channels v)),
      e_overrun = NewStreak, e_inOverrun = False, e_sinkFailures = 0, e_ticks = 0,
      e_overruns = 0, e_drops = 0, e_sinkErrors = 0, e_inboxDrops = 0, e_seamPanics = 0,
      e_consumers = [], e_log = []\<rparr>" "0 < ec_maxErrors cfg'" "0 < ec_inboxSize cfg'"
    using assms(2) by (auto simp: New_def Let_def defaultMaxErrors_def defaultInboxSize_def)
  have "dom (foldl (\<lambda>m n. m(n \<mapsto> Unowned)) Map.empty (map ch_name (v_channels v))) =
      ch_name ` set (v_channels v)"
    unfolding dom_unowned by simp
  then have *: "loop_inv e \<and> going e \<and> e_voc e = v \<and> e_sink e = snk \<and> e_clock e = clk \<and> e_written e = []"
    using e(2,3) assms(1) unfolding e(1)
    by (simp add: loop_inv_def going_def set_inv_def active_wf_def behaviors_def inbox_ok_def
        counters_ok_def stream_ok_def overrun_part_def failures_def Neutral_complete voc_channels_ok)
      (simp add: streak_at_def NewStreak_def)
  then show "loop_inv e" "going e" "e_voc e = v" "e_sink e = snk" "e_clock e = clk" "e_written e = []"
    by simp_all
qed

lemma loop_inv_frame: "frame e' = frame e \<Longrightarrow> set_inv e' \<Longrightarrow> loop_inv e \<Longrightarrow> loop_inv e'"
  using frame_fields[of e' e] frame_parts[of e' e] stream_ok_frame[of e' e]
  by (simp add: loop_inv_def)

lemma going_frame: "frame e' = frame e \<Longrightarrow> going e' = going e"
  using frame_fields[of e' e] by (simp add: going_def)

lemma seedBaseLayer_frame:
  assumes "set_inv e" "seedBaseLayer e = Inr e'"
  shows "set_inv e'" "frame e' = frame e"
proof -
  have "set_inv e' \<and> frame e' = frame e"
  proof (cases "ec_baseLayer (e_cfg e)")
    case True
    let ?base = "\<lparr>b_name = [], b_id = [], b_class = ClassPassive, b_channels = [],
      b_lifetime = \<lparr>lt_duration = None, lt_loops = True\<rparr>, b_action = ec_baseAction (e_cfg e),
      b_params = [], b_admitted_at = fst (clock_Now e), b_trajectories = Map.empty, b_contribute = None\<rparr>"
    let ?e1 = "snd (clock_Now e)"
    obtain bound where bd: "Bind (Some (e_voc e)) ?base = Inr bound"
      and e': "e' = (let (i, e2) = nextID (b_name bound) ?e1 in
         e2\<lparr>e_active := e_active e2 @ [\<lparr>ab_behavior = bound\<lparr>b_id := i\<rparr>, ab_isBase = True\<rparr>]\<rparr>)"
      using assms(2) True
      by (auto simp: seedBaseLayer_def Let_def split: if_splits prod.splits sum.splits)
    obtain i e2 where n: "nextID (b_name bound) ?e1 = (i, e2)" by fastforce
    have i: "i \<noteq> Unowned" "i \<notin> set (active_ids e2)" "set_inv e2" "frame e2 = frame e"
      using n nextID_props[where name = "b_name bound" and e = ?e1] set_inv_clock[OF assms(1)] by simp_all
    have "behavior_ok (e_voc e2) bound"
      using Bind_ok[OF _ bd] assms(1) frame_fields(1)[OF i(4)] by (simp add: set_inv_def)
    then show ?thesis using i unfolding e' n by (simp add: set_inv_append)
  qed (use assms in \<open>simp add: seedBaseLayer_def\<close>)
  then show "set_inv e'" "frame e' = frame e" by simp_all
qed

text \<open>
  The states of an engine between ticks: built, seeded, sent commands and given consumers by
  other goroutines, and ticked any number of times.
\<close>

inductive reachable ::
  "(f64 \<Rightarrow> f64) \<Rightarrow> ('s, 'u, 'ev) seam_fn \<Rightarrow> vocabulary \<Rightarrow> engine_config \<Rightarrow> sink \<Rightarrow> clock
     \<Rightarrow> ('s, 'ev) engine \<Rightarrow> bool"
  for cosf seamf v cfg snk clk
where
  reach_new: "New (Some v) cfg (Some snk) clk = Inr e \<Longrightarrow> reachable cosf seamf v cfg snk clk e"
| reach_send: "reachable cosf seamf v cfg snk clk e \<Longrightarrow>
     reachable cosf seamf v cfg snk clk (snd (Send c e))"
| reach_consumer: "reachable cosf seamf v cfg snk clk e \<Longrightarrow>
     reachable cosf seamf v cfg snk clk (OnEvent fn e)"
| reach_seed: "reachable cosf seamf v cfg snk clk e \<Longrightarrow> seedBaseLayer e = Inr e' \<Longrightarrow>
     reachable cosf seamf v cfg snk clk e'"
| reach_tick: "reachable cosf seamf v cfg snk clk e \<Longrightarrow>
     tickOnce cosf seamf arrivals u e = Some (None, u', e') \<Longrightarrow>
     reachable cosf seamf v cfg snk clk e'"

lemma OnEvent_inv: "set_inv e \<Longrightarrow> set_inv (OnEvent fn e)" "frame (OnEvent fn e) = frame e"
  by (auto simp: OnEvent_def set_inv_def inbox_ok_def counters_ok_def behaviors_def frame_defs
      split: option.splits)

context seam_contract begin

lemma reachable_inv:
  assumes "reachable cosf seamf v cfg snk clk e" "voc_wf v"
  shows "loop_inv e \<and> going e \<and> e_voc e = v \<and> e_sink e = snk"
  using assms
proof (induction rule: reachable.induct)
  case (reach_new e)
  then show ?case using New_inv[OF reach_new.prems reach_new.hyps] by simp
next
  case (reach_send e c)
  then have "set_inv (snd (Send c e))" by (simp add: loop_inv_def set_inv_Send)
  then show ?case using reach_send loop_inv_frame[OF frame_Send] going_frame[OF frame_Send]
      frame_fields[OF frame_Send[of c e]] by auto
next
  case (reach_consumer e fn)
  then have "set_inv (OnEvent fn e)" by (simp add: loop_inv_def OnEvent_inv)
  then show ?case using reach_consumer loop_inv_frame[OF OnEvent_inv(2)] going_frame[OF OnEvent_inv(2)]
      frame_fields[OF OnEvent_inv(2)[of fn e]] by auto
next
  case (reach_seed e e')
  have "set_inv e" using reach_seed by (simp add: loop_inv_def)
  note s = seedBaseLayer_frame[OF this reach_seed(2)]
  show ?case using reach_seed s loop_inv_frame[OF s(2)] going_frame[OF s(2)]
      frame_fields[OF s(2)] by auto
next
  case (reach_tick e arrivals u u' e')
  then have inv: "loop_inv e" "going e" "e_voc e = v" "e_sink e = snk" by simp_all
  obtain r u1 e1 where t: "tickOnce cosf seamf arrivals u e = Some (r, u1, e1)" "loop_inv e1"
    "fixed_part e1 = fixed_part e" "r = None \<longleftrightarrow> going e1"
    using tick_step[OF inv(1,2)] by metis
  have "r = None" "e1 = e'" using t(1) reach_tick.hyps(2) by simp_all
  then show ?case using t(2-4) inv(3,4) by (simp add: fixed_part_def)
qed

end

section \<open>Seams written over the context's calls\<close>

text \<open>
  A seam as a program over the methods of \<open>TickContext\<close>: what it does next may depend on every
  answer it got. Such a program meets the contract, whatever it does.
\<close>

datatype ('u, 'ev) seam_prog =
    Return 'u
  | Panic string 'u
  | DoAdmit behavior "(admit_error, admit_result) result \<Rightarrow> ('u, 'ev) seam_prog"
  | DoEvict string "nat \<Rightarrow> ('u, 'ev) seam_prog"
  | DoActiveNames "string list \<Rightarrow> ('u, 'ev) seam_prog"
  | DoPose "pose \<Rightarrow> ('u, 'ev) seam_prog"
  | DoOwnership "(string \<rightharpoonup> string) \<Rightarrow> ('u, 'ev) seam_prog"
  | DoEmit 'ev "('u, 'ev) seam_prog"

type_synonym ('u, 'ev) prog_seam = "tick_context \<Rightarrow> 'u \<Rightarrow> ('u, 'ev) seam_prog"

primrec run_prog ::
  "('u, 'ev) seam_prog \<Rightarrow> ('s, 'ev) engine \<Rightarrow> string option \<times> 'u \<times> ('s, 'ev) engine" where
  "run_prog (Return u) = (\<lambda>e. (None, u, e))"
| "run_prog (Panic t u) = (\<lambda>e. (Some t, u, e))"
| "run_prog (DoAdmit b k) = (\<lambda>e. run_prog (k (snd (admit b e))) (fst (admit b e)))"
| "run_prog (DoEvict n k) = (\<lambda>e. run_prog (k (fst (evict n e))) (snd (evict n e)))"
| "run_prog (DoActiveNames k) = (\<lambda>e. run_prog (k (ActiveNames e)) e)"
| "run_prog (DoPose k) = (\<lambda>e. run_prog (k (ctx_Pose e)) e)"
| "run_prog (DoOwnership k) = (\<lambda>e. run_prog (k (ctx_Ownership e)) e)"
| "run_prog (DoEmit ev p) = (\<lambda>e. run_prog p (emit ev e))"

definition progf :: "(('u, 'ev) prog_seam, 'u, 'ev) seam_fn" where
  "progf s ctx u e = run_prog (s ctx u) e"

lemma run_prog_api: "run_prog p e = (r, u', e') \<Longrightarrow> api e e'"
proof (induction p arbitrary: e)
  case (DoAdmit b k)
  then have "api (fst (admit b e)) e'" by (auto intro: DoAdmit.IH)
  then show ?case by (rule api_trans) (rule api_admit[OF api_refl])
next
  case (DoEvict n k)
  then have "api (snd (evict n e)) e'" by (auto intro: DoEvict.IH)
  then show ?case by (rule api_trans) (rule api_evict[OF api_refl])
next
  case (DoEmit ev p)
  then have "api (emit ev e) e'" by (intro DoEmit.IH) simp
  then show ?case by (rule api_trans) (rule api_emit[OF api_refl])
next
  case (DoActiveNames k)
  then show ?case by (auto intro: DoActiveNames.IH)
next
  case (DoPose k)
  then show ?case by (auto intro: DoPose.IH)
next
  case (DoOwnership k)
  then show ?case by (auto intro: DoOwnership.IH)
qed (simp_all add: api_refl)

interpretation prog: seam_contract progf
  by unfold_locales (rule run_prog_api, simp add: progf_def)

end
