(* ===== verification/Evaluator_Invariants.thy ===== *)
theory Evaluator_Invariants
  imports Evaluator Engine_Run
begin

text \<open>
  What every operation of the evaluator keeps: the configuration, the clocks, the goals and the
  inhibited names (\<open>evf\<close>), the well-formedness of the evaluator (\<open>ev_inv\<close>), and the contract of a
  tick seam, that the engine is only touched through the calls it offers. \<open>okstep\<close> collects the
  three; a tick of a well-formed evaluator does not panic.
\<close>

section \<open>The invariant\<close>

text \<open>The suppression ledger says what the streak says: the reasons of the open episode, in order.\<close>

definition ledger_of :: "reason list \<Rightarrow> rule_state \<Rightarrow> bool" where
  "ledger_of rs st \<longleftrightarrow> rs_streak st = streak_at rs \<and> rs_suppressTicks st = length rs
     \<and> rs_suppressReasons st = first_seen rs
     \<and> rs_suppressReason st = (if rs = [] then None else Some (last rs))"

definition rules_ok :: "rules_config \<Rightarrow> bool" where
  "rules_ok cfg \<longleftrightarrow> (\<forall>r \<in> set (config_rules cfg). \<exists>n. pred_wf n (r_When r))
     \<and> distinct (map r_ID (config_rules cfg))
     \<and> (\<forall>r \<in> set (rc_Inhibit cfg). [] \<notin> set (r_Disable r))"

definition ev_inv :: "evaluator \<Rightarrow> bool" where
  "ev_inv ev \<longleftrightarrow> rules_ok (el_cfg ev) \<and> registry_ok (el_registry ev)
     \<and> (\<forall>r \<in> set (config_rules (el_cfg ev)). el_states ev (r_ID r) \<noteq> None)
     \<and> (\<forall>i st. el_states ev i = Some st \<longrightarrow> (\<exists>rs. ledger_of rs st))"

definition evf :: "evaluator \<Rightarrow> _" where
  "evf ev = (el_cfg ev, el_voc ev, el_snapshot ev, el_router ev, el_idPrefix ev, el_activeMode ev,
     (el_lastPresent ev, el_startedAt ev, el_started ev),
     (rg_goals (el_registry ev), rg_goalOrder (el_registry ev), rg_inhibited (el_registry ev)))"

definition okstep :: "'s world \<Rightarrow> 's world \<Rightarrow> bool" where
  "okstep w w' \<longleftrightarrow> evf (fst w') = evf (fst w) \<and> api (snd w) (snd w') \<and> (ev_inv (fst w) \<longrightarrow> ev_inv (fst w'))"

lemma okstep_refl [simp]: "okstep w w"
  by (simp add: okstep_def api_refl)

lemma okstep_trans: "okstep w w' \<Longrightarrow> okstep w' w'' \<Longrightarrow> okstep w w''"
  by (auto simp: okstep_def intro: api_trans)

lemma okstep_fold: "(\<And>x w. x \<in> set xs \<Longrightarrow> okstep w (f x w)) \<Longrightarrow> okstep w (fold f xs w)"
proof (induction xs arbitrary: w)
  case (Cons x xs)
  have "okstep (f x w) (fold f xs (f x w))" by (rule Cons.IH) (use Cons.prems in simp)
  then show ?case using okstep_trans[OF Cons.prems[of x w]] by simp
qed simp

lemma api_steps: "api en (fst (admit b en))" "api en (snd (evict n en))" "api en (emit x en)"
  by (auto intro: api.intros)

lemma api_evicts: "api en (fold (\<lambda>n en. snd (evict n en)) ns en)"
  by (induction ns arbitrary: en) (auto intro: api_trans api_steps api_refl)

section \<open>Episodes\<close>

lemma ledger_fresh: "ledger_of [] fresh_rule_state"
  by (simp add: ledger_of_def fresh_rule_state_def streak_at_def first_seen_def)

lemma ledger_timing [simp]:
  "ledger_of rs (stepArming r m now st) = ledger_of rs st"
  "ledger_of rs (markFired r now st) = ledger_of rs st"
  by (auto simp: ledger_of_def stepArming_def markFired_def Let_def)

lemma putState_ok:
  assumes "ledger_of rs st"
  shows "okstep w (putState r st ls (fst w), snd w)"
  using assms by (auto simp: okstep_def api_refl evf_def ev_inv_def putState_def)

lemma suppress_ok:
  assumes "ledger_of rs st"
  shows "okstep w (suppress ctx r st rsn w)"
proof -
  let ?same = "rs \<noteq> [] \<and> last rs = rsn"
  have e: "streak_Enter rsn (rs_streak st) = (streak_at (rs @ [rsn]), if ?same then [] else [SDrop rsn])"
    using assms streak_Enter_at[of rsn rs] by (simp add: ledger_of_def)
  have r: "rs_suppressReason st = Some rsn \<longleftrightarrow> ?same" using assms by (simp add: ledger_of_def)
  show ?thesis
  proof (cases ?same)
    case True
    then have "rsn \<in> set rs" by (metis last_in_set)
    then have "ledger_of (rs @ [rsn]) (st\<lparr>rs_suppressTicks := Suc (rs_suppressTicks st),
        rs_streak := streak_at (rs @ [rsn])\<rparr>)"
      using assms True by (simp add: ledger_of_def first_seen_snoc)
    from putState_ok[OF this] show ?thesis using True r by (simp add: suppress_def e)
  next
    case False
    let ?st = "st\<lparr>rs_suppressTicks := Suc (rs_suppressTicks st), rs_streak := streak_at (rs @ [rsn]),
      rs_suppressReasons := (if rsn \<in> set (rs_suppressReasons st) then rs_suppressReasons st
                             else rs_suppressReasons st @ [rsn]), rs_suppressReason := Some rsn\<rparr>"
    have n: "rs_suppressReason st \<noteq> Some rsn" using False r by blast
    have l: "ledger_of (rs @ [rsn]) ?st"
      using assms False by (auto simp: ledger_of_def first_seen_snoc)
    have "suppress ctx r st rsn w = (putState r ?st (map (RStreak (r_ID r)) [SDrop rsn]) (fst w),
        emitSuppress ctx r (Because rsn) (snd w))"
      using n False by (auto simp: suppress_def e Let_def)
    then show ?thesis using putState_ok[OF l, of w r]
      by (auto simp: okstep_def emitSuppress_def api_steps)
  qed
qed

lemma release_ok:
  assumes "ledger_of rs st" "release ctx r st w = (st', w')"
  shows "okstep w w'" "ledger_of [] st'" "el_states (fst w') (r_ID r) = Some st'"
proof -
  have en: "streak_End (rs_streak st) = (NewStreak, if rs = [] then [] else [SSummary (first_seen rs) (length rs)])"
    using assms(1) by (auto simp: ledger_of_def streak_End_def streak_at_def NewStreak_def)
  have "okstep w w' \<and> ledger_of [] st' \<and> el_states (fst w') (r_ID r) = Some st'"
  proof (cases "rs = []")
    case True
    then have n: "rs_suppressReason st = None" using assms(1) by (simp add: ledger_of_def)
    then have "st' = st" "w' = (putState r st [] (fst w), snd w)" using assms(2) by (auto simp: release_def)
    then show ?thesis using putState_ok[OF assms(1), of w r "[]"] assms(1) True
      by simp (simp add: putState_def)
  next
    case False
    then have n: "rs_suppressReason st \<noteq> None" using assms(1) by (simp add: ledger_of_def)
    define t where "t = st\<lparr>rs_streak := NewStreak, rs_suppressReason := None, rs_suppressTicks := 0, rs_suppressReasons := []\<rparr>"
    have l: "ledger_of [] t" by (simp add: t_def ledger_of_def streak_at_def first_seen_def)
    have "st' = t" and w': "w' = (putState r t (map (RStreak (r_ID r)) [SSummary (first_seen rs) (length rs)]) (fst w),
        emitSuppress ctx r (Episode (rs_suppressReasons st) (rs_suppressTicks st)) (snd w))"
      using assms(2) n False unfolding release_def en t_def by (auto simp: Let_def)
    then show ?thesis using l putState_ok[OF l, of w r "map (RStreak (r_ID r)) [SSummary (first_seen rs) (length rs)]"]
      by (simp add: okstep_def emitSuppress_def api_steps) (simp add: putState_def)
  qed
  then show "okstep w w'" "ledger_of [] st'" "el_states (fst w') (r_ID r) = Some st'" by blast+
qed

lemma emitFire_ok:
  assumes "ledger_of [] st"
  shows "okstep w (emitFire ctx r st run ds ps w)"
proof -
  have "streak_Fire (rs_streak st) = (NewStreak, [])"
    using assms by (simp add: ledger_of_def streak_Fire_def streak_End_def streak_at_def NewStreak_def)
  moreover have "ledger_of [] (st\<lparr>rs_streak := NewStreak\<rparr>)" using assms by (simp add: ledger_of_def streak_at_def)
  ultimately show ?thesis using putState_ok[of "[]" "st\<lparr>rs_streak := NewStreak\<rparr>" w r]
    by (auto simp: emitFire_def okstep_def api_steps)
qed

section \<open>Admission\<close>

lemma log_ok: "okstep w ((fst w)\<lparr>el_log := ls\<rparr>, emit x (snd w))"
  by (auto simp: okstep_def api_steps evf_def ev_inv_def)

lemma observeIntent_ok: "okstep w (observeIntent ctx kind req out w)"
  by (auto simp: observeIntent_def dropIntent_def log_ok)

lemma registry_admit_ok:
  assumes "registry_admit req byRules w = (out, w')"
  shows "okstep w w'" "el_states (fst w') = el_states (fst w)"
proof -
  obtain ev en where w: "w = (ev, en)" by (cases w)
  show "okstep w w'" "el_states (fst w') = el_states (fst w)"
    using assms api_steps(1)[of en] drain_ok(2)[of "el_registry ev"]
    by (auto simp: w registry_admit_def Let_def okstep_def api_refl registry_nextID_def evf_def ev_inv_def
        split: if_splits prod.splits) (metis fst_conv)+
qed

lemma applyPending_ok: "okstep w (applyPending ctx byRules p w)"
proof (cases "pd_evict p = []")
  case True
  obtain out w1 where a: "registry_admit (pd_request p) byRules w = (out, w1)" by (rule prod.exhaust)
  have "applyPending ctx byRules p w = observeIntent ctx (pd_kind p) (pd_request p) out w1"
    using True a by (simp add: applyPending_def)
  then show ?thesis using okstep_trans[OF registry_admit_ok(1)[OF a] observeIntent_ok] by simp
qed (simp add: applyPending_def okstep_def api_steps)

lemma registry_apply_ok: "okstep w (registry_apply ctx byRules w)"
proof -
  have "okstep w ((fst w)\<lparr>el_registry := snd (drain (el_registry (fst w)))\<rparr>, snd w)"
    using drain_ok(1)[of "el_registry (fst w)"] by (auto simp: okstep_def api_refl evf_def ev_inv_def drain_def)
  then show ?thesis
    by (auto simp: registry_apply_def Let_def case_prod_beta intro: okstep_trans okstep_fold applyPending_ok)
qed

lemma enforceName_ok: "okstep w (enforceName ctx n w)"
proof -
  have e: "okstep w (fst w, snd (evict n (snd w)))" by (simp add: okstep_def api_steps)
  have "okstep (fst w, snd (evict n (snd w))) (enforceName ctx n w)"
    unfolding enforceName_def dropIntent_def by (rule log_ok)
  with e show ?thesis by (rule okstep_trans)
qed

lemma enforce_ok: "okstep w (enforce ctx byRules w)"
  unfolding enforce_def Let_def by (rule okstep_fold) (rule enforceName_ok)

lemma sustainGoal_ok: "okstep w (sustainGoal ctx byRules active g w)"
proof (cases "g_name g \<in> active")
  case False
  obtain out w1 where a: "registry_admit (goal_request g) byRules w = (out, w1)" by (rule prod.exhaust)
  have "sustainGoal ctx byRules active g w = observeIntent ctx KindStandingGoal (goal_request g) out w1"
    using False a by (simp add: sustainGoal_def)
  then show ?thesis using okstep_trans[OF registry_admit_ok(1)[OF a] observeIntent_ok] by simp
qed (simp add: sustainGoal_def)

lemma sustain_ok: "okstep w (sustain ctx byRules w)"
  by (auto simp: sustain_def intro: okstep_fold sustainGoal_ok)

section \<open>One rule\<close>

lemma ev_inv_state:
  assumes "ev_inv ev" "r \<in> set (config_rules (el_cfg ev))"
  obtains n st rs where "pred_wf n (r_When r)" "el_states ev (r_ID r) = Some st" "ledger_of rs st"
proof -
  obtain st where st: "el_states ev (r_ID r) = Some st" using assms by (fastforce simp: ev_inv_def)
  then obtain rs where rs: "ledger_of rs st" using assms(1) unfolding ev_inv_def by blast
  obtain n where "pred_wf n (r_When r)" using assms by (auto simp: ev_inv_def rules_ok_def)
  then show ?thesis using that st rs by blast
qed

lemma inhibitStep_ok:
  assumes "ev_inv (fst w)" "r \<in> set (config_rules (el_cfg (fst w)))"
  shows "\<exists>w'. inhibitStep ctx v ab r w = (None, w') \<and> okstep w w'"
proof -
  obtain n st0 rs where p: "pred_wf n (r_When r)" and st: "el_states (fst w) (r_ID r) = Some st0" and l: "ledger_of rs st0"
    by (rule ev_inv_state[OF assms])
  define st where "st = stepArming r (holds v ab (r_When r)) (tc_Now ctx) st0"
  have l': "ledger_of rs st" using l by (simp add: st_def)
  obtain st1 w1 where rel: "release ctx r st w = (st1, w1)" by (rule prod.exhaust)
  obtain ev1 en1 where w1: "w1 = (ev1, en1)" by (rule prod.exhaust)
  define en2 where "en2 = fold (\<lambda>n en. snd (evict n en)) (r_Disable r) en1"
  have f: "okstep (ev1, en2) (emitFire ctx r (markFired r (tc_Now ctx) st1) [] (r_Disable r) [] (ev1, en2))"
    by (rule emitFire_ok) (use release_ok(2)[OF l' rel] in simp)
  have "okstep w (ev1, en2)"
    by (rule okstep_trans[OF release_ok(1)[OF l' rel]]) (simp add: w1 okstep_def en2_def api_evicts)
  note fire = okstep_trans[OF this f]
  have eq: "inhibitStep ctx v ab r w =
      (if \<not> holds v ab (r_When r) then (None, w1)
       else if fireReason r st (tc_Now ctx) \<noteq> ReasonFired
       then (None, suppress ctx r st (fireReason r st (tc_Now ctx)) w)
       else (None, emitFire ctx r (markFired r (tc_Now ctx) st1) [] (r_Disable r) [] (ev1, en2)))"
    unfolding inhibitStep_def Let_def Eval_holds[OF p] st option.case st_def[symmetric] rel w1 prod.case snd_conv
      en2_def[symmetric] ..
  have su: "okstep w (suppress ctx r st rsn w)" for rsn by (rule suppress_ok[OF l'])
  show ?thesis unfolding eq using fire release_ok(1)[OF l' rel] su
    by (simp del: split_paired_Ex)
qed

lemma okstep_inv: "okstep w w' \<Longrightarrow> ev_inv (fst w) \<Longrightarrow> ev_inv (fst w')"
  "okstep w w' \<Longrightarrow> el_cfg (fst w') = el_cfg (fst w)"
  "okstep w w' \<Longrightarrow> el_voc (fst w') = el_voc (fst w)"
  by (simp_all add: okstep_def evf_def)

lemma runInhibit_ok:
  assumes "ev_inv (fst w)" "set rs \<subseteq> set (config_rules (el_cfg (fst w)))"
  shows "\<exists>w'. runInhibit ctx v ab rs w = (None, w') \<and> okstep w w'"
  using assms
proof (induction rs arbitrary: w)
  case (Cons r rs)
  obtain w1 where s: "inhibitStep ctx v ab r w = (None, w1)" and o: "okstep w w1"
    using inhibitStep_ok[OF Cons.prems(1)] Cons.prems(2) by (metis insert_subset list.simps(15))
  obtain w' where "runInhibit ctx v ab rs w1 = (None, w')" "okstep w1 w'"
    using Cons.IH[OF okstep_inv(1)[OF o Cons.prems(1)]] Cons.prems(2) okstep_inv(2)[OF o] by auto
  then show ?case using s okstep_trans[OF o] by auto
qed simp

lemma fireReact_ok:
  assumes "ev_inv (fst w)" "r \<in> set (config_rules (el_cfg (fst w)))"
  shows "\<exists>b w'. fireReact ctx v ab byRules active r w = (None, b, w') \<and> okstep w w'"
proof -
  obtain n st0 rs where p: "pred_wf n (r_When r)" and st: "el_states (fst w) (r_ID r) = Some st0" and l: "ledger_of rs st0"
    by (rule ev_inv_state[OF assms])
  define st where "st = stepArming r (holds v ab (r_When r)) (tc_Now ctx) st0"
  have l': "ledger_of rs st" using l by (simp add: st_def)
  obtain sr wr where rel: "release ctx r st w = (sr, wr)" by (rule prod.exhaust)
  obtain out w1 where adm: "registry_admit (react_request (fst w) r) byRules w = (out, w1)" by (rule prod.exhaust)
  note o1 = registry_admit_ok(1)[OF adm]
  obtain st1 w2 where rel1: "release ctx r st w1 = (st1, w2)" by (rule prod.exhaust)
  have f: "okstep w2 (emitFire ctx r (markFired r (tc_Now ctx) st1) (r_Run r) [] (am_Params out) w2)"
    by (rule emitFire_ok) (use release_ok(2)[OF l' rel1] in simp)
  note fire = okstep_trans[OF okstep_trans[OF o1 release_ok(1)[OF l' rel1]] f]
  have sup: "okstep w (suppress ctx r st (am_Reason out) w1)" by (rule okstep_trans[OF o1 suppress_ok[OF l']])
  have eq: "fireReact ctx v ab byRules active r w =
      (if \<not> holds v ab (r_When r) then (None, False, wr)
       else if blocks byRules (r_Run r) (r_Run r) (el_registry (fst w)) then (None, False, suppress ctx r st ReasonInhibited w)
       else if fireReason r st (tc_Now ctx) \<noteq> ReasonFired
       then (None, False, suppress ctx r st (fireReason r st (tc_Now ctx)) w)
       else if r_Run r \<in> active then (None, False, suppress ctx r st ReasonAlreadyActive w)
       else if \<not> am_Admitted out then (None, False, suppress ctx r st (am_Reason out) w1)
       else (None, True, emitFire ctx r (markFired r (tc_Now ctx) st1) (r_Run r) [] (am_Params out) w2))"
    unfolding fireReact_def Let_def Eval_holds[OF p] st option.case st_def[symmetric] adm rel rel1 prod.case snd_conv ..
  have su: "okstep w (suppress ctx r st rsn w)" for rsn by (rule suppress_ok[OF l'])
  have ex: "\<exists>b w'. (None :: string option, c, u) = (None, b, w') \<and> okstep w w'" if "okstep w u" for c u
    using that by blast
  show ?thesis unfolding eq using fire sup release_ok(1)[OF l' rel] su by (auto simp del: split_paired_Ex intro: ex)
qed

lemma reactLoop_ok:
  assumes "ev_inv (fst w)" "set rs \<subseteq> set (config_rules (el_cfg (fst w)))"
  shows "\<exists>w'. reactLoop ctx v ab byRules active rs w = (None, w') \<and> okstep w w'"
  using assms
proof (induction rs arbitrary: w active)
  case (Cons r rs)
  obtain b w1 where s: "fireReact ctx v ab byRules active r w = (None, b, w1)" and o: "okstep w w1"
    using fireReact_ok[OF Cons.prems(1)] Cons.prems(2) by (metis insert_subset list.simps(15))
  obtain w' where "reactLoop ctx v ab byRules (if b then insert (r_Run r) active else active) rs w1 = (None, w')"
    "okstep w1 w'"
  proof -
    have sub: "set rs \<subseteq> set (config_rules (el_cfg (fst w1)))"
      using Cons.prems(2) okstep_inv(2)[OF o] by simp
    show ?thesis using Cons.IH[OF okstep_inv(1)[OF o Cons.prems(1)] sub] that by blast
  qed
  then show ?case using s okstep_trans[OF o] by (auto cong: if_cong)
qed simp

section \<open>The tick\<close>

definition blocked_by :: "rule list \<Rightarrow> view \<Rightarrow> (string \<Rightarrow> f64) \<Rightarrow> string set" where
  "blocked_by rs v ab = (\<Union>r \<in> {r \<in> set rs. holds v ab (r_When r)}. set (r_Disable r))"

lemma currentInhibited_holds:
  assumes "\<forall>r \<in> set rs. \<exists>n. pred_wf n (r_When r)"
  shows "currentInhibited rs v ab B = Some (B \<union> blocked_by rs v ab)"
  using assms
proof (induction rs arbitrary: B)
  case (Cons r rs)
  then obtain n where "pred_wf n (r_When r)" by auto
  then show ?case using Cons Eval_holds[of n "r_When r" v ab] by (auto simp: blocked_by_def)
qed (simp add: blocked_by_def)

lemma trackPresence_frame [simp]:
  "el_cfg (trackPresence v now ev) = el_cfg ev" "el_voc (trackPresence v now ev) = el_voc ev"
  "el_registry (trackPresence v now ev) = el_registry ev" "el_states (trackPresence v now ev) = el_states ev"
  "el_activeMode (trackPresence v now ev) = el_activeMode ev" "el_idPrefix (trackPresence v now ev) = el_idPrefix ev"
  "el_snapshot (trackPresence v now ev) = el_snapshot ev" "el_log (trackPresence v now ev) = el_log ev"
  by (simp_all add: trackPresence_def Let_def)

lemma tick_snapshot_frame [simp]:
  "el_cfg (snd (tick_snapshot now ev)) = el_cfg ev" "el_voc (snd (tick_snapshot now ev)) = el_voc ev"
  "el_registry (snd (tick_snapshot now ev)) = el_registry ev" "el_states (snd (tick_snapshot now ev)) = el_states ev"
  "el_activeMode (snd (tick_snapshot now ev)) = el_activeMode ev" "el_idPrefix (snd (tick_snapshot now ev)) = el_idPrefix ev"
  "el_snapshot (snd (tick_snapshot now ev)) = el_snapshot ev" "el_log (snd (tick_snapshot now ev)) = el_log ev"
  by (auto simp: tick_snapshot_def Let_def split: option.splits prod.splits)

text \<open>The perception part of a tick, and the rest of it on the rules it then blocks.\<close>

definition perceive :: "instant \<Rightarrow> evaluator \<Rightarrow> view \<times> evaluator" where
  "perceive now ev = (let (v, ev1) = tick_snapshot now ev in (v, trackPresence v now ev1))"

lemma perceive_frame [simp]:
  "el_cfg (snd (perceive now ev)) = el_cfg ev" "el_voc (snd (perceive now ev)) = el_voc ev"
  "el_registry (snd (perceive now ev)) = el_registry ev" "el_states (snd (perceive now ev)) = el_states ev"
  "el_activeMode (snd (perceive now ev)) = el_activeMode ev" "el_log (snd (perceive now ev)) = el_log ev"
  by (simp_all add: perceive_def case_prod_beta)

lemma perceive_inv: "ev_inv ev \<Longrightarrow> ev_inv (snd (perceive now ev))"
  by (simp add: ev_inv_def)

lemma Tick_stages:
  assumes "ev_inv (fst w)" "perceive (tc_Now ctx) (fst w) = (v, ev2)"
  defines "ab \<equiv> absentFunc ev2 (tc_Now ctx)"
  defines "byRules \<equiv> blocked_by (rc_Inhibit (el_cfg (fst w))) v ab"
  obtains w0 w1 w2 where
    "w0 = registry_apply ctx byRules (ev2, snd w)" "okstep (ev2, snd w) w0"
    "runInhibit ctx v ab (rc_Inhibit (el_cfg (fst w))) w0 = (None, w1)" "okstep w0 w1"
    "runReact ctx v ab byRules (rc_React (el_cfg (fst w))) w1 = (None, w2)" "okstep w1 w2"
    "Tick ctx w = (None, sustain ctx byRules (enforce ctx byRules w2))"
proof -
  have e2: "el_cfg ev2 = el_cfg (fst w)" "ev_inv ev2"
    using assms(1,2) perceive_frame(1)[of "tc_Now ctx" "fst w"] perceive_inv[of "fst w" "tc_Now ctx"] by simp_all
  have wf: "\<forall>r \<in> set (rc_Inhibit (el_cfg (fst w))). \<exists>n. pred_wf n (r_When r)"
    using assms(1) by (auto simp: ev_inv_def rules_ok_def config_rules_def)
  have ci: "currentInhibited (rc_Inhibit (el_cfg (fst w))) v ab {} = Some byRules"
    using currentInhibited_holds[OF wf] by (simp add: byRules_def)
  define w0 where "w0 = registry_apply ctx byRules (ev2, snd w)"
  have o0: "okstep (ev2, snd w) w0" unfolding w0_def by (rule registry_apply_ok)
  have i0: "ev_inv (fst w0)" "el_cfg (fst w0) = el_cfg (fst w)"
    using okstep_inv(1,2)[OF o0] e2 by simp_all
  obtain w1 where r1: "runInhibit ctx v ab (rc_Inhibit (el_cfg (fst w))) w0 = (None, w1)" and o1: "okstep w0 w1"
    using runInhibit_ok[OF i0(1), of "rc_Inhibit (el_cfg (fst w))" ctx v ab] i0(2)
    by (auto simp: config_rules_def)
  have i1: "ev_inv (fst w1)" "el_cfg (fst w1) = el_cfg (fst w)"
    using okstep_inv(1,2)[OF o1] i0 by simp_all
  obtain w2 where r2: "runReact ctx v ab byRules (rc_React (el_cfg (fst w))) w1 = (None, w2)" and o2: "okstep w1 w2"
  proof -
    have "set (rc_React (el_cfg (fst w))) \<subseteq> set (config_rules (el_cfg (fst w1)))"
      using i1(2) by (simp add: config_rules_def)
    from reactLoop_ok[OF i1(1) this] show ?thesis using that unfolding runReact_def by blast
  qed
  have t: "Tick ctx w = (None, sustain ctx byRules (enforce ctx byRules w2))"
  proof -
    obtain ev1 where ts: "tick_snapshot (tc_Now ctx) (fst w) = (v, ev1)" and tp: "trackPresence v (tc_Now ctx) ev1 = ev2"
      using assms(2) by (auto simp: perceive_def split: prod.splits)
    show ?thesis
      unfolding Tick_def Let_def ts prod.case tp e2(1) ab_def[symmetric] ci option.case w0_def[symmetric] r1 r2 ..
  qed
  show ?thesis by (rule that[OF w0_def o0 r1 o1 r2 o2 t])
qed

theorem Tick_ok:
  assumes "ev_inv (fst w)"
  shows "\<exists>w'. Tick ctx w = (None, w') \<and> ev_inv (fst w') \<and> api (snd w) (snd w')
     \<and> el_cfg (fst w') = el_cfg (fst w) \<and> el_voc (fst w') = el_voc (fst w)"
proof -
  obtain v ev2 where p: "perceive (tc_Now ctx) (fst w) = (v, ev2)" by (rule prod.exhaust)
  have e2: "ev_inv ev2" "el_cfg ev2 = el_cfg (fst w)" "el_voc ev2 = el_voc (fst w)"
    using p perceive_inv[OF assms, of "tc_Now ctx"] perceive_frame(1,2)[of "tc_Now ctx" "fst w"] by simp_all
  obtain w0 w1 w2 byRules where o: "okstep (ev2, snd w) w0" "okstep w0 w1" "okstep w1 w2"
    and t: "Tick ctx w = (None, sustain ctx byRules (enforce ctx byRules w2))"
    using Tick_stages[OF assms p] by metis
  have last: "okstep (ev2, snd w) (sustain ctx byRules (enforce ctx byRules w2))"
    by (rule okstep_trans[OF okstep_trans[OF okstep_trans[OF o(1) o(2)] o(3)]
          okstep_trans[OF enforce_ok sustain_ok]])
  then show ?thesis using t e2 okstep_inv[OF last] last by (simp add: okstep_def)
qed

end
