(* ===== verification/Evaluator_Timing.thy ===== *)
theory Evaluator_Timing
  imports Evaluator_Invariants
begin

text \<open>
  The evaluator as a tick seam, and the timing of one rule: what a tick does to the state of a rule
  is one \<open>rule_step\<close>, and a rule under it is a rate limiter of window \<open>cooldown_s\<close> that, after a
  fire, waits for \<open>hysteresis\<close> seconds of a condition that stays false.
\<close>

section \<open>The evaluator meets the seam contract\<close>

lemma suppress_api: "api (snd w) (snd (suppress ctx r st rsn w))"
  by (auto simp: suppress_def Let_def emitSuppress_def api_steps api_refl split: prod.splits)

lemma release_api: "api (snd w) (snd (snd (release ctx r st w)))"
  by (auto simp: release_def Let_def emitSuppress_def api_steps api_refl split: prod.splits)

lemma emitFire_api: "api (snd w) (snd (emitFire ctx r st run ds ps w))"
  by (auto simp: emitFire_def api_steps split: prod.splits)

lemma okstep_api: "okstep w w' \<Longrightarrow> api (snd w) (snd w')"
  by (simp add: okstep_def)

text \<open>The branches of the two steps.\<close>

lemma inhibitStep_cases:
  assumes "inhibitStep ctx v ab r w = (p, w')"
  obtains (panic) "p \<noteq> None" "w' = w"
  | (quiet) st0 where "p = None" "Eval (r_When r) v (Some ab) = Some False" "el_states (fst w) (r_ID r) = Some st0"
      "w' = snd (release ctx r (stepArming r False (tc_Now ctx) st0) w)"
  | (held) st0 st where "p = None" "Eval (r_When r) v (Some ab) = Some True" "el_states (fst w) (r_ID r) = Some st0" "st = stepArming r True (tc_Now ctx) st0"
      "fireReason r st (tc_Now ctx) \<noteq> ReasonFired" "w' = suppress ctx r st (fireReason r st (tc_Now ctx)) w"
  | (fired) st0 st st1 ev1 en1 where "p = None" "Eval (r_When r) v (Some ab) = Some True" "el_states (fst w) (r_ID r) = Some st0"
      "st = stepArming r True (tc_Now ctx) st0" "fireReason r st (tc_Now ctx) = ReasonFired"
      "release ctx r st w = (st1, ev1, en1)"
      "w' = emitFire ctx r (markFired r (tc_Now ctx) st1) [] (r_Disable r) []
         (ev1, fold (\<lambda>n en. snd (evict n en)) (r_Disable r) en1)"
proof (cases "Eval (r_When r) v (Some ab)")
  case None
  then show ?thesis using assms by (intro panic) (auto simp: inhibitStep_def)
next
  case (Some m)
  show ?thesis
  proof (cases "el_states (fst w) (r_ID r)")
    case None
    then show ?thesis using assms Some by (intro panic) (auto simp: inhibitStep_def)
  next
    case st0: (Some st0)
    define st where "st = stepArming r m (tc_Now ctx) st0"
    obtain st1 ev1 en1 where rel: "release ctx r st w = (st1, ev1, en1)" by (metis prod_cases3)
    have eq: "(if \<not> m then (None, snd (release ctx r st w))
        else if fireReason r st (tc_Now ctx) \<noteq> ReasonFired
        then (None, suppress ctx r st (fireReason r st (tc_Now ctx)) w)
        else (None, emitFire ctx r (markFired r (tc_Now ctx) st1) [] (r_Disable r) []
           (ev1, fold (\<lambda>n en. snd (evict n en)) (r_Disable r) en1))) = (p, w')"
      using assms unfolding inhibitStep_def Let_def Some st0 option.case st_def[symmetric] rel prod.case by simp
    show ?thesis
    proof (cases m)
      case False
      then show ?thesis using eq st0 Some by (intro quiet) (auto simp: st_def)
    next
      case True
      show ?thesis
      proof (cases "fireReason r st (tc_Now ctx) = ReasonFired")
        case False
        then show ?thesis using eq st0 True Some by (intro held[of st0 st]) (auto simp: st_def)
      next
        case fr: True
        show ?thesis by (rule fired[OF _ _ st0 _ fr rel]) (use eq True fr Some in \<open>simp_all add: st_def\<close>)
      qed
    qed
  qed
qed

lemma fireReact_cases:
  assumes "fireReact ctx v ab byRules active r w = (p, b, w')"
  obtains (panic) "p \<noteq> None" "w' = w"
  | (quiet) st0 where "p = None" "Eval (r_When r) v (Some ab) = Some False" "el_states (fst w) (r_ID r) = Some st0"
      "w' = snd (release ctx r (stepArming r False (tc_Now ctx) st0) w)"
  | (held) st0 rsn where "p = None" "Eval (r_When r) v (Some ab) = Some True" "el_states (fst w) (r_ID r) = Some st0"
      "w' = suppress ctx r (stepArming r True (tc_Now ctx) st0) rsn w"
  | (refused) st0 out w1 where "p = None" "Eval (r_When r) v (Some ab) = Some True" "el_states (fst w) (r_ID r) = Some st0"
      "registry_admit (react_request (fst w) r) byRules w = (out, w1)"
      "w' = suppress ctx r (stepArming r True (tc_Now ctx) st0) (am_Reason out) w1"
  | (fired) st0 st out w1 st1 w2 where "p = None" "Eval (r_When r) v (Some ab) = Some True" "el_states (fst w) (r_ID r) = Some st0"
      "st = stepArming r True (tc_Now ctx) st0" "fireReason r st (tc_Now ctx) = ReasonFired"
      "registry_admit (react_request (fst w) r) byRules w = (out, w1)" "release ctx r st w1 = (st1, w2)"
      "w' = emitFire ctx r (markFired r (tc_Now ctx) st1) (r_Run r) [] (am_Params out) w2"
proof (cases "Eval (r_When r) v (Some ab)")
  case None
  then show ?thesis using assms by (intro panic) (auto simp: fireReact_def)
next
  case (Some m)
  show ?thesis
  proof (cases "el_states (fst w) (r_ID r)")
    case None
    then show ?thesis using assms Some by (intro panic) (auto simp: fireReact_def)
  next
    case st0: (Some st0)
    define st where "st = stepArming r m (tc_Now ctx) st0"
    obtain out w1 where adm: "registry_admit (react_request (fst w) r) byRules w = (out, w1)" by (rule prod.exhaust)
    obtain st1 w2 where rel: "release ctx r st w1 = (st1, w2)" by (rule prod.exhaust)
    have eq: "(if \<not> m then (None, False, snd (release ctx r st w))
       else if blocks byRules (r_Run r) (r_Run r) (el_registry (fst w)) then (None, False, suppress ctx r st ReasonInhibited w)
       else if fireReason r st (tc_Now ctx) \<noteq> ReasonFired
       then (None, False, suppress ctx r st (fireReason r st (tc_Now ctx)) w)
       else if r_Run r \<in> active then (None, False, suppress ctx r st ReasonAlreadyActive w)
       else if \<not> am_Admitted out then (None, False, suppress ctx r st (am_Reason out) w1)
       else (None, True, emitFire ctx r (markFired r (tc_Now ctx) st1) (r_Run r) [] (am_Params out) w2)) = (p, b, w')"
      using assms unfolding fireReact_def Let_def Some st0 option.case st_def[symmetric] adm rel prod.case by simp
    show ?thesis
    proof (cases m)
      case False
      then show ?thesis using eq st0 Some by (intro quiet) (auto simp: st_def)
    next
      case True
      have m: "st = stepArming r True (tc_Now ctx) st0" using True by (simp add: st_def)
      have ev: "Eval (r_When r) v (Some ab) = Some True" using Some True by simp
      consider (h) rsn where "p = None" "w' = suppress ctx r st rsn w"
        | (n) "p = None" "w' = suppress ctx r st (am_Reason out) w1"
        | (f) "p = None" "fireReason r st (tc_Now ctx) = ReasonFired"
            "w' = emitFire ctx r (markFired r (tc_Now ctx) st1) (r_Run r) [] (am_Params out) w2"
        using eq True by (auto split: if_splits)
      then show ?thesis
      proof cases
        case h
        then show ?thesis using held[OF _ ev st0] m by blast
      next
        case n
        then show ?thesis using refused[OF _ ev st0 adm] m by blast
      next
        case f
        then show ?thesis using fired[OF _ ev st0 m _ adm rel] by blast
      qed
    qed
  qed
qed

lemma inhibitStep_api: "inhibitStep ctx v ab r w = (p, w') \<Longrightarrow> api (snd w) (snd w')"
proof (erule inhibitStep_cases)
  fix st0 st st1 ev1 en1
  assume rel: "release ctx r st w = (st1, ev1, en1)"
    and w': "w' = emitFire ctx r (markFired r (tc_Now ctx) st1) [] (r_Disable r) []
         (ev1, fold (\<lambda>n en. snd (evict n en)) (r_Disable r) en1)"
  have "api (snd w) en1" using release_api[of w ctx r st] rel by simp
  then have "api (snd w) (fold (\<lambda>n en. snd (evict n en)) (r_Disable r) en1)"
    by (rule api_trans[OF api_evicts])
  then show "api (snd w) (snd w')" unfolding w' using emitFire_api[of "(ev1, _)"] api_trans by fastforce
qed (simp_all add: api_refl release_api suppress_api)

lemma fireReact_api: "fireReact ctx v ab byRules active r w = (p, b, w') \<Longrightarrow> api (snd w) (snd w')"
proof (erule fireReact_cases)
  fix st0 out w1
  assume a: "registry_admit (react_request (fst w) r) byRules w = (out, w1)"
    and w': "w' = suppress ctx r (stepArming r True (tc_Now ctx) st0) (am_Reason out) w1"
  show "api (snd w) (snd w')" unfolding w'
    by (rule api_trans[OF suppress_api okstep_api[OF registry_admit_ok(1)[OF a]]])
next
  fix st0 st out w1 st1 w2
  assume a: "registry_admit (react_request (fst w) r) byRules w = (out, w1)" and rel: "release ctx r st w1 = (st1, w2)"
    and w': "w' = emitFire ctx r (markFired r (tc_Now ctx) st1) (r_Run r) [] (am_Params out) w2"
  have "api (snd w1) (snd w2)" using release_api[of w1 ctx r st] rel by simp
  then have "api (snd w) (snd w2)" by (rule api_trans[OF _ okstep_api[OF registry_admit_ok(1)[OF a]]])
  then show "api (snd w) (snd w')" unfolding w' by (rule api_trans[OF emitFire_api])
qed (simp_all add: api_refl release_api suppress_api)

lemma runInhibit_api: "runInhibit ctx v ab rs w = (p, w') \<Longrightarrow> api (snd w) (snd w')"
proof (induction rs arbitrary: w)
  case (Cons r rs)
  obtain q w1 where s: "inhibitStep ctx v ab r w = (q, w1)" by (rule prod.exhaust)
  note a = inhibitStep_api[OF s]
  show ?case
  proof (cases q)
    case None
    then have "runInhibit ctx v ab rs w1 = (p, w')" using Cons.prems s by simp
    from Cons.IH[OF this] show ?thesis by (rule api_trans[OF _ a])
  qed (use Cons.prems s a in simp)
qed (simp add: api_refl)

lemma reactLoop_api: "reactLoop ctx v ab byRules active rs w = (p, w') \<Longrightarrow> api (snd w) (snd w')"
proof (induction rs arbitrary: w active)
  case (Cons r rs)
  obtain q b w1 where s: "fireReact ctx v ab byRules active r w = (q, b, w1)" by (metis prod_cases3)
  note a = fireReact_api[OF s]
  show ?case
  proof (cases q)
    case None
    then have "reactLoop ctx v ab byRules (if b then insert (r_Run r) active else active) rs w1 = (p, w')"
      using Cons.prems s by simp
    from Cons.IH[OF this] show ?thesis by (rule api_trans[OF _ a])
  qed (use Cons.prems s a in simp)
qed (simp add: api_refl)

lemma Tick_api: "Tick ctx w = (p, w') \<Longrightarrow> api (snd w) (snd w')"
proof -
  assume t: "Tick ctx w = (p, w')"
  obtain v ev1 where ts: "tick_snapshot (tc_Now ctx) (fst w) = (v, ev1)" by (rule prod.exhaust)
  define ev2 where "ev2 = trackPresence v (tc_Now ctx) ev1"
  define ab where "ab = absentFunc ev2 (tc_Now ctx)"
  note t' = t[unfolded Tick_def Let_def ts prod.case ev2_def[symmetric] ab_def[symmetric]]
  show ?thesis
  proof (cases "currentInhibited (rc_Inhibit (el_cfg ev2)) v ab {}")
    case None
    then show ?thesis using t' by (auto simp: api_refl)
  next
    case (Some byRules)
    define w0 where "w0 = registry_apply ctx byRules (ev2, snd w)"
    have a0: "api (snd w) (snd w0)" using okstep_api[OF registry_apply_ok, of "(ev2, snd w)"] by (simp add: w0_def)
    obtain q1 w1 where r1: "runInhibit ctx v ab (rc_Inhibit (el_cfg ev2)) w0 = (q1, w1)" by (rule prod.exhaust)
    note a1 = api_trans[OF runInhibit_api[OF r1] a0]
    obtain q2 w2 where r2: "runReact ctx v ab byRules (rc_React (el_cfg ev2)) w1 = (q2, w2)" by (rule prod.exhaust)
    have a2: "api (snd w) (snd w2)" using r2 reactLoop_api a1 api_trans unfolding runReact_def by blast
    have a3: "api (snd w) (snd (sustain ctx byRules (enforce ctx byRules w2)))"
      by (rule api_trans[OF okstep_api[OF okstep_trans[OF enforce_ok sustain_ok]] a2])
    show ?thesis using t' a1 a2 a3 unfolding Some option.case w0_def[symmetric] r1 r2 prod.case
      by (auto split: option.splits)
  qed
qed

interpretation evaluator: seam_contract "Seam :: ('s, evaluator, rule_event) seam_fn"
  by unfold_locales (use Tick_api in \<open>fastforce simp: Seam_def\<close>)

section \<open>One rule, one tick\<close>

text \<open>
  What a tick asks of a rule: the time, whether its condition matched, and whether nothing but its
  own timing stood in the way (no inhibition, the action free, the admission accepted).
\<close>

definition rule_step :: "rule \<Rightarrow> instant \<times> bool \<times> bool \<Rightarrow> rule_state \<Rightarrow> bool \<times> rule_state" where
  "rule_step r i st =
     (let (now, matched, free) = i; st1 = stepArming r matched now st
      in if matched \<and> free \<and> fireReason r st1 now = ReasonFired then (True, markFired r now st1) else (False, st1))"

text \<open>The part of a rule's state that decides, without the episode ledger.\<close>

definition timing :: "rule_state \<Rightarrow> rule_state" where
  "timing st = st\<lparr>rs_suppressReason := None, rs_suppressTicks := 0, rs_suppressReasons := [], rs_streak := NewStreak\<rparr>"

lemma timing_steps [simp]:
  "timing (stepArming r m now st) = stepArming r m now (timing st)"
  "timing (markFired r now st) = markFired r now (timing st)"
  "fireReason r (timing st) now = fireReason r st now" "timing (timing st) = timing st"
  by (auto simp: timing_def stepArming_def markFired_def fireReason_def Let_def)

lemma timing_eqD: "timing st = timing st' \<Longrightarrow> fireReason r st now = fireReason r st' now"
  by (metis timing_steps(3))

lemma rule_step_timing:
  "fst (rule_step r i (timing st)) = fst (rule_step r i st)"
  "snd (rule_step r i (timing st)) = timing (snd (rule_step r i st))"
proof -
  obtain now m f where i: "i = (now, m, f)" by (metis prod_cases3)
  have "fireReason r (stepArming r m now (timing st)) now = fireReason r (stepArming r m now st) now"
    using timing_steps(3)[of r "stepArming r m now st" now] by simp
  then show "fst (rule_step r i (timing st)) = fst (rule_step r i st)"
    "snd (rule_step r i (timing st)) = timing (snd (rule_step r i st))"
    by (cases m; simp add: i rule_step_def Let_def)+
qed

fun fired_line :: "string \<Rightarrow> rule_log \<Rightarrow> bool" where
  "fired_line i (RFired j _ _ _ _) \<longleftrightarrow> i = j"
| "fired_line i _ \<longleftrightarrow> False"

definition fires :: "string \<Rightarrow> evaluator \<Rightarrow> nat" where
  "fires i ev = length (filter (fired_line i) (el_log ev))"

definition kept :: "string \<Rightarrow> 's world \<Rightarrow> 's world \<Rightarrow> bool" where
  "kept i w w' \<longleftrightarrow> el_states (fst w') i = el_states (fst w) i \<and> fires i (fst w') = fires i (fst w)"

definition moved :: "instant \<Rightarrow> bool \<Rightarrow> bool \<Rightarrow> rule \<Rightarrow> 's world \<Rightarrow> 's world \<Rightarrow> bool" where
  "moved now m f r w w' \<longleftrightarrow> (\<exists>st st'. el_states (fst w) (r_ID r) = Some st \<and> el_states (fst w') (r_ID r) = Some st'
     \<and> timing st' = timing (snd (rule_step r (now, m, f) st))
     \<and> fires (r_ID r) (fst w') = fires (r_ID r) (fst w) + (if fst (rule_step r (now, m, f) st) then 1 else 0))"

lemma kept_refl [simp]: "kept i w w"
  by (simp add: kept_def)

lemma kept_trans: "kept i w w' \<Longrightarrow> kept i w' w'' \<Longrightarrow> kept i w w''"
  by (simp add: kept_def)

lemma moved_kept: "moved now m f r w w' \<Longrightarrow> kept (r_ID r) w' w'' \<Longrightarrow> moved now m f r w w''"
  "kept (r_ID r) w w' \<Longrightarrow> moved now m f r w' w'' \<Longrightarrow> moved now m f r w w''"
  by (simp_all add: moved_def kept_def)

lemma kept_fold: "(\<And>x w. x \<in> set xs \<Longrightarrow> kept i w (f x w)) \<Longrightarrow> kept i w (fold f xs w)"
proof (induction xs arbitrary: w)
  case (Cons x xs)
  have "kept i (f x w) (fold f xs (f x w))" by (rule Cons.IH) (use Cons.prems in simp)
  then show ?case using kept_trans[OF Cons.prems[of x w]] by simp
qed simp

lemma fires_streak [simp]: "filter (fired_line i) (map (RStreak j) ls) = []"
  by (induction ls) auto

lemma suppress_states:
  "\<exists>st'. timing st' = timing st \<and> el_states (fst (suppress ctx r st rsn w)) = (el_states (fst w))(r_ID r \<mapsto> st')
     \<and> (\<forall>i. fires i (fst (suppress ctx r st rsn w)) = fires i (fst w))"
proof -
  obtain sk ls where e: "streak_Enter rsn (rs_streak st) = (sk, ls)" by (rule prod.exhaust)
  show ?thesis
  proof (cases "rs_suppressReason st = Some rsn")
    case True
    show ?thesis
      by (rule exI[of _ "st\<lparr>rs_suppressTicks := Suc (rs_suppressTicks st), rs_streak := sk\<rparr>"])
        (use True in \<open>simp_all add: suppress_def Let_def e putState_def fires_def timing_def\<close>)
  next
    case False
    show ?thesis
      by (rule exI[of _ "st\<lparr>rs_suppressTicks := Suc (rs_suppressTicks st), rs_streak := sk,
            rs_suppressReasons := (if rsn \<in> set (rs_suppressReasons st) then rs_suppressReasons st
              else rs_suppressReasons st @ [rsn]), rs_suppressReason := Some rsn\<rparr>"])
        (use False in \<open>simp_all add: suppress_def Let_def e putState_def fires_def timing_def\<close>)
  qed
qed

lemma release_states:
  assumes "release ctx r st w = (st', w')"
  shows "timing st' = timing st" "el_states (fst w') = (el_states (fst w))(r_ID r \<mapsto> st')"
    "fires i (fst w') = fires i (fst w)"
  using assms by (auto simp: release_def Let_def putState_def fires_def timing_def split: prod.splits if_splits)

lemma emitFire_states:
  "\<exists>st'. timing st' = timing st \<and> el_states (fst (emitFire ctx r st run ds ps w)) = (el_states (fst w))(r_ID r \<mapsto> st')
     \<and> (\<forall>i. fires i (fst (emitFire ctx r st run ds ps w)) = fires i (fst w) + (if i = r_ID r then 1 else 0))"
proof -
  obtain sk ls where e: "streak_Fire (rs_streak st) = (sk, ls)" by (rule prod.exhaust)
  show ?thesis
    by (rule exI[of _ "st\<lparr>rs_streak := sk\<rparr>"])
      (simp_all add: emitFire_def e putState_def fires_def timing_def)
qed

lemma registry_admit_kept: "registry_admit req byRules w = (out, w') \<Longrightarrow> kept i w w'"
proof -
  assume a: "registry_admit req byRules w = (out, w')"
  obtain ev en where w: "w = (ev, en)" by (rule prod.exhaust)
  show ?thesis using a by (auto simp: w registry_admit_def Let_def kept_def fires_def split: if_splits prod.splits)
qed

lemma observeIntent_kept: "kept i w (observeIntent ctx kind req out w)"
  by (simp add: observeIntent_def dropIntent_def kept_def fires_def)

lemma registry_apply_kept: "kept i w (registry_apply ctx byRules w)"
proof -
  have "kept i w (applyPending ctx byRules p w)" for p and w :: "'a world"
  proof (cases "pd_evict p = []")
    case True
    obtain out w1 where a: "registry_admit (pd_request p) byRules w = (out, w1)" by (rule prod.exhaust)
    show ?thesis using True a kept_trans[OF registry_admit_kept[OF a] observeIntent_kept]
      by (simp add: applyPending_def)
  qed (simp add: applyPending_def kept_def)
  then have "kept i ((fst w)\<lparr>el_registry := rg\<rparr>, snd w) (fold (applyPending ctx byRules) ps ((fst w)\<lparr>el_registry := rg\<rparr>, snd w))"
    for rg ps by (rule kept_fold)
  then show ?thesis by (simp add: registry_apply_def case_prod_beta kept_def fires_def)
qed

lemma enforce_kept: "kept i w (enforce ctx byRules w)"
  unfolding enforce_def Let_def
  by (rule kept_fold) (simp add: enforceName_def dropIntent_def kept_def fires_def)

lemma sustain_kept: "kept i w (sustain ctx byRules w)"
  unfolding sustain_def
proof (rule kept_fold)
  fix g and u :: "'a world"
  show "kept i u (sustainGoal ctx byRules (set (ActiveNames (snd w))) g u)"
  proof (cases "g_name g \<in> set (ActiveNames (snd w))")
    case False
    obtain out w1 where a: "registry_admit (goal_request g) byRules u = (out, w1)" by (rule prod.exhaust)
    show ?thesis using False a kept_trans[OF registry_admit_kept[OF a] observeIntent_kept]
      by (simp add: sustainGoal_def)
  qed (simp add: sustainGoal_def)
qed

section \<open>A tick moves every rule once\<close>

lemma emitFire_moved:
  assumes "timing st = timing (markFired r now st1)" "el_states (fst w) (r_ID r) = Some st0"
    "rule_step r (now, m, f) st0 = (True, markFired r now st1)" "\<And>i. fires i (fst w1) = fires i (fst w)"
  shows "moved now m f r w (emitFire ctx r st run ds ps w1)"
proof -
  obtain st' where e: "timing st' = timing st"
    "el_states (fst (emitFire ctx r st run ds ps w1)) = (el_states (fst w1))(r_ID r \<mapsto> st')"
    "\<And>i. fires i (fst (emitFire ctx r st run ds ps w1)) = fires i (fst w1) + (if i = r_ID r then 1 else 0)"
    using emitFire_states[of st ctx r run ds ps w1] by metis
  show ?thesis unfolding moved_def
    by (rule exI[of _ st0], rule exI[of _ st'])
      (use e(1) assms in \<open>simp add: e(2,3)\<close>)
qed

lemma suppress_moved:
  assumes "el_states (fst w) (r_ID r) = Some st0"
    "rule_step r (now, m, f) st0 = (False, st)" "\<And>i. fires i (fst w1) = fires i (fst w)"
  shows "moved now m f r w (suppress ctx r st rsn w1)"
proof -
  obtain st' where e: "timing st' = timing st"
    "el_states (fst (suppress ctx r st rsn w1)) = (el_states (fst w1))(r_ID r \<mapsto> st')"
    "\<And>i. fires i (fst (suppress ctx r st rsn w1)) = fires i (fst w1)"
    using suppress_states[of st ctx r rsn w1] by metis
  show ?thesis unfolding moved_def
    by (rule exI[of _ st0], rule exI[of _ st'])
      (use e(1) assms in \<open>simp add: e(2,3)\<close>)
qed

lemma quiet_moved:
  assumes "el_states (fst w) (r_ID r) = Some st0"
  shows "moved now False f r w (snd (release ctx r (stepArming r False now st0) w))"
proof -
  obtain st' w' where e: "release ctx r (stepArming r False now st0) w = (st', w')" by (rule prod.exhaust)
  show ?thesis unfolding moved_def
    by (rule exI[of _ st0], rule exI[of _ st'])
      (use release_states[OF e] assms in \<open>simp add: e rule_step_def\<close>)
qed

lemma kept_evicts [simp]: "kept i w (fst w, en)"
  by (simp add: kept_def)

lemma emitFire_kept:
  assumes "i \<noteq> r_ID r" "kept i w w1"
  shows "kept i w (emitFire ctx r st run ds ps w1)"
proof -
  obtain st' where "el_states (fst (emitFire ctx r st run ds ps w1)) = (el_states (fst w1))(r_ID r \<mapsto> st')"
    "\<And>i. fires i (fst (emitFire ctx r st run ds ps w1)) = fires i (fst w1) + (if i = r_ID r then 1 else 0)"
    using emitFire_states[of st ctx r run ds ps w1] by metis
  then show ?thesis using assms by (simp add: kept_def)
qed

lemma suppress_kept:
  assumes "i \<noteq> r_ID r" "kept i w w1"
  shows "kept i w (suppress ctx r st rsn w1)"
proof -
  obtain st' where "el_states (fst (suppress ctx r st rsn w1)) = (el_states (fst w1))(r_ID r \<mapsto> st')"
    "\<And>i. fires i (fst (suppress ctx r st rsn w1)) = fires i (fst w1)"
    using suppress_states[of st ctx r rsn w1] by metis
  then show ?thesis using assms by (simp add: kept_def)
qed

lemma release_kept:
  assumes "i \<noteq> r_ID r" "release ctx r st w = (st', w')"
  shows "kept i w w'"
  using release_states[OF assms(2)] assms(1) by (simp add: kept_def)

lemma inhibitStep_moved:
  assumes "inhibitStep ctx v ab r w = (None, w')"
  shows "(\<exists>m. Eval (r_When r) v (Some ab) = Some m \<and> moved (tc_Now ctx) m True r w w') \<and> (\<forall>i. i \<noteq> r_ID r \<longrightarrow> kept i w w')"
  using assms
proof (cases rule: inhibitStep_cases)
  case (quiet st0)
  obtain st' u where e: "release ctx r (stepArming r False (tc_Now ctx) st0) w = (st', u)" by (rule prod.exhaust)
  have "moved (tc_Now ctx) False True r w w'" "\<And>i. i \<noteq> r_ID r \<Longrightarrow> kept i w w'"
    using quiet_moved[OF quiet(3), of "tc_Now ctx" True ctx] release_kept[OF _ e] quiet(4) by (simp_all add: e)
  then show ?thesis using quiet(2) by blast
next
  case (held st0 st)
  have "rule_step r (tc_Now ctx, True, True) st0 = (False, st)" using held(4,5) by (simp add: rule_step_def)
  from suppress_moved[OF held(3) this refl] suppress_kept[OF _ kept_refl] show ?thesis using held(2) unfolding held(6) by blast
next
  case (fired st0 st st1 ev1 en1)
  note rel = release_states[OF fired(6)]
  let ?en = "fold (\<lambda>n en. snd (evict n en)) (r_Disable r) en1"
  have "rule_step r (tc_Now ctx, True, True) st0 = (True, markFired r (tc_Now ctx) st)"
    using fired(4,5) by (simp add: rule_step_def)
  then have "moved (tc_Now ctx) True True r w w'" unfolding fired(7)
    by (rule emitFire_moved[rotated 2, OF _ _ _ fired(3)]) (use rel in simp_all)
  moreover have "kept i w w'" if "i \<noteq> r_ID r" for i
    unfolding fired(7)
    by (rule emitFire_kept[OF that]) (use release_kept[OF that fired(6)] in \<open>simp add: kept_def\<close>)
  ultimately show ?thesis using fired(2) by blast
qed simp

lemma fireReact_moved:
  assumes "fireReact ctx v ab byRules active r w = (None, b, w')"
  shows "(\<exists>m f. Eval (r_When r) v (Some ab) = Some m \<and> moved (tc_Now ctx) m f r w w') \<and> (\<forall>i. i \<noteq> r_ID r \<longrightarrow> kept i w w')"
  using assms
proof (cases rule: fireReact_cases)
  case (quiet st0)
  obtain st' u where e: "release ctx r (stepArming r False (tc_Now ctx) st0) w = (st', u)" by (rule prod.exhaust)
  have "moved (tc_Now ctx) False True r w w'" "\<And>i. i \<noteq> r_ID r \<Longrightarrow> kept i w w'"
    using quiet_moved[OF quiet(3), of "tc_Now ctx" True ctx] release_kept[OF _ e] quiet(4) by (simp_all add: e)
  then show ?thesis using quiet(2) by blast
next
  case (held st0 rsn)
  have "rule_step r (tc_Now ctx, True, False) st0 = (False, stepArming r True (tc_Now ctx) st0)"
    by (simp add: rule_step_def)
  from suppress_moved[OF held(3) this refl] suppress_kept[OF _ kept_refl] show ?thesis using held(2) unfolding held(4) by blast
next
  case (refused st0 out w1)
  note k = registry_admit_kept[OF refused(4)]
  have "rule_step r (tc_Now ctx, True, False) st0 = (False, stepArming r True (tc_Now ctx) st0)"
    by (simp add: rule_step_def)
  from suppress_moved[OF refused(3) this] suppress_kept[OF _ k] show ?thesis
    using refused(2) k unfolding refused(5) kept_def by blast
next
  case (fired st0 st out w1 st1 w2)
  note k = registry_admit_kept[OF fired(6)] and rel = release_states[OF fired(7)]
  have "rule_step r (tc_Now ctx, True, True) st0 = (True, markFired r (tc_Now ctx) st)"
    using fired(4,5) by (simp add: rule_step_def)
  then have "moved (tc_Now ctx) True True r w w'" unfolding fired(8)
    by (rule emitFire_moved[rotated 2, OF _ _ _ fired(3)]) (use rel k in \<open>simp_all add: kept_def\<close>)
  moreover have "kept i w w'" if "i \<noteq> r_ID r" for i
    unfolding fired(8)
    by (rule emitFire_kept[OF that kept_trans[OF k release_kept[OF that fired(7)]]])
  ultimately show ?thesis using fired(2) by blast
qed simp

lemma runInhibit_moved:
  assumes "runInhibit ctx v ab rs w = (None, w')" "distinct (map r_ID rs)"
  shows "(\<forall>r \<in> set rs. \<exists>m. Eval (r_When r) v (Some ab) = Some m \<and> moved (tc_Now ctx) m True r w w') \<and> (\<forall>i. i \<notin> r_ID ` set rs \<longrightarrow> kept i w w')"
  using assms
proof (induction rs arbitrary: w)
  case (Cons r rs)
  obtain w1 where s: "inhibitStep ctx v ab r w = (None, w1)" and l: "runInhibit ctx v ab rs w1 = (None, w')"
    using Cons.prems(1) by (auto split: prod.splits option.splits)
  have d: "distinct (map r_ID rs)" "r_ID r \<notin> r_ID ` set rs" using Cons.prems(2) by auto
  note m = inhibitStep_moved[OF s] and IH = Cons.IH[OF l d(1)]
  have "\<exists>m. Eval (r_When q) v (Some ab) = Some m \<and> moved (tc_Now ctx) m True q w w'" if "q \<in> set rs" for q
    using IH m that d(2) by (metis moved_kept(2) rev_image_eqI)
  moreover have "\<exists>m. Eval (r_When r) v (Some ab) = Some m \<and> moved (tc_Now ctx) m True r w w'"
    using IH m d(2) moved_kept(1) by blast
  moreover have "kept i w w'" if "i \<notin> r_ID ` set (r # rs)" for i
    by (rule kept_trans[of i w w1]) (use IH m that in auto)
  ultimately show ?case by auto
qed simp

lemma reactLoop_moved:
  assumes "reactLoop ctx v ab byRules active rs w = (None, w')" "distinct (map r_ID rs)"
  shows "(\<forall>r \<in> set rs. \<exists>m f. Eval (r_When r) v (Some ab) = Some m \<and> moved (tc_Now ctx) m f r w w') \<and> (\<forall>i. i \<notin> r_ID ` set rs \<longrightarrow> kept i w w')"
  using assms
proof (induction rs arbitrary: w active)
  case (Cons r rs)
  obtain b w1 act where s: "fireReact ctx v ab byRules active r w = (None, b, w1)"
    and l: "reactLoop ctx v ab byRules act rs w1 = (None, w')"
    using Cons.prems(1) by (auto split: prod.splits option.splits)
  have d: "distinct (map r_ID rs)" "r_ID r \<notin> r_ID ` set rs" using Cons.prems(2) by auto
  note m = fireReact_moved[OF s] and IH = Cons.IH[OF l d(1)]
  have "\<exists>m f. Eval (r_When q) v (Some ab) = Some m \<and> moved (tc_Now ctx) m f q w w'" if "q \<in> set rs" for q
  proof -
    note mem = that
    obtain k f where q: "Eval (r_When q) v (Some ab) = Some k" "moved (tc_Now ctx) k f q w1 w'" using IH mem by blast
    have "r_ID q \<noteq> r_ID r" using d(2) mem by (metis rev_image_eqI)
    then have "kept (r_ID q) w w1" using m by blast
    then show ?thesis using q moved_kept(2) by blast
  qed
  moreover have "\<exists>m f. Eval (r_When r) v (Some ab) = Some m \<and> moved (tc_Now ctx) m f r w w'"
  proof -
    obtain k f where "Eval (r_When r) v (Some ab) = Some k" "moved (tc_Now ctx) k f r w w1" using m by blast
    moreover have "kept (r_ID r) w1 w'" using IH d(2) by blast
    ultimately show ?thesis using moved_kept(1) by blast
  qed
  moreover have "kept i w w'" if "i \<notin> r_ID ` set (r # rs)" for i
    by (rule kept_trans[of i w w1]) (use IH m that in auto)
  ultimately show ?case unfolding list.set ball_simps image_insert by blast
qed simp

end
