(* ===== verification/Evaluator_Sessions.thy ===== *)
theory Evaluator_Sessions
  imports Evaluator_Timing
begin

text \<open>
  Runs of the evaluator: ticks, and between them whatever the rest of the program does to the
  snapshot, the router, the registry, the active mode and the engine. A rule over such a run is a run
  of \<open>rule_step\<close>, so what holds of the latter (fires spaced by the cooldown, a fire only after the
  condition stayed false for the hysteresis) holds of the rule.
\<close>

section \<open>What a tick perceives\<close>

definition matched_at :: "instant \<Rightarrow> rule \<Rightarrow> evaluator \<Rightarrow> bool" where
  "matched_at now r ev =
     (let (v, ev2) = perceive now ev in holds v (absentFunc ev2 now) (r_When r))"

lemma perceive_kept: "perceive now (fst w) = (v, ev2) \<Longrightarrow> kept i w (ev2, en)"
  using perceive_frame(4,6)[of now "fst w"] by (simp add: kept_def fires_def)

lemma Tick_moved:
  assumes inv: "ev_inv (fst w)" and t: "Tick ctx w = (p, w')" and r: "r \<in> set (config_rules (el_cfg (fst w)))"
  shows "\<exists>f. moved (tc_Now ctx) (matched_at (tc_Now ctx) r (fst w)) f r w w' \<and> (r \<in> set (rc_Inhibit (el_cfg (fst w))) \<longrightarrow> f)"
proof -
  obtain v ev2 where p: "perceive (tc_Now ctx) (fst w) = (v, ev2)" by (rule prod.exhaust)
  define ab where "ab = absentFunc ev2 (tc_Now ctx)"
  define byRules where "byRules = blocked_by (rc_Inhibit (el_cfg (fst w))) v ab"
  obtain w0 w1 w2 where st: "w0 = registry_apply ctx byRules (ev2, snd w)"
    "runInhibit ctx v ab (rc_Inhibit (el_cfg (fst w))) w0 = (None, w1)"
    "runReact ctx v ab byRules (rc_React (el_cfg (fst w))) w1 = (None, w2)"
    "Tick ctx w = (None, sustain ctx byRules (enforce ctx byRules w2))"
    using Tick_stages[OF inv p] unfolding ab_def byRules_def by metis
  have d: "distinct (map r_ID (rc_Inhibit (el_cfg (fst w))))" "distinct (map r_ID (rc_React (el_cfg (fst w))))"
    "r_ID ` set (rc_React (el_cfg (fst w))) \<inter> r_ID ` set (rc_Inhibit (el_cfg (fst w))) = {}"
    using inv by (auto simp: ev_inv_def rules_ok_def config_rules_def)
  obtain n where "pred_wf n (r_When r)" using inv r by (auto simp: ev_inv_def rules_ok_def)
  then have m: "Eval (r_When r) v (Some ab) = Some (matched_at (tc_Now ctx) r (fst w))"
    using Eval_holds p by (simp add: matched_at_def ab_def)
  have k0: "kept i w w0" for i unfolding st(1) by (rule kept_trans[OF perceive_kept[OF p] registry_apply_kept])
  have w': "w' = sustain ctx byRules (enforce ctx byRules w2)" using t st(4) by simp
  have k3: "kept i w2 w'" for i unfolding w' by (rule kept_trans[OF enforce_kept sustain_kept])
  note inh = runInhibit_moved[OF st(2) d(1)]
  note rea = reactLoop_moved[OF st(3)[unfolded runReact_def] d(2)]
  let ?now = "tc_Now ctx" and ?m = "matched_at (tc_Now ctx) r (fst w)"
  show ?thesis
  proof (cases "r \<in> set (rc_Inhibit (el_cfg (fst w)))")
    case True
    then have i: "r_ID r \<notin> r_ID ` set (rc_React (el_cfg (fst w)))" using d(3) by blast
    have "moved ?now ?m True r w0 w1" using inh True m by fastforce
    then have "moved ?now ?m True r w w1" by (rule moved_kept(2)[OF k0])
    then have "moved ?now ?m True r w w2" using rea i moved_kept(1) by blast
    then show ?thesis using k3 moved_kept(1) by blast
  next
    case False
    then have r': "r \<in> set (rc_React (el_cfg (fst w)))" using r by (simp add: config_rules_def)
    then have i: "r_ID r \<notin> r_ID ` set (rc_Inhibit (el_cfg (fst w)))" using d(3) by blast
    obtain f where "moved ?now ?m f r w1 w2" using rea r' m by fastforce
    then have "moved ?now ?m f r w0 w2" using inh i moved_kept(2) by blast
    then have "moved ?now ?m f r w w2" by (rule moved_kept(2)[OF k0])
    then show ?thesis using k3 moved_kept(1) False by blast
  qed
qed

section \<open>Runs of one rule\<close>

primrec rule_run :: "rule \<Rightarrow> (instant \<times> bool \<times> bool) list \<Rightarrow> rule_state \<Rightarrow> bool list \<times> rule_state" where
  "rule_run r [] st = ([], st)"
| "rule_run r (i # is) st =
     (let (b, st1) = rule_step r i st; (bs, st2) = rule_run r is st1 in (b # bs, st2))"

lemma rule_run_append:
  "rule_run r (is @ js) st =
     (fst (rule_run r is st) @ fst (rule_run r js (snd (rule_run r is st))), snd (rule_run r js (snd (rule_run r is st))))"
  by (induction "is" arbitrary: st) (simp_all add: case_prod_beta)

lemma rule_run_length [simp]: "length (fst (rule_run r is st)) = length is"
  by (induction "is" arbitrary: st) (simp_all add: case_prod_beta)

lemma rule_run_timing:
  "fst (rule_run r is (timing st)) = fst (rule_run r is st) \<and> snd (rule_run r is (timing st)) = timing (snd (rule_run r is st))"
  by (induction "is" arbitrary: st) (simp_all add: case_prod_beta rule_step_timing)

text \<open>The last fire is the stamp of a rate limiter.\<close>

definition last_fire :: "rule_state \<Rightarrow> unit \<Rightarrow> instant option" where
  "last_fire st u = (if rs_hasFired st then Some (rs_lastFire st) else None)"

lemma stepArming_fired [simp]: "rs_hasFired (stepArming r m now st) = rs_hasFired st"
  "rs_lastFire (stepArming r m now st) = rs_lastFire st"
  by (simp_all add: stepArming_def Let_def)

lemma markFired_fired [simp]: "rs_hasFired (markFired r now st)" "rs_lastFire (markFired r now st) = now"
  by (simp_all add: markFired_def Let_def)

interpretation cooldown: rate_limiter "rule_step r" "\<lambda>_. ()" fst last_fire
  "\<lambda>_ t u. \<not> flt (secs_between t u) (r_CooldownS r)" "\<lambda>_. True"
proof unfold_locales
  fix i :: "instant \<times> bool \<times> bool" and s s' and t
  assume "rule_step r i s = (True, s')" "last_fire s () = Some t"
  then show "\<not> flt (secs_between (fst i) t) (r_CooldownS r)"
    by (auto simp: rule_step_def Let_def last_fire_def fireReason_def split: prod.splits if_splits)
next
  fix i :: "instant \<times> bool \<times> bool" and s b s'
  assume "rule_step r i s = (b, s')"
  then show "last_fire s' = (if b then (last_fire s)(() \<mapsto> fst i) else last_fire s)"
    by (auto simp: rule_step_def Let_def last_fire_def split: prod.splits if_splits)
qed

text \<open>The instants at which a run fired.\<close>

definition fire_times :: "(instant \<times> 'a \<times> nat) list \<Rightarrow> instant list" where
  "fire_times tr = map fst (filter (\<lambda>(_, _, n). n \<noteq> 0) tr)"

definition trace_of :: "rule \<Rightarrow> (instant \<times> bool \<times> bool) list \<Rightarrow> rule_state \<Rightarrow> (instant \<times> bool \<times> nat) list" where
  "trace_of r is st = map2 (\<lambda>(t, m, _) b. (t, m, if b then 1 else 0)) is (fst (rule_run r is st))"

lemma trace_of_Nil [simp]: "trace_of r [] st = []"
  by (simp add: trace_of_def)

lemma trace_of_Cons:
  "trace_of r (i # is) st = (fst i, fst (snd i), if fst (rule_step r i st) then 1 else 0) # trace_of r is (snd (rule_step r i st))"
  by (simp add: trace_of_def case_prod_beta)

lemma trace_of_append:
  "trace_of r (is @ js) st = trace_of r is st @ trace_of r js (snd (rule_run r is st))"
  by (simp add: trace_of_def rule_run_append)

lemma trace_of_timing: "trace_of r is (timing st) = trace_of r is st"
  by (simp add: trace_of_def rule_run_timing)

lemma fire_times_accepted: "fire_times (trace_of r is st) = cooldown.accepted r () is st"
  by (induction "is" arbitrary: st) (auto simp: fire_times_def trace_of_Cons case_prod_beta)

section \<open>Rearming\<close>

text \<open>
  A stretch of ticks whose condition was false throughout and which lasted the hysteresis, the
  first and the last of its ticks counted.
\<close>

definition rearmed :: "f64 \<Rightarrow> (instant \<times> bool \<times> 'n) list \<Rightarrow> bool" where
  "rearmed h tr \<longleftrightarrow> (\<exists>as bs cs. tr = as @ bs @ cs \<and> bs \<noteq> [] \<and> (\<forall>(_, m, _) \<in> set bs. \<not> m)
     \<and> fle h (secs_between (fst (last bs)) (fst (hd bs))))"

definition waiting :: "rule \<Rightarrow> (instant \<times> bool \<times> 'n) list \<Rightarrow> rule_state \<Rightarrow> bool" where
  "waiting r tr st \<longleftrightarrow> rearmed (r_Hysteresis r) tr
     \<or> \<not> rs_armed st \<and> (rs_hasFalseSince st \<longrightarrow>
          (\<exists>as bs. tr = as @ bs \<and> bs \<noteq> [] \<and> (\<forall>(_, m, _) \<in> set bs. \<not> m) \<and> fst (hd bs) = rs_falseSince st))"

lemma rearmed_append: "rearmed h tr \<Longrightarrow> rearmed h (tr @ us)"
  unfolding rearmed_def by (metis append.assoc)

lemma waiting_step:
  assumes w: "waiting r tr st"
  shows "waiting r (tr @ [(now, m, n)]) (stepArming r m now st)"
proof (cases "rearmed (r_Hysteresis r) tr")
  case True
  then show ?thesis by (simp add: waiting_def rearmed_append)
next
  case False
  then have un: "\<not> rs_armed st" using w by (simp add: waiting_def)
  show ?thesis
  proof (cases m)
    case True
    then show ?thesis using un by (simp add: waiting_def stepArming_def)
  next
    case m: False
    obtain as bs since where tr: "tr @ [(now, m, n)] = as @ bs" "bs \<noteq> []" "\<forall>(_, m, _) \<in> set bs. \<not> m"
      "fst (hd bs) = since" "last bs = (now, m, n)"
      and st: "stepArming r m now st =
        (st\<lparr>rs_falseSince := since, rs_hasFalseSince := True\<rparr>)\<lparr>rs_armed := fle (r_Hysteresis r) (secs_between now since)\<rparr>"
    proof (cases "rs_hasFalseSince st")
      case True
      then obtain as bs where "tr = as @ bs" "bs \<noteq> []" "\<forall>(_, m, _) \<in> set bs. \<not> m" "fst (hd bs) = rs_falseSince st"
        using w False by (auto simp: waiting_def)
      then show ?thesis using that[of as "bs @ [(now, m, n)]" "rs_falseSince st"] m un True
        by (auto simp: stepArming_def)
    next
      case nf: False
      show ?thesis using that[of tr "[(now, m, n)]" now] m un nf by (auto simp: stepArming_def Let_def)
    qed
    show ?thesis
    proof (cases "fle (r_Hysteresis r) (secs_between now since)")
      case True
      then have "rearmed (r_Hysteresis r) (as @ bs @ [])"
        unfolding rearmed_def using tr by (intro exI conjI) auto
      then show ?thesis using tr(1) by (simp add: waiting_def)
    next
      case False
      then show ?thesis unfolding waiting_def st using tr by auto
    qed
  qed
qed

lemma waiting_run:
  assumes "waiting r tr st" "True \<notin> set (fst (rule_run r is st))"
  shows "waiting r (tr @ trace_of r is st) (snd (rule_run r is st))"
  using assms
proof (induction "is" arbitrary: tr st)
  case (Cons i "is")
  obtain now m f where i: "i = (now, m, f)" by (metis prod_cases3)
  have nf: "\<not> fst (rule_step r i st)" and rest: "True \<notin> set (fst (rule_run r is (snd (rule_step r i st))))"
    using Cons.prems(2) by (auto simp: case_prod_beta)
  have s: "snd (rule_step r i st) = stepArming r m now st" using nf by (auto simp: i rule_step_def Let_def)
  have "waiting r (tr @ [(now, m, 0)]) (snd (rule_step r i st))" unfolding s by (rule waiting_step[OF Cons.prems(1)])
  from Cons.IH[OF this rest] show ?case using nf by (simp add: trace_of_Cons i case_prod_beta)
qed simp

lemma fired_waits:
  assumes "fst (rule_step r i st)" "flt (Fin 0) (r_Hysteresis r)"
  shows "waiting r [] (snd (rule_step r i st))"
  using assms by (auto simp: waiting_def rule_step_def Let_def markFired_def split: prod.splits if_splits)

lemma fire_armed:
  assumes "fst (rule_step r i st)"
  shows "rs_armed st"
  using assms by (auto simp: rule_step_def Let_def fireReason_def stepArming_def split: prod.splits if_splits)

text \<open>Between a fire and the next one the rule was rearmed.\<close>

lemma rearmed_between:
  assumes "fst (rule_step r i st)" "flt (Fin 0) (r_Hysteresis r)"
    and "True \<notin> set (fst (rule_run r is (snd (rule_step r i st))))"
    and "fst (rule_step r j (snd (rule_run r is (snd (rule_step r i st)))))"
  shows "rearmed (r_Hysteresis r) (trace_of r is (snd (rule_step r i st)))"
  using waiting_run[OF fired_waits[OF assms(1,2)] assms(3)] fire_armed[OF assms(4)] by (simp add: waiting_def)

section \<open>Sessions\<close>

text \<open>
  What happens to the evaluator between two ticks: a frame of readings, a routed event, a call of the
  registry, a change of mode, anything the engine does.
\<close>

inductive outside :: "'s world \<Rightarrow> 's world \<Rightarrow> bool" where
  out_frame: "outside (ev, en) (ev\<lparr>el_snapshot := map_option (Update readings now) (el_snapshot ev)\<rparr>, en)"
| out_event: "el_router ev = Some ro \<Longrightarrow> Route show_any now inc ro = (res, ro') \<Longrightarrow>
    outside (ev, en) (ev\<lparr>el_router := Some ro'\<rparr>, en)"
| out_once: "RunOnce bound a ps d (el_registry ev) = Inr rg \<Longrightarrow> outside (ev, en) (ev\<lparr>el_registry := rg\<rparr>, en)"
| out_goal: "StandingGoal n a ps (el_registry ev) = Inr rg \<Longrightarrow> outside (ev, en) (ev\<lparr>el_registry := rg\<rparr>, en)"
| out_withdraw: "outside (ev, en) (ev\<lparr>el_registry := snd (Withdraw n (el_registry ev))\<rparr>, en)"
| out_inhibit: "outside (ev, en) (ev\<lparr>el_registry := Inhibit ns (el_registry ev)\<rparr>, en)"
| out_uninhibit: "outside (ev, en) (ev\<lparr>el_registry := Uninhibit ns (el_registry ev)\<rparr>, en)"
| out_mode: "SetActiveMode n ev = Inr ev' \<Longrightarrow> outside (ev, en) (ev', en)"
| out_engine: "outside (ev, en) (ev, en')"

lemma outside_ok:
  assumes "outside w w'" "ev_inv (fst w)"
  shows "ev_inv (fst w') \<and> el_cfg (fst w') = el_cfg (fst w) \<and> kept i w w'"
  using assms
proof cases
  case (out_once bound a ps d ev rg en)
  then show ?thesis using assms(2) by (auto simp: ev_inv_def kept_def fires_def intro: RunOnce_ok)
next
  case (out_goal n a ps ev rg en)
  then show ?thesis using assms(2) by (auto simp: ev_inv_def kept_def fires_def intro: StandingGoal_ok)
qed (use assms(2) in \<open>auto simp: ev_inv_def kept_def fires_def Withdraw_ok Inhibit_ok SetActiveMode_def split: if_splits\<close>)

text \<open>A session of the rule \<open>r\<close>, with what its ticks saw of it: the instant, whether the condition held, how often it fired.\<close>

inductive session :: "rule \<Rightarrow> 's world \<Rightarrow> (instant \<times> bool \<times> nat) list \<Rightarrow> 's world \<Rightarrow> bool" for r w where
  begun: "session r w [] w"
| between: "session r w tr w1 \<Longrightarrow> outside w1 w2 \<Longrightarrow> session r w tr w2"
| ticked: "session r w tr w1 \<Longrightarrow> Tick ctx w1 = (None, w2) \<Longrightarrow>
    session r w (tr @ [(tc_Now ctx, matched_at (tc_Now ctx) r (fst w1), fires (r_ID r) (fst w2) - fires (r_ID r) (fst w1))]) w2"



lemma rule_state_known:
  assumes "ev_inv ev" "r \<in> set (config_rules (el_cfg ev))"
  obtains st where "el_states ev (r_ID r) = Some st"
  using assms by (auto simp: ev_inv_def)

lemma session_trace:
  assumes "session r w tr w'" "ev_inv (fst w)" "r \<in> set (config_rules (el_cfg (fst w)))"
    and "el_states (fst w) (r_ID r) = Some st"
  shows "ev_inv (fst w') \<and> el_cfg (fst w') = el_cfg (fst w)
     \<and> (\<exists>is st'. el_states (fst w') (r_ID r) = Some st' \<and> tr = trace_of r is st \<and> timing st' = timing (snd (rule_run r is st))
          \<and> (r \<in> set (rc_Inhibit (el_cfg (fst w))) \<longrightarrow> (\<forall>i \<in> set is. snd (snd i))))"
  (is "_ \<and> _ \<and> ?tr tr w'")
  using assms(1)
proof induction
  case begun
  have "el_states (fst w) (r_ID r) = Some st \<and> [] = trace_of r [] st \<and> timing st = timing (snd (rule_run r [] st))
      \<and> (\<forall>i \<in> set []. snd (snd i))"
    using assms(4) by simp
  then show ?case using assms(2) by blast
next
  case (between tr w1 w2)
  then show ?case using outside_ok[OF between.hyps(2), of "r_ID r"] by (simp add: kept_def)
next
  case (ticked tr w1 ctx w2)
  from ticked.IH obtain "is" st1 where inv: "ev_inv (fst w1)" "el_cfg (fst w1) = el_cfg (fst w)"
    and st1: "el_states (fst w1) (r_ID r) = Some st1" "tr = trace_of r is st"
    "timing st1 = timing (snd (rule_run r is st))"
    "r \<in> set (rc_Inhibit (el_cfg (fst w))) \<longrightarrow> (\<forall>i \<in> set is. snd (snd i))" by blast
  let ?s = "snd (rule_run r is st)" and ?m = "matched_at (tc_Now ctx) r (fst w1)"
  obtain f where mv: "moved (tc_Now ctx) ?m f r w1 w2" and f: "r \<in> set (rc_Inhibit (el_cfg (fst w))) \<longrightarrow> f"
    using Tick_moved[OF inv(1) ticked.hyps(2)] assms(3) inv(2) by auto
  obtain st2 where st2: "el_states (fst w2) (r_ID r) = Some st2"
    "timing st2 = timing (snd (rule_step r (tc_Now ctx, ?m, f) st1))"
    "fires (r_ID r) (fst w2) = fires (r_ID r) (fst w1) + (if fst (rule_step r (tc_Now ctx, ?m, f) st1) then 1 else 0)"
    using mv st1(1) by (auto simp: moved_def)
  let ?i = "(tc_Now ctx, ?m, f)"
  have s: "fst (rule_step r ?i st1) = fst (rule_step r ?i ?s)"
    "timing (snd (rule_step r ?i st1)) = timing (snd (rule_step r ?i ?s))"
    using rule_step_timing[of r ?i st1] rule_step_timing[of r ?i ?s] st1(3) by simp_all
  have "timing st2 = timing (snd (rule_run r (is @ [?i]) st))"
    using st2(2) s(2) by (simp add: rule_run_append case_prod_beta)
  moreover have "tr @ [(tc_Now ctx, ?m, fires (r_ID r) (fst w2) - fires (r_ID r) (fst w1))] = trace_of r (is @ [?i]) st"
    using st1(2) st2(3) s(1) by (simp add: trace_of_append trace_of_Cons)
  moreover have "r \<in> set (rc_Inhibit (el_cfg (fst w))) \<longrightarrow> (\<forall>i \<in> set (is @ [?i]). snd (snd i))"
    using st1(4) f by auto
  ultimately have "?tr (tr @ [(tc_Now ctx, ?m, fires (r_ID r) (fst w2) - fires (r_ID r) (fst w1))]) w2"
    using st2(1) by blast
  moreover have "ev_inv (fst w2)" "el_cfg (fst w2) = el_cfg (fst w)"
    using Tick_ok[OF inv(1), of ctx] ticked.hyps(2) inv(2) by auto
  ultimately show ?case by blast
qed

lemma session_inv:
  assumes "session r w tr w'" "ev_inv (fst w)"
  shows "ev_inv (fst w') \<and> el_cfg (fst w') = el_cfg (fst w)"
  using assms(1)
proof induction
  case (between tr w1 w2)
  then show ?case using outside_ok[OF between.hyps(2)] by metis
next
  case (ticked tr w1 ctx w2)
  then show ?case using Tick_ok[of w1 ctx] by auto
qed (use assms(2) in simp)

section \<open>Fires over a session\<close>

lemma trace_of_length [simp]: "length (trace_of r is st) = length is"
  by (simp add: trace_of_def)

lemma trace_of_split:
  assumes "trace_of r is st = as @ bs"
  obtains is1 is2 where "is = is1 @ is2" "as = trace_of r is1 st" "bs = trace_of r is2 (snd (rule_run r is1 st))"
proof -
  let ?a = "take (length as) is" and ?b = "drop (length as) is"
  have l: "length as \<le> length is" using arg_cong[OF assms, of length] by simp
  have "as @ bs = trace_of r ?a st @ trace_of r ?b (snd (rule_run r ?a st))"
    using assms trace_of_append[of r ?a ?b st] by simp
  then have "as = trace_of r ?a st" "bs = trace_of r ?b (snd (rule_run r ?a st))"
    using l by (simp_all add: append_eq_append_conv)
  then show ?thesis using that[of ?a ?b] by simp
qed

lemma trace_of_single:
  assumes "(t, m, n) # bs = trace_of r is st" "n \<noteq> 0"
  obtains i is' where "is = i # is'" "fst (rule_step r i st)" "bs = trace_of r is' (snd (rule_step r i st))"
  using assms by (cases "is") (auto simp: trace_of_Cons split: if_splits)

lemma trace_of_quiet:
  "\<forall>(_, _, n) \<in> set (trace_of r is st). n = 0 \<Longrightarrow> True \<notin> set (fst (rule_run r is st))"
  by (induction "is" arbitrary: st) (auto simp: trace_of_Cons case_prod_beta split: if_splits)

lemma trace_of_once: "(t, m, n) \<in> set (trace_of r is st) \<Longrightarrow> n \<le> 1"
  by (induction "is" arbitrary: st) (auto simp: trace_of_Cons)

lemma fires_spaced_trace:
  "successively (\<lambda>t u. \<not> flt (secs_between u t) (r_CooldownS r)) (fire_times (trace_of r is st))"
  using cooldown.accepted_spaced[where r = r and s = st] by (simp add: fire_times_accepted)

lemma rearmed_trace:
  assumes "trace_of r is st = xs @ (t, m, n) # ys @ (u, k, l) # zs" "n \<noteq> 0" "l \<noteq> 0"
    and "\<forall>(_, _, q) \<in> set ys. q = 0" "flt (Fin 0) (r_Hysteresis r)"
  shows "rearmed (r_Hysteresis r) ys"
proof -
  obtain i1 i2 where s1: "(t, m, n) # ys @ (u, k, l) # zs = trace_of r i2 (snd (rule_run r i1 st))"
    by (rule trace_of_split[OF assms(1)]) blast
  obtain i i3 where f: "fst (rule_step r i (snd (rule_run r i1 st)))"
    and s2: "ys @ (u, k, l) # zs = trace_of r i3 (snd (rule_step r i (snd (rule_run r i1 st))))"
    by (rule trace_of_single[OF s1 assms(2)])
  let ?s = "snd (rule_step r i (snd (rule_run r i1 st)))"
  obtain i4 i5 where y: "ys = trace_of r i4 ?s" and s3: "(u, k, l) # zs = trace_of r i5 (snd (rule_run r i4 ?s))"
    by (rule trace_of_split[OF s2[symmetric]]) blast
  obtain j where g: "fst (rule_step r j (snd (rule_run r i4 ?s)))"
    by (rule trace_of_single[OF s3 assms(3)]) blast
  have "True \<notin> set (fst (rule_run r i4 ?s))" using assms(4) trace_of_quiet[of r i4 ?s] unfolding y by blast
  from rearmed_between[OF f assms(5) this g] show ?thesis by (simp add: y)
qed

text \<open>Nothing but its timing stands in the way of an inhibit rule: its session is determined by its condition.\<close>

lemma trace_of_inputs:
  "\<forall>i \<in> set is. snd (snd i) \<Longrightarrow> map (\<lambda>(t, m, _). (t, m, True)) (trace_of r is st) = is"
  by (induction "is" arbitrary: st) (auto simp: trace_of_Cons)

lemma inhibit_session:
  assumes "session r w tr w'" "ev_inv (fst w)" "r \<in> set (rc_Inhibit (el_cfg (fst w)))"
    and "el_states (fst w) (r_ID r) = Some st"
  shows "tr = trace_of r (map (\<lambda>(t, m, _). (t, m, True)) tr) st"
proof -
  have "r \<in> set (config_rules (el_cfg (fst w)))" using assms(3) by (simp add: config_rules_def)
  from session_trace[OF assms(1,2) this assms(4)] assms(3) obtain "is" where
    "tr = trace_of r is st" "\<forall>i \<in> set is. snd (snd i)" by blast
  then show ?thesis using trace_of_inputs[of "is" r st] by simp
qed

text \<open>A tick leaves the snapshot alone, and a lane without a router without one.\<close>

lemma Tick_keeps:
  assumes "ev_inv (fst w)" "Tick ctx w = (p, w')"
  shows "el_snapshot (fst w') = el_snapshot (fst w)" "el_router (fst w) = None \<Longrightarrow> el_router (fst w') = None"
proof -
  obtain v ev2 where p: "perceive (tc_Now ctx) (fst w) = (v, ev2)" by (rule prod.exhaust)
  obtain w0 w1 w2 byRules where o: "okstep (ev2, snd w) w0" "okstep w0 w1" "okstep w1 w2"
    and t: "Tick ctx w = (None, sustain ctx byRules (enforce ctx byRules w2))"
    using Tick_stages[OF assms(1) p] by metis
  have "okstep (ev2, snd w) (sustain ctx byRules (enforce ctx byRules w2))"
    by (rule okstep_trans[OF okstep_trans[OF okstep_trans[OF o(1) o(2)] o(3)]
          okstep_trans[OF enforce_ok sustain_ok]])
  then have e: "el_snapshot (fst w') = el_snapshot ev2" "el_router (fst w') = el_router ev2"
    using t assms(2) by (simp_all add: okstep_def evf_def)
  show "el_snapshot (fst w') = el_snapshot (fst w)"
    using e(1) p perceive_frame[of "tc_Now ctx" "fst w"] by (simp add: perceive_def case_prod_beta) auto
  have "el_router (trackPresence u now ev) = el_router ev" for u now ev by (simp add: trackPresence_def Let_def)
  then show "el_router (fst w) = None \<Longrightarrow> el_router (fst w') = None"
    using e(2) p by (auto simp: perceive_def tick_snapshot_def case_prod_beta)
qed

end
