(* ===== verification/Evaluator_Admission.thy ===== *)
theory Evaluator_Admission
  imports Evaluator_Sessions
begin

text \<open>
  What the evaluator puts on the robot: which names are active after an admission, an enforcement and
  a tick, the lifetime of what a run-once request starts, and the parameters an admission carries.
\<close>

section \<open>What the engine keeps of a behavior it admits\<close>

lemma bindAction_keeps:
  assumes "bindAction v b = Inr (b', act)"
  shows "b_name b \<noteq> [] \<Longrightarrow> b_name b' = b_name b" "b_lifetime b' = b_lifetime b" "b_action b' = b_action b"
    "b_params b' = b_params b" "b_class b' = b_class b" "b_id b' = b_id b"
  using assms by (auto simp: bindAction_def Let_def split: option.splits if_splits sum.splits)

lemma bindChannels_keeps:
  assumes "bindChannels v b act = Inr b'"
  shows "b_name b' = b_name b" "b_lifetime b' = b_lifetime b" "b_action b' = b_action b"
    "b_params b' = b_params b" "b_class b' = b_class b" "b_id b' = b_id b"
  using assms by (auto simp: bindChannels_def split: option.splits if_splits)

lemma Bind_keeps:
  assumes "Bind vo b = Inr b'"
  shows "b_name b \<noteq> [] \<Longrightarrow> b_name b' = b_name b" "b_lifetime b' = b_lifetime b" "b_action b' = b_action b"
    "b_params b' = b_params b" "b_class b' = b_class b" "b_id b' = b_id b" "lifetime_ok (b_lifetime b')"
proof -
  obtain v b1 act where b: "bindAction v b = Inr (b1, act)" "bindChannels v b1 act = Inr b'" "bindLifetime v b' = Inr ()"
    using assms by (auto simp: Bind_def split: option.splits)
  note k = bindAction_keeps[OF b(1)] bindChannels_keeps[OF b(2)]
  show "b_name b \<noteq> [] \<Longrightarrow> b_name b' = b_name b" "b_lifetime b' = b_lifetime b" "b_action b' = b_action b"
    "b_params b' = b_params b" "b_class b' = b_class b" "b_id b' = b_id b" "lifetime_ok (b_lifetime b')"
    using k b(3) by (simp_all add: bindLifetime_Inr)
qed

text \<open>An admission adds at most the one behavior, and it is last.\<close>

definition carries :: "behavior \<Rightarrow> behavior \<Rightarrow> bool" where
  "carries b new \<longleftrightarrow> (b_name b \<noteq> [] \<longrightarrow> b_name new = b_name b) \<and> (b_id b \<noteq> [] \<longrightarrow> b_id new = b_id b)
     \<and> b_lifetime new = b_lifetime b \<and> b_action new = b_action b \<and> b_params new = b_params b
     \<and> b_class new = b_class b \<and> lifetime_ok (b_lifetime new)"

lemma admit_adds:
  assumes "admit b e = (e', r)"
  obtains (kept) err where "r = Inl err" "behaviors e' = behaviors e"
  | (added) res old new where "r = Inr res" "behaviors e' = old @ [new]" "set old \<subseteq> set (behaviors e)" "carries b new"
proof (cases rule: admit_cases[of e b])
  case (placed b' b2 e2)
  note k = Bind_keeps[OF placed(1)]
  have "b_name b2 = b_name b'" "b_lifetime b2 = b_lifetime b'" "b_action b2 = b_action b'"
    "b_params b2 = b_params b'" "b_class b2 = b_class b'" "b_id b' \<noteq> [] \<longrightarrow> b_id b2 = b_id b'"
    by (simp_all add: placed(3) stampTime_def stampID_def case_prod_beta)
  then have c: "carries b b2" using k by (simp add: carries_def)
  have "behaviors e2 = behaviors e"
    by (simp add: placed(4) stampTime_def stampID_def nextID_def clock_Now_def Let_def)
  then have "\<exists>old. behaviors e' = old @ [b2] \<and> set old \<subseteq> set (behaviors e)"
    using assms behaviors_place[of b2 e2] by (auto simp: placed(5))
  then show ?thesis using added c assms by (auto simp: placed(5))
qed (use assms in \<open>auto intro: kept\<close>)

section \<open>The names that are active\<close>

lemma names_admit:
  assumes "b_name b \<noteq> []"
  shows "set (ActiveNames (fst (admit b en))) \<subseteq> insert (b_name b) (set (ActiveNames en))"
proof -
  obtain en' r where a: "admit b en = (en', r)" by (rule prod.exhaust)
  show ?thesis using assms by (cases rule: admit_adds[OF a]) (auto simp: a ActiveNames_def carries_def)
qed

lemma names_evict:
  "set (ActiveNames (snd (evict n en))) \<subseteq> set (ActiveNames en)" "n \<noteq> [] \<Longrightarrow> n \<notin> set (ActiveNames (snd (evict n en)))"
  by (auto simp: evict_def ActiveNames_def behaviors_def Let_def)

lemma names_emit [simp]: "ActiveNames (emit x en) = ActiveNames en"
proof -
  have "behaviors (fold (\<lambda>fn. recoverPanic ''event'' (fn x)) cs en) = behaviors en" for cs
    by (induction cs arbitrary: en) (simp_all add: recoverPanic_def split: option.split)
  then show ?thesis by (simp add: emit_def ActiveNames_def)
qed

lemma names_dropIntent [simp]: "ActiveNames (snd (dropIntent ctx k n r w)) = ActiveNames (snd w)"
  by (simp add: dropIntent_def)

lemma names_observe [simp]: "ActiveNames (snd (observeIntent ctx k req out w)) = ActiveNames (snd w)"
  by (simp add: observeIntent_def)

lemma names_enforce:
  assumes "[] \<notin> set ns"
  shows "set (ActiveNames (snd (fold (enforceName ctx) ns w))) \<subseteq> set (ActiveNames (snd w)) - set ns"
  using assms
proof (induction ns arbitrary: w)
  case (Cons n ns)
  have "set (ActiveNames (snd (enforceName ctx n w))) \<subseteq> set (ActiveNames (snd w)) - {n}"
    using names_evict[of n "snd w"] Cons.prems by (auto simp: enforceName_def)
  then show ?case using Cons.IH[of "enforceName ctx n w"] Cons.prems by auto
qed simp

lemma enforced:
  assumes "[] \<notin> blockedNames byRules (el_registry (fst w))"
  shows "set (ActiveNames (snd (enforce ctx byRules w))) \<inter> blockedNames byRules (el_registry (fst w)) = {}"
proof -
  let ?ns = "sort (remdups (filter (\<lambda>n. n \<in> blockedNames byRules (el_registry (fst w))) (ActiveNames (snd w))))"
  have "[] \<notin> set ?ns" using assms by auto
  from names_enforce[OF this, of ctx w] show ?thesis by (auto simp: enforce_def Let_def)
qed

lemma registry_admit_names:
  assumes "registry_admit req byRules w = (out, w')" "request_name req \<noteq> []"
  shows "set (ActiveNames (snd w')) \<subseteq> insert (request_name req) (set (ActiveNames (snd w)))"
    "blocks byRules (request_name req) (rq_Action req) (el_registry (fst w)) \<Longrightarrow> w' = w"
    "rg_inhibited (el_registry (fst w')) = rg_inhibited (el_registry (fst w))"
proof -
  obtain ev en where w: "w = (ev, en)" by (rule prod.exhaust)
  obtain i rg where n: "registry_nextID (el_idPrefix ev) (request_name req) (el_registry ev) = (i, rg)" by (rule prod.exhaust)
  define b where "b = build (ev\<lparr>el_registry := rg\<rparr>) i (request_name req) req"
  have bn: "b_name b = request_name req" by (simp add: b_def build_def)
  note adm = names_admit[of b en, unfolded bn, OF assms(2)]
  obtain en1 r where e: "admit b en = (en1, r)" by (rule prod.exhaust)
  have w': "w' = (if blocks byRules (request_name req) (rq_Action req) (el_registry ev) then w else (ev\<lparr>el_registry := rg\<rparr>, en1))"
    using assms(1) by (auto simp: w registry_admit_def Let_def n b_def[symmetric] e)
  show "set (ActiveNames (snd w')) \<subseteq> insert (request_name req) (set (ActiveNames (snd w)))"
    "blocks byRules (request_name req) (rq_Action req) (el_registry (fst w)) \<Longrightarrow> w' = w"
    using adm by (auto simp: w' w e)
  show "rg_inhibited (el_registry (fst w')) = rg_inhibited (el_registry (fst w))"
    using n by (auto simp: w' w registry_nextID_def)
qed

lemma sustainGoal_names:
  assumes "g_name g \<noteq> []" "sustainGoal ctx byRules active g w = w'"
  shows "set (ActiveNames (snd w')) \<subseteq> set (ActiveNames (snd w))
       \<union> (if blocks byRules (g_name g) (g_action g) (el_registry (fst w)) then {} else {g_name g})"
    "rg_inhibited (el_registry (fst w')) = rg_inhibited (el_registry (fst w))"
proof -
  obtain out w1 where a: "registry_admit (goal_request g) byRules w = (out, w1)" by (rule prod.exhaust)
  have rn: "request_name (goal_request g) = g_name g" "rq_Action (goal_request g) = g_action g"
    using assms(1) by (simp_all add: request_name_def goal_request_def)
  note n = registry_admit_names[OF a, unfolded rn, OF assms(1)]
  have o: "el_registry (fst (observeIntent ctx k q out' u)) = el_registry (fst u)" for k q out' and u :: "'a world"
    by (simp add: observeIntent_def dropIntent_def)
  show "set (ActiveNames (snd w')) \<subseteq> set (ActiveNames (snd w))
       \<union> (if blocks byRules (g_name g) (g_action g) (el_registry (fst w)) then {} else {g_name g})"
    "rg_inhibited (el_registry (fst w')) = rg_inhibited (el_registry (fst w))"
    using n assms(2) by (auto simp: sustainGoal_def a o split: if_splits)
qed

lemma sustain_names:
  assumes "\<forall>g \<in> set gs. g_name g \<noteq> []"
  shows "set (ActiveNames (snd (fold (sustainGoal ctx byRules active) gs w))) \<subseteq> set (ActiveNames (snd w))
     \<union> {g_name g | g. g \<in> set gs \<and> \<not> blocks byRules (g_name g) (g_action g) (el_registry (fst w))}"
  using assms
proof (induction gs arbitrary: w)
  case (Cons g gs)
  note s = sustainGoal_names[OF _ refl, of g ctx byRules active w]
  have b: "blocks byRules n a (el_registry (fst (sustainGoal ctx byRules active g w))) = blocks byRules n a (el_registry (fst w))" for n a
    using s(2) Cons.prems by (simp add: blocks_def)
  show ?case using Cons.IH[of "sustainGoal ctx byRules active g w"] s(1) Cons.prems unfolding b
    by (auto split: if_splits)
qed simp

lemma blockedNames_goal:
  assumes "g \<in> set (goalsSnapshotLocked r)" "g_action g \<in> rg_inhibited r \<union> byRules"
  shows "g_name g \<in> blockedNames byRules r"
proof -
  have "g \<in> set gs \<Longrightarrow> g_action g \<in> B \<Longrightarrow> g_name g \<in> fold blockGoal gs B" for gs B
  proof (induction gs arbitrary: B)
    case (Cons h gs)
    show ?case
    proof (cases "g = h")
      case True
      then have "g_name g \<in> blockGoal h B" using Cons.prems by (simp add: blockGoal_def)
      then show ?thesis using blockGoal_mono[of "blockGoal h B" gs] by auto
    next
      case False
      then have "g \<in> set gs" "g_action g \<in> blockGoal h B" using Cons.prems by (auto simp: blockGoal_def)
      from Cons.IH[OF this] show ?thesis by simp
    qed
  qed simp
  then show ?thesis using assms by (simp add: blockedNames_def)
qed

lemma goals_named:
  assumes "registry_ok r" "g \<in> set (goalsSnapshotLocked r)"
  shows "g_name g \<noteq> []"
proof -
  have "rg_goals r (g_name g) = Some g" using goals_listed(2)[OF assms(1)] assms(2) by blast
  then show ?thesis using assms(1) unfolding registry_ok_def by blast
qed

lemma blockedNames_named:
  assumes "registry_ok r" "[] \<notin> byRules"
  shows "[] \<notin> blockedNames byRules r"
proof -
  have "\<forall>g \<in> set gs. g_name g \<noteq> [] \<Longrightarrow> [] \<notin> B \<Longrightarrow> [] \<notin> fold blockGoal gs B" for gs :: "goal list" and B
  proof (induction gs arbitrary: B)
    case (Cons g gs)
    have "[] \<notin> blockGoal g B" using Cons.prems by (auto simp: blockGoal_def)
    moreover have "\<forall>g \<in> set gs. g_name g \<noteq> []" using Cons.prems(1) by simp
    ultimately show ?case using Cons.IH by simp
  qed simp
  moreover have "\<forall>g \<in> set (goalsSnapshotLocked r). g_name g \<noteq> []"
    using goals_named[OF assms(1)] by blast
  ultimately show ?thesis using assms by (simp add: blockedNames_def registry_ok_def)
qed

text \<open>Where a tick leaves the active names: no inhibited one, and no goal whose action is inhibited.\<close>

definition inhibited_now :: "instant \<Rightarrow> evaluator \<Rightarrow> string set" where
  "inhibited_now now ev = rg_inhibited (el_registry ev)
     \<union> (\<Union>r \<in> {r \<in> set (rc_Inhibit (el_cfg ev)). matched_at now r ev}. set (r_Disable r))"

lemma okstep_registry: "okstep w w' \<Longrightarrow> rg_inhibited (el_registry (fst w')) = rg_inhibited (el_registry (fst w))"
  "okstep w w' \<Longrightarrow> rg_goals (el_registry (fst w')) = rg_goals (el_registry (fst w))"
  by (simp_all add: okstep_def evf_def)

lemma swept_names:
  fixes ctx :: tick_context
  assumes inv: "ev_inv (fst w)" and nb: "[] \<notin> byRules"
  defines "B \<equiv> rg_inhibited (el_registry (fst w)) \<union> byRules"
    and "names \<equiv> set (ActiveNames (snd (sustain ctx byRules (enforce ctx byRules w))))"
  shows "names \<inter> B = {}" "rg_goals (el_registry (fst w)) n = Some g \<Longrightarrow> g_action g \<in> B \<Longrightarrow> n \<notin> names"
proof -
  let ?r = "el_registry (fst w)" and ?w1 = "enforce ctx byRules w"
  have ok: "registry_ok ?r" using inv by (simp add: ev_inv_def)
  have r1: "rg_inhibited (el_registry (fst ?w1)) = rg_inhibited ?r" by (rule okstep_registry[OF enforce_ok])
  have "evf (fst ?w1) = evf (fst w)" using enforce_ok[of w ctx byRules] by (simp add: okstep_def)
  then have g1: "goalsSnapshotLocked (el_registry (fst ?w1)) = goalsSnapshotLocked ?r"
    by (simp add: evf_def goalsSnapshotLocked_def)
  have e: "set (ActiveNames (snd ?w1)) \<inter> blockedNames byRules ?r = {}"
    by (rule enforced[OF blockedNames_named[OF ok nb]])
  have s: "names \<subseteq> set (ActiveNames (snd ?w1))
      \<union> {g_name g | g. g \<in> set (goalsSnapshotLocked ?r) \<and> \<not> blocks byRules (g_name g) (g_action g) ?r}"
    using sustain_names[of "goalsSnapshotLocked ?r" ctx byRules "set (ActiveNames (snd ?w1))" ?w1] goals_named[OF ok]
    unfolding names_def sustain_def g1 blocks_def r1 by blast
  have goal: "g_name h \<notin> B \<and> g_action h \<notin> B"
    if "h \<in> set (goalsSnapshotLocked ?r)" "\<not> blocks byRules (g_name h) (g_action h) ?r" for h
  proof -
    have "rg_goals ?r (g_name h) = Some h" using goals_listed(2)[OF ok] that(1) by blast
    then have "g_name h \<noteq> []" "g_action h \<noteq> []" using ok unfolding registry_ok_def by blast+
    then show ?thesis using that(2) unfolding blocks_iff B_def by blast
  qed
  show "names \<inter> B = {}" using s e goal blockedNames_mono[of ?r byRules] unfolding B_def by blast
  assume n: "rg_goals ?r n = Some g" "g_action g \<in> B"
  then have nm: "g_name g = n" using ok unfolding registry_ok_def by blast
  then have m: "g \<in> set (goalsSnapshotLocked ?r)" using goals_listed(2)[OF ok] n(1) by blast
  have "n \<in> blockedNames byRules ?r" using blockedNames_goal[OF m] n(2) nm unfolding B_def by blast
  moreover have "h = g" if "h \<in> set (goalsSnapshotLocked ?r)" "g_name h = n" for h
    using goals_listed(2)[OF ok] that n(1) by (metis option.inject)
  ultimately show "n \<notin> names" using s e goal n(2) by blast
qed

lemma blocked_by_matched:
  assumes "perceive now ev = (v, ev2)"
  shows "blocked_by (rc_Inhibit (el_cfg ev)) v (absentFunc ev2 now)
    = (\<Union>r \<in> {r \<in> set (rc_Inhibit (el_cfg ev)). matched_at now r ev}. set (r_Disable r))"
  using assms by (simp add: blocked_by_def matched_at_def)

lemma Tick_inhibits:
  assumes inv: "ev_inv (fst w)" and t: "Tick ctx w = (p, w')"
  defines "B \<equiv> inhibited_now (tc_Now ctx) (fst w)"
  shows "set (ActiveNames (snd w')) \<inter> B = {}"
    "rg_goals (el_registry (fst w)) n = Some g \<Longrightarrow> g_action g \<in> B \<Longrightarrow> n \<notin> set (ActiveNames (snd w'))"
proof -
  obtain v ev2 where p: "perceive (tc_Now ctx) (fst w) = (v, ev2)" by (rule prod.exhaust)
  define byRules where "byRules = blocked_by (rc_Inhibit (el_cfg (fst w))) v (absentFunc ev2 (tc_Now ctx))"
  obtain w0 w1 w2 where o: "okstep (ev2, snd w) w0" "okstep w0 w1" "okstep w1 w2"
    and t': "Tick ctx w = (None, sustain ctx byRules (enforce ctx byRules w2))"
    using Tick_stages[OF inv p] unfolding byRules_def by metis
  have o2: "okstep (ev2, snd w) w2" by (rule okstep_trans[OF okstep_trans[OF o(1,2)] o(3)])
  have "el_registry ev2 = el_registry (fst w)" using perceive_frame(3)[of "tc_Now ctx" "fst w"] p by simp
  then have r: "rg_inhibited (el_registry (fst w2)) = rg_inhibited (el_registry (fst w))"
    "rg_goals (el_registry (fst w2)) = rg_goals (el_registry (fst w))"
    using okstep_registry[OF o2] by simp_all
  have i2: "ev_inv (fst w2)" using okstep_inv(1)[OF o2] perceive_inv[OF inv, of "tc_Now ctx"] p by simp
  have nb: "[] \<notin> byRules"
    using inv by (auto simp: byRules_def blocked_by_def ev_inv_def rules_ok_def)
  have B: "B = rg_inhibited (el_registry (fst w2)) \<union> byRules"
    unfolding B_def inhibited_now_def byRules_def blocked_by_matched[OF p] r(1) ..
  have w': "w' = sustain ctx byRules (enforce ctx byRules w2)" using t t' by simp
  show "set (ActiveNames (snd w')) \<inter> B = {}" unfolding B w' by (rule swept_names(1)[OF i2 nb])
  show "rg_goals (el_registry (fst w)) n = Some g \<Longrightarrow> g_action g \<in> B \<Longrightarrow> n \<notin> set (ActiveNames (snd w'))"
    unfolding B w' r(2)[symmetric] by (rule swept_names(2)[OF i2 nb])
qed

section \<open>What an admitted request runs\<close>

lemma registry_admit_runs:
  assumes "registry_admit req byRules w = (out, w')" "am_Admitted out"
  obtains old new where "behaviors (snd w') = old @ [new]" "set old \<subseteq> set (behaviors (snd w))"
    "b_action new = rq_Action req" "b_params new = am_Params out" "b_id new = am_ID out"
    "am_Params out = mergeParams (fst w) (rq_Action req) (rq_Params req)"
    "b_class new = (if rq_Class req = ClassOther [] then ClassStoppable else rq_Class req)"
    "b_lifetime new = \<lparr>lt_duration = (case rq_DurationS req of Some d \<Rightarrow> Some d
       | None \<Rightarrow> if \<not> rq_Loops req then actionDuration (el_voc (fst w)) (rq_Action req) else None), lt_loops = rq_Loops req\<rparr>"
    "lifetime_ok (b_lifetime new)" "\<not> blocks byRules (request_name req) (rq_Action req) (el_registry (fst w))"
proof -
  obtain ev en where w: "w = (ev, en)" by (rule prod.exhaust)
  obtain i rg where n: "registry_nextID (el_idPrefix ev) (request_name req) (el_registry ev) = (i, rg)" by (rule prod.exhaust)
  define ev1 where "ev1 = ev\<lparr>el_registry := rg\<rparr>"
  define b where "b = build ev1 i (request_name req) req"
  obtain en1 r where e: "admit b en = (en1, r)" by (rule prod.exhaust)
  have nb: "\<not> blocks byRules (request_name req) (rq_Action req) (el_registry ev)"
    using assms by (auto simp: w registry_admit_def)
  then obtain res where res: "r = Inr res" and out: "am_ID out = b_id b" "am_Params out = b_params b" and w': "snd w' = en1"
    using assms by (auto simp: w registry_admit_def n ev1_def[symmetric] b_def[symmetric] e Let_def split: sum.splits)
  have i: "i \<noteq> []" using n by (auto simp: registry_nextID_def)
  obtain old new where a: "behaviors en1 = old @ [new]" "set old \<subseteq> set (behaviors en)" "carries b new"
    by (rule admit_adds[OF e]) (use res in auto)
  have mp: "mergeParams ev1 = mergeParams ev"
    by (simp add: fun_eq_iff mergeParams_def activeModeParams_def ev1_def)
  have b: "b_action b = rq_Action req" "b_params b = mergeParams ev (rq_Action req) (rq_Params req)" "b_id b = i"
    "b_class b = (if rq_Class req = ClassOther [] then ClassStoppable else rq_Class req)"
    "b_lifetime b = \<lparr>lt_duration = (case rq_DurationS req of Some d \<Rightarrow> Some d
       | None \<Rightarrow> if \<not> rq_Loops req then actionDuration (el_voc ev) (rq_Action req) else None), lt_loops = rq_Loops req\<rparr>"
    by (simp_all add: b_def build_def mp) (simp add: ev1_def split: option.split)
  have c: "b_lifetime new = b_lifetime b" "b_action new = b_action b" "b_params new = b_params b"
    "b_class new = b_class b" "b_id new = b_id b" "lifetime_ok (b_lifetime new)"
    using a(3) b(3) i unfolding carries_def by blast+
  show ?thesis
  proof (rule that[of old new])
    show "lifetime_ok (b_lifetime new)" by (rule c(6))
    show "\<not> blocks byRules (request_name req) (rq_Action req) (el_registry (fst w))" using nb by (simp add: w)
  qed (simp_all only: w w' fst_conv snd_conv a(1,2) c(1-5) out b)
qed

lemma RunOnce_request:
  assumes "RunOnce bound a ps d rg = Inr rg'"
  shows "rg_queue rg' = rg_queue rg @ [\<lparr>pd_kind = KindRunOnce, pd_request = pd_request (last (rg_queue rg')), pd_evict = []\<rparr>]"
    "rq_Action (pd_request (last (rg_queue rg'))) = a" "rq_Params (pd_request (last (rg_queue rg'))) = ps"
    "rq_DurationS (pd_request (last (rg_queue rg'))) = (if flt (Fin 0) d then Some d else None)"
    "rq_Loops (pd_request (last (rg_queue rg'))) \<longrightarrow> flt (Fin 0) d"
    "rq_Class (pd_request (last (rg_queue rg'))) = ClassOther []"
  using assms by (auto simp: RunOnce_def Let_def enqueue_def split: if_splits)

section \<open>Parameters\<close>

lemma map_of_updates:
  assumes "distinct (map fst kvs)"
  shows "map_of (fold (\<lambda>(k, v) out. if P k then AList.update k v out else out) kvs out) k =
     (case map_of kvs k of None \<Rightarrow> map_of out k | Some v \<Rightarrow> if P k then Some v else map_of out k)"
  using assms
proof (induction kvs arbitrary: out)
  case (Cons kv kvs)
  obtain j v where kv: "kv = (j, v)" by (rule prod.exhaust)
  have "map_of kvs j = None" using Cons.prems by (auto simp: kv map_of_eq_None_iff)
  then show ?case using Cons by (auto simp: kv update_conv split: option.split)
qed simp

lemma mergeParams_lookup:
  assumes "distinct (map fst (activeModeParams ev))" "distinct (map fst own)"
  shows "map_of (mergeParams ev action own) k =
    (case map_of own k of Some v \<Rightarrow> Some v
     | None \<Rightarrow> if ActionParam (el_voc ev) action k = None then None else map_of (activeModeParams ev) k)"
proof -
  have own: "map_of (fold (\<lambda>(k, v) out. AList.update k v out) own out) k = (case map_of own k of None \<Rightarrow> map_of out k | Some v \<Rightarrow> Some v)" for out
    using map_of_updates[OF assms(2), of "\<lambda>_. True"] by (simp split: option.split)
  show ?thesis
    unfolding mergeParams_def own map_of_updates[OF assms(1)] by (simp split: option.split)
qed

end
