(* ===== verification/Bus.thy ===== *)
theory Bus
  imports Evaluator_Timing
begin

text \<open>
  The fan-out of the one seam, \<open>internal/ruleeval/bus.go\<close>: riders in registration order, each
  with its panic turned into one named drop line. A rider is a value that \<open>driverf\<close> runs, as a seam
  is for the engine; the state of the riders is \<open>'u\<close>, and the bus keeps the lines it wrote.
\<close>

section \<open>The bus\<close>

definition busSource :: string where
  "busSource = ''bus''"

type_synonym 'd bus = "(string \<times> 'd) list"

type_synonym ('d, 'u, 'ev) driver_fn =
  "'d \<Rightarrow> tick_context \<Rightarrow> 'u \<Rightarrow> ('d bus, 'ev) engine \<Rightarrow> string option \<times> 'u \<times> ('d bus, 'ev) engine"

definition NewBus :: "'d bus" where
  "NewBus = []"

definition bus_Add :: "string \<Rightarrow> 'd option \<Rightarrow> 'd bus \<Rightarrow> 'd bus" where
  "bus_Add name driver b =
     (case driver of None \<Rightarrow> b
      | Some d \<Rightarrow> b @ [(if name = [] then ''driver-'' @ decimal (length b) else name, d)])"

definition bus_Compose :: "'d option list \<Rightarrow> 'd bus \<Rightarrow> 'd bus" where
  "bus_Compose drivers b = fold (bus_Add []) drivers b"

definition firstLine :: "string \<Rightarrow> string" where
  "firstLine text = takeWhile (\<lambda>c. c \<noteq> newline) text"

definition bus_call ::
  "('d, 'u, 'ev) driver_fn \<Rightarrow> tick_context \<Rightarrow> string \<times> 'd \<Rightarrow> (string list \<times> 'u) \<times> ('d bus, 'ev) engine
     \<Rightarrow> (string list \<times> 'u) \<times> ('d bus, 'ev) engine" where
  "bus_call driverf ctx entry w =
     (let ((ls, u), en) = w; (p, u', en') = driverf (snd entry) ctx u en
      in case p of None \<Rightarrow> ((ls, u'), en')
         | Some t \<Rightarrow> ((ls @ [log_Drop StageRule busSource (fst entry) ''panic'' (firstLine t)], u'), en'))"

text \<open>What \<open>Compose\<close> returns, as the engine runs it: it never panics itself.\<close>

definition bus_seam :: "('d, 'u, 'ev) driver_fn \<Rightarrow> ('d bus, string list \<times> 'u, 'ev) seam_fn" where
  "bus_seam driverf bs ctx u en = (None, fold (bus_call driverf ctx) bs (u, en))"

section \<open>Isolation\<close>

text \<open>The turns of the riders, each from the state the one before left, whatever that one did.\<close>

primrec turns ::
  "('d, 'u, 'ev) driver_fn \<Rightarrow> tick_context \<Rightarrow> 'd list \<Rightarrow> 'u \<Rightarrow> ('d bus, 'ev) engine
     \<Rightarrow> string option list \<times> 'u \<times> ('d bus, 'ev) engine" where
  "turns driverf ctx [] u en = ([], u, en)"
| "turns driverf ctx (d # ds) u en =
     (let (p, u1, en1) = driverf d ctx u en; (ps, u2, en2) = turns driverf ctx ds u1 en1
      in (p # ps, u2, en2))"

definition panics :: "string list \<Rightarrow> string option list \<Rightarrow> (string \<times> string) list" where
  "panics names ps = List.map_filter (\<lambda>(n, p). map_option (\<lambda>t. (n, t)) p) (zip names ps)"

lemma map_filter_Cons:
  "List.map_filter f (x # xs) = (case f x of None \<Rightarrow> List.map_filter f xs | Some y \<Rightarrow> y # List.map_filter f xs)"
  by (simp add: List.map_filter_simps split: option.split)

lemma turns_length: "turns driverf ctx ds u en = (ps, u', en') \<Longrightarrow> length ps = length ds"
  by (induction ds arbitrary: u en ps) (auto split: prod.splits)

lemma bus_turns:
  assumes "turns driverf ctx (map snd bs) u en = (ps, u', en')"
  shows "bus_seam driverf bs ctx (ls, u) en =
    (None, (ls @ map (\<lambda>(n, t). log_Drop StageRule busSource n ''panic'' (firstLine t)) (panics (map fst bs) ps), u'), en')"
  using assms
proof (induction bs arbitrary: ls u en ps)
  case Nil
  then show ?case by (simp add: bus_seam_def panics_def List.map_filter_simps)
next
  case (Cons d ds)
  obtain n dr where d: "d = (n, dr)" by (rule prod.exhaust)
  obtain p u1 en1 where s: "driverf dr ctx u en = (p, u1, en1)" by (metis prod_cases3)
  obtain qs u2 en2 where t: "turns driverf ctx (map snd ds) u1 en1 = (qs, u2, en2)" by (metis prod_cases3)
  have e: "ps = p # qs" "u' = u2" "en' = en2" using Cons.prems by (simp_all add: d s t)
  show ?case using Cons.IH[OF t[folded e(2,3)]] by (cases p) (simp_all add: bus_seam_def d bus_call_def s e panics_def map_filter_Cons)
qed

lemma firstLine_control: "controlFree t \<Longrightarrow> firstLine t = t"
  by (auto simp: firstLine_def takeWhile_eq_all_conv controlFree_def isControl_def byte_of_def newline_def)

lemma bus_Add_named: "[] \<notin> fst ` set b \<Longrightarrow> [] \<notin> fst ` set (bus_Add n d b)"
  by (auto simp: bus_Add_def split: option.splits)

lemma bus_Compose_named: "[] \<notin> fst ` set b \<Longrightarrow> [] \<notin> fst ` set (bus_Compose ds b)"
  unfolding bus_Compose_def by (induction ds arbitrary: b) (simp_all add: bus_Add_named)

lemma bus_Compose_riders: "map snd (bus_Compose ds b) = map snd b @ List.map_filter id ds"
  unfolding bus_Compose_def
  by (induction ds arbitrary: b) (auto simp: bus_Add_def List.map_filter_simps split: option.splits)

section \<open>Riders that keep to the context\<close>

locale riders =
  fixes driverf :: "('d, 'u, 'ev) driver_fn"
  assumes keeps: "driverf d ctx u en = (p, u', en') \<Longrightarrow> api en en'"
begin

lemma turns_api: "turns driverf ctx ds u en = (ps, u', en') \<Longrightarrow> api en en'"
proof (induction ds arbitrary: u en ps)
  case (Cons d ds)
  obtain p u1 en1 where s: "driverf d ctx u en = (p, u1, en1)" by (metis prod_cases3)
  obtain qs where t: "turns driverf ctx ds u1 en1 = (qs, u', en')"
    using Cons.prems by (auto simp: s split: prod.splits)
  show ?case by (rule api_trans[OF Cons.IH[OF t] keeps[OF s]])
qed (simp add: api_refl)

lemma bus_seam_api:
  assumes "bus_seam driverf bs ctx u en = (p, u', en')"
  shows "api en en'"
proof -
  obtain ls v where u: "u = (ls, v)" by (rule prod.exhaust)
  obtain ps v' en2 where t: "turns driverf ctx (map snd bs) v en = (ps, v', en2)" by (metis prod_cases3)
  show ?thesis using assms turns_api[OF t] bus_turns[OF t, of ls] by (simp add: u)
qed

end

sublocale riders \<subseteq> composed: seam_contract "bus_seam driverf"
  by unfold_locales (rule bus_seam_api)

text \<open>
  The riders of the running system: the rule lane, and any others as programs over the context's calls.
\<close>

datatype 'u rider = RuleRider | OtherRider "tick_context \<Rightarrow> 'u \<Rightarrow> ('u, rule_event) seam_prog"

fun rider_fn :: "('u rider, evaluator \<times> 'u, rule_event) driver_fn" where
  "rider_fn RuleRider ctx eu en = (let (p, ev', en') = Tick ctx (fst eu, en) in (p, (ev', snd eu), en'))"
| "rider_fn (OtherRider s) ctx eu en = (let (p, u', en') = run_prog (s ctx (snd eu)) en in (p, (fst eu, u'), en'))"

interpretation lane: riders "rider_fn :: ('u rider, evaluator \<times> 'u, rule_event) driver_fn"
proof unfold_locales
  fix d :: "'u rider" and ctx eu and en :: "('u rider bus, rule_event) engine" and p eu' en'
  assume r: "rider_fn d ctx eu en = (p, eu', en')"
  show "api en en'"
  proof (cases d)
    case RuleRider
    then show ?thesis using r Tick_api[of ctx "(fst eu, en)"] by (auto split: prod.splits)
  next
    case (OtherRider s)
    then show ?thesis using r run_prog_api by (fastforce split: prod.splits)
  qed
qed

end
