(* ===== verification/Toy_Robot.thy ===== *)
theory Toy_Robot
  imports Contention
begin

text \<open>
  The robot of \<open>tests/toy_robot/adaptor.toml\<close>: three channels of different arities and
  three actions of both trajectory shapes. The witnesses of the development run on it.
\<close>

definition toy_channels :: "channel list" where
  "toy_channels =
    [\<lparr>ch_name = ''wheels'', ch_arity = 2, ch_neutral = [Fin 0, Fin 0]\<rparr>,
     \<lparr>ch_name = ''beacon'', ch_arity = 1, ch_neutral = [Fin 0]\<rparr>,
     \<lparr>ch_name = ''arm'', ch_arity = 3, ch_neutral = [Fin 0, Fin 0, Fin 0]\<rparr>]"

definition toy_senses :: "sense list" where
  "toy_senses =
    [\<lparr>s_name = ''bumper'', s_type = ''bool'', s_age_field = []\<rparr>,
     \<lparr>s_name = ''light_level'', s_type = ''float'', s_age_field = []\<rparr>,
     \<lparr>s_name = ''charge'', s_type = ''float'', s_age_field = []\<rparr>,
     \<lparr>s_name = ''tag'', s_type = ''string'', s_age_field = ''tag_age_s''\<rparr>,
     \<lparr>s_name = ''tag_age_s'', s_type = ''float'', s_age_field = []\<rparr>,
     \<lparr>s_name = ''mood'', s_type = ''string'', s_age_field = []\<rparr>]"

text \<open>What a decoded trajectory holds before it is compiled.\<close>

definition key_traj :: "(f64 \<times> f64 list) list \<Rightarrow> trajectory" where
  "key_traj ks = \<lparr>tr_keyframes = map (\<lambda>(t, vs). \<lparr>kf_t = t, kf_value = vs\<rparr>) ks,
     tr_easing = None, tr_loops = False, tr_duration = Fin 0, tr_arity = 0\<rparr>"

definition ease_traj :: "string \<Rightarrow> f64 list \<Rightarrow> f64 list \<Rightarrow> f64 \<Rightarrow> trajectory" where
  "ease_traj kind a b d = \<lparr>tr_keyframes = [],
     tr_easing = Some \<lparr>ea_kind = kind, ea_from = a, ea_to = b, ea_duration = d\<rparr>,
     tr_loops = False, tr_duration = Fin 0, tr_arity = 0\<rparr>"

definition fifth :: f64 where
  "fifth = Fin (3602879701896397 / 18014398509481984)"

definition two_fifths :: f64 where
  "two_fifths = Fin (3602879701896397 / 9007199254740992)"

definition toy_hum :: action where
  "toy_hum = \<lparr>a_name = ''hum'', a_claims = [''beacon''], a_loops = True,
     a_params = [\<lparr>p_name = ''brightness'', p_min = Fin 0, p_max = Fin 1\<rparr>],
     a_trajectories = [(''beacon'', Some (key_traj
       [(Fin 0, [Fin 0]), (Fin (1/2), [Fin 1]), (Fin 1, [Fin 0])]))]\<rparr>"

definition toy_retreat :: action where
  "toy_retreat = \<lparr>a_name = ''retreat'', a_claims = [''wheels'', ''arm''], a_loops = False,
     a_params = [\<lparr>p_name = ''speed'', p_min = Fin 0, p_max = Fin 2\<rparr>],
     a_trajectories =
       [(''wheels'', Some (ease_traj ''ease_in_out'' [Fin 0, Fin 0] [Fin (-1), Fin (-1)] (Fin (1/2)))),
        (''arm'', Some (ease_traj ''linear'' [Fin 0, Fin 0, Fin 0] [Fin 0, Fin (-10), Fin 5]
           (Fin (1/2))))]\<rparr>"

definition toy_wave :: action where
  "toy_wave = \<lparr>a_name = ''wave'', a_claims = [''arm''], a_loops = False,
     a_params = [\<lparr>p_name = ''amplitude'', p_min = Fin 0, p_max = Fin 30\<rparr>],
     a_trajectories = [(''arm'', Some (key_traj
       [(Fin 0, [Fin 0, Fin 0, Fin 0]), (fifth, [Fin 15, Fin 0, Fin 0]),
        (two_fifths, [Fin 0, Fin 0, Fin 0])]))]\<rparr>"

definition toy_config :: config where
  "toy_config = \<lparr>cfg_channels = toy_channels, cfg_senses = toy_senses,
     cfg_actions = [toy_hum, toy_retreat, toy_wave]\<rparr>"

definition toy_voc :: vocabulary where
  "toy_voc = projr (parse toy_config ''adaptor.toml'')"

lemmas toy_defs = toy_config_def toy_channels_def toy_senses_def toy_hum_def toy_retreat_def
  toy_wave_def key_traj_def ease_traj_def fifth_def two_fifths_def

lemmas source_ok_defs = channels_ok_def channel_ok_def all_finite_def senses_ok_def sense_ok_def
  action_src_ok_def claims_ok_def param_ok_def traj_src_ok_def keyframes_ok_def keyframe_ok_def
  easing_ok_def isValidSenseType_def validSenseTypes_def isValidEasingKind_def
  validEasingKinds_def
  isFinite_def is_nan_def is_inf_def

lemma toy_channels_ok: "channels_ok toy_channels"
  by (simp add: toy_defs source_ok_defs del: isFinite_iff)

lemma toy_senses_ok: "senses_ok toy_senses"
  by (simp add: toy_defs source_ok_defs del: isFinite_iff)

lemma toy_actions_ok:
  "action_src_ok toy_channels toy_hum" "action_src_ok toy_channels toy_retreat"
  "action_src_ok toy_channels toy_wave"
  by (auto simp: toy_defs source_ok_defs simp del: isFinite_iff)

lemma toy_config_ok: "config_ok toy_config" "config_maps toy_config"
  using toy_channels_ok toy_senses_ok toy_actions_ok
  by (simp_all add: config_ok_def toy_config_def config_maps_def gomap_ok_def)
    (simp_all add: toy_defs)

lemma toy_parse: "parse toy_config ''adaptor.toml'' = Inr toy_voc"
proof -
  obtain v where "parse toy_config ''adaptor.toml'' = Inr v"
    using toy_config_ok(1) by (simp add: parse_Inr Let_def)
  then show ?thesis by (simp add: toy_voc_def)
qed

lemma toy_voc_wf: "voc_wf toy_voc"
  using toy_parse toy_config_ok(2) by (rule parse_voc_wf)

lemma toy_voc_fields:
  "v_origin toy_voc = ''adaptor.toml''" "v_channels toy_voc = toy_channels"
  "v_senses toy_voc = toy_senses"
  "v_actions toy_voc = map (compiled_action toy_channels) [toy_hum, toy_retreat, toy_wave]"
proof -
  let ?acts = "map (compiled_action toy_channels) [toy_hum, toy_retreat, toy_wave]"
  have eq: "toy_voc = \<lparr>v_origin = ''adaptor.toml'', v_channels = toy_channels, v_senses = toy_senses,
      v_actions = ?acts, channelByName = index_of ch_name toy_channels,
      senseByName = index_of s_name toy_senses, actionByName = index_of a_name ?acts\<rparr>"
    using toy_parse by (simp add: parse_Inr Let_def toy_config_def)
  show "v_origin toy_voc = ''adaptor.toml''" "v_channels toy_voc = toy_channels"
    "v_senses toy_voc = toy_senses" "v_actions toy_voc = ?acts" unfolding eq by simp_all
qed

lemma toy_channel_names: "ch_name ` set (v_channels toy_voc) = {''wheels'', ''beacon'', ''arm''}"
  by (simp add: toy_voc_fields toy_channels_def)

end
