(* ===== verification/Vocabulary_Properties.thy ===== *)
theory Vocabulary_Properties
  imports Toy_Robot Senselog
begin

text \<open>
  The properties of the adaptor, of the contention core and of the SENSE log, each with a run
  on the toy robot where it has hypotheses.
\<close>

text \<open>A behavior that claims the given channels, for the witnesses.\<close>

definition toy_behavior :: "string \<Rightarrow> stop_class \<Rightarrow> string list \<Rightarrow> behavior" where
  "toy_behavior i cls chans = \<lparr>b_name = i, b_id = i, b_class = cls, b_channels = chans,
     b_lifetime = \<lparr>lt_duration = None, lt_loops = True\<rparr>, b_action = [], b_params = [],
     b_admitted_at = 0, b_trajectories = Map.empty, b_contribute = Some (\<lambda>_. Map.empty)\<rparr>"

lemma toy_behavior_sel [simp]:
  "b_id (toy_behavior i cls chans) = i" "b_class (toy_behavior i cls chans) = cls"
  "b_channels (toy_behavior i cls chans) = chans"
  by (simp_all add: toy_behavior_def)

section \<open>The adaptor\<close>

text \<open>
  C32: Loading is fail-closed and complete: \<open>parse\<close> accepts a decoded adaptor document exactly
  when every channel, sense, action, parameter domain, claim and trajectory in it is
  well-formed, and what it then returns is the document's own channels and senses, the three
  lookups by name built from them, and each action with its trajectories compiled.
\<close>

theorem parse_exact:
  "parse cfg origin = Inr v \<longleftrightarrow> config_ok cfg
     \<and> v_origin v = origin \<and> v_channels v = cfg_channels cfg \<and> v_senses v = cfg_senses cfg
     \<and> v_actions v = map (compiled_action (cfg_channels cfg)) (cfg_actions cfg)
     \<and> channelByName v = index_of ch_name (v_channels v)
     \<and> senseByName v = index_of s_name (v_senses v)
     \<and> actionByName v = index_of a_name (v_actions v)"
  unfolding parse_Inr Let_def by (cases v) auto

text \<open>
  A vocabulary that loaded is well-formed (distinct names, arities of at least one,
  compiled trajectories of the width of their channel) and its \<open>Neutral\<close> is a complete pose.
\<close>

lemma loaded_wf:
  assumes "parse cfg origin = Inr v" "config_maps cfg"
  shows "voc_wf v \<and> pose_complete v (Neutral v)"
proof -
  have "voc_wf v" using assms by (rule parse_voc_wf)
  then show ?thesis by (simp add: Neutral_complete voc_channels_ok)
qed

lemma loaded_wf_witness: "voc_wf toy_voc \<and> pose_complete toy_voc (Neutral toy_voc)"
  by (rule loaded_wf[OF toy_parse toy_config_ok(2)])

text \<open>
  Sampling a compiled trajectory never panics: whatever time it is asked about, NaN and the
  infinities included, an action's trajectory on a claimed channel returns exactly as many
  values as the channel is wide, and a one-shot asked about a time past its end holds its
  final value.
\<close>

lemma action_samples:
  assumes "voc_wf v" "a \<in> set (v_actions v)" "ch \<in> set (v_channels v)"
    "ch_name ch \<in> set (a_claims a)"
  shows "\<exists>tr. map_of (a_trajectories a) (ch_name ch) = Some (Some tr)
     \<and> (\<forall>t. \<exists>vs. At cosf tr t = Some vs \<and> int (length vs) = ch_arity ch)
     \<and> (\<not> a_loops a \<longrightarrow> (\<forall>t. fle (tr_duration tr) t \<longrightarrow> At cosf tr t = Some (traj_final tr)))"
proof -
  have "action_ok (v_channels v) a" using assms(1,2) by (simp add: voc_wf_def list_all_iff)
  then obtain tr where "map_of (a_trajectories a) (ch_name ch) = Some (Some tr)"
    "traj_ok (a_loops a) (ch_arity ch) tr"
    using assms(3,4) by (rule action_trajectory)
  then show ?thesis using At_total At_past_end by fastforce
qed

lemma action_samples_witness:
  "\<exists>tr. map_of (a_trajectories (compiled_action toy_channels toy_wave)) ''arm'' = Some (Some tr)
     \<and> (\<forall>t. \<exists>vs. At (\<lambda>x. Fin 0) tr t = Some vs \<and> int (length vs) = 3)"
  using action_samples[OF toy_voc_wf, of "compiled_action toy_channels toy_wave" "toy_channels ! 2" "\<lambda>x. Fin 0"]
  by (auto simp: toy_voc_fields toy_channels_def toy_wave_def compiled_action_def)

text \<open>
  A looping trajectory is periodic: shifting the sample time by any whole number of
  durations leaves the sample unchanged.
\<close>

lemma looping_periodic:
  assumes "traj_ok True arity tr" "tr_duration tr = Fin d" "0 < d" "0 \<le> q"
  shows "At cosf tr (Fin (q + of_nat k * d)) = At cosf tr (Fin q)"
  using assms by (rule At_period)

lemma looping_periodic_witness:
  "At (\<lambda>x. x) (compiled True 1 (key_traj [(Fin 0, [Fin 0]), (Fin (1/2), [Fin 1]), (Fin 1, [Fin 0])]))
     (Fin (1/4 + of_nat 3 * 1)) =
   At (\<lambda>x. x) (compiled True 1 (key_traj [(Fin 0, [Fin 0]), (Fin (1/2), [Fin 1]), (Fin 1, [Fin 0])]))
     (Fin (1/4))"
  by (rule looping_periodic[where arity = 1])
    (simp_all add: traj_ok_def compiled_def key_traj_def traj_src_ok_def keyframes_ok_def
      keyframe_ok_def all_finite_def traj_len_def isFinite_def is_nan_def is_inf_def del: isFinite_iff)

text \<open>
  Parameters are refused, never clamped: \<open>ValidateParams\<close> accepts a parameter list exactly
  when the action is declared and every parameter is declared by it, finite and inside the
  declared closed interval.
\<close>

lemma params_exact:
  assumes "voc_wf v"
  shows "(\<exists>u. ValidateParams v an ps = Inr u) \<longleftrightarrow>
     HasAction v an \<and> (\<forall>(k, x) \<in> set ps. param_in_domain v an k x)"
  using assms by (simp add: ValidateParams_Inr)

lemma params_exact_witness:
  "(\<exists>u. ValidateParams toy_voc ''wave'' [(''amplitude'', Fin 31)] = Inr u) \<longleftrightarrow>
     HasAction toy_voc ''wave'' \<and> param_in_domain toy_voc ''wave'' ''amplitude'' (Fin 31)"
  using params_exact[OF toy_voc_wf, of "''wave''" "[(''amplitude'', Fin 31)]"] by simp

section \<open>Contention\<close>

text \<open>
  C21: One owner per channel: for every declared channel, arbitration names the highest-priority
  live behavior that claims the channel and offers a value on it, the most recently admitted of
  its equals, and nobody (\<open>Unowned\<close>) exactly when no live behavior claims and offers.
\<close>

theorem arbitrate_spec:
  "Arbitrate channels bs contribs c = Some owner \<longleftrightarrow> c \<in> set channels
     \<and> ((\<exists>w. wins contribs bs c w \<and> owner = b_id w)
        \<or> ((\<forall>b \<in> set bs. \<not> eligible contribs c b) \<and> owner = Unowned))"
proof (cases rule: ownerOf_cases[of contribs bs c])
  case unowned
  then have "\<not> wins contribs bs c w" for w by (auto simp: wins_def)
  then show ?thesis using unowned by (auto simp: Arbitrate_lookup)
next
  case (owned w)
  have "wins contribs bs c w' \<longleftrightarrow> w' = w" for w'
    using pickOwner_iff[THEN iffD2, OF owned(1)] pickOwner_iff[of contribs c bs w'] owned(1) by auto
  moreover have "\<exists>b \<in> set bs. eligible contribs c b"
    using wins_member[OF owned(1)] by (auto simp: eligible_def)
  ultimately show ?thesis using owned(2) by (auto simp: Arbitrate_lookup)
qed

theorem arbitrate_spec_witness:
  "Arbitrate [''arm''] [toy_behavior ''a'' ClassStoppable [''arm''], toy_behavior ''b'' ClassStoppable [''arm'']]
     None ''arm'' = Some ''b''"
proof -
  have "wins None [toy_behavior ''a'' ClassStoppable [''arm''], toy_behavior ''b'' ClassStoppable [''arm'']]
      ''arm'' (toy_behavior ''b'' ClassStoppable [''arm''])"
    unfolding wins_def by (rule exI[of _ "[toy_behavior ''a'' ClassStoppable [''arm'']]"], rule exI[of _ "[]"])
      (simp add: eligible_def Claims_def)
  then show ?thesis unfolding arbitrate_spec by auto
qed



text \<open>
  C23: Every composed pose is complete: whatever the owners and the contributions, the pose has
  a value for each declared channel and for nothing else, and that value is the owner's when
  the owner offered one of the declared width and the channel's neutral otherwise.
\<close>

theorem compose_spec:
  assumes "channels_ok (v_channels v)"
  shows "pose_complete v (fst (Compose v ownership contribs))
     \<and> (\<forall>ch \<in> set (v_channels v). fst (Compose v ownership contribs) (ch_name ch) =
          Some (case offered ownership contribs (ch_name ch) of
              None \<Rightarrow> ch_neutral ch
            | Some vs \<Rightarrow> if int (length vs) = ch_arity ch then vs else ch_neutral ch))"
  using assms Compose_complete[OF assms] by (auto simp: Compose_value composed_def split: option.splits)

theorem compose_spec_witness:
  "pose_complete toy_voc (fst (Compose toy_voc (\<lambda>_. Some ''b'')
     (\<lambda>_. Some (\<lambda>_. Some (Some [Fin 1])))))"
  using compose_spec[OF voc_channels_ok[OF toy_voc_wf]] by blast

text \<open>
  Binding is fail-closed: a behavior that binds has a declared class and name, claims at
  least one channel, each declared and listed once, has a lifetime that ends or was asked to
  loop, names a declared action with parameters inside its domain or brings its own
  contribution, and every sample of it on any tick returns with values of the declared width.
\<close>

lemma bind_spec:
  assumes "voc_wf v" "Bind (Some v) b = Inr b'"
  shows "behavior_ok v b' \<and> (\<forall>t. \<exists>con. Contribution cosf b' t = Some con \<and> contribution_ok v b' con)"
  using Bind_ok[OF assms] Contribution_total by blast

lemma bind_spec_witness:
  "\<exists>b'. Bind (Some toy_voc) (toy_behavior ''x'' ClassStoppable [''arm'']) = Inr b' \<and> behavior_ok toy_voc b'"
proof -
  have "Bind (Some toy_voc) (toy_behavior ''x'' ClassStoppable [''arm'']) =
      Inr (toy_behavior ''x'' ClassStoppable [''arm''])"
    by (simp add: Bind_def bindAction_def bindChannels_def bindLifetime_def toy_behavior_def
        guards.simps refuse_if_def toy_voc_fields toy_channels_def)
  then show ?thesis using bind_spec[OF toy_voc_wf] by blast
qed

section \<open>The SENSE log\<close>

text \<open>
  The SENSE grammar is read back as it was written: parsing the line a drop writes, with
  control-free fields, gives the stage, source and event as sanitised, the drop's reason as
  sanitised and the detail unchanged.
\<close>

lemma drop_line_round_trip:
  assumes "controlFree stage" "controlFree source" "controlFree event"
    "stage \<noteq> []" "source \<noteq> []" "event \<noteq> []" "controlFree reason" "controlFree detail"
  shows "log_Parse (log_Drop stage source event reason detail) =
    Inr \<lparr>ll_stage = sanitize stage, ll_source = sanitize source, ll_event = sanitize event,
         ll_dropped = True, ll_reason = sanitize reason, ll_detail = detail\<rparr>"
  using assms by (rule log_Drop_round_trip)

lemma drop_line_round_trip_witness:
  "log_Parse (log_Drop ''tick'' ''sink'' ''write'' ''write failed'' ''no route'') =
    Inr \<lparr>ll_stage = ''tick'', ll_source = ''sink'', ll_event = ''write'',
         ll_dropped = True, ll_reason = ''write_failed'', ll_detail = ''no route''\<rparr>"
  using drop_line_round_trip[of "''tick''" "''sink''" "''write''" "''write failed''" "''no route''"]
  by (simp add: isControl_def byte_of_def sanitize_map)

text \<open>
  A control character in the event field is not removed by the writer: the line it then
  writes is refused by the reader.
\<close>

lemma control_event_refused:
  assumes "\<not> controlFree event"
  shows "log_Parse (log_write stage source event detail) = Inl ControlCharacter"
  using assms by (rule log_write_control_refused)

lemma control_event_refused_witness:
  "log_Parse (log_write ''rule'' ''bumper'' (''a'' @ [CHR 0x0A] @ ''b'') ''fired'') = Inl ControlCharacter"
  by (rule control_event_refused) (simp add: isControl_def byte_of_def)

text \<open>
  One line per transition: a streak of gated ticks writes one drop line for its first tick
  and one for each tick whose reason differs from the tick before, and its end writes one
  summary with every reason in the order first seen and the number of ticks, and resets.
\<close>

lemma streak_spec:
  assumes "rs \<noteq> []"
  shows "(let (s1, l1) = streak_run rs NewStreak; (s2, l2) = streak_End s1 in (s2, l1 @ l2))
    = (NewStreak, map SDrop (remdups_adj rs) @ [SSummary (first_seen rs) (length rs)])"
  using assms by (rule streak_episode)

lemma streak_spec_witness:
  "(let (s1, l1) = streak_run [''cooldown'', ''cooldown'', ''rearming''] NewStreak;
        (s2, l2) = streak_End s1 in (s2, l1 @ l2))
    = (NewStreak, [SDrop ''cooldown'', SDrop ''rearming'', SSummary [''cooldown'', ''rearming''] 3])"
  using streak_spec[of "[''cooldown'', ''cooldown'', ''rearming'']"] by (simp add: first_seen_def)

end
