(* ===== verification/Engine_Properties.thy ===== *)
theory Engine_Properties
  imports Engine_Run Vocabulary_Properties
begin

text \<open>
  The properties of the tick engine, for every clock, every sink, every sequence of arrivals and
  every seam written over the calls of \<open>TickContext\<close>, each with a run on the toy robot.
\<close>

definition toy_engine_config :: engine_config where
  "toy_engine_config = \<lparr>ec_period = 20000000, ec_baseLayer = False, ec_baseAction = [],
     ec_maxErrors = 2, ec_settle = None, ec_inboxSize = 1\<rparr>"

text \<open>A sink whose first write succeeds and whose later writes all fail.\<close>

definition toy_sink :: sink where
  "toy_sink k = (if k = 0 then None else Some ''no route'')"

definition toy_clock :: clock where
  "toy_clock k = 62135596800000000000 + int k * 20000000"

definition toy_engine :: "((unit, unit) prog_seam, unit) engine" where
  "toy_engine = projr (New (Some toy_voc) toy_engine_config (Some toy_sink) toy_clock)"

lemma toy_engine_new: "New (Some toy_voc) toy_engine_config (Some toy_sink) toy_clock = Inr toy_engine"
proof -
  have "\<exists>e :: ((unit, unit) prog_seam, unit) engine.
      New (Some toy_voc) toy_engine_config (Some toy_sink) toy_clock = Inr e"
    by (simp add: New_def toy_engine_config_def Let_def)
  then show ?thesis unfolding toy_engine_def by auto
qed

lemma toy_reachable:
  "reachable cosf progf toy_voc toy_engine_config toy_sink toy_clock toy_engine"
  by (rule reach_new) (rule toy_engine_new)

lemma toy_engine_sel:
  "e_voc toy_engine = toy_voc" "ec_maxErrors (e_cfg toy_engine) = 2" "e_sink toy_engine = toy_sink"
  "e_ticks toy_engine = 0" "ec_settle (e_cfg toy_engine) = None" "ec_inboxSize (e_cfg toy_engine) = 1"
  "e_inbox toy_engine = []" "e_drops toy_engine = 0" "e_inboxDrops toy_engine = 0"
  "e_active toy_engine = []" "e_written toy_engine = []" "ec_baseLayer (e_cfg toy_engine) = False"
proof -
  note new = toy_engine_new[unfolded New_def toy_engine_config_def Let_def, simplified, symmetric]
  show "e_voc toy_engine = toy_voc" "ec_maxErrors (e_cfg toy_engine) = 2" "e_sink toy_engine = toy_sink"
    "e_ticks toy_engine = 0" "ec_settle (e_cfg toy_engine) = None" "ec_inboxSize (e_cfg toy_engine) = 1"
    "e_inbox toy_engine = []" "e_drops toy_engine = 0" "e_inboxDrops toy_engine = 0"
    "e_active toy_engine = []" "e_written toy_engine = []" "ec_baseLayer (e_cfg toy_engine) = False"
    by (subst new, simp)+
qed

section \<open>The state between ticks\<close>

text \<open>
  C7: Whatever producers send, whatever the seams do and however often it has ticked, the
  engine's live behaviors have pairwise distinct non-empty ids and each is one the vocabulary
  bound, the inbox never exceeds its size, and the drop counters agree with the log: every drop
  is one counted line, every inbox drop is counted in a line or still pending, and the panic
  counter counts the lines that name a panic.
\<close>

theorem engine_invariant:
  assumes "voc_wf v" "reachable cosf progf v cfg snk clk e"
  shows "distinct (active_ids e) \<and> Unowned \<notin> set (active_ids e) \<and> (\<forall>b \<in> set (behaviors e). behavior_ok v b)
    \<and> int (length (e_inbox e)) \<le> ec_inboxSize (e_cfg e)
    \<and> e_drops e = sum_list (map counted (e_log e)) + e_inboxDrops e
    \<and> e_seamPanics e = sum_list (map panicked (e_log e))"
proof -
  have "set_inv e" "e_voc e = v" using prog.reachable_inv[OF assms(2,1)] by (simp_all add: loop_inv_def)
  then show ?thesis by (simp add: set_inv_def active_wf_def inbox_ok_def counters_ok_def active_ids_def)
qed

theorem engine_invariant_witness:
  "distinct (active_ids (snd (Send (EvictCmd ''x'') toy_engine)))"
  using engine_invariant[OF toy_voc_wf reach_send[OF toy_reachable]] by blast

text \<open>
  C6: A tick never crashes the loop, whatever panics in its seam: it hands the sink exactly one
  more pose, and that pose is complete.
\<close>

theorem tick_streams_one_pose:
  assumes "voc_wf v" "reachable cosf progf v cfg snk clk e"
  shows "\<exists>r u' e' p. tickOnce cosf progf arrivals u e = Some (r, u', e')
     \<and> e_written e' = e_written e @ [p] \<and> pose_complete v p"
proof -
  have inv: "loop_inv e" "going e" "e_voc e = v" using prog.reachable_inv[OF assms(2,1)] by auto
  obtain r u' e' where t: "tickOnce cosf progf arrivals u e = Some (r, u', e')" "loop_inv e'"
    "fixed_part e' = fixed_part e" "\<exists>p. e_written e' = e_written e @ [p]"
    using prog.tick_step[OF inv(1,2)] by metis
  then obtain p where "e_written e' = e_written e @ [p]" by blast
  then show ?thesis using t(1-3) inv(3) by (auto simp: loop_inv_def stream_ok_def fixed_part_def)
qed

theorem tick_streams_one_pose_witness:
  "\<exists>r u' e' p. tickOnce (\<lambda>x. x) progf [[SetSeamCmd (Some (\<lambda>_ u. Panic ''boom'' u))]] () toy_engine
      = Some (r, u', e') \<and> e_written e' = [p] \<and> pose_complete toy_voc p"
  using tick_streams_one_pose[OF toy_voc_wf toy_reachable, of "\<lambda>x. x"
      "[[SetSeamCmd (Some (\<lambda>_ u. Panic ''boom'' u))]]" "()"]
  by (simp add: toy_engine_sel)

text \<open>
  C33: What a tick composes: the behaviors whose lifetime has elapsed are dropped first, every
  other one is sampled once at its own local time, the owners are those arbitration names over
  these samples, and the pose is their composition, complete whatever they offered.
\<close>

theorem composed_tick:
  assumes "voc_wf v" "reachable cosf progf v cfg snk clk e"
  shows "\<exists>tp e'. composeTick cosf now e = Some (tp, e')
    \<and> behaviors e' = filter (\<lambda>b. \<not> IsExpired (b_lifetime b) (localTime b now)) (behaviors e)
    \<and> (\<forall>b \<in> set (behaviors e'). tp_contribs tp (b_id b) = Contribution cosf b (localTime b now))
    \<and> tp_ownership tp = Arbitrate (e_channels e) (behaviors e') (Some (tp_contribs tp))
    \<and> tp_pose tp = fst (Compose v (tp_ownership tp) (tp_contribs tp))
    \<and> pose_complete v (tp_pose tp)"
proof -
  have inv: "set_inv e" "e_voc e = v"
    using prog.reachable_inv[OF assms(2,1)] by (simp_all add: loop_inv_def)
  show ?thesis
    by (rule composeTick_total[OF inv(1), of cosf now]) (use inv(2) in blast)
qed

theorem composed_tick_witness:
  "\<exists>tp e'. composeTick (\<lambda>x. x) 5 toy_engine = Some (tp, e') \<and> pose_complete toy_voc (tp_pose tp)"
  using composed_tick[OF toy_voc_wf toy_reachable, of "\<lambda>x. x" 5] by blast

text \<open>
  A behavior that has outlived its lifetime stays expired: on a clock that does not go
  back, no later tick would find it live again.
\<close>

lemma expired_for_good:
  assumes "now \<le> now'" "expired now ab"
  shows "expired now' ab"
proof (cases "lt_duration (b_lifetime (ab_behavior ab))")
  case (Some d)
  then have "fle d (localTime (ab_behavior ab) now)" using assms(2) by (simp add: expired_def IsExpired_def)
  moreover have "fle (localTime (ab_behavior ab) now) (localTime (ab_behavior ab) now')"
    unfolding localTime_def by (rule secs_between_mono[OF assms(1)])
  ultimately show ?thesis using Some fle_trans by (fastforce simp: expired_def IsExpired_def)
qed (use assms in \<open>simp add: expired_def IsExpired_def\<close>)

definition toy_one_shot :: active_behavior where
  "toy_one_shot = \<lparr>ab_behavior = (toy_behavior ''x'' ClassStoppable [''arm''])
     \<lparr>b_lifetime := \<lparr>lt_duration = Some (Fin 1), lt_loops = False\<rparr>\<rparr>, ab_isBase = False\<rparr>"

lemma expired_for_good_witness: "expired 3000000000 toy_one_shot"
proof (rule expired_for_good)
  have "secs_between 2000000000 0 = Fin 2"
    using rnd_of_int[of 2]
    by (simp add: secs_between_def time_Sub_def seconds_def go_quot_def go_rem_def second_def
        f64_of_int_def min_duration_def max_duration_def)
  then show "expired 2000000000 toy_one_shot"
    by (simp add: toy_one_shot_def expired_def IsExpired_def localTime_def toy_behavior_def)
qed simp

section \<open>The run\<close>

lemma failed_run_Suc_le: "int (failed_run snk (Suc n)) \<le> int (failed_run snk n) + 1"
  by simp

text \<open>
  C8: The run stops with the sink's error at the first tick whose write is the
  \<open>MaxErrors\<close>-th consecutive failure and at no other tick, a success in between resets the
  count, and otherwise it runs every tick it is given; either way the last pose the sink is
  handed is the settling neutral one, unless settling is switched off.
\<close>

theorem run_stops_exactly:
  assumes "voc_wf v" "reachable cosf progf v cfg snk clk e" "e_ticks e = 0" "seedBaseLayer e = Inr e0"
  shows "\<exists>r u' e' ps. Run cosf progf ticks u e = Some (Inr (r, u', e'))
    \<and> e_written e' = ps @ (if ec_settle (e_cfg e) = Some False then [] else [Neutral v])
    \<and> (\<forall>m < length ps. int (failed_run snk m) < ec_maxErrors (e_cfg e))
    \<and> (if r = None
       then length ps = length ticks \<and> int (failed_run snk (length ps)) < ec_maxErrors (e_cfg e)
       else ps \<noteq> [] \<and> length ps \<le> length ticks \<and> r = snk (length ps - 1)
         \<and> int (failed_run snk (length ps)) = ec_maxErrors (e_cfg e))"
proof -
  have inv: "loop_inv e" "going e" "e_voc e = v" "e_sink e = snk"
    using prog.reachable_inv[OF assms(2,1)] by auto
  note f0 = seedBaseLayer_frame[OF _ assms(4)]
  have i0: "loop_inv e0" "going e0" "fixed_part e0 = fixed_part e" "e_written e0 = []"
    using inv f0 loop_inv_frame[OF f0(2)] going_frame[OF f0(2)] frame_fields[OF f0(2)] assms(3)
      frame_parts[OF f0(2)] by (auto simp: loop_inv_def)
  obtain r u1 e1 ps where rl: "runLoop cosf progf ticks u e0 = Some (r, u1, e1)" "loop_inv e1"
    "fixed_part e1 = fixed_part e0" "e_written e1 = e_written e0 @ ps"
    "if r = None then length ps = length ticks \<and> going e1
     else ps \<noteq> [] \<and> length ps \<le> length ticks \<and> \<not> going e1 \<and> r = e_sink e0 (length (e_written e1) - 1)"
    using prog.runLoop_spec[OF i0(1,2)] by blast
  let ?e2 = "endOverrun e1"
  have eq: "Run cosf progf ticks u e = Some (Inr (r, u1, settle ?e2))"
    using rl(1) assms(4) by (simp add: Run_def)
  have sv: "set_inv e1" "overrun_ok (overrun_part e1)" using rl(2) by (simp_all add: loop_inv_def)
  note en = endOverrun_inv[OF sv]
  have e2: "e_written ?e2 = ps" "e_voc ?e2 = v" "e_cfg ?e2 = e_cfg e" "e_cfg e1 = e_cfg e"
    "e_sink e1 = snk" "e_sink e0 = snk" "e_written e1 = ps"
    using en(4,5) rl(3,4) i0(3,4) inv(3,4) by (simp_all add: fixed_part_def tick_part_def)
  have "e_written (settle ?e2) = ps @ (if ec_settle (e_cfg e) = Some False then [] else [Neutral v])"
    by (simp add: settle_def e2 sink_Write_def log_defs split: option.splits)
  moreover have lt: "\<forall>m < length ps. int (failed_run snk m) < ec_maxErrors (e_cfg e)"
    and fr: "e_sinkFailures e1 = int (failed_run snk (length ps))"
    using rl(2) e2(4,5,7) by (simp_all add: loop_inv_def stream_ok_def)
  moreover have "int (failed_run snk (length ps)) = ec_maxErrors (e_cfg e)" if "r \<noteq> None"
  proof -
    have "ps \<noteq> []" "\<not> going e1" using rl(5) that by auto
    then obtain m where m: "length ps = Suc m" by (cases ps) auto
    have "ec_maxErrors (e_cfg e) \<le> int (failed_run snk (Suc m))"
      using \<open>\<not> going e1\<close> fr e2(4) m by (simp add: going_def)
    moreover have "int (failed_run snk m) < ec_maxErrors (e_cfg e)" using lt m by simp
    ultimately show ?thesis unfolding m using failed_run_Suc_le[of snk m] by linarith
  qed
  ultimately show ?thesis using rl(5) eq e2(4,6,7)
    by (intro exI[of _ r] exI[of _ u1] exI[of _ "settle ?e2"] exI[of _ ps])
      (auto simp: going_def split: if_splits)
qed

theorem run_stops_exactly_witness:
  "\<exists>u' e'. Run (\<lambda>x. x) progf [[], [], [], []] () toy_engine = Some (Inr (Some ''no route'', u', e'))
     \<and> length (e_written e') = 4"
proof -
  have sd: "seedBaseLayer toy_engine = Inr toy_engine" by (simp add: seedBaseLayer_def toy_engine_sel)
  obtain r u' e' ps where run: "Run (\<lambda>x. x) progf [[], [], [], []] () toy_engine = Some (Inr (r, u', e'))"
    "e_written e' = ps @ [Neutral toy_voc]" "\<forall>m < length ps. int (failed_run toy_sink m) < 2"
    "if r = None then length ps = Suc (Suc (Suc (Suc 0))) \<and> failed_run toy_sink (length ps) < 2
     else ps \<noteq> [] \<and> length ps \<le> Suc (Suc (Suc (Suc 0))) \<and> r = toy_sink (length ps - Suc 0)
       \<and> failed_run toy_sink (length ps) = 2"
    using run_stops_exactly[OF toy_voc_wf toy_reachable toy_engine_sel(4) sd, of "\<lambda>x. x"
        "[[], [], [], []]" "()"] by (auto simp: toy_engine_sel cong: if_cong)
  have three: "failed_run toy_sink 3 = 2" by (simp add: toy_sink_def numeral_eq_Suc)
  then have "\<not> 3 < length ps" using run(3) by force
  then have r: "r \<noteq> None" "length ps \<le> 3" using run(4) by (auto split: if_splits)
  then have two: "failed_run toy_sink (length ps) = 2" "r = toy_sink (length ps - Suc 0)"
    using run(4) by (auto split: if_splits)
  have "length ps = 3"
  proof (rule ccontr)
    assume "length ps \<noteq> 3"
    then have "length ps = 0 \<or> length ps = 1 \<or> length ps = 2" using r(2) by linarith
    then show False using two(1) by (auto simp: toy_sink_def numeral_2_eq_2)
  qed
  then show ?thesis using run(1,2) two(2) by (auto simp: toy_sink_def)
qed

section \<open>Admission, the inbox and the overrun episodes\<close>



text \<open>
  \<open>Send\<close> never blocks and never reorders: after any run of sends the inbox is what was
  queued followed by what was sent, cut at the inbox size, and exactly the commands cut off are
  counted as drops, in \<open>Stats\<close> and in the pending inbox report alike.
\<close>

lemma sends_bounded_fifo:
  assumes "inbox_ok e"
  shows "e_inbox (sendAll cs e) = take (nat (ec_inboxSize (e_cfg e))) (e_inbox e @ cs)
    \<and> Drops (Stats (sendAll cs e)) = Drops (Stats e) + (length (e_inbox e @ cs) - nat (ec_inboxSize (e_cfg e)))
    \<and> e_inboxDrops (sendAll cs e) = e_inboxDrops e + (length (e_inbox e @ cs) - nat (ec_inboxSize (e_cfg e)))"
  using assms
proof (induction cs arbitrary: e)
  case Nil
  then show ?case by (simp add: sendAll_def Stats_def inbox_ok_def)
next
  case (Cons c cs)
  have step: "sendAll (c # cs) e = sendAll cs (snd (Send c e))" by (simp add: sendAll_def)
  have cfg: "e_cfg (snd (Send c e)) = e_cfg e" by (simp add: Send_def)
  have ok: "inbox_ok (snd (Send c e))" using Cons.prems by (auto simp: Send_def inbox_ok_def)
  show ?case
  proof (cases "int (length (e_inbox e)) < ec_inboxSize (e_cfg e)")
    case True
    then have "snd (Send c e) = e\<lparr>e_inbox := e_inbox e @ [c]\<rparr>" by (simp add: Send_def)
    then show ?thesis using Cons.IH[OF ok] step by (simp add: Stats_def)
  next
    case False
    then have full: "nat (ec_inboxSize (e_cfg e)) = length (e_inbox e)"
      using Cons.prems by (simp add: inbox_ok_def)
    have "snd (Send c e) = e\<lparr>e_drops := Suc (e_drops e), e_inboxDrops := Suc (e_inboxDrops e)\<rparr>"
      using False by (simp add: Send_def)
    then show ?thesis using Cons.IH[OF ok] step full by (simp add: Stats_def)
  qed
qed

lemma sends_bounded_fifo_witness:
  "e_inbox (sendAll [EvictCmd ''a'', EvictCmd ''b''] toy_engine) = [EvictCmd ''a'']
     \<and> Drops (Stats (sendAll [EvictCmd ''a'', EvictCmd ''b''] toy_engine)) = 1"
proof -
  have "inbox_ok toy_engine" by (simp add: inbox_ok_def toy_engine_sel)
  from sends_bounded_fifo[OF this, of "[EvictCmd ''a'', EvictCmd ''b'']"]
  show ?thesis by (simp add: toy_engine_sel Stats_def)
qed

text \<open>
  A drain with no producer active applies every queued command, oldest first, and leaves
  the inbox empty; whatever the producers do meanwhile, it receives at most the inbox's size.
\<close>

lemma drain_applies_all:
  assumes "inbox_ok e" "e_inboxDrops e = 0"
  shows "drainInbox [] e = fold apply_cmd (e_inbox e) (e\<lparr>e_inbox := []\<rparr>)"
proof -
  have "drainLoop n [] e = fold apply_cmd (e_inbox e) (e\<lparr>e_inbox := []\<rparr>)"
    if "length (e_inbox e) \<le> n" for n and e :: "('a, 'b) engine"
    using that
  proof (induction n arbitrary: e)
    case 0
    then have "e\<lparr>e_inbox := []\<rparr> = e" by simp
    then show ?case using 0 by (simp add: sendAll_def)
  next
    case (Suc n)
    show ?case
    proof (cases "e_inbox e")
      case Nil
      then have "e\<lparr>e_inbox := []\<rparr> = e" by simp
      then show ?thesis using Nil by (simp add: sendAll_def Let_def)
    next
      case (Cons c cs)
      let ?e' = "apply_cmd c (e\<lparr>e_inbox := cs\<rparr>)"
      have "e_inbox ?e' = cs" by (simp add: apply_cmd_inbox)
      then have "drainLoop n [] ?e' = fold apply_cmd cs (?e'\<lparr>e_inbox := []\<rparr>)"
        using Suc Cons by simp
      also have "?e'\<lparr>e_inbox := []\<rparr> = apply_cmd c (e\<lparr>e_inbox := []\<rparr>)" by (simp add: apply_cmd_inbox)
      finally show ?thesis using Cons by (simp add: sendAll_def Let_def)
    qed
  qed
  moreover have same: "e\<lparr>e_inboxDrops := 0\<rparr> = e" using assms(2) by (cases e) simp
  have "drainInbox [] e = drainLoop (nat (ec_inboxSize (e_cfg e))) [] e"
    unfolding drainInbox_def Let_def assms(2) same by simp
  ultimately show ?thesis using assms(1) by (simp add: inbox_ok_def)
qed

lemma drain_applies_all_witness:
  "drainInbox [] toy_engine = toy_engine"
  using drain_applies_all[of toy_engine] by (simp add: inbox_ok_def toy_engine_sel)

text \<open>
  When the run is over every overrun is accounted for in the log: there is one summary for
  each episode entered, and the lengths the summaries carry add up to the number of overrunning
  ticks.
\<close>

lemma overruns_accounted:
  assumes "voc_wf v" "reachable cosf progf v cfg snk clk e"
    "Run cosf progf ticks u e = Some (Inr (r, u', e'))"
  shows "let ls = concat (map overrun_line (e_log e')) in
    sum_list (map line_entry ls) = sum_list (map line_summary ls)
    \<and> sum_list (map line_ticks ls) = Overruns (Stats e')"
proof -
  have inv: "loop_inv e" "going e" using prog.reachable_inv[OF assms(2,1)] by auto
  obtain e0 e1 where sd: "seedBaseLayer e = Inr e0" and e1: "runLoop cosf progf ticks u e0 = Some (r, u', e1)"
    "e' = settle (endOverrun e1)"
    using assms(3) by (auto simp: Run_def split: sum.splits option.splits prod.splits)
  have "set_inv e" using inv by (simp add: loop_inv_def)
  note f0 = seedBaseLayer_frame[OF this sd]
  have "loop_inv e0" "going e0"
    using loop_inv_frame[OF f0(2,1) inv(1)] going_frame[OF f0(2)] inv(2) by simp_all
  from prog.runLoop_spec[OF this, of cosf ticks u] e1(1) have "loop_inv e1" by auto
  then have s1: "set_inv e1" "overrun_ok (overrun_part e1)" by (simp_all add: loop_inv_def)
  note en = endOverrun_inv[OF s1]
  have "overrun_part e' = overrun_part (endOverrun e1)"
    by (simp add: e1(2) settle_def sink_Write_def log_defs overrun_part_def split: option.splits)
  then show ?thesis using en(2,3) by (simp add: overrun_part_def Stats_def)
qed

lemma overruns_accounted_witness:
  "\<exists>e'. Run (\<lambda>x. x) progf [] () toy_engine = Some (Inr (None, (), e'))
     \<and> sum_list (map line_ticks (concat (map overrun_line (e_log e')))) = Overruns (Stats e')"
proof -
  have "Run (\<lambda>x. x) progf [] () toy_engine = Some (Inr (None, (), settle (endOverrun toy_engine)))"
    by (simp add: Run_def seedBaseLayer_def toy_engine_sel)
  moreover from overruns_accounted[OF toy_voc_wf toy_reachable this]
  have "sum_list (map line_ticks (concat (map overrun_line (e_log (settle (endOverrun toy_engine)))))) =
      Overruns (Stats (settle (endOverrun toy_engine)))" by (simp add: Let_def)
  ultimately show ?thesis by blast
qed

end
