(* ===== verification/Rules_Load.thy ===== *)
theory Rules_Load
  imports Rules
begin

text \<open>
  Loading and merging a stack of rules layers, \<open>internal/rules/load.go\<close>. Reading a file and
  decoding its TOML are a parameter: \<open>decode path\<close> is the decoded document, \<open>None\<close> when the file
  cannot be read or is not TOML.
\<close>

section \<open>Layers\<close>

record layer_result =
  l_ordered :: "rule list"
  l_disabled :: "string set"
  l_modes :: "string \<rightharpoonup> f64 gomap"
  l_activeMode :: string
  l_schemaVersion :: int
  l_events :: "event list"
  l_eventsDisabled :: "string set"
  l_eventDefault :: "event_default option"

definition emptyLayer :: layer_result where
  "emptyLayer = \<lparr>l_ordered = [], l_disabled = {}, l_modes = Map.empty, l_activeMode = [],
     l_schemaVersion = 0, l_events = [], l_eventsDisabled = {}, l_eventDefault = None\<rparr>"

definition parseFile :: "(string \<rightharpoonup> table) \<Rightarrow> string \<Rightarrow> (rules_error, rules_file) result" where
  "parseFile decode path =
     (case decode path of
        None \<Rightarrow> Inl (errf \<lparr>cx_path = path, cx_ruleID = [], cx_label = []\<rparr> Unreadable)
      | Some data \<Rightarrow> validate path data)"

definition eventFieldSet :: "rules_file list list \<Rightarrow> string set" where
  "eventFieldSet parsed = (\<Union>f \<in> set (concat parsed). set (eventIDs (f_events f)) \<union> set (f_eventDisabled f))"

text \<open>Where each id was first seen in a layer; a second sighting is refused.\<close>

fun registerIDs ::
  "(string \<Rightarrow> ctx) \<Rightarrow> string \<Rightarrow> string list \<Rightarrow> (string \<rightharpoonup> string) \<Rightarrow> (rules_error, string \<rightharpoonup> string) result" where
  "registerIDs mk path [] origin = Inr origin"
| "registerIDs mk path (i # is) origin =
     (case origin i of
        Some first \<Rightarrow> Inl (errf (mk i) (DuplicateInLayer first))
      | None \<Rightarrow> registerIDs mk path is (origin(i \<mapsto> path)))"

definition addFile :: "rules_file \<Rightarrow> layer_result \<Rightarrow> layer_result" where
  "addFile f l = l\<lparr>
     l_ordered := l_ordered l @ f_ordered f,
     l_disabled := l_disabled l \<union> set (f_disabled f),
     l_modes := l_modes l ++ map_of (f_modes f),
     l_activeMode := (if f_activeMode f \<noteq> [] then f_activeMode f else l_activeMode l),
     l_schemaVersion := f_schemaVersion f,
     l_events := l_events l @ f_events f,
     l_eventsDisabled := l_eventsDisabled l \<union> set (f_eventDisabled f),
     l_eventDefault := (case f_eventDefault f of None \<Rightarrow> l_eventDefault l | Some d \<Rightarrow> Some d)\<rparr>"

definition layerStep ::
  "rules_vocabulary option \<Rightarrow> string set \<Rightarrow> rules_file
     \<Rightarrow> layer_result \<times> (string \<rightharpoonup> string) \<times> (string \<rightharpoonup> string)
     \<Rightarrow> (rules_error, layer_result \<times> (string \<rightharpoonup> string) \<times> (string \<rightharpoonup> string)) result" where
  "layerStep vocab events f = (\<lambda>(l, origin, eventOrigin).
     let c = \<lparr>cx_path = f_path f, cx_ruleID = [], cx_label = []\<rparr> in
     rbind (applyVocabulary f vocab events) (\<lambda>_.
     rbind (registerIDs (cx_rule c) (f_path f) (ids (f_ordered f) @ f_disabled f) origin) (\<lambda>origin'.
     rbind (registerIDs (cx_event c) (f_path f) (eventIDs (f_events f) @ f_eventDisabled f) eventOrigin)
       (\<lambda>eventOrigin'.
     Inr (addFile f l, origin', eventOrigin')))))"

definition buildLayer ::
  "rules_file list \<Rightarrow> rules_vocabulary option \<Rightarrow> string set \<Rightarrow> (rules_error, layer_result option) result" where
  "buildLayer files vocab events =
     (if files = [] then Inr None
      else rbind (foldr_res (layerStep vocab events) files (emptyLayer, Map.empty, Map.empty))
             (\<lambda>(l, _). Inr (Some l)))"

section \<open>Merging\<close>

definition byID :: "('r \<Rightarrow> string) \<Rightarrow> 'r list \<Rightarrow> string \<rightharpoonup> 'r" where
  "byID key xs = foldl (\<lambda>m x. m(key x \<mapsto> x)) Map.empty xs"

text \<open>
  The loop over the entries of both layers, base first; rules and events run the same loop with
  their own key.
\<close>

fun mergeLoop ::
  "('r \<Rightarrow> string) \<Rightarrow> (string \<rightharpoonup> 'r) \<Rightarrow> string set \<Rightarrow> string set \<Rightarrow> 'r list \<Rightarrow> 'r list" where
  "mergeLoop key over disabled seen [] = []"
| "mergeLoop key over disabled seen (x # xs) =
     (if key x \<in> seen then mergeLoop key over disabled seen xs
      else let seen' = insert (key x) seen;
               winner = (case over (key x) of Some y \<Rightarrow> y | None \<Rightarrow> x)
           in if key winner \<in> disabled \<and> over (key winner) = None
              then mergeLoop key over disabled seen' xs
              else winner # mergeLoop key over disabled seen' xs)"

definition mergeEntries ::
  "('r \<Rightarrow> string) \<Rightarrow> string set \<Rightarrow> 'r list \<Rightarrow> 'r list \<Rightarrow> 'r list" where
  "mergeEntries key disabled base overlay = mergeLoop key (byID key overlay) disabled {} (base @ overlay)"

definition mergeLayers :: "layer_result \<Rightarrow> layer_result \<Rightarrow> layer_result" where
  "mergeLayers base overlay =
     (let disabled = l_disabled base \<union> l_disabled overlay;
          eventsDisabled = l_eventsDisabled base \<union> l_eventsDisabled overlay;
          modes = l_modes base ++ l_modes overlay;
          active0 = (if l_activeMode overlay \<noteq> [] then l_activeMode overlay else l_activeMode base)
      in \<lparr>l_ordered = mergeEntries r_ID disabled (l_ordered base) (l_ordered overlay),
          l_disabled = {i \<in> disabled. byID r_ID (l_ordered overlay) i = None},
          l_modes = modes,
          l_activeMode = (if active0 \<noteq> [] \<and> modes active0 = None then [] else active0),
          l_schemaVersion = (if l_schemaVersion overlay \<noteq> 0 then l_schemaVersion overlay
                             else l_schemaVersion base),
          l_events = mergeEntries event_ID eventsDisabled (l_events base) (l_events overlay),
          l_eventsDisabled = {i \<in> eventsDisabled. byID event_ID (l_events overlay) i = None},
          l_eventDefault = (case l_eventDefault overlay of None \<Rightarrow> l_eventDefault base | Some d \<Rightarrow> Some d)\<rparr>)"

definition layer_config :: "layer_result \<Rightarrow> rules_config" where
  "layer_config l =
     \<lparr>rc_SchemaVersion = l_schemaVersion l, rc_ActiveMode = l_activeMode l, rc_Modes = l_modes l,
      rc_React = filter (\<lambda>r. r_Kind r \<noteq> KindInhibit) (l_ordered l),
      rc_Inhibit = filter (\<lambda>r. r_Kind r = KindInhibit) (l_ordered l),
      rc_Disabled = sorted_list_of_set (l_disabled l),
      rc_Events = l_events l, rc_EventDefault = l_eventDefault l\<rparr>"

definition mergeStep ::
  "rules_vocabulary option \<Rightarrow> string set \<Rightarrow> rules_file list \<Rightarrow> layer_result \<Rightarrow> (rules_error, layer_result) result"
where
  "mergeStep vocab events files merged =
     rbind (buildLayer files vocab events) (\<lambda>l.
       Inr (case l of None \<Rightarrow> merged | Some layer \<Rightarrow> mergeLayers merged layer))"

definition Load ::
  "(string \<rightharpoonup> table) \<Rightarrow> string list list \<Rightarrow> rules_vocabulary option \<Rightarrow> (rules_error, rules_config) result" where
  "Load decode layers vocab =
     rbind (map_res (map_res (parseFile decode)) layers) (\<lambda>parsed.
     rbind (foldr_res (mergeStep vocab (eventFieldSet parsed)) parsed emptyLayer) (\<lambda>merged.
     Inr (layer_config merged)))"

definition LoadFile ::
  "(string \<rightharpoonup> table) \<Rightarrow> string \<Rightarrow> rules_vocabulary option \<Rightarrow> (rules_error, rules_config) result" where
  "LoadFile decode path vocab = Load decode [[path]] vocab"

section \<open>One overlay, as a map\<close>

text \<open>
  What a layer says of an id: nothing, a live entry (\<open>Some (Some x)\<close>) or a tombstone
  (\<open>Some None\<close>). Overlaying is then adding maps.
\<close>

definition says :: "('r \<Rightarrow> string) \<Rightarrow> 'r list \<Rightarrow> string set \<Rightarrow> string \<rightharpoonup> 'r option" where
  "says key xs dis i = (case map_of (map (\<lambda>x. (key x, x)) xs) i of
     Some x \<Rightarrow> Some (Some x) | None \<Rightarrow> if i \<in> dis then Some None else None)"

text \<open>Entries under distinct keys, none of them also a tombstone.\<close>

definition entries_ok :: "('r \<Rightarrow> string) \<Rightarrow> 'r list \<Rightarrow> string set \<Rightarrow> bool" where
  "entries_ok key xs dis \<longleftrightarrow> distinct (map key xs) \<and> key ` set xs \<inter> dis = {}"

lemma byID_map: "distinct (map key xs) \<Longrightarrow> byID key xs = map_of (map (\<lambda>x. (key x, x)) xs)"
  unfolding byID_def by (rule foldl_updates_distinct)

lemma map_of_key:
  "distinct (map key xs) \<Longrightarrow> map_of (map (\<lambda>x. (key x, x)) xs) i = Some x \<longleftrightarrow> x \<in> set xs \<and> key x = i"
  by (induction xs) (auto simp: image_iff)

lemma map_of_key_None: "map_of (map (\<lambda>x. (key x, x)) xs) i = None \<longleftrightarrow> i \<notin> key ` set xs"
  by (simp add: map_of_eq_None_iff image_image)

lemma says_live: "distinct (map key xs) \<Longrightarrow> says key xs dis i = Some (Some x) \<longleftrightarrow> x \<in> set xs \<and> key x = i"
  using map_of_key[of key xs i x] by (auto simp: says_def split: option.splits)

lemma says_dead: "entries_ok key xs dis \<Longrightarrow> says key xs dis i = Some None \<longleftrightarrow> i \<in> dis"
  using map_of_key[of key xs i] by (auto simp: says_def entries_ok_def split: option.splits)

text \<open>The loop over a list with distinct keys, whatever follows it.\<close>

definition winner :: "('r \<Rightarrow> string) \<Rightarrow> (string \<rightharpoonup> 'r) \<Rightarrow> 'r \<Rightarrow> 'r" where
  "winner key over x = (case over (key x) of Some y \<Rightarrow> y | None \<Rightarrow> x)"

lemma mergeLoop_append:
  assumes "\<And>k y. over k = Some y \<Longrightarrow> key y = k" "distinct (map key xs)"
  shows "mergeLoop key over dis seen (xs @ ys) =
     map (winner key over) (filter (\<lambda>x. key x \<notin> seen \<and> (key x \<in> dis \<longrightarrow> over (key x) \<noteq> None)) xs)
     @ mergeLoop key over dis (seen \<union> key ` set xs) ys"
  using assms(2)
proof (induction xs arbitrary: seen)
  case (Cons x xs)
  let ?P = "\<lambda>s x. key x \<notin> s \<and> (key x \<in> dis \<longrightarrow> over (key x) \<noteq> None)"
  have k: "key (winner key over x) = key x"
    using assms(1) by (auto simp: winner_def split: option.splits)
  have nin: "\<forall>y \<in> set xs. key y \<noteq> key x" using Cons.prems by (auto simp: image_iff)
  have f: "filter (?P (insert (key x) seen)) xs = filter (?P seen) xs"
    by (rule filter_cong) (use nin in auto)
  have un: "insert (key x) seen \<union> key ` set xs = seen \<union> insert (key x) (key ` set xs)" by auto
  show ?case
  proof (cases "key x \<in> seen")
    case True
    then have "seen \<union> insert (key x) (key ` set xs) = seen \<union> key ` set xs" by auto
    then show ?thesis using True Cons by simp
  next
    case False
    have IH: "mergeLoop key over dis (insert (key x) seen) (xs @ ys) =
        map (winner key over) (filter (?P seen) xs)
        @ mergeLoop key over dis (seen \<union> insert (key x) (key ` set xs)) ys"
      using Cons.IH[of "insert (key x) seen"] Cons.prems unfolding f un by simp
    show ?thesis using False IH k unfolding winner_def[symmetric]
      by (auto simp: Let_def winner_def[symmetric])
  qed
qed simp

lemma mergeEntries_alt:
  assumes "distinct (map key base)" "distinct (map key overlay)"
  shows "mergeEntries key dis base overlay =
     map (winner key (byID key overlay))
       (filter (\<lambda>x. key x \<in> dis \<longrightarrow> byID key overlay (key x) \<noteq> None) base)
     @ filter (\<lambda>x. key x \<notin> key ` set base) overlay"
proof -
  let ?over = "byID key overlay"
  have over: "?over k = Some y \<longleftrightarrow> y \<in> set overlay \<and> key y = k" for k y
    using map_of_key[OF assms(2)] byID_map[OF assms(2)] by simp
  have "mergeLoop key ?over dis (key ` set base) (overlay @ []) = map (winner key ?over)
      (filter (\<lambda>x. key x \<notin> key ` set base \<and> (key x \<in> dis \<longrightarrow> ?over (key x) \<noteq> None)) overlay)"
    using over by (subst mergeLoop_append) (auto simp: assms(2))
  also have "\<dots> = filter (\<lambda>x. key x \<notin> key ` set base) overlay"
  proof -
    have "?over (key x) = Some x" if "x \<in> set overlay" for x using over that by simp
    then have f: "filter (\<lambda>x. key x \<notin> key ` set base \<and> (key x \<in> dis \<longrightarrow> ?over (key x) \<noteq> None)) overlay
        = filter (\<lambda>x. key x \<notin> key ` set base) overlay"
      and w: "\<And>x. x \<in> set overlay \<Longrightarrow> winner key ?over x = x"
      by (auto simp: winner_def intro: filter_cong)
    show ?thesis unfolding f by (rule map_idI) (use w in auto)
  qed
  finally show ?thesis unfolding mergeEntries_def using over assms(1) by (subst mergeLoop_append) auto
qed

text \<open>The entries of the merge, as a set.\<close>

lemma byID_Some:
  "distinct (map key xs) \<Longrightarrow> byID key xs k = Some y \<longleftrightarrow> y \<in> set xs \<and> key y = k"
  by (simp add: byID_map map_of_key)

lemma byID_None: "distinct (map key xs) \<Longrightarrow> byID key xs k = None \<longleftrightarrow> k \<notin> key ` set xs"
  by (simp add: byID_map map_of_key_None)

lemma key_winner: "distinct (map key xs) \<Longrightarrow> key (winner key (byID key xs) x) = key x"
  by (auto simp: winner_def byID_Some split: option.splits)

lemma mergeEntries_mem:
  assumes "distinct (map key base)" "distinct (map key overlay)"
  shows "x \<in> set (mergeEntries key dis base overlay) \<longleftrightarrow>
     x \<in> set overlay \<or> (x \<in> set base \<and> key x \<notin> key ` set overlay \<and> key x \<notin> dis)"
    (is "x \<in> set ?merged \<longleftrightarrow> ?R")
proof -
  let ?over = "byID key overlay"
  note m = mergeEntries_alt[OF assms, of dis]
  note over = byID_Some[OF assms(2)] and none = byID_None[OF assms(2)]
  show ?thesis
  proof
    assume "x \<in> set ?merged"
    then consider "x \<in> set overlay"
      | (base) b where "b \<in> set base" "key b \<in> dis \<longrightarrow> ?over (key b) \<noteq> None" "x = winner key ?over b"
      unfolding m by auto
    then show ?R
    proof cases
      case base
      then show ?thesis using over none by (cases "?over (key b)") (auto simp: winner_def)
    qed simp
  next
    have in_base: "winner key ?over y \<in> set ?merged"
      if "y \<in> set base" "key y \<in> dis \<longrightarrow> ?over (key y) \<noteq> None" for y
      using that by (simp add: m)
    assume R: ?R
    show "x \<in> set ?merged"
    proof (cases "x \<in> set overlay")
      case True
      then have ox: "?over (key x) = Some x" using over by simp
      show ?thesis
      proof (cases "key x \<in> key ` set base")
        case True
        then obtain y where y: "y \<in> set base" "key y = key x" by (metis imageE)
        then show ?thesis using in_base[of y] ox by (simp add: winner_def)
      next
        case False
        then show ?thesis using \<open>x \<in> set overlay\<close> by (simp add: m)
      qed
    next
      case False
      then show ?thesis using R in_base[of x] none[of "key x"] by (simp add: winner_def)
    qed
  qed
qed

lemma mergeEntries_distinct:
  assumes "distinct (map key base)" "distinct (map key overlay)"
  shows "distinct (map key (mergeEntries key dis base overlay))"
proof -
  have "map key (mergeEntries key dis base overlay) =
      map key (filter (\<lambda>x. key x \<in> dis \<longrightarrow> byID key overlay (key x) \<noteq> None) base)
      @ map key (filter (\<lambda>x. key x \<notin> key ` set base) overlay)"
    by (simp add: mergeEntries_alt[OF assms] key_winner[OF assms(2)] comp_def)
  then show ?thesis using assms by (auto simp: distinct_map_filter dest: sym)
qed

text \<open>Merging refines the addition of maps.\<close>

lemma says_None: "says key xs dis i = None \<longleftrightarrow> i \<notin> key ` set xs \<and> i \<notin> dis"
  using map_of_key_None[of key xs i] by (auto simp: says_def split: option.splits)

lemma says_eqI:
  assumes "entries_ok key xs d"
    and "\<And>x. x \<in> set xs \<Longrightarrow> m (key x) = Some (Some x)"
    and "\<And>i. i \<in> d \<Longrightarrow> m i = Some None"
    and "\<And>i. i \<notin> key ` set xs \<Longrightarrow> i \<notin> d \<Longrightarrow> m i = None"
  shows "says key xs d = m"
proof
  fix i
  have dx: "distinct (map key xs)" using assms(1) by (simp add: entries_ok_def)
  consider x where "x \<in> set xs" "i = key x" | "i \<in> d" | "i \<notin> key ` set xs" "i \<notin> d" by auto
  then show "says key xs d i = m i"
  proof cases
    case 1
    then show ?thesis using says_live[OF dx, of d i x] assms(2) by simp
  next
    case 2
    then show ?thesis using says_dead[OF assms(1), of i] assms(3) by simp
  next
    case 3
    then show ?thesis using assms(4) says_None by metis
  qed
qed

lemma mergeEntries_says:
  assumes "entries_ok key base bd" "entries_ok key overlay od"
  defines "merged \<equiv> mergeEntries key (bd \<union> od) base overlay"
  defines "remaining \<equiv> {i \<in> bd \<union> od. byID key overlay i = None}"
  shows "entries_ok key merged remaining"
    "says key merged remaining = says key base bd ++ says key overlay od"
proof -
  have db: "distinct (map key base)" "distinct (map key overlay)"
    using assms(1,2) by (simp_all add: entries_ok_def)
  note mem = mergeEntries_mem[OF db, of _ "bd \<union> od", folded merged_def]
  have rem: "i \<in> remaining \<longleftrightarrow> i \<in> bd \<union> od \<and> i \<notin> key ` set overlay" for i
    using byID_None[OF db(2), of i] by (auto simp: remaining_def)
  show ok: "entries_ok key merged remaining"
    unfolding entries_ok_def using mergeEntries_distinct[OF db] mem rem by (auto simp: merged_def)
  note live = says_live[OF db(1)] says_live[OF db(2)]
  show "says key merged remaining = says key base bd ++ says key overlay od"
  proof (rule says_eqI[OF ok])
    fix x assume "x \<in> set merged"
    then consider "x \<in> set overlay"
      | (base) "x \<in> set base" "key x \<notin> key ` set overlay" "key x \<notin> bd \<union> od" using mem by auto
    then show "(says key base bd ++ says key overlay od) (key x) = Some (Some x)"
    proof cases
      case base
      then have "says key overlay od (key x) = None" using says_None[of key overlay od] by simp
      then show ?thesis using base(1) by (simp add: map_add_def live)
    qed (simp add: map_add_Some_iff live)
  next
    fix i assume "i \<in> remaining"
    then have i: "i \<in> bd \<union> od" "i \<notin> key ` set overlay" using rem by auto
    then show "(says key base bd ++ says key overlay od) i = Some None"
      using says_dead[OF assms(1), of i] says_dead[OF assms(2), of i] says_None[of key overlay od i]
      by (cases "i \<in> od") (auto simp: map_add_def)
  next
    fix i assume i: "i \<notin> key ` set merged" "i \<notin> remaining"
    then have "i \<notin> key ` set overlay" using mem by auto
    moreover from this i(2) have "i \<notin> bd \<union> od" using rem by auto
    moreover from calculation i(1) have "i \<notin> key ` set base" using mem by auto
    ultimately show "(says key base bd ++ says key overlay od) i = None"
      by (simp add: map_add_def says_None[THEN iffD2])
  qed
qed

section \<open>A stack of layers, as a map\<close>

lemma registerIDs_Inr:
  "registerIDs mk path is origin = Inr m \<longleftrightarrow>
     distinct is \<and> (\<forall>i \<in> set is. origin i = None)
     \<and> m = (\<lambda>i. if i \<in> set is then Some path else origin i)"
proof (induction "is" arbitrary: origin)
  case (Cons i "is")
  then show ?case by (auto simp: fun_eq_iff split: option.splits)
qed auto

text \<open>What one file says, and what a list of files says: the last one that mentions an id.\<close>

definition file_rules :: "rules_file \<Rightarrow> string \<rightharpoonup> rule option" where
  "file_rules f = says r_ID (f_ordered f) (set (f_disabled f))"

definition file_events :: "rules_file \<Rightarrow> string \<rightharpoonup> event option" where
  "file_events f = says event_ID (f_events f) (set (f_eventDisabled f))"

definition last_word :: "('f \<Rightarrow> string \<rightharpoonup> 'v) \<Rightarrow> 'f list \<Rightarrow> string \<rightharpoonup> 'v" where
  "last_word view fs = foldl (\<lambda>m f. m ++ view f) Map.empty fs"

lemma last_word_Nil [simp]: "last_word view [] = Map.empty"
  by (simp add: last_word_def)

lemma last_word_append: "last_word view (fs @ gs) = last_word view fs ++ last_word view gs"
proof -
  have "foldl (\<lambda>m f. m ++ view f) m gs = m ++ last_word view gs" for m
    unfolding last_word_def
  proof (induction gs rule: rev_induct)
    case (snoc g gs)
    show ?case by (simp only: foldl_append foldl.simps snoc map_add_assoc)
  qed simp
  from this[of "last_word view fs"] show ?thesis unfolding last_word_def[of _ fs] last_word_def[of _ "fs @ gs"]
    by (simp only: foldl_append)
qed

lemma last_word_single [simp]: "last_word view [f] = view f"
  by (simp add: last_word_def)

text \<open>Adding the entries of a file that repeats no id of the layer.\<close>

lemma entries_ok_add:
  assumes "entries_ok key xs d" "distinct (map key ys @ es)"
    and "\<forall>i \<in> set (map key ys @ es). i \<notin> key ` set xs \<union> d"
  shows "entries_ok key (xs @ ys) (d \<union> set es)"
    "says key (xs @ ys) (d \<union> set es) = says key xs d ++ says key ys (set es)"
proof -
  show ok: "entries_ok key (xs @ ys) (d \<union> set es)"
    using assms by (auto simp: entries_ok_def)
  have ok2: "entries_ok key ys (set es)" using assms(2) by (auto simp: entries_ok_def)
  have dx: "distinct (map key xs)" "distinct (map key ys)"
    using assms(1) ok2 by (simp_all add: entries_ok_def)
  show "says key (xs @ ys) (d \<union> set es) = says key xs d ++ says key ys (set es)"
  proof (rule says_eqI[OF ok])
    fix x assume "x \<in> set (xs @ ys)"
    then consider "x \<in> set ys" | "x \<in> set xs" "key x \<notin> key ` set ys" "key x \<notin> set es"
      using assms(3) by auto
    then show "(says key xs d ++ says key ys (set es)) (key x) = Some (Some x)"
    proof cases
      case 1
      then show ?thesis using says_live[OF dx(2), of "set es" "key x" x] by (simp add: map_add_def)
    next
      case 2
      then show ?thesis using says_live[OF dx(1), of d "key x" x] says_None[of key ys "set es" "key x"]
        by (simp add: map_add_def)
    qed
  next
    fix i assume "i \<in> d \<union> set es"
    then consider "i \<in> set es" | "i \<in> d" "i \<notin> key ` set ys" "i \<notin> set es" using assms(3) by auto
    then show "(says key xs d ++ says key ys (set es)) i = Some None"
    proof cases
      case 1
      then show ?thesis using says_dead[OF ok2, of i] by (simp add: map_add_def)
    next
      case 2
      then show ?thesis using says_dead[OF assms(1), of i] says_None[of key ys "set es" i]
        by (simp add: map_add_def)
    qed
  next
    fix i assume "i \<notin> key ` set (xs @ ys)" "i \<notin> d \<union> set es"
    then show "(says key xs d ++ says key ys (set es)) i = None"
      using says_None[of key xs d i] says_None[of key ys "set es" i] by (auto simp: map_add_def)
  qed
qed

definition layer_rules :: "layer_result \<Rightarrow> string \<rightharpoonup> rule option" where
  "layer_rules l = says r_ID (l_ordered l) (l_disabled l)"

definition layer_events :: "layer_result \<Rightarrow> string \<rightharpoonup> event option" where
  "layer_events l = says event_ID (l_events l) (l_eventsDisabled l)"

lemmas view_defs = layer_rules_def layer_events_def file_rules_def file_events_def

definition layer_wf :: "layer_result \<Rightarrow> bool" where
  "layer_wf l \<longleftrightarrow> entries_ok r_ID (l_ordered l) (l_disabled l)
     \<and> entries_ok event_ID (l_events l) (l_eventsDisabled l)
     \<and> (l_activeMode l = [] \<or> l_modes l (l_activeMode l) \<noteq> None)
     \<and> finite (l_disabled l)"

lemma emptyLayer_wf: "layer_wf emptyLayer" "layer_rules emptyLayer = Map.empty"
  "layer_events emptyLayer = Map.empty"
  by (auto simp: layer_wf_def emptyLayer_def entries_ok_def view_defs says_def)

lemma layerStep_spec:
  assumes "layerStep vocab ev f (l, o1, o2) = Inr (l', o1', o2')"
    and "layer_wf l" "dom o1 = r_ID ` set (l_ordered l) \<union> l_disabled l"
    and "dom o2 = event_ID ` set (l_events l) \<union> l_eventsDisabled l"
    and "f_activeMode f = [] \<or> map_of (f_modes f) (f_activeMode f) \<noteq> None"
  shows "layer_wf l'" "dom o1' = r_ID ` set (l_ordered l') \<union> l_disabled l'"
    "dom o2' = event_ID ` set (l_events l') \<union> l_eventsDisabled l'"
    "layer_rules l' = layer_rules l ++ file_rules f" "layer_events l' = layer_events l ++ file_events f"
    "applyVocabulary f vocab ev = Inr ()" "l' = addFile f l"
proof -
  have l': "l' = addFile f l" and voc: "applyVocabulary f vocab ev = Inr ()"
    and r1: "distinct (map r_ID (f_ordered f) @ f_disabled f)"
      "\<forall>i \<in> set (map r_ID (f_ordered f) @ f_disabled f). o1 i = None"
    and o1': "o1' = (\<lambda>i. if i \<in> set (map r_ID (f_ordered f) @ f_disabled f) then Some (f_path f) else o1 i)"
    and r2: "distinct (map event_ID (f_events f) @ f_eventDisabled f)"
      "\<forall>i \<in> set (map event_ID (f_events f) @ f_eventDisabled f). o2 i = None"
    and o2': "o2' = (\<lambda>i. if i \<in> set (map event_ID (f_events f) @ f_eventDisabled f) then Some (f_path f) else o2 i)"
    using assms(1) by (auto simp: layerStep_def Let_def registerIDs_Inr ids_def eventIDs_def)
  have n1: "\<forall>i \<in> set (map r_ID (f_ordered f) @ f_disabled f). i \<notin> r_ID ` set (l_ordered l) \<union> l_disabled l"
    using r1(2) assms(3) by (metis domIff)
  have n2: "\<forall>i \<in> set (map event_ID (f_events f) @ f_eventDisabled f).
      i \<notin> event_ID ` set (l_events l) \<union> l_eventsDisabled l"
    using r2(2) assms(4) by (metis domIff)
  note e1 = entries_ok_add[OF _ r1(1) n1] and e2 = entries_ok_add[OF _ r2(1) n2]
  show "layer_wf l'" using assms(2,5) e1(1) e2(1)
    by (auto simp: layer_wf_def l' addFile_def map_add_def split: option.splits)
  show "layer_rules l' = layer_rules l ++ file_rules f" "layer_events l' = layer_events l ++ file_events f"
    using assms(2) e1(2) e2(2) by (simp_all add: layer_wf_def l' addFile_def view_defs)
  show "dom o1' = r_ID ` set (l_ordered l') \<union> l_disabled l'"
    using assms(3) unfolding o1' by (auto simp: l' addFile_def dom_def)
  show "dom o2' = event_ID ` set (l_events l') \<union> l_eventsDisabled l'"
    using assms(4) unfolding o2' by (auto simp: l' addFile_def dom_def)
  show "applyVocabulary f vocab ev = Inr ()" "l' = addFile f l" using voc l' by auto
qed

definition file_ok :: "rules_vocabulary option \<Rightarrow> string set \<Rightarrow> rules_file \<Rightarrow> bool" where
  "file_ok vocab ev f \<longleftrightarrow> applyVocabulary f vocab ev = Inr ()"

definition mode_ok :: "rules_file \<Rightarrow> bool" where
  "mode_ok f \<longleftrightarrow> f_activeMode f = [] \<or> map_of (f_modes f) (f_activeMode f) \<noteq> None"

lemma layers_fold:
  assumes "foldr_res (layerStep vocab ev) fs (l, o1, o2) = Inr (l', o1', o2')"
    and "layer_wf l" "dom o1 = r_ID ` set (l_ordered l) \<union> l_disabled l"
    and "dom o2 = event_ID ` set (l_events l) \<union> l_eventsDisabled l" "\<forall>f \<in> set fs. mode_ok f"
  shows "layer_wf l' \<and> layer_rules l' = layer_rules l ++ last_word file_rules fs
     \<and> layer_events l' = layer_events l ++ last_word file_events fs
     \<and> (\<forall>f \<in> set fs. file_ok vocab ev f)"
  using assms
proof (induction fs arbitrary: l o1 o2)
  case (Cons f fs)
  from Cons.prems(1) obtain l1 p1 p2 where
    s: "layerStep vocab ev f (l, o1, o2) = Inr (l1, p1, p2)"
    and rest: "foldr_res (layerStep vocab ev) fs (l1, p1, p2) = Inr (l', o1', o2')" by auto
  have m: "f_activeMode f = [] \<or> map_of (f_modes f) (f_activeMode f) \<noteq> None"
    using Cons.prems(5) by (simp add: mode_ok_def)
  note one = layerStep_spec[OF s Cons.prems(2-4) m]
  have IH: "layer_wf l' \<and> layer_rules l' = layer_rules l1 ++ last_word file_rules fs
     \<and> layer_events l' = layer_events l1 ++ last_word file_events fs \<and> (\<forall>f \<in> set fs. file_ok vocab ev f)"
    by (rule Cons.IH[OF rest one(1-3)]) (use Cons.prems(5) in simp)
  then show ?case
    using one last_word_append[of file_rules "[f]" fs] last_word_append[of file_events "[f]" fs]
    by (simp add: file_ok_def)
qed simp

lemma buildLayer_spec:
  assumes "buildLayer fs vocab ev = Inr ol" "\<forall>f \<in> set fs. mode_ok f"
  shows "(\<forall>f \<in> set fs. file_ok vocab ev f)
     \<and> (case ol of None \<Rightarrow> fs = []
        | Some l \<Rightarrow> layer_wf l \<and> layer_rules l = last_word file_rules fs \<and> layer_events l = last_word file_events fs)"
proof (cases "fs = []")
  case False
  then obtain l o1 o2 where ol: "ol = Some l"
    and f: "foldr_res (layerStep vocab ev) fs (emptyLayer, Map.empty, Map.empty) = Inr (l, o1, o2)"
    using assms(1) by (auto simp: buildLayer_def)
  show ?thesis using layers_fold[OF f emptyLayer_wf(1) _ _ assms(2)] False
    by (simp add: ol emptyLayer_wf) (simp add: emptyLayer_def)
qed (use assms in \<open>simp add: buildLayer_def\<close>)

lemma mergeLayers_spec:
  assumes "layer_wf base" "layer_wf overlay"
  shows "layer_wf (mergeLayers base overlay)"
    "layer_rules (mergeLayers base overlay) = layer_rules base ++ layer_rules overlay"
    "layer_events (mergeLayers base overlay) = layer_events base ++ layer_events overlay"
proof -
  note r = mergeEntries_says[of r_ID "l_ordered base" "l_disabled base" "l_ordered overlay" "l_disabled overlay"]
  note e = mergeEntries_says[of event_ID "l_events base" "l_eventsDisabled base" "l_events overlay"
      "l_eventsDisabled overlay"]
  show "layer_wf (mergeLayers base overlay)" using assms r(1) e(1)
    by (auto simp: layer_wf_def mergeLayers_def Let_def)
  show "layer_rules (mergeLayers base overlay) = layer_rules base ++ layer_rules overlay"
    "layer_events (mergeLayers base overlay) = layer_events base ++ layer_events overlay"
    using assms r(2) e(2) by (simp_all add: layer_wf_def mergeLayers_def Let_def view_defs)
qed

lemma mergeStep_spec:
  assumes "mergeStep vocab ev fs m = Inr m'" "layer_wf m" "\<forall>f \<in> set fs. mode_ok f"
  shows "layer_wf m' \<and> layer_rules m' = layer_rules m ++ last_word file_rules fs
     \<and> layer_events m' = layer_events m ++ last_word file_events fs \<and> (\<forall>f \<in> set fs. file_ok vocab ev f)"
proof -
  obtain ol where b: "buildLayer fs vocab ev = Inr ol"
    and m': "m' = (case ol of None \<Rightarrow> m | Some l \<Rightarrow> mergeLayers m l)"
    using assms(1) by (auto simp: mergeStep_def)
  show ?thesis using buildLayer_spec[OF b assms(3)] mergeLayers_spec[OF assms(2)] assms(2)
    by (cases ol) (auto simp: m')
qed

lemma merge_fold:
  assumes "foldr_res (mergeStep vocab ev) parsed m = Inr m'" "layer_wf m"
    and "\<forall>f \<in> set (concat parsed). mode_ok f"
  shows "layer_wf m' \<and> layer_rules m' = layer_rules m ++ last_word file_rules (concat parsed)
     \<and> layer_events m' = layer_events m ++ last_word file_events (concat parsed)
     \<and> (\<forall>f \<in> set (concat parsed). file_ok vocab ev f)"
  using assms
proof (induction parsed arbitrary: m)
  case (Cons fs parsed)
  from Cons.prems(1) obtain m1 where s: "mergeStep vocab ev fs m = Inr m1"
    and rest: "foldr_res (mergeStep vocab ev) parsed m1 = Inr m'" by auto
  have one: "layer_wf m1 \<and> layer_rules m1 = layer_rules m ++ last_word file_rules fs
     \<and> layer_events m1 = layer_events m ++ last_word file_events fs \<and> (\<forall>f \<in> set fs. file_ok vocab ev f)"
    by (rule mergeStep_spec[OF s Cons.prems(2)]) (use Cons.prems(3) in simp)
  have IH: "layer_wf m' \<and> layer_rules m' = layer_rules m1 ++ last_word file_rules (concat parsed)
     \<and> layer_events m' = layer_events m1 ++ last_word file_events (concat parsed)
     \<and> (\<forall>f \<in> set (concat parsed). file_ok vocab ev f)"
    by (rule Cons.IH[OF rest]) (use one Cons.prems(3) in auto)
  show ?case using one IH by (auto simp: last_word_append)
qed simp

text \<open>What \<open>Load\<close> returns, in terms of the files it read.\<close>

lemma Load_cases:
  assumes "Load decode layers vocab = Inr cfg"
  obtains parsed l where "map_res (map_res (parseFile decode)) layers = Inr parsed"
    "foldr_res (mergeStep vocab (eventFieldSet parsed)) parsed emptyLayer = Inr l" "cfg = layer_config l"
  using assms by (auto simp: Load_def)

lemma parsed_files:
  assumes "map_res (map_res (parseFile decode)) layers = Inr parsed" "f \<in> set (concat parsed)"
  shows "\<exists>path data. decode path = Some data \<and> validate path data = Inr f"
proof -
  from assms(2) obtain fs where fs: "fs \<in> set parsed" "f \<in> set fs" by auto
  then obtain ps where "map_res (parseFile decode) ps = Inr fs"
    using map_res_mem[OF assms(1)] by blast
  from map_res_mem[OF this fs(2)] obtain path where "parseFile decode path = Inr f" by blast
  then show ?thesis by (auto simp: parseFile_def split: option.splits)
qed

lemma config_rules_set: "set (config_rules (layer_config l)) = set (l_ordered l)"
  by (auto simp: config_rules_def layer_config_def)

lemma config_rules_distinct:
  "distinct (map r_ID (l_ordered l)) \<Longrightarrow> distinct (map r_ID (config_rules (layer_config l)))"
  by (auto simp: config_rules_def layer_config_def distinct_map_filter dest: distinct_map_inj)

end
