(* ===== verification/Rules_Properties.thy ===== *)
theory Rules_Properties
  imports Rules_Wf Rules_Load Toy_Robot
begin

text \<open>
  What the rules package promises: the documents it accepts, the strictness of its refusals, and
  what a stack of layers means. The witnesses load the two-layer stack \<open>toy_decode\<close>.
\<close>

section \<open>Helper lemmas\<close>

lemma file_mode_ok: "file_wf path f \<Longrightarrow> mode_ok f"
  by (auto simp: file_wf_def mode_ok_def set_keys split: if_splits)

definition decoded_ok :: "(string \<rightharpoonup> table) \<Rightarrow> bool" where
  "decoded_ok decode \<longleftrightarrow> (\<forall>path data. decode path = Some data \<longrightarrow> any_ok (AMap data))"

lemma parsed_wf:
  assumes "map_res (map_res (parseFile decode)) layers = Inr parsed" "decoded_ok decode" "f \<in> set (concat parsed)"
  shows "file_wf (f_path f) f"
proof -
  obtain path data where d: "decode path = Some data" and v: "validate path data = Inr f"
    using parsed_files[OF assms(1,3)] by blast
  have "file_wf path f" by (rule validate_wf[OF v]) (use assms(2) d in \<open>auto simp: decoded_ok_def\<close>)
  then show ?thesis by (simp add: file_wf_def)
qed

lemma Load_spec:
  assumes "Load decode layers vocab = Inr cfg" "decoded_ok decode"
  obtains parsed l where "map_res (map_res (parseFile decode)) layers = Inr parsed" "cfg = layer_config l"
    "layer_wf l" "layer_rules l = last_word file_rules (concat parsed)"
    "layer_events l = last_word file_events (concat parsed)"
    "\<forall>f \<in> set (concat parsed). file_wf (f_path f) f \<and> file_ok vocab (eventFieldSet parsed) f"
proof -
  obtain parsed l where p: "map_res (map_res (parseFile decode)) layers = Inr parsed"
    and m: "foldr_res (mergeStep vocab (eventFieldSet parsed)) parsed emptyLayer = Inr l"
    and c: "cfg = layer_config l"
    by (rule Load_cases[OF assms(1)])
  have wf: "\<forall>f \<in> set (concat parsed). file_wf (f_path f) f" using parsed_wf[OF p assms(2)] by blast
  have mo: "\<forall>f \<in> set (concat parsed). mode_ok f" using wf file_mode_ok by blast
  show ?thesis
    by (rule that[OF p c]) (use merge_fold[OF m emptyLayer_wf(1) mo] wf in \<open>auto simp: emptyLayer_wf\<close>)
qed

lemma last_word_Some: "last_word view fs i = Some v \<Longrightarrow> \<exists>f \<in> set fs. view f i = Some v"
  by (induction fs rule: rev_induct) (auto simp: last_word_append map_add_def split: option.splits)

text \<open>Every loaded rule was read from one of the files, and every loaded event.\<close>

lemma loaded_rule_file:
  assumes "layer_wf l" "layer_rules l = last_word file_rules fs" "r \<in> set (l_ordered l)"
    and "\<forall>f \<in> set fs. file_wf (f_path f) f"
  shows "\<exists>f \<in> set fs. r \<in> set (f_ordered f)"
proof -
  have "layer_rules l (r_ID r) = Some (Some r)"
    using assms(1,3) says_live[of r_ID "l_ordered l" "l_disabled l" "r_ID r" r]
    by (auto simp: layer_wf_def entries_ok_def layer_rules_def)
  then obtain f where f: "f \<in> set fs" "file_rules f (r_ID r) = Some (Some r)"
    using assms(2) last_word_Some by metis
  have "distinct (map r_ID (f_ordered f))" using assms(4) f(1) by (auto simp: file_wf_def ids_def)
  then show ?thesis using f says_live[of r_ID "f_ordered f" _ "r_ID r" r] by (auto simp: file_rules_def)
qed

text \<open>The names a rule may use under a vocabulary.\<close>

fun names_ok :: "rules_vocabulary \<Rightarrow> string set \<Rightarrow> predicate \<Rightarrow> bool" where
  "names_ok voc events (Pred f op v alls anys) \<longleftrightarrow>
     (if alls = [] \<and> anys = [] then rv_HasField voc f \<or> (f \<in> events \<and> op \<in> set eventFieldOps)
      else (\<forall>p \<in> set alls. names_ok voc events p) \<and> (\<forall>p \<in> set anys. names_ok voc events p))"

lemma checkPredicateNames_Inr: "checkPredicateNames c p voc events = Inr () \<longleftrightarrow> names_ok voc events p"
  by (induction p) auto

definition rule_names_ok :: "rules_vocabulary \<Rightarrow> string set \<Rightarrow> rule \<Rightarrow> bool" where
  "rule_names_ok voc events r \<longleftrightarrow> names_ok voc events (r_When r)
     \<and> (r_Kind r = KindReact \<longrightarrow> rv_HasAction voc (r_Run r)
          \<and> (rv_ActionLoops voc (r_Run r) \<longrightarrow> r_DurationS r \<noteq> None)
          \<and> (\<forall>(k, x) \<in> set (r_Params r). \<exists>lo hi. rv_ActionParam voc (r_Run r) k = Some (lo, hi)
               \<and> \<not> flt x lo \<and> \<not> flt hi x))
     \<and> (\<forall>n \<in> set (r_Disable r). rv_HasAction voc n)"

lemma checkRuleParam_Inr:
  assumes "distinct (keys (r_Params r))" "(k, x) \<in> set (r_Params r)"
  shows "checkRuleParam c voc r k = Inr () \<longleftrightarrow>
     (\<exists>lo hi. rv_ActionParam voc (r_Run r) k = Some (lo, hi) \<and> \<not> flt x lo \<and> \<not> flt hi x)"
  using assms by (auto simp: checkRuleParam_def keys_def split: option.splits)

lemma checkRuleNames_Inr:
  assumes "distinct (keys (r_Params r))"
  shows "checkRuleNames c voc events r = Inr () \<longleftrightarrow> rule_names_ok voc events r"
proof -
  have "(\<forall>k \<in> set (sortedMapKeys (r_Params r)). checkRuleParam rc voc r k = Inr ()) \<longleftrightarrow>
      (\<forall>(k, x) \<in> set (r_Params r). \<exists>lo hi. rv_ActionParam voc (r_Run r) k = Some (lo, hi)
               \<and> \<not> flt x lo \<and> \<not> flt hi x)" for rc
    using checkRuleParam_Inr[OF assms, of _ _ rc voc] by (fastforce simp: sortedMapKeys_def keys_def)
  then show ?thesis
    by (auto simp: checkRuleNames_def rule_names_ok_def checkPredicateNames_Inr Let_def)
qed

lemma rule_wf_params: "rule_wf v r \<Longrightarrow> distinct (keys (r_Params r))"
  by (auto simp: rule_wf_def params_wf_def)

section \<open>A concrete stack\<close>

text \<open>Two rules of \<open>tests/toy_robot/rules.toml\<close> and an event entry.\<close>

definition bump_retreat :: rule where
  "bump_retreat = \<lparr>r_ID = ''bump-retreat'', r_Kind = KindReact,
     r_When = Pred [] [] ANil [Pred ''bumper'' ''is_true'' ANil [] [],
       Pred ''light_level'' ''lt'' (AFloat (Fin (1/2))) [] []] [],
     r_Run = ''retreat'', r_Disable = [], r_Params = [(''speed'', Fin 1)], r_CooldownS = fifth,
     r_Hysteresis = Fin 0, r_DurationS = Some (Fin (1/2)), r_Say = [], r_Source = []\<rparr>"

definition dark_inhibit :: rule where
  "dark_inhibit = \<lparr>r_ID = ''dark-inhibit'', r_Kind = KindInhibit,
     r_When = Pred ''light_level'' ''lt'' (AFloat (Fin (1/20))) [] [],
     r_Run = [], r_Disable = [''wave''], r_Params = [], r_CooldownS = Fin 5,
     r_Hysteresis = Fin 0, r_DurationS = None, r_Say = [], r_Source = []\<rparr>"

definition mail_event :: event where
  "mail_event = \<lparr>ev_Source = ''mail'', ev_Type = ''new'', ev_Priority = ''LOW'', ev_Urgency = ''NOW'',
     ev_LLMEvaluate = True, ev_InjectTemplate = [], ev_Voice = ''brief'', ev_Sense = [], ev_Dedupe = [],
     ev_Path = []\<rparr>"

text \<open>The base file has the rules, a mode and the event; the overlay turns one rule off.\<close>

definition toy_base :: table where
  "toy_base = [(''schema_version'', AInt 2), (''active_mode'', AStr ''gentle''),
     (''react'', AMaps [encode_rule bump_retreat]), (''inhibit'', AMaps [encode_rule dark_inhibit]),
     (''modes'', AMap [(''gentle'', AMap [(''speed'', AFloat two_fifths)])]),
     (''event'', AMaps [encode_event mail_event])]"

definition toy_overlay :: table where
  "toy_overlay = [(''schema_version'', AInt 1),
     (''inhibit'', AMaps [[(''id'', AStr ''dark-inhibit''), (''enabled'', ABool False)]])]"

definition toy_decode :: "string \<rightharpoonup> table" where
  "toy_decode = [''base.toml'' \<mapsto> toy_base, ''user.toml'' \<mapsto> toy_overlay]"

definition base_file :: "string \<Rightarrow> rules_file" where
  "base_file path = \<lparr>f_path = path, f_schemaVersion = 2,
     f_ordered = [bump_retreat\<lparr>r_Source := path\<rparr>, dark_inhibit\<lparr>r_Source := path\<rparr>],
     f_disabled = [], f_modes = [(''gentle'', [(''speed'', two_fifths)])], f_activeMode = ''gentle'',
     f_events = [mail_event\<lparr>ev_Path := path\<rparr>], f_eventDisabled = [], f_eventDefault = None\<rparr>"

definition overlay_file :: "string \<Rightarrow> rules_file" where
  "overlay_file path = \<lparr>f_path = path, f_schemaVersion = 1, f_ordered = [],
     f_disabled = [''dark-inhibit''], f_modes = [], f_activeMode = [], f_events = [],
     f_eventDisabled = [], f_eventDefault = None\<rparr>"

lemma not_blank_toy [simp]: "\<not> blank ''bump-retreat''" "\<not> blank ''retreat''" "\<not> blank ''bumper''"
  "\<not> blank ''mail''" "\<not> blank ''new''" "\<not> blank ''light_level''" "\<not> blank ''dark-inhibit''" "\<not> blank ''wave''"
  by (rule not_blank_letter; simp add: byte_of_def)+

lemma bump_retreat_wf: "rule_wf 2 bump_retreat"
  by (simp add: rule_wf_def bump_retreat_def leaf_value_ok_def op_defs params_wf_def say_ok_def
      groups_left_def SchemaVersion2_def numeral_2_eq_2 fifth_def del: divide_eq_eq_numeral1)

lemma dark_inhibit_wf: "rule_wf 2 dark_inhibit"
  by (simp add: rule_wf_def dark_inhibit_def leaf_value_ok_def op_defs params_wf_def say_ok_def)

lemma mail_event_wf: "event_wf mail_event"
  by (simp add: event_wf_def mail_event_def priorities_def urgencies_def voices_def opt_text_ok_def)

lemma toy_decoded_ok: "decoded_ok toy_decode"
  by (auto simp: decoded_ok_def toy_decode_def toy_base_def toy_overlay_def encode_rule_def encode_event_def
      bump_retreat_def dark_inhibit_def mail_event_def split: if_splits)

lemma toy_base_valid: "validate path toy_base = Inr (base_file path)"
proof -
  have r: "validateRule c KindReact (encode_rule bump_retreat) 2 = Inr (Live bump_retreat)"
    "validateRule c KindInhibit (encode_rule dark_inhibit) 2 = Inr (Live dark_inhibit)" for c
    using validateRule_encoded[OF bump_retreat_wf, of c] validateRule_encoded[OF dark_inhibit_wf, of c]
    by (simp_all add: bump_retreat_def dark_inhibit_def)
  have e: "validateEvent c (encode_event mail_event) = Inr (Live mail_event)" for c
    by (rule validateEvent_encoded[OF mail_event_wf]) (simp add: mail_event_def)
  have u: "unknownKeys toy_base topLevelFields = []"
    by (simp add: unknownKeys_Nil toy_base_def topLevelFields_def)
  have m: "map_of toy_base ''schema_version'' = Some (AInt 2)"
    "map_of toy_base KindReact = Some (AMaps [encode_rule bump_retreat])"
    "map_of toy_base KindInhibit = Some (AMaps [encode_rule dark_inhibit])"
    "map_of toy_base ''event'' = Some (AMaps [encode_event mail_event])"
    "lookup toy_base ''modes'' = AMap [(''gentle'', AMap [(''speed'', AFloat two_fifths)])]"
    "lookup toy_base ''active_mode'' = AStr ''gentle''" "lookup toy_base ''event_default'' = ANil"
    by (simp_all add: toy_base_def KindReact_def KindInhibit_def)
  have ms: "validateModes c (AMap [(''gentle'', AMap [(''speed'', AFloat two_fifths)])]) =
      Inr [(''gentle'', [(''speed'', two_fifths)])]" for c
    by (simp add: validateModes_def validateMode_def validateModeParam_def sortedMapKeys_def two_fifths_def
        is_nan_def is_inf_def)
  have d: "r_ID dark_inhibit \<noteq> r_ID bump_retreat" by (simp add: bump_retreat_def dark_inhibit_def)
  show ?thesis unfolding validate_def Let_def u
    by (simp add: validateSchemaVersion_def m ms d SchemaVersion1_def SchemaVersion2_def readEntries_def r e
        addRule_def addEvent_def checkDuplicateIDs_def checkDuplicateEventIDs_def ids_def eventIDs_def
        validateActiveMode_def validateEventDefault_def base_file_def)
qed

lemma toy_overlay_valid: "validate path toy_overlay = Inr (overlay_file path)"
proof -
  let ?t = "[(''id'', AStr ''dark-inhibit''), (''enabled'', ABool False)]"
  have r: "validateRule c KindInhibit ?t 1 = Inr (Tombstone ''dark-inhibit'')" for c
  proof -
    have u: "unknownKeys ?t inhibitFields = []" by (simp add: unknownKeys_Nil inhibitFields_def)
    show ?thesis unfolding validateRule_def Let_def
      by (simp add: u isTombstone_def as_text_def)
  qed
  have u: "unknownKeys toy_overlay topLevelFields = []"
    by (simp add: unknownKeys_Nil toy_overlay_def topLevelFields_def)
  have m: "map_of toy_overlay ''schema_version'' = Some (AInt 1)" "map_of toy_overlay KindReact = None"
    "map_of toy_overlay KindInhibit = Some (AMaps [?t])" "map_of toy_overlay ''event'' = None"
    "lookup toy_overlay ''modes'' = ANil" "lookup toy_overlay ''active_mode'' = ANil"
    "lookup toy_overlay ''event_default'' = ANil"
    by (simp_all add: toy_overlay_def KindReact_def KindInhibit_def)
  show ?thesis unfolding validate_def Let_def u
    by (simp add: validateSchemaVersion_def m SchemaVersion1_def readEntries_def r addRule_def
        checkDuplicateIDs_def checkDuplicateEventIDs_def ids_def eventIDs_def validateModes_def
        validateActiveMode_def validateEventDefault_def overlay_file_def)
qed

text \<open>Reading it.\<close>

lemma toy_parsed:
  "map_res (map_res (parseFile toy_decode)) [[''base.toml''], [''user.toml'']] =
     Inr [[base_file ''base.toml''], [overlay_file ''user.toml'']]"
  by (simp add: parseFile_def toy_decode_def toy_base_valid toy_overlay_valid)

text \<open>The vocabulary of a robot, as the rules package sees it.\<close>

definition robot_vocabulary :: "vocabulary \<Rightarrow> rules_vocabulary" where
  "robot_vocabulary v = \<lparr>rv_HasField = HasField v, rv_HasAction = HasAction v,
     rv_ActionLoops = ActionLoops v, rv_ActionParam = ActionParam v\<rparr>"

lemma toy_names:
  "HasField toy_voc ''bumper''" "HasField toy_voc ''light_level''" "HasAction toy_voc ''retreat''"
  "HasAction toy_voc ''wave''" "\<not> ActionLoops toy_voc ''retreat''"
  "ActionParam toy_voc ''retreat'' ''speed'' = Some (Fin 0, Fin 2)"
proof -
  have v: "toy_voc = \<lparr>v_origin = ''adaptor.toml'', v_channels = toy_channels, v_senses = toy_senses,
      v_actions = map (compiled_action toy_channels) [toy_hum, toy_retreat, toy_wave],
      channelByName = index_of ch_name toy_channels, senseByName = index_of s_name toy_senses,
      actionByName = index_of a_name (map (compiled_action toy_channels) [toy_hum, toy_retreat, toy_wave])\<rparr>"
    using toy_parse by (simp add: parse_Inr Let_def toy_config_def)
  show "HasField toy_voc ''bumper''" "HasField toy_voc ''light_level''" "HasAction toy_voc ''retreat''"
    "HasAction toy_voc ''wave''" "\<not> ActionLoops toy_voc ''retreat''"
    "ActionParam toy_voc ''retreat'' ''speed'' = Some (Fin 0, Fin 2)"
    unfolding v by (simp_all add: HasField_def HasAction_def ActionLoops_def ActionParam_def index_of_def
      compiled_action_def toy_senses_def toy_hum_def toy_retreat_def toy_wave_def)
qed

definition toy_config_loaded :: rules_config where
  "toy_config_loaded = \<lparr>rc_SchemaVersion = 1, rc_ActiveMode = ''gentle'',
     rc_Modes = [''gentle'' \<mapsto> [(''speed'', two_fifths)]],
     rc_React = [bump_retreat\<lparr>r_Source := ''base.toml''\<rparr>], rc_Inhibit = [],
     rc_Disabled = [''dark-inhibit''], rc_Events = [mail_event\<lparr>ev_Path := ''base.toml''\<rparr>],
     rc_EventDefault = None\<rparr>"

lemma toy_load:
  "Load toy_decode [[''base.toml''], [''user.toml'']] (Some (robot_vocabulary toy_voc)) = Inr toy_config_loaded"
proof -
  have kinds: "r_Kind bump_retreat = KindReact" "r_Kind dark_inhibit = KindInhibit"
    and i: "r_ID bump_retreat = ''bump-retreat''" "r_ID dark_inhibit = ''dark-inhibit''"
    by (simp_all add: bump_retreat_def dark_inhibit_def)
  have n1: "checkRuleNames c (robot_vocabulary toy_voc) ev (bump_retreat\<lparr>r_Source := p\<rparr>) = Inr ()" for c ev p
    by (simp add: checkRuleNames_def bump_retreat_def Let_def robot_vocabulary_def toy_names sortedMapKeys_def
      checkRuleParam_def)
  have n2: "checkRuleNames c (robot_vocabulary toy_voc) ev (dark_inhibit\<lparr>r_Source := p\<rparr>) = Inr ()" for c ev p
    by (simp add: checkRuleNames_def dark_inhibit_def Let_def robot_vocabulary_def toy_names)
  show ?thesis unfolding Load_def toy_parsed rbind.simps
    by (simp add: mergeStep_def buildLayer_def layerStep_def applyVocabulary_def Let_def n1 n2 base_file_def
      overlay_file_def ids_def eventIDs_def i addFile_def emptyLayer_def mergeLayers_def mergeEntries_def
      byID_def layer_config_def kinds toy_config_loaded_def cong: if_cong)
qed

section \<open>Accepted documents\<close>

lemma any_ok_pred: "pred_wf n p \<Longrightarrow> any_ok (AMap (encode_pred p))"
proof (induction p arbitrary: n)
  case (Pred f op v ps qs)
  show ?case
  proof (cases "ps = [] \<and> qs = []")
    case True
    then have "any_ok v" using Pred.prems by (auto simp: leaf_value_ok_def split: if_splits)
    then show ?thesis using True by simp
  next
    case False
    then have "\<forall>p \<in> set (ps @ qs). pred_wf (n - 1) p"
      using Pred.prems pred_wf_group[of ps qs n f op v] by blast
    then have "\<forall>p \<in> set (ps @ qs). any_ok (AMap (encode_pred p))"
      using Pred.IH unfolding set_append by blast
    then show ?thesis using False by auto
  qed
qed

lemma encoded_ok: "rule_wf v r \<Longrightarrow> any_ok (AMap (encode_rule r))"
  using any_ok_pred[of _ "r_When r"]
  by (auto simp: encode_rule_def rule_wf_def params_wf_def keys_def comp_def case_prod_beta
      split: option.splits)

text \<open>
  C30: The rule reader accepts some document for exactly the well-formed rules: a non-blank id, a
  condition whose groups nest at most two deep (none under schema 1) and whose leaves carry the value
  their operator needs, finite non-negative cooldown and hysteresis, and for a reaction a non-blank
  action, finite parameters, a positive duration and a line of at most 500 runes, for an inhibition a
  sorted, duplicate-free, non-empty list of actions.\<close>

theorem rule_reader_range:
  "(\<exists>c raw. any_ok (AMap raw) \<and> r_Kind r \<in> {KindReact, KindInhibit}
      \<and> validateRule c (r_Kind r) raw version = Inr (Live r)) \<longleftrightarrow> rule_wf version r \<and> r_Source r = []"
proof
  assume w: "rule_wf version r \<and> r_Source r = []"
  have "any_ok (AMap (encode_rule r)) \<and> r_Kind r \<in> {KindReact, KindInhibit}
      \<and> validateRule undefined (r_Kind r) (encode_rule r) version = Inr (Live r)"
    using w encoded_ok[of version r] validateRule_encoded[of version r] by (simp add: rule_wf_def) blast
  then show "\<exists>c raw. any_ok (AMap raw) \<and> r_Kind r \<in> {KindReact, KindInhibit}
      \<and> validateRule c (r_Kind r) raw version = Inr (Live r)" by blast
qed (use validateRule_wf in blast)

text \<open>
  A well-formed event entry written as a document reads back as the same entry, whatever optional
  fields it leaves out, and every entry the reader accepts is well-formed.\<close>

lemma event_round_trip:
  "event_wf e \<and> ev_Path e = [] \<longleftrightarrow> validateEvent c (encode_event e) = Inr (Live e)"
proof
  assume "validateEvent c (encode_event e) = Inr (Live e)"
  then show "event_wf e \<and> ev_Path e = []" using validateEvent_wf by blast
qed (use validateEvent_encoded in blast)

text \<open>
  C40: A file that validates is well-formed: a known schema version, rules and events well-formed and
  marked with the file's path, no id twice among live entries and tombstones, finite mode parameters,
  and an active mode that is declared exactly when there are modes.\<close>

theorem validated_file:
  assumes "validate path data = Inr f" "any_ok (AMap data)"
  shows "file_wf path f"
  by (rule validate_wf[OF assms])

theorem validated_file_witness: "file_wf ''base.toml'' (base_file ''base.toml'')"
  by (rule validated_file[OF toy_base_valid])
    (use toy_decoded_ok in \<open>auto simp: decoded_ok_def toy_decode_def split: if_splits\<close>)

text \<open>
  The format is strict: every top-level key of an accepted file is one the schema names, both
  rule arrays are lists of tables, every key of a rule is one its kind allows, and a rule is either a
  tombstone or has every required key.\<close>

lemma unknown_keys_refused:
  assumes "validate path data = Inr f"
  shows "set (keys data) \<subseteq> set topLevelFields
    \<and> (\<forall>kind \<in> {KindReact, KindInhibit}. \<forall>raw. map_of data kind = Some raw \<longrightarrow>
        (\<exists>ts. asMaps raw = Some ts \<and> (\<forall>t \<in> set ts.
          set (keys t) \<subseteq> set (if kind = KindInhibit then inhibitFields else reactFields)
          \<and> (map_of t ''enabled'' = Some (ABool False)
             \<or> (\<forall>k \<in> set (if kind = KindInhibit then inhibitRequired else reactRequired). present t k)))))"
proof (intro conjI ballI allI impI)
  show "set (keys data) \<subseteq> set topLevelFields"
    using assms by (auto simp: validate_def Let_def unknownKeys_Nil split: if_splits)
next
  fix kind raw assume k: "kind \<in> {KindReact, KindInhibit}" "map_of data kind = Some raw"
  obtain c v add g g' where
    "readEntries c data kind (\<lambda>t. validateRule c kind t v) add g = Inr (g' :: rules_file)"
    using assms k(1) unfolding validate_def Let_def by (auto split: if_splits)
  then obtain ts where ts: "asMaps raw = Some ts"
    and fd: "foldr_res (\<lambda>en f. rbind (validateRule c kind en v) (\<lambda>x. Inr (add x f))) ts g = Inr g'"
    using k(2) by (auto simp: readEntries_def split: option.splits)
  have "set (keys t) \<subseteq> set (if kind = KindInhibit then inhibitFields else reactFields)
      \<and> (map_of t ''enabled'' = Some (ABool False)
         \<or> (\<forall>k \<in> set (if kind = KindInhibit then inhibitRequired else reactRequired). present t k))"
    if t: "t \<in> set ts" for t
  proof -
    obtain x where x: "validateRule c kind t v = Inr x" using foldr_res_step[OF fd t] by auto
    show ?thesis
      by (rule conjI) (use x in \<open>auto simp: validateRule_def Let_def unknownKeys_Nil missing_Nil isTombstone_def
        split: if_splits option.splits any.splits\<close>)
  qed
  then show "\<exists>ts. asMaps raw = Some ts \<and> (\<forall>t \<in> set ts.
          set (keys t) \<subseteq> set (if kind = KindInhibit then inhibitFields else reactFields)
          \<and> (map_of t ''enabled'' = Some (ABool False)
             \<or> (\<forall>k \<in> set (if kind = KindInhibit then inhibitRequired else reactRequired). present t k)))"
    using ts by blast
qed

lemma unknown_keys_refused_witness: "set (keys toy_overlay) \<subseteq> set topLevelFields"
  using unknown_keys_refused[OF toy_overlay_valid[of "''user.toml''"]] by blast

section \<open>What a stack of layers means\<close>

lemma layer_config_events: "rc_Events (layer_config l) = l_events l"
  by (simp add: layer_config_def)

lemma sorted_disabled: "finite (l_disabled l) \<Longrightarrow> set (rc_Disabled (layer_config l)) = l_disabled l"
  by (simp add: layer_config_def)



lemma loaded_rules_safe:
  assumes "Load decode layers (Some voc) = Inr cfg" "decoded_ok decode"
  shows "\<exists>events. \<forall>r \<in> set (config_rules cfg). (\<exists>version. rule_wf version r) \<and> rule_names_ok voc events r"
proof -
  obtain parsed l where c: "cfg = layer_config l"
    and w: "layer_wf l" and r: "layer_rules l = last_word file_rules (concat parsed)"
    and f: "\<forall>f \<in> set (concat parsed). file_wf (f_path f) f \<and> file_ok (Some voc) (eventFieldSet parsed) f"
    by (rule Load_spec[OF assms])
  have "(\<exists>version. rule_wf version r) \<and> rule_names_ok voc (eventFieldSet parsed) r"
    if "r \<in> set (config_rules cfg)" for r
  proof -
    have "r \<in> set (l_ordered l)" using that unfolding c config_rules_set .
    then obtain f where m: "f \<in> set (concat parsed)" "r \<in> set (f_ordered f)"
      using loaded_rule_file[OF w r] f by blast
    have wf: "rule_wf (f_schemaVersion f) r" using f m by (auto simp: file_wf_def)
    have "\<exists>c. checkRuleNames c voc (eventFieldSet parsed) r = Inr ()"
      using f m by (auto simp: file_ok_def applyVocabulary_def)
    then show ?thesis using wf checkRuleNames_Inr[OF rule_wf_params[OF wf]] by blast
  qed
  then show ?thesis by blast
qed



definition fresh :: "string list \<Rightarrow> (string \<rightharpoonup> string) \<Rightarrow> bool" where
  "fresh xs m \<longleftrightarrow> distinct xs \<and> (\<forall>i \<in> set xs. m i = None)"

lemma fresh_append:
  "fresh (xs @ ys) m \<longleftrightarrow> fresh xs m \<and> fresh ys (\<lambda>i. if i \<in> set xs then Some p else m i)"
  by (auto simp: fresh_def)

lemma registerIDs_fresh:
  "registerIDs mk path is origin = Inr m \<longleftrightarrow>
     fresh is origin \<and> m = (\<lambda>i. if i \<in> set is then Some path else origin i)"
  by (auto simp: registerIDs_Inr fresh_def)

lemma layer_accepts:
  "(\<exists>s'. foldr_res (layerStep None ev) fs (l, o1, o2) = Inr s') \<longleftrightarrow>
     fresh (concat (map (\<lambda>f. ids (f_ordered f) @ f_disabled f) fs)) o1
     \<and> fresh (concat (map (\<lambda>f. eventIDs (f_events f) @ f_eventDisabled f) fs)) o2"
proof (induction fs arbitrary: l o1 o2)
  case (Cons f fs)
  let ?a = "ids (f_ordered f) @ f_disabled f" and ?b = "eventIDs (f_events f) @ f_eventDisabled f"
  let ?o1 = "\<lambda>i. if i \<in> set ?a then Some (f_path f) else o1 i"
  let ?o2 = "\<lambda>i. if i \<in> set ?b then Some (f_path f) else o2 i"
  have "layerStep None ev f (l, o1, o2) = Inr s \<longleftrightarrow>
      fresh ?a o1 \<and> fresh ?b o2 \<and> s = (addFile f l, ?o1, ?o2)" for s
    unfolding layerStep_def by (auto simp: Let_def applyVocabulary_def registerIDs_fresh)
  then have "(\<exists>s'. foldr_res (layerStep None ev) (f # fs) (l, o1, o2) = Inr s') \<longleftrightarrow>
      fresh ?a o1 \<and> fresh ?b o2 \<and> (\<exists>s'. foldr_res (layerStep None ev) fs (addFile f l, ?o1, ?o2) = Inr s')"
    by (simp del: set_append)
  then show ?case unfolding Cons.IH list.map concat.simps
    using fresh_append[of ?a _ o1 "f_path f"] fresh_append[of ?b _ o2 "f_path f"] by blast
qed (simp add: fresh_def)

text \<open>
  Without a vocabulary, a layer is refused exactly when its files use an id twice, live or as a
  tombstone, be it of rules or of events.\<close>

lemma layer_refused_iff:
  "(\<exists>e. buildLayer files None events = Inl e) \<longleftrightarrow>
     \<not> distinct (concat (map (\<lambda>f. ids (f_ordered f) @ f_disabled f) files))
     \<or> \<not> distinct (concat (map (\<lambda>f. eventIDs (f_events f) @ f_eventDisabled f) files))"
proof -
  have "(\<exists>e. buildLayer files None events = Inl e) \<longleftrightarrow> \<not> (\<exists>r. buildLayer files None events = Inr r)"
    by (cases "buildLayer files None events") auto
  also have "(\<exists>r. buildLayer files None events = Inr r) \<longleftrightarrow>
      (\<exists>s. foldr_res (layerStep None events) files (emptyLayer, Map.empty, Map.empty) = Inr s)"
    by (auto simp: buildLayer_def)
  finally show ?thesis unfolding layer_accepts fresh_def by blast
qed

lemma layer_refused_iff_witness:
  "(\<exists>e. buildLayer [base_file ''a.toml'', overlay_file ''b.toml''] None {} = Inl e)"
  using layer_refused_iff[of "[base_file ''a.toml'', overlay_file ''b.toml'']" "{}"]
  by (simp add: base_file_def overlay_file_def ids_def bump_retreat_def dark_inhibit_def)

end
