(* ===== verification/Evaluator_Properties.thy ===== *)
theory Evaluator_Properties
  imports Evaluator_Admission Bus Engine_Properties Rules_Properties
begin

text \<open>
  The properties of perception, event routing, rule evaluation and the seam bus, for every robot,
  every rule file and every run, each with a run of the rules of \<open>toy_config_loaded\<close> on the toy robot.
\<close>

section \<open>A rule lane on the toy robot\<close>

definition toy_eval_config :: eval_config where
  "toy_eval_config = \<lparr>ev_Rules = Some toy_config_loaded, ev_Vocabulary = Some toy_voc,
     ev_Snapshot = Some sense_New, ev_Router = Some (router_New toy_config_loaded None),
     ev_Registry = None, ev_IDPrefix = []\<rparr>"

definition toy_lane :: evaluator where
  "toy_lane = projr (evaluator_New toy_eval_config)"

definition toy_lane_engine :: "(unit rider bus, rule_event) engine" where
  "toy_lane_engine = projr (New (Some toy_voc) toy_engine_config (Some toy_sink) toy_clock)"

lemma toy_lane_engine_new:
  "New (Some toy_voc) toy_engine_config (Some toy_sink) toy_clock = Inr toy_lane_engine"
proof -
  have "\<exists>e :: (unit rider bus, rule_event) engine.
      New (Some toy_voc) toy_engine_config (Some toy_sink) toy_clock = Inr e"
    by (simp add: New_def toy_engine_config_def Let_def)
  then show ?thesis unfolding toy_lane_engine_def by auto
qed

section \<open>Conditions and the view\<close>

text \<open>
  C31: Evaluating a validated condition always returns, whatever the readings, and the answer is its
  meaning: a group is the conjunction of its \<open>all\<close> and one of its \<open>any\<close>, a missing or nil field fails
  every comparison, \<open>is_true\<close> and \<open>is_false\<close> are opposite, numbers compare as floats and only numbers
  are ordered, \<open>ne\<close> is the opposite of \<open>eq\<close> on a present field.
\<close>

theorem condition_meaning:
  assumes "pred_wf n p"
  shows "Eval p view (Some ab) = Some (holds view ab p)"
  by (rule Eval_holds[OF assms])

theorem condition_meaning_witness:
  "Eval (r_When bump_retreat) [''bumper'' \<mapsto> ABool True, ''light_level'' \<mapsto> AInt 0] (Some (\<lambda>_. Fin 0)) = Some True
   \<and> Eval (r_When bump_retreat) [''bumper'' \<mapsto> ABool True, ''light_level'' \<mapsto> ANil] (Some (\<lambda>_. Fin 0)) = Some False"
proof -
  have wf: "pred_wf (Suc 0) (r_When bump_retreat)"
    by (simp add: bump_retreat_def leaf_value_ok_def op_defs Comparators_def)
  show ?thesis
    unfolding condition_meaning[OF wf]
    by (simp add: bump_retreat_def leaf_holds_def reading_holds_def number_related_def Present_def f64_of_int_exact)
qed



section \<open>Events\<close>

text \<open>
  C39: The dedupe window holds over every run of events: two consecutive deliveries of events that
  share a dedupe key are at least the window apart, and the first is so after the key's last delivery
  before the run.
\<close>

theorem deliveries_spaced:
  "successively (\<lambda>t u. rt_window r \<le> time_Sub u t) (routed_times show_any k is r)
   \<and> (\<forall>u. rt_lastAt r k = Some u \<longrightarrow> routed_times show_any k is r \<noteq> [] \<longrightarrow>
        rt_window r \<le> time_Sub (hd (routed_times show_any k is r)) u)"
  by (rule routed_spaced)

definition mail_in :: incoming where
  "mail_in = \<lparr>in_Source = ''mail'', in_Type = ''new'', in_Payload = Map.empty\<rparr>"

definition mail_router :: router where
  "mail_router = (router_New toy_config_loaded None)\<lparr>rt_lastAt := [''mail/new'' \<mapsto> - DefaultWindow]\<rparr>"

lemma mail_resolved: "same_rules mail_router r \<Longrightarrow> snd (resolve show_any r mail_in) = ''mail/new''"
proof -
  assume s: "same_rules mail_router r"
  have i: "in_Source mail_in @ ''/'' @ in_Type mail_in = ''mail/new''" by (simp add: mail_in_def)
  have d: "rt_byID mail_router ''mail/new'' = Some (mail_event\<lparr>ev_Path := ''base.toml''\<rparr>)" "ev_Dedupe (mail_event\<lparr>ev_Path := ''base.toml''\<rparr>) = []"
    by (simp_all add: mail_router_def router_New_def toy_config_loaded_def mail_event_def event_ID_def)
  show ?thesis unfolding resolve_same[OF s] unfolding resolve_def Let_def i d(1) option.case prod.case snd_conv by (simp only: d(2) simp_thms if_False)
qed

lemma mail_times:
  "routed_times show_any ''mail/new'' [(0, mail_in), (second, mail_in), (DefaultWindow, mail_in)] mail_router = [0, DefaultWindow]"
proof -
  have step: "routed_times show_any ''mail/new'' ((t, mail_in) # is) r =
      (if DefaultWindow \<le> time_Sub t u then t # routed_times show_any ''mail/new'' is r' else routed_times show_any ''mail/new'' is r')"
    "rt_lastAt r' ''mail/new'' = Some (if DefaultWindow \<le> time_Sub t u then t else u)" "same_rules mail_router r'"
    if "same_rules mail_router r" "rt_lastAt r ''mail/new'' = Some u" "r' = snd (Route show_any t mail_in r)" for t u r r' "is"
  proof -
    note h = that
    obtain res where r: "Route show_any t mail_in r = (res, r')" using h(3) by (metis prod.collapse)
    have w: "rt_window r = DefaultWindow" using that(1) by (simp add: same_rules_def mail_router_def router_New_def)
    note st = Route_state[OF r, unfolded mail_resolved[OF that(1)] w that(2)]
    show "routed_times show_any ''mail/new'' ((t, mail_in) # is) r =
      (if DefaultWindow \<le> time_Sub t u then t # routed_times show_any ''mail/new'' is r' else routed_times show_any ''mail/new'' is r')"
      "rt_lastAt r' ''mail/new'' = Some (if DefaultWindow \<le> time_Sub t u then t else u)"
      using st(1,2) that(2) by (auto simp: r mail_resolved[OF that(1)])
    show "same_rules mail_router r'" by (rule same_rules_trans[OF that(1) st(3)])
  qed
  have s0: "same_rules mail_router mail_router" "rt_lastAt mail_router ''mail/new'' = Some (- DefaultWindow)"
    by (simp_all add: same_rules_def mail_router_def)
  note a = step[OF s0 refl] note b = step[OF a(3,2) refl] note c = step[OF b(3,2) refl]
  show ?thesis unfolding a(1) b(1) c(1)
    by (simp add: DefaultWindow_def second_def time_Sub_def min_duration_def max_duration_def)
qed

theorem deliveries_spaced_witness:
  "DefaultWindow \<le> time_Sub DefaultWindow 0 \<and> DefaultWindow \<le> time_Sub 0 (- DefaultWindow)"
  using deliveries_spaced[of mail_router "\<lambda>_. []" "''mail/new''"
      "[(0, mail_in), (second, mail_in), (DefaultWindow, mail_in)]"]
  unfolding mail_times by (simp add: mail_router_def router_New_def)

text \<open>
  An event is a field of the view for one tick: what \<open>TickFields\<close> reads after a run of events is
  true exactly at the keys left from before and at \<open>source/type\<close> of every event the run delivered, and
  a second read finds nothing.
\<close>

lemma event_fields_one_tick:
  assumes "route_all show_any is r = (ress, r')"
  shows "(fst (TickFields r') k = Some (ABool True) \<longleftrightarrow>
       k \<in> rt_tickKeys r \<or> (\<exists>ro. Some ro \<in> set ress \<and> k = ro_Source ro @ ''/'' @ ro_Type ro))
    \<and> (fst (TickFields r') k \<noteq> Some (ABool True) \<longrightarrow> fst (TickFields r') k = None)
    \<and> fst (TickFields (snd (TickFields r'))) = Map.empty"
  using route_all_keys[OF assms] by (auto simp: TickFields_def)

lemma event_fields_one_tick_witness:
  "\<exists>ress r'. route_all (\<lambda>_. []) [] ((router_New toy_config_loaded None)\<lparr>rt_tickKeys := {''mail/new''}\<rparr>) = (ress, r')
     \<and> fst (TickFields r') ''mail/new'' = Some (ABool True)"
  using event_fields_one_tick[of "\<lambda>_. []" "[]" "(router_New toy_config_loaded None)\<lparr>rt_tickKeys := {''mail/new''}\<rparr>"]
  by simp

section \<open>From the files to the lane\<close>

lemma states_of_rules:
  "foldl (\<lambda>m r. m(r_ID r \<mapsto> st)) m0 rs = (\<lambda>i. if i \<in> r_ID ` set rs then Some st else m0 i)"
  by (induction rs arbitrary: m0) auto

lemma evaluator_New_Inr:
  "evaluator_New c = Inr ev \<longleftrightarrow> (\<exists>cfg voc. ev_Rules c = Some cfg \<and> ev_Vocabulary c = Some voc
     \<and> (\<forall>r \<in> set (rc_React cfg). r_DurationS r \<noteq> None \<or> \<not> ActionLoops voc (r_Run r))
     \<and> ev = \<lparr>el_cfg = cfg, el_voc = voc, el_snapshot = ev_Snapshot c, el_router = ev_Router c,
                 el_registry = (case ev_Registry c of None \<Rightarrow> NewRegistry | Some r \<Rightarrow> r), el_log = [],
                 el_idPrefix = (if ev_IDPrefix c = [] then StageRule else ev_IDPrefix c),
                 el_states = (\<lambda>i. if i \<in> r_ID ` set (config_rules cfg) then Some fresh_rule_state else None),
                 el_lastPresent = Map.empty, el_startedAt = 0, el_started = False,
                 el_activeMode = rc_ActiveMode cfg\<rparr>)"
  unfolding evaluator_New_def states_of_rules
  by (auto split: option.splits)

lemma New_ev_inv:
  assumes "evaluator_New c = Inr ev" "ev_Rules c = Some cfg" "rules_ok cfg"
    and "\<forall>r. ev_Registry c = Some r \<longrightarrow> registry_ok r"
  shows "ev_inv ev \<and> el_cfg ev = cfg \<and> Some (el_voc ev) = ev_Vocabulary c"
  using assms NewRegistry_ok ledger_fresh
  by (auto simp: evaluator_New_Inr ev_inv_def split: option.split if_splits)

lemma loaded_rules_ok:
  assumes "Load decode layers (Some voc) = Inr cfg" "decoded_ok decode"
  shows "rules_ok cfg" "\<forall>r \<in> set (rc_React cfg). rv_ActionLoops voc (r_Run r) \<longrightarrow> r_DurationS r \<noteq> None"
proof -
  obtain parsed l where c: "cfg = layer_config l" and w: "layer_wf l"
    by (rule Load_spec[OF assms])
  then have d: "distinct (map r_ID (config_rules cfg))"
    using config_rules_distinct by (auto simp: layer_wf_def entries_ok_def)
  have notinh: "r_Kind r \<noteq> KindInhibit" if "r \<in> set (rc_React cfg)" for r
    using that by (auto simp: c layer_config_def)
  obtain events where wf: "\<forall>r \<in> set (config_rules cfg). (\<exists>version. rule_wf version r) \<and> rule_names_ok voc events r"
    using loaded_rules_safe[OF assms] by blast
  have "[] \<notin> set (r_Disable r)" if "r \<in> set (rc_Inhibit cfg)" for r
  proof -
    have "\<exists>version. rule_wf version r" using wf that by (auto simp: config_rules_def)
    then show ?thesis by (auto simp: rule_wf_def)
  qed
  moreover have "\<exists>n. pred_wf n (r_When r)" if "r \<in> set (config_rules cfg)" for r
    using wf that by (auto simp: rule_wf_def)
  ultimately show "rules_ok cfg" using d by (auto simp: rules_ok_def)
  show "\<forall>r \<in> set (rc_React cfg). rv_ActionLoops voc (r_Run r) \<longrightarrow> r_DurationS r \<noteq> None"
  proof (intro ballI impI)
    fix r assume r: "r \<in> set (rc_React cfg)" "rv_ActionLoops voc (r_Run r)"
    then have w: "\<exists>version. rule_wf version r" "rule_names_ok voc events r" using wf by (auto simp: config_rules_def)
    then have "r_Kind r = KindReact" using notinh[OF r(1)] by (auto simp: rule_wf_def)
    then show "r_DurationS r \<noteq> None" using w(2) r(2) by (simp add: rule_names_ok_def)
  qed
qed

text \<open>
  C3: Rules that load against a robot's vocabulary run on that robot: the evaluator accepts them, and
  whatever happens around it, frames, events, calls of the registry, changes of mode, and however often
  it ticked, its next tick returns without a panic and leaves it well-formed.
\<close>

theorem loaded_lane_runs:
  assumes "Load decode layers (Some (robot_vocabulary voc)) = Inr cfg" "decoded_ok decode"
    and "ev_Rules c = Some cfg" "ev_Vocabulary c = Some voc"
    and "\<forall>rg. ev_Registry c = Some rg \<longrightarrow> registry_ok rg"
  shows "\<exists>ev. evaluator_New c = Inr ev \<and> (\<forall>r tr en w ctx. session r (ev, en) tr w \<longrightarrow>
     (\<exists>w'. Tick ctx w = (None, w') \<and> ev_inv (fst w')))"
proof -
  have "\<forall>r \<in> set (rc_React cfg). r_DurationS r \<noteq> None \<or> \<not> ActionLoops voc (r_Run r)"
    using loaded_rules_ok(2)[OF assms(1,2)] by (auto simp: robot_vocabulary_def)
  then obtain ev where ev: "evaluator_New c = Inr ev"
    using assms(3,4) by (simp add: evaluator_New_Inr)
  have inv: "ev_inv ev" using New_ev_inv[OF ev assms(3) loaded_rules_ok(1)[OF assms(1,2)] assms(5)] by blast
  have "\<exists>w'. Tick ctx w = (None, w') \<and> ev_inv (fst w')" if "session r (ev, en) tr w" for r tr en w ctx
    using Tick_ok[of w ctx] session_inv[OF that] inv by (metis fst_conv)
  then show ?thesis using ev by blast
qed

lemma toy_lane_new: "evaluator_New toy_eval_config = Inr toy_lane"
proof -
  have "\<forall>r \<in> set (rc_React toy_config_loaded). r_DurationS r \<noteq> None \<or> \<not> ActionLoops toy_voc (r_Run r)"
    using loaded_rules_ok(2)[OF toy_load toy_decoded_ok] by (auto simp: robot_vocabulary_def)
  then obtain ev where "evaluator_New toy_eval_config = Inr ev"
    by (simp add: evaluator_New_Inr toy_eval_config_def)
  then show ?thesis by (simp add: toy_lane_def)
qed

lemma toy_lane_fields:
  "el_cfg toy_lane = toy_config_loaded" "el_voc toy_lane = toy_voc" "el_registry toy_lane = NewRegistry"
  "el_activeMode toy_lane = ''gentle''" "ev_inv toy_lane"
proof -
  have "ev_inv toy_lane \<and> el_cfg toy_lane = toy_config_loaded \<and> Some (el_voc toy_lane) = Some toy_voc"
    using New_ev_inv[OF toy_lane_new _ loaded_rules_ok(1)[OF toy_load toy_decoded_ok]] by (simp add: toy_eval_config_def)
  then show "el_cfg toy_lane = toy_config_loaded" "el_voc toy_lane = toy_voc" "ev_inv toy_lane" by simp_all
  have e: "toy_lane = \<lparr>el_cfg = toy_config_loaded, el_voc = toy_voc, el_snapshot = Some sense_New,
      el_router = Some (router_New toy_config_loaded None), el_registry = NewRegistry, el_log = [], el_idPrefix = StageRule,
      el_states = (\<lambda>i. if i \<in> r_ID ` set (config_rules toy_config_loaded) then Some fresh_rule_state else None),
      el_lastPresent = Map.empty, el_startedAt = 0, el_started = False, el_activeMode = rc_ActiveMode toy_config_loaded\<rparr>"
    using toy_lane_new unfolding evaluator_New_Inr toy_eval_config_def by simp
  show "el_registry toy_lane = NewRegistry" "el_activeMode toy_lane = ''gentle''"
    unfolding e by (simp_all add: toy_config_loaded_def)
qed

definition toy_ctx :: "nat \<Rightarrow> tick_context" where
  "toy_ctx k = \<lparr>tc_Now = toy_clock k, tc_Tick = k, tc_contribs = Map.empty\<rparr>"

theorem loaded_lane_runs_witness:
  "\<exists>ev w'. evaluator_New toy_eval_config = Inr ev \<and> Tick (toy_ctx 0) (ev, toy_lane_engine) = (None, w') \<and> ev_inv (fst w')"
proof -
  have "\<exists>ev. evaluator_New toy_eval_config = Inr ev \<and> (\<forall>r tr en w ctx. session r (ev, en) tr w \<longrightarrow>
     (\<exists>w'. Tick ctx w = (None, w') \<and> ev_inv (fst w')))"
    by (rule loaded_lane_runs[OF toy_load toy_decoded_ok]) (simp_all add: toy_eval_config_def)
  then show ?thesis using session.begun by (metis (no_types))
qed

section \<open>Timing\<close>

text \<open>
  C4: Over every session of the lane a rule fires at most once a tick, and the instants of two
  consecutive fires are never closer than its \<open>cooldown_s\<close>.
\<close>

theorem fires_spaced:
  assumes "ev_inv (fst w)" "r \<in> set (config_rules (el_cfg (fst w)))" "session r w tr w'"
  shows "successively (\<lambda>t u. \<not> flt (secs_between u t) (r_CooldownS r)) (fire_times tr)
     \<and> (\<forall>(t, m, n) \<in> set tr. n \<le> 1)"
proof -
  obtain st where st: "el_states (fst w) (r_ID r) = Some st" by (rule rule_state_known[OF assms(1,2)])
  obtain "is" where "tr = trace_of r is st" using session_trace[OF assms(3,1,2) st] by blast
  then show ?thesis using fires_spaced_trace[of r "is" st] trace_of_once[of _ _ _ r "is" st] by blast
qed

definition toy_rule :: rule where
  "toy_rule = bump_retreat\<lparr>r_Source := ''base.toml''\<rparr>"

lemma toy_rule_in: "toy_rule \<in> set (config_rules (el_cfg toy_lane))"
  by (simp add: toy_lane_fields toy_rule_def config_rules_def toy_config_loaded_def)

text \<open>A session of the toy lane: two ticks and a frame in between.\<close>

lemma toy_session:
  "\<exists>t0 t1 w'. session toy_rule (toy_lane, toy_lane_engine) [t0, t1] w'"
proof -
  let ?w = "(toy_lane, toy_lane_engine)"
  obtain ev1 en1 where t1: "Tick (toy_ctx 0) ?w = (None, ev1, en1)" and i1: "ev_inv ev1"
    using Tick_ok[of ?w "toy_ctx 0"] toy_lane_fields(5) by auto
  obtain t0 where s1: "session toy_rule ?w [t0] (ev1, en1)"
    using ticked[OF begun t1, of toy_rule] by auto
  let ?ev2 = "ev1\<lparr>el_snapshot := map_option (Update [(''bumper'', ABool True)] 0) (el_snapshot ev1)\<rparr>"
  have s2: "session toy_rule ?w [t0] (?ev2, en1)" by (rule between[OF s1 out_frame])
  have "ev_inv ?ev2" using session_inv[OF s2] toy_lane_fields(5) by simp
  then obtain ev3 en3 where "Tick (toy_ctx 1) (?ev2, en1) = (None, ev3, en3)" using Tick_ok[of "(?ev2, en1)" "toy_ctx 1"] by auto
  then obtain t1 where "session toy_rule ?w ([t0] @ [t1]) (ev3, en3)" using ticked[OF s2] by blast
  then have "session toy_rule ?w [t0, t1] (ev3, en3)" by simp
  then show ?thesis by blast
qed

theorem fires_spaced_witness:
  "\<exists>t0 t1 w'. session toy_rule (toy_lane, toy_lane_engine) [t0, t1] w'
     \<and> successively (\<lambda>t u. \<not> flt (secs_between u t) fifth) (fire_times [t0, t1])"
proof -
  obtain t0 t1 w' where s: "session toy_rule (toy_lane, toy_lane_engine) [t0, t1] w'" using toy_session by blast
  have "ev_inv (fst (toy_lane, toy_lane_engine))" "toy_rule \<in> set (config_rules (el_cfg (fst (toy_lane, toy_lane_engine))))"
    using toy_lane_fields(5) toy_rule_in by simp_all
  note f = fires_spaced[OF this s]
  have "r_CooldownS toy_rule = fifth" by (simp add: toy_rule_def bump_retreat_def)
  with f s show ?thesis by metis
qed

text \<open>
  C5: A rule with hysteresis rearms by a stretch of falsehood: over every session, between a fire and
  the next one there are ticks in a row at which its condition was false, and the first and the last of
  them are at least \<open>hysteresis\<close> apart.
\<close>

theorem fires_rearmed:
  assumes "ev_inv (fst w)" "r \<in> set (config_rules (el_cfg (fst w)))" "session r w tr w'"
    and "flt (Fin 0) (r_Hysteresis r)"
    and "tr = xs @ (t, m, n) # ys @ (u, k, l) # zs" "n \<noteq> 0" "l \<noteq> 0" "\<forall>(_, _, q) \<in> set ys. q = 0"
  shows "\<exists>as bs cs. ys = as @ bs @ cs \<and> bs \<noteq> [] \<and> (\<forall>(_, matched, _) \<in> set bs. \<not> matched)
     \<and> fle (r_Hysteresis r) (secs_between (fst (last bs)) (fst (hd bs)))"
proof -
  obtain st where st: "el_states (fst w) (r_ID r) = Some st" by (rule rule_state_known[OF assms(1,2)])
  obtain "is" where "tr = trace_of r is st" using session_trace[OF assms(3,1,2) st] by blast
  with assms(5) have "trace_of r is st = xs @ (t, m, n) # ys @ (u, k, l) # zs" by simp
  from rearmed_trace[OF this assms(6-8,4)] show ?thesis by (simp add: rearmed_def)
qed

text \<open>An inhibit rule with a second of hysteresis, seen true, false for a second, and true again.\<close>

definition dim_rule :: rule where
  "dim_rule = \<lparr>r_ID = ''dim'', r_Kind = KindInhibit, r_When = Pred ''bumper'' ''is_true'' ANil [] [],
     r_Run = [], r_Disable = [''wave''], r_Params = [], r_CooldownS = Fin 0, r_Hysteresis = Fin 1,
     r_DurationS = None, r_Say = [], r_Source = []\<rparr>"

definition dim_lane :: evaluator where
  "dim_lane = toy_lane\<lparr>el_cfg := toy_config_loaded\<lparr>rc_React := [], rc_Inhibit := [dim_rule]\<rparr>,
     el_states := [''dim'' \<mapsto> fresh_rule_state], el_snapshot := Some sense_New, el_router := None\<rparr>"

lemma dim_inv: "ev_inv dim_lane"
  using toy_lane_fields(5) ledger_fresh
  by (auto simp: dim_lane_def ev_inv_def rules_ok_def config_rules_def dim_rule_def Comparators_def op_defs leaf_value_ok_def
      not_blank_letter split: if_splits)

lemma dim_matched:
  assumes "el_snapshot ev = Some s" "snapshot_ok s" "el_router ev = None"
  shows "matched_at now dim_rule ev = Present (sn_values s) ''bumper''"
proof -
  have "''bumper'' \<noteq> n @ AgeSuffix" for n
  proof
    assume "''bumper'' = n @ AgeSuffix"
    then have "last ''bumper'' = last (n @ AgeSuffix)" by (rule arg_cong)
    then show False by (simp add: AgeSuffix_def)
  qed
  then have "View s now ''bumper'' = sn_values s ''bumper''" by (intro View_field[OF assms(2)]) blast
  then show ?thesis
    by (simp add: matched_at_def perceive_def tick_snapshot_def assms dim_rule_def leaf_holds_def Present_def)
qed

lemma dim_step:
  assumes "session dim_rule w0 tr (ev, en)" "ev_inv (fst w0)" "el_snapshot ev = Some s" "snapshot_ok s" "el_router ev = None"
  obtains ev' en' n where
    "session dim_rule w0 (tr @ [(t, Present (sn_values (Update readings t s)) ''bumper'', n)]) (ev', en')"
    "el_snapshot ev' = Some (Update readings t s)" "el_router ev' = None"
proof -
  let ?ev = "ev\<lparr>el_snapshot := map_option (Update readings t) (el_snapshot ev)\<rparr>"
  let ?ctx = "\<lparr>tc_Now = t, tc_Tick = 0, tc_contribs = Map.empty\<rparr>"
  have s: "session dim_rule w0 tr (?ev, en)" by (rule between[OF assms(1) out_frame])
  have inv: "ev_inv (fst (?ev, en))" using session_inv[OF s assms(2)] by blast
  obtain ev' en' where k: "Tick ?ctx (?ev, en) = (None, ev', en')"
    using Tick_ok[OF inv, of ?ctx] by auto
  have "matched_at t dim_rule ?ev = Present (sn_values (Update readings t s)) ''bumper''"
    by (rule dim_matched) (simp_all add: assms Update_ok)
  then have "session dim_rule w0 (tr @ [(t, Present (sn_values (Update readings t s)) ''bumper'',
      fires (r_ID dim_rule) ev' - fires (r_ID dim_rule) ?ev)]) (ev', en')"
    using ticked[OF s k] by simp
  moreover have "el_snapshot ev' = Some (Update readings t s)" "el_router ev' = None"
    using Tick_keeps[OF inv k] assms by simp_all
  ultimately show ?thesis by (rule that)
qed

lemma dim_session:
  "\<exists>w'. session dim_rule (dim_lane, toy_lane_engine)
     [(0, True, 1), (second, False, 0), (2 * second, False, 0), (3 * second, True, 1)] w'"
proof -
  let ?w = "(dim_lane, toy_lane_engine)" and ?b = "\<lambda>b. [(''bumper'', ABool b)]"
  have inv: "ev_inv (fst ?w)" using dim_inv by simp
  let ?s1 = "Update (?b True) 0 sense_New" let ?s2 = "Update (?b False) second ?s1"
  let ?s3 = "Update [] (2 * second) ?s2" let ?s4 = "Update (?b True) (3 * second) ?s3"
  have ok: "snapshot_ok ?s1" "snapshot_ok ?s2" "snapshot_ok ?s3" by (simp_all add: Update_ok sense_New_ok)
  have "el_snapshot dim_lane = Some sense_New" "el_router dim_lane = None" by (simp_all add: dim_lane_def)
  then obtain e1 n1 g1 where 1: "session dim_rule ?w ([] @ [(0, Present (sn_values ?s1) ''bumper'', n1)]) (e1, g1)"
    "el_snapshot e1 = Some ?s1" "el_router e1 = None"
    using dim_step[OF begun inv _ sense_New_ok] by metis
  obtain e2 n2 g2 where 2: "session dim_rule ?w (([] @ [(0, Present (sn_values ?s1) ''bumper'', n1)])
      @ [(second, Present (sn_values ?s2) ''bumper'', n2)]) (e2, g2)" "el_snapshot e2 = Some ?s2" "el_router e2 = None"
    by (rule dim_step[OF 1(1) inv 1(2) ok(1) 1(3)])
  obtain e3 n3 g3 where 3: "session dim_rule ?w ((([] @ [(0, Present (sn_values ?s1) ''bumper'', n1)])
      @ [(second, Present (sn_values ?s2) ''bumper'', n2)]) @ [(2 * second, Present (sn_values ?s3) ''bumper'', n3)]) (e3, g3)"
    "el_snapshot e3 = Some ?s3" "el_router e3 = None"
    by (rule dim_step[OF 2(1) inv 2(2) ok(2) 2(3)])
  obtain e4 n4 g4 where 4: "session dim_rule ?w (((([] @ [(0, Present (sn_values ?s1) ''bumper'', n1)])
      @ [(second, Present (sn_values ?s2) ''bumper'', n2)]) @ [(2 * second, Present (sn_values ?s3) ''bumper'', n3)])
      @ [(3 * second, Present (sn_values ?s4) ''bumper'', n4)]) (e4, g4)"
    by (rule dim_step[OF 3(1) inv 3(2) ok(3) 3(3)])
  have v: "Present (sn_values ?s1) ''bumper''" "\<not> Present (sn_values ?s2) ''bumper''"
    "\<not> Present (sn_values ?s3) ''bumper''" "Present (sn_values ?s4) ''bumper''"
    by (simp_all add: Update_def updateField_def Present_def)
  from 4 have s: "session dim_rule ?w [(0, True, n1), (second, False, n2), (2 * second, False, n3), (3 * second, True, n4)] (e4, g4)"
    by (simp add: v)
  have "[(0, True, n1), (second, False, n2), (2 * second, False, n3), (3 * second, True, n4)] =
      trace_of dim_rule [(0, True, True), (second, False, True), (2 * second, False, True), (3 * second, True, True)] fresh_rule_state"
    using inhibit_session[OF s inv] by (simp add: dim_lane_def dim_rule_def)
  moreover have "secs_between (2 * second) second = Fin 1" using secs_between_whole[of 1 "2 * second" second] by simp
  moreover have "secs_between (3 * second) 0 = Fin 3" using secs_between_whole[of 3 "3 * second" 0] by simp
  ultimately have "n1 = 1 \<and> n2 = 0 \<and> n3 = 0 \<and> n4 = 1"
    by (simp add: trace_of_Cons rule_step_def stepArming_def fireReason_def markFired_def fresh_rule_state_def dim_rule_def Let_def)
  with s show ?thesis by blast
qed

theorem fires_rearmed_witness:
  "\<exists>tr w'. session dim_rule (dim_lane, toy_lane_engine) tr w' \<and> fire_times tr = [0, 3 * second]
     \<and> (\<exists>as bs cs. [(second, False, 0 :: nat), (2 * second, False, 0)] = as @ bs @ cs \<and> bs \<noteq> []
          \<and> fle (Fin 1) (secs_between (fst (last bs)) (fst (hd bs))))"
proof -
  let ?tr = "[(0, True, 1), (second, False, 0), (2 * second, False, 0), (3 * second, True, 1)] :: (instant \<times> bool \<times> nat) list"
  obtain w' where s: "session dim_rule (dim_lane, toy_lane_engine) ?tr w'" using dim_session by blast
  have i: "ev_inv (fst (dim_lane, toy_lane_engine))" "dim_rule \<in> set (config_rules (el_cfg (fst (dim_lane, toy_lane_engine))))"
    using dim_inv by (simp_all add: dim_lane_def config_rules_def)
  have h: "flt (Fin 0) (r_Hysteresis dim_rule)" "r_Hysteresis dim_rule = Fin 1" by (simp_all add: dim_rule_def)
  have "?tr = [] @ (0, True, 1) # [(second, False, 0), (2 * second, False, 0)] @ (3 * second, True, 1) # []" by simp
  from fires_rearmed[OF i s h(1) this] have
    "\<exists>as bs cs. [(second, False, 0 :: nat), (2 * second, False, 0)] = as @ bs @ cs \<and> bs \<noteq> []
      \<and> fle (Fin 1) (secs_between (fst (last bs)) (fst (hd bs)))" unfolding h(2) by (simp del: append_eq_Cons_conv) blast
  moreover have "fire_times ?tr = [0, 3 * second]" by (simp add: fire_times_def)
  ultimately show ?thesis using s by blast
qed

section \<open>Inhibition, requests and parameters\<close>

text \<open>
  C2: Inhibition is enforced within the tick: when a tick is over no active behavior has an inhibited
  name, be it inhibited by a caller or by a rule whose condition held at that tick, and no standing goal
  whose action is inhibited is active, whatever was queued, sustained or fired before.
\<close>

theorem inhibited_stays_off:
  assumes "ev_inv (fst w)" "Tick ctx w = (p, w')"
  shows "set (ActiveNames (snd w')) \<inter> inhibited_now (tc_Now ctx) (fst w) = {}
    \<and> (\<forall>n g. rg_goals (el_registry (fst w)) n = Some g \<longrightarrow> g_action g \<in> inhibited_now (tc_Now ctx) (fst w) \<longrightarrow>
         n \<notin> set (ActiveNames (snd w')))"
  using Tick_inhibits[OF assms] by blast

theorem inhibited_stays_off_witness:
  "\<exists>rg w'. StandingGoal ''sing'' ''hum'' [] NewRegistry = Inr rg
     \<and> Tick (toy_ctx 0) (toy_lane\<lparr>el_registry := Inhibit [''hum''] rg\<rparr>, toy_lane_engine) = (None, w')
     \<and> ''sing'' \<notin> set (ActiveNames (snd w')) \<and> ''hum'' \<notin> set (ActiveNames (snd w'))"
proof -
  obtain rg where rg: "StandingGoal ''sing'' ''hum'' [] NewRegistry = Inr rg"
    by (simp add: StandingGoal_def NewRegistry_def Let_def)
  let ?w = "(toy_lane\<lparr>el_registry := Inhibit [''hum''] rg\<rparr>, toy_lane_engine)"
  have "registry_ok (Inhibit [''hum''] rg)" by (rule Inhibit_ok(1)[OF StandingGoal_ok[OF rg NewRegistry_ok]])
  then have i: "ev_inv (fst ?w)" using toy_lane_fields(5) by (simp add: ev_inv_def)
  obtain w' where t: "Tick (toy_ctx 0) ?w = (None, w')" using Tick_ok[OF i] by metis
  have g: "\<exists>g. rg_goals (Inhibit [''hum''] rg) ''sing'' = Some g \<and> g_action g = ''hum''"
    using rg by (auto simp: StandingGoal_def NewRegistry_def Let_def Inhibit_def)
  have h: "''hum'' \<in> inhibited_now (tc_Now (toy_ctx 0)) (fst ?w)" by (simp add: inhibited_now_def Inhibit_def)
  note s = inhibited_stays_off[OF i t]
  have "''hum'' \<notin> set (ActiveNames (snd w'))" using s h by blast
  moreover have "''sing'' \<notin> set (ActiveNames (snd w'))" using s h g by fastforce
  ultimately show ?thesis using rg t by blast
qed

text \<open>
  C35: A run-once request never starts a behavior that runs forever: if the registry takes the request
  and it is admitted, the one behavior this adds runs the asked action as a stoppable one, for a finite
  positive time, which is the asked duration when one was asked.
\<close>

theorem run_once_ends:
  assumes "RunOnce bound a ps d rg = Inr rg'"
    and "registry_admit (pd_request (last (rg_queue rg'))) byRules w = (out, w')" "am_Admitted out"
  shows "\<exists>old new q. behaviors (snd w') = old @ [new] \<and> set old \<subseteq> set (behaviors (snd w))
     \<and> b_action new = a \<and> b_class new = ClassStoppable
     \<and> lt_duration (b_lifetime new) = Some (Fin q) \<and> 0 < q \<and> (flt (Fin 0) d \<longrightarrow> d = Fin q)"
proof -
  let ?q = "pd_request (last (rg_queue rg'))"
  note r = RunOnce_request[OF assms(1)]
  obtain old new where n: "behaviors (snd w') = old @ [new]" "set old \<subseteq> set (behaviors (snd w))"
    "b_action new = rq_Action ?q" "b_class new = (if rq_Class ?q = ClassOther [] then ClassStoppable else rq_Class ?q)"
    "b_lifetime new = \<lparr>lt_duration = (case rq_DurationS ?q of Some d \<Rightarrow> Some d
       | None \<Rightarrow> if \<not> rq_Loops ?q then actionDuration (el_voc (fst w)) (rq_Action ?q) else None), lt_loops = rq_Loops ?q\<rparr>"
    "lifetime_ok (b_lifetime new)"
    by (rule registry_admit_runs[OF assms(2,3)])
  have "lt_duration (b_lifetime new) \<noteq> None"
  proof
    assume none: "lt_duration (b_lifetime new) = None"
    then have "lt_loops (b_lifetime new)" using n(6) by (simp add: lifetime_ok_def)
    then have "rq_Loops ?q" using n(5) by simp
    then have "lt_duration (b_lifetime new) = Some d" using n(5) r(4,5) by simp
    with none show False by simp
  qed
  then obtain q where q: "lt_duration (b_lifetime new) = Some (Fin q)" "0 < q"
    using n(6) by (auto simp: lifetime_ok_def)
  have "flt (Fin 0) d \<longrightarrow> d = Fin q" using q(1) n(5) r(4) by auto
  then show ?thesis using n(1-4) r(2,6) q by auto
qed

text \<open>A request of the toy's \<open>retreat\<close> is admitted, and carries the active mode's speed.\<close>

definition toy_request :: request where
  "toy_request = \<lparr>rq_Name = [], rq_Action = ''retreat'', rq_Params = [], rq_DurationS = Some (Fin 2), rq_Loops = False,
     rq_Class = ClassOther [], rq_Origin = OriginAgent, rq_RuleID = []\<rparr>"

lemma toy_merge:
  "el_voc ev = toy_voc \<Longrightarrow> el_cfg ev = toy_config_loaded \<Longrightarrow> el_activeMode ev = ''gentle'' \<Longrightarrow>
   mergeParams ev ''retreat'' [] = [(''speed'', two_fifths)]"
  by (simp add: mergeParams_def activeModeParams_def toy_config_loaded_def toy_names)

lemma toy_retreat_found:
  "List.find (\<lambda>a. a_name a = ''retreat'') (v_actions toy_voc) = Some (compiled_action toy_channels toy_retreat)"
  by (simp add: toy_voc_fields compiled_action_def toy_hum_def toy_retreat_def)

lemma toy_binds:
  "b_action b = ''retreat'' \<Longrightarrow> b_name b = ''retreat'' \<Longrightarrow> b_class b = ClassStoppable \<Longrightarrow> b_channels b = [] \<Longrightarrow>
   b_params b = [(''speed'', two_fifths)] \<Longrightarrow> lt_duration (b_lifetime b) = Some (Fin 2) \<Longrightarrow>
   \<exists>b'. Bind (Some toy_voc) b = Inr b'"
proof -
  assume b: "b_action b = ''retreat''" "b_name b = ''retreat''" "b_class b = ClassStoppable" "b_channels b = []"
    "b_params b = [(''speed'', two_fifths)]" "lt_duration (b_lifetime b) = Some (Fin 2)"
  have c: "a_claims (compiled_action toy_channels toy_retreat) = [''wheels'', ''arm'']"
    by (simp add: compiled_action_def toy_retreat_def)
  have f: "isFinite two_fifths" "\<not> flt two_fifths (Fin 0)" "\<not> flt (Fin 2) two_fifths"
    by (simp_all add: two_fifths_def isFinite_def is_nan_def is_inf_def del: isFinite_iff)
  have "actionByName toy_voc ''retreat'' \<noteq> None" using toy_names(3) by (simp add: HasAction_def)
  then have "ValidateParams toy_voc ''retreat'' [(''speed'', two_fifths)] = Inr ()"
    by (simp add: ValidateParams_def checkParam_def toy_names guards.simps refuse_if_def f del: isFinite_iff)
  then have a: "bindAction toy_voc b = Inr (b, Some (compiled_action toy_channels toy_retreat))"
    by (simp add: bindAction_def b toy_names refuse_if_def toy_retreat_found)
  have "checkChannels toy_voc ''retreat'' {} [''wheels'', ''arm''] = Inr ()"
    by (simp add: guards.simps toy_channel_names)
  then obtain b' where ch: "bindChannels toy_voc b (Some (compiled_action toy_channels toy_retreat)) = Inr b'"
    and l: "b_lifetime b' = b_lifetime b"
    by (simp add: bindChannels_def b c)
  have "bindLifetime toy_voc b' = Inr ()" by (simp add: bindLifetime_Inr lifetime_ok_def l b)
  then have "Bind (Some toy_voc) b = Inr b'" by (simp add: Bind_def b refuse_if_def a ch)
  then show ?thesis ..
qed

lemma toy_admitted:
  "\<exists>out w'. registry_admit toy_request {} (toy_lane, toy_lane_engine) = (out, w') \<and> am_Admitted out"
proof -
  have n: "request_name toy_request = ''retreat''" "rq_Action toy_request = ''retreat''"
    by (simp_all add: request_name_def toy_request_def)
  have nb: "\<not> blocks {} ''retreat'' ''retreat'' NewRegistry" by (simp add: blocks_def NewRegistry_def)
  obtain i rg where i: "registry_nextID (el_idPrefix toy_lane) ''retreat'' NewRegistry = (i, rg)" by (rule prod.exhaust)
  define b where "b = build (toy_lane\<lparr>el_registry := rg\<rparr>) i ''retreat'' toy_request"
  have "\<exists>b'. Bind (Some toy_voc) b = Inr b'"
    by (rule toy_binds) (simp_all add: b_def build_def toy_request_def toy_merge toy_lane_fields)
  then obtain b' where b': "Bind (Some toy_voc) b = Inr b'" by blast
  note new = toy_lane_engine_new[unfolded New_def toy_engine_config_def Let_def, simplified, symmetric]
  have e: "e_voc toy_lane_engine = toy_voc" "e_active toy_lane_engine = []"
    by (subst new, simp)+
  obtain en1 res where "admit b toy_lane_engine = (en1, Inr res)"
    using b' e by (cases rule: admit_cases[of toy_lane_engine b]) (auto simp: idIsActive_iff active_ids_def behaviors_def)
  then show ?thesis by (simp add: registry_admit_def n nb i b_def[symmetric] toy_lane_fields)
qed

theorem run_once_ends_witness:
  "\<exists>rg out w'. RunOnce (Some toy_voc) ''retreat'' [] (Fin 2) NewRegistry = Inr rg
     \<and> registry_admit (pd_request (last (rg_queue rg))) {} (toy_lane, toy_lane_engine) = (out, w')
     \<and> (\<exists>old new. behaviors (snd w') = old @ [new] \<and> lt_duration (b_lifetime new) = Some (Fin 2))"
proof -
  have r: "RunOnce (Some toy_voc) ''retreat'' [] (Fin 2) NewRegistry
      = Inr (enqueue \<lparr>pd_kind = KindRunOnce, pd_request = toy_request, pd_evict = []\<rparr> NewRegistry)" (is "_ = Inr ?rg")
    by (simp add: RunOnce_def registry_actionLoops_def toy_names toy_request_def)
  have q: "pd_request (last (rg_queue ?rg)) = toy_request" by (simp add: enqueue_def)
  obtain out w' where a: "registry_admit toy_request {} (toy_lane, toy_lane_engine) = (out, w')" "am_Admitted out"
    using toy_admitted by blast
  from run_once_ends[OF r, unfolded q, OF a] obtain old new q' where
    "behaviors (snd w') = old @ [new]" "lt_duration (b_lifetime new) = Some (Fin q')" "Fin 2 = Fin q'" by auto
  then show ?thesis using r a(1) q by (metis (no_types))
qed

text \<open>
  C36: What an admitted request runs with: a parameter it names has its value, any other one has the
  active mode's value if the action declares it and the mode sets it, and no further parameter is passed;
  so the mode never overrides the request and never reaches an action that does not declare the parameter.
\<close>

theorem mode_parameters:
  assumes "registry_admit req byRules w = (out, w')" "am_Admitted out"
    and "distinct (map fst (activeModeParams (fst w)))" "distinct (map fst (rq_Params req))"
  shows "\<exists>old new. behaviors (snd w') = old @ [new] \<and> (\<forall>k. map_of (b_params new) k =
    (case map_of (rq_Params req) k of Some v \<Rightarrow> Some v
     | None \<Rightarrow> if ActionParam (el_voc (fst w)) (rq_Action req) k = None then None else map_of (activeModeParams (fst w)) k))"
proof -
  obtain old new where n: "behaviors (snd w') = old @ [new]" "b_params new = am_Params out"
    "am_Params out = mergeParams (fst w) (rq_Action req) (rq_Params req)"
    by (rule registry_admit_runs[OF assms(1,2)])
  then show ?thesis using mergeParams_lookup[OF assms(3,4)] by auto
qed

theorem mode_parameters_witness:
  "\<exists>out w' old new. registry_admit toy_request {} (toy_lane, toy_lane_engine) = (out, w')
     \<and> behaviors (snd w') = old @ [new] \<and> map_of (b_params new) ''speed'' = Some two_fifths"
proof -
  obtain out w' where a: "registry_admit toy_request {} (toy_lane, toy_lane_engine) = (out, w')" "am_Admitted out"
    using toy_admitted by blast
  have m: "activeModeParams toy_lane = [(''speed'', two_fifths)]"
    by (simp add: activeModeParams_def toy_lane_fields toy_config_loaded_def)
  from mode_parameters[OF a] obtain old new where "behaviors (snd w') = old @ [new]"
    "map_of (b_params new) ''speed'' = Some two_fifths"
    by (auto simp: m toy_request_def toy_lane_fields toy_names)
  then show ?thesis using a(1) by blast
qed

section \<open>The bus\<close>

lemma bus_line_parses:
  assumes "controlFree n" "n \<noteq> []" "controlFree (firstLine t)"
  shows "log_Parse (log_Drop StageRule busSource n ''panic'' (firstLine t)) =
    Inr \<lparr>ll_stage = ''rule'', ll_source = ''bus'', ll_event = sanitize n, ll_dropped = True, ll_reason = ''panic'',
         ll_detail = firstLine t\<rparr>"
proof -
  have "sanitize ''rule'' = ''rule''" "sanitize ''bus'' = ''bus''" "sanitize ''panic'' = ''panic''" by code_simp+
  moreover have "controlFree ''rule''" "controlFree ''bus''" "controlFree ''panic''" by code_simp+
  ultimately show ?thesis using log_Drop_round_trip[of StageRule busSource n "''panic''" "firstLine t"] assms
    by (simp add: StageRule_def busSource_def)
qed


definition boom_rider :: "unit rider" where
  "boom_rider = OtherRider (\<lambda>_ u. Panic ''boom'' u)"

text \<open>The rule lane behind a rider that always panics.\<close>

definition toy_bus :: "unit rider bus" where
  "toy_bus = bus_Compose [Some RuleRider] (bus_Add ''mail'' (Some boom_rider) NewBus)"

lemma toy_bus_riders: "map fst toy_bus = [''mail'', ''driver-1'']" "map snd toy_bus = [boom_rider, RuleRider]"
proof -
  have "decimal 1 = ''1''" by code_simp
  then show "map fst toy_bus = [''mail'', ''driver-1'']" "map snd toy_bus = [boom_rider, RuleRider]"
    by (simp_all add: toy_bus_def bus_Compose_def bus_Add_def NewBus_def)
qed


lemma tickOnce_state:
  assumes "tickOnce cosf seamf arrivals u e = Some (r, u', e')"
  obtains "u' = u" | s ctx en p en' where "seamf s ctx u en = (p, u', en')"
proof -
  have i: "fst (invokeSeam seamf now contribs u en) = u
      \<or> (\<exists>s ctx p en'. seamf s ctx u en = (p, fst (invokeSeam seamf now contribs u en), en'))" for now contribs en
  proof (cases "e_seam en")
    case (Some s)
    obtain p v en' where "seamf s \<lparr>tc_Now = now, tc_Tick = e_ticks en, tc_contribs = contribs\<rparr> u en = (p, v, en')"
      by (metis prod_cases3)
    then show ?thesis using Some by (auto simp: invokeSeam_def)
  qed (simp add: invokeSeam_def)
  obtain now contribs en where "u' = u \<or> u' = fst (invokeSeam seamf now contribs u en)"
    using assms by (auto simp: tickOnce_def Let_def split: prod.splits option.splits) (metis fst_conv)+
  then show ?thesis using i that by metis
qed

lemma turns_keep_lane:
  assumes "turns rider_fn ctx ds eu en = (ps, eu', en')" "ev_inv (fst eu)"
  shows "ev_inv (fst eu') \<and> el_cfg (fst eu') = el_cfg (fst eu)"
  using assms
proof (induction ds arbitrary: eu en ps)
  case (Cons d ds)
  obtain p eu1 en1 where s: "rider_fn d ctx eu en = (p, eu1, en1)" by (metis prod_cases3)
  obtain qs where t: "turns rider_fn ctx ds eu1 en1 = (qs, eu', en')"
    using Cons.prems(1) by (auto simp: s split: prod.splits)
  have "ev_inv (fst eu1) \<and> el_cfg (fst eu1) = el_cfg (fst eu)"
  proof (cases d)
    case RuleRider
    obtain w' where w': "Tick ctx (fst eu, en) = (None, w')" "ev_inv (fst w')" "el_cfg (fst w') = el_cfg (fst eu)"
      using Tick_ok[of "(fst eu, en)" ctx] Cons.prems(2) by auto
    then show ?thesis using s RuleRider by (auto split: prod.splits)
  next
    case (OtherRider f)
    then show ?thesis using s Cons.prems(2) by (auto split: prod.splits)
  qed
  then show ?case using Cons.IH[OF t] by simp
qed simp

lemma bus_keeps_lane:
  assumes "bus_seam rider_fn bs ctx (ls, eu) en = (p, (ls', eu'), en')" "ev_inv (fst eu)"
  shows "ev_inv (fst eu') \<and> el_cfg (fst eu') = el_cfg (fst eu)"
proof -
  obtain ps eu2 en2 where t: "turns rider_fn ctx (map snd bs) eu en = (ps, eu2, en2)" by (metis prod_cases3)
  have "eu' = eu2" using assms(1) bus_turns[OF t, of ls] by simp
  then show ?thesis using turns_keep_lane[OF t assms(2)] by simp
qed

text \<open>
  The composed system: with the rule lane and any other riders on the engine's seam through the bus,
  from every state the engine can reach and whatever the producers send meanwhile, a tick returns, writes
  exactly one more pose, complete for the robot, and leaves the rule lane well-formed under its rules.
\<close>

lemma lane_streams:
  assumes "voc_wf v" "reachable cosf (bus_seam rider_fn) v cfg snk clk e" "ev_inv ev"
  shows "\<exists>r ls' ev' u' e' p. tickOnce cosf (bus_seam rider_fn) arrivals (ls, ev, u) e = Some (r, (ls', ev', u'), e')
     \<and> e_written e' = e_written e @ [p] \<and> pose_complete v p \<and> ev_inv ev' \<and> el_cfg ev' = el_cfg ev"
proof -
  have inv: "loop_inv e" "going e" "e_voc e = v" using lane.composed.reachable_inv[OF assms(2,1)] by auto
  obtain r s' e' where t: "tickOnce cosf (bus_seam rider_fn) arrivals (ls, ev, u) e = Some (r, s', e')" "loop_inv e'"
    "fixed_part e' = fixed_part e" "\<exists>p. e_written e' = e_written e @ [p]"
    using lane.composed.tick_step[OF inv(1,2)] by metis
  obtain ls' ev' u' where s': "s' = (ls', ev', u')" by (metis prod_cases3)
  obtain p where "e_written e' = e_written e @ [p]" using t(4) by blast
  moreover have "pose_complete v p" using t(2,3) inv(3) calculation by (auto simp: loop_inv_def stream_ok_def fixed_part_def)
  moreover have "ev_inv ev' \<and> el_cfg ev' = el_cfg ev"
  proof (rule tickOnce_state[OF t(1)])
    assume "s' = (ls, ev, u)"
    then show ?thesis using assms(3) s' by simp
  next
    fix bs ctx en q en'
    assume "bus_seam rider_fn bs ctx (ls, ev, u) en = (q, s', en')"
    from bus_keeps_lane[OF this[unfolded s']] show ?thesis using assms(3) by simp
  qed
  ultimately show ?thesis using t(1) unfolding s' by blast
qed

lemma toy_lane_reachable:
  "reachable cosf (bus_seam rider_fn) toy_voc toy_engine_config toy_sink toy_clock toy_lane_engine"
  by (rule reach_new) (rule toy_lane_engine_new)

lemma lane_streams_witness:
  "\<exists>r ls' ev' u' e' p. tickOnce (\<lambda>x. x) (bus_seam rider_fn) [[SetSeamCmd (Some toy_bus)]] ([], toy_lane, ()) toy_lane_engine
      = Some (r, (ls', ev', u'), e') \<and> e_written e' = e_written toy_lane_engine @ [p] \<and> pose_complete toy_voc p \<and> ev_inv ev'"
  using lane_streams[OF toy_voc_wf toy_lane_reachable toy_lane_fields(5), of "\<lambda>x. x" "[[SetSeamCmd (Some toy_bus)]]" "[]" "()"]
  by blast

end
