(* ===== verification/Stream_Frame.thy ===== *)
theory Stream_Frame
  imports Contention Sense "HOL-Library.Word"
begin

text \<open>
  The frames of the wire, \<open>internal/stream/frame.go\<close>: the length-prefixed codec, the bodies a client
  sends with their strict decoding, and the bodies the engine sends.

  The text grammar of JSON is a parameter: \<open>parse_json\<close> reads a body as one value, or fails. How a value
  is decoded into the fields of a struct is modelled as \<open>encoding/json\<close> does it: keys matched exactly or
  up to case, \<open>null\<close> leaving a scalar alone and clearing a map or a pointer, a repeated key decoded
  again. A number carries its literal as \<open>ParseInt\<close> and as \<open>ParseFloat\<close> read it, \<open>None\<close> for one they
  refuse. Encoding a payload is the parameter \<open>marshal\<close>.
\<close>

unbundle bit_operations_syntax

type_synonym byte = "8 word"
type_synonym bytes = "8 word list"

section \<open>JSON values and structs\<close>

datatype json =
    JNull
  | JBool bool
  | JNum "int option" "f64 option"
  | JStr string
  | JArr "json list"
  | JObj "(string \<times> json) list"

text \<open>A value decoded into an \<open>any\<close>. A number out of range of a double is an error.\<close>

fun any_of_json :: "json \<Rightarrow> any option" and anys_of_json :: "json list \<Rightarrow> any list option"
  and table_of_json :: "(string \<times> json) list \<Rightarrow> table \<Rightarrow> table option" where
  "any_of_json JNull = Some ANil"
| "any_of_json (JBool b) = Some (ABool b)"
| "any_of_json (JNum _ f) = map_option AFloat f"
| "any_of_json (JStr s) = Some (AStr s)"
| "any_of_json (JArr xs) = map_option AList (anys_of_json xs)"
| "any_of_json (JObj kvs) = map_option AMap (table_of_json kvs [])"
| "anys_of_json [] = Some []"
| "anys_of_json (x # xs) =
     Option.bind (any_of_json x) (\<lambda>a. map_option ((#) a) (anys_of_json xs))"
| "table_of_json [] t = Some t"
| "table_of_json ((k, v) # kvs) t =
     Option.bind (any_of_json v) (\<lambda>a. table_of_json kvs (AList.update k a t))"

text \<open>
  The folding of a key: ASCII letters to upper case, and the two other runes that fold to an ASCII
  letter, U+017F and U+212A. Field names are ASCII, so no other rune can fold onto one.
\<close>

definition fold_char :: "char \<Rightarrow> char" where
  "fold_char c = (let b = byte_of c in if 97 \<le> b \<and> b \<le> 122 then char_of (b - 32) else c)"

fun fold_name :: "string \<Rightarrow> string" where
  "fold_name [] = []"
| "fold_name (a # cs) =
     (case cs of
        b # ds \<Rightarrow>
          if a = CHR 0xC5 \<and> b = CHR 0xBF then CHR ''S'' # fold_name ds
          else (case ds of
             c # es \<Rightarrow> if a = CHR 0xE2 \<and> b = CHR 0x84 \<and> c = CHR 0xAA then CHR ''K'' # fold_name es
                       else fold_char a # fold_name cs
           | [] \<Rightarrow> fold_char a # fold_name cs)
      | [] \<Rightarrow> fold_char a # fold_name cs)"

text \<open>A struct's fields: the name of each with what decoding a value into it does.\<close>

type_synonym 'r struct = "(string \<times> (json \<Rightarrow> 'r \<Rightarrow> 'r option)) list"

definition findField :: "'r struct \<Rightarrow> string \<Rightarrow> (json \<Rightarrow> 'r \<Rightarrow> 'r option) option" where
  "findField fs k =
     (case map_of fs k of Some d \<Rightarrow> Some d
      | None \<Rightarrow> map_of (map (\<lambda>(n, d). (fold_name n, d)) fs) (fold_name k))"

fun decodeFields :: "bool \<Rightarrow> 'r struct \<Rightarrow> (string \<times> json) list \<Rightarrow> 'r \<Rightarrow> 'r option" where
  "decodeFields strict fs [] r = Some r"
| "decodeFields strict fs ((k, v) # kvs) r =
     (case findField fs k of
        None \<Rightarrow> if strict then None else decodeFields strict fs kvs r
      | Some d \<Rightarrow> Option.bind (d v r) (decodeFields strict fs kvs))"

definition decodeStruct :: "bool \<Rightarrow> 'r struct \<Rightarrow> json \<Rightarrow> 'r \<Rightarrow> 'r option" where
  "decodeStruct strict fs v r =
     (case v of JObj kvs \<Rightarrow> decodeFields strict fs kvs r | JNull \<Rightarrow> Some r | _ \<Rightarrow> None)"

definition str_field :: "(string \<Rightarrow> 'r \<Rightarrow> 'r) \<Rightarrow> json \<Rightarrow> 'r \<Rightarrow> 'r option" where
  "str_field upd v r = (case v of JStr s \<Rightarrow> Some (upd s r) | JNull \<Rightarrow> Some r | _ \<Rightarrow> None)"

definition bool_field :: "(bool \<Rightarrow> 'r \<Rightarrow> 'r) \<Rightarrow> json \<Rightarrow> 'r \<Rightarrow> 'r option" where
  "bool_field upd v r = (case v of JBool b \<Rightarrow> Some (upd b r) | JNull \<Rightarrow> Some r | _ \<Rightarrow> None)"

definition int_ptr_field :: "(int option \<Rightarrow> 'r \<Rightarrow> 'r) \<Rightarrow> json \<Rightarrow> 'r \<Rightarrow> 'r option" where
  "int_ptr_field upd v r =
     (case v of JNum (Some i) _ \<Rightarrow> Some (upd (Some i) r) | JNull \<Rightarrow> Some (upd None r) | _ \<Rightarrow> None)"

definition float_ptr_field :: "(f64 option \<Rightarrow> 'r \<Rightarrow> 'r) \<Rightarrow> json \<Rightarrow> 'r \<Rightarrow> 'r option" where
  "float_ptr_field upd v r =
     (case v of JNum _ (Some x) \<Rightarrow> Some (upd (Some x) r) | JNull \<Rightarrow> Some (upd None r) | _ \<Rightarrow> None)"

text \<open>An element of a string slice or of a float map; \<open>null\<close> leaves the zero value.\<close>

definition str_elem :: "json \<Rightarrow> string option" where
  "str_elem v = (case v of JStr s \<Rightarrow> Some s | JNull \<Rightarrow> Some [] | _ \<Rightarrow> None)"

definition float_elem :: "json \<Rightarrow> f64 option" where
  "float_elem v = (case v of JNum _ f \<Rightarrow> f | JNull \<Rightarrow> Some (Fin 0) | _ \<Rightarrow> None)"

definition strs_field :: "(string list \<Rightarrow> 'r \<Rightarrow> 'r) \<Rightarrow> json \<Rightarrow> 'r \<Rightarrow> 'r option" where
  "strs_field upd v r =
     (case v of JArr xs \<Rightarrow> map_option (\<lambda>ss. upd ss r) (those (map str_elem xs))
      | JNull \<Rightarrow> Some (upd [] r) | _ \<Rightarrow> None)"

fun float_entries :: "(string \<times> json) list \<Rightarrow> f64 gomap \<Rightarrow> f64 gomap option" where
  "float_entries [] m = Some m"
| "float_entries ((k, v) # kvs) m =
     Option.bind (float_elem v) (\<lambda>x. float_entries kvs (AList.update k x m))"

definition float_map_field ::
  "('r \<Rightarrow> f64 gomap) \<Rightarrow> (f64 gomap \<Rightarrow> 'r \<Rightarrow> 'r) \<Rightarrow> json \<Rightarrow> 'r \<Rightarrow> 'r option" where
  "float_map_field get upd v r =
     (case v of JObj kvs \<Rightarrow> map_option (\<lambda>m. upd m r) (float_entries kvs (get r))
      | JNull \<Rightarrow> Some (upd [] r) | _ \<Rightarrow> None)"

definition any_map_field ::
  "('r \<Rightarrow> table) \<Rightarrow> (table \<Rightarrow> 'r \<Rightarrow> 'r) \<Rightarrow> json \<Rightarrow> 'r \<Rightarrow> 'r option" where
  "any_map_field get upd v r =
     (case v of JObj kvs \<Rightarrow> map_option (\<lambda>m. upd m r) (table_of_json kvs (get r))
      | JNull \<Rightarrow> Some (upd [] r) | _ \<Rightarrow> None)"

section \<open>Inbound bodies\<close>

definition Version :: int where
  "Version = 1"

definition MaxFrameBytes :: nat where
  "MaxFrameBytes = 2 ^ 20"

definition lengthPrefixBytes :: nat where
  "lengthPrefixBytes = 4"

definition KindHello :: string where "KindHello = ''hello''"
definition KindSense :: string where "KindSense = ''sense''"
definition KindIntent :: string where "KindIntent = ''intent''"
definition KindMgmt :: string where "KindMgmt = ''mgmt''"
definition KindMgmtResult :: string where "KindMgmtResult = ''mgmt_result''"
definition KindEvent :: string where "KindEvent = ''event''"
definition KindHeartbeat :: string where "KindHeartbeat = ''heartbeat''"
definition KindEnd :: string where "KindEnd = ''end''"
definition KindError :: string where "KindError = ''error''"
definition KindPose :: string where "KindPose = ''pose''"

definition CodeUser :: int where "CodeUser = 1"
definition CodeEnv :: int where "CodeEnv = 2"

definition OpAdmit :: string where "OpAdmit = ''admit''"
definition OpEvict :: string where "OpEvict = ''evict''"

lemmas kind_defs = KindHello_def KindSense_def KindIntent_def KindMgmt_def KindMgmtResult_def
  KindEvent_def KindHeartbeat_def KindEnd_def KindError_def KindPose_def

record header =
  hd_V :: "int option"
  hd_Kind :: string

definition zero_header :: header where
  "zero_header = \<lparr>hd_V = None, hd_Kind = []\<rparr>"

definition header_fields :: "header struct" where
  "header_fields =
     [(''v'', int_ptr_field (\<lambda>v h. h\<lparr>hd_V := v\<rparr>)), (''kind'', str_field (\<lambda>s h. h\<lparr>hd_Kind := s\<rparr>))]"

text \<open>
  An inbound body embeds the header, whose fields are decoded again and not used again, so only
  the shape of their values matters here.
\<close>

definition embedded :: "'r struct" where
  "embedded = [(''v'', int_ptr_field (\<lambda>_ r. r)), (''kind'', str_field (\<lambda>_ r. r))]"

record helloIn =
  hi_Client :: string

definition helloIn_fields :: "helloIn struct" where
  "helloIn_fields = embedded @ [(''client'', str_field (\<lambda>s r. r\<lparr>hi_Client := s\<rparr>))]"

record senseIn =
  si_Fields :: table

definition senseIn_fields :: "senseIn struct" where
  "senseIn_fields = embedded @ [(''fields'', any_map_field si_Fields (\<lambda>m r. r\<lparr>si_Fields := m\<rparr>))]"

record intentIn =
  ii_Op :: string
  ii_Name :: string
  ii_Action :: string
  ii_Class :: string
  ii_Channels :: "string list"
  ii_DurationS :: "f64 option"
  ii_Loops :: bool
  ii_Params :: "f64 gomap"
  ii_ID :: string

definition intentIn_fields :: "intentIn struct" where
  "intentIn_fields = embedded @
     [(''op'', str_field (\<lambda>s r. r\<lparr>ii_Op := s\<rparr>)),
      (''name'', str_field (\<lambda>s r. r\<lparr>ii_Name := s\<rparr>)),
      (''action'', str_field (\<lambda>s r. r\<lparr>ii_Action := s\<rparr>)),
      (''class'', str_field (\<lambda>s r. r\<lparr>ii_Class := s\<rparr>)),
      (''channels'', strs_field (\<lambda>s r. r\<lparr>ii_Channels := s\<rparr>)),
      (''duration_s'', float_ptr_field (\<lambda>x r. r\<lparr>ii_DurationS := x\<rparr>)),
      (''loops'', bool_field (\<lambda>b r. r\<lparr>ii_Loops := b\<rparr>)),
      (''params'', float_map_field ii_Params (\<lambda>m r. r\<lparr>ii_Params := m\<rparr>)),
      (''id'', str_field (\<lambda>s r. r\<lparr>ii_ID := s\<rparr>))]"

record mgmtIn =
  mi_ID :: string
  mi_Verb :: string
  mi_Args :: "string list"
  mi_JSON :: bool

definition mgmtIn_fields :: "mgmtIn struct" where
  "mgmtIn_fields = embedded @
     [(''id'', str_field (\<lambda>s r. r\<lparr>mi_ID := s\<rparr>)),
      (''verb'', str_field (\<lambda>s r. r\<lparr>mi_Verb := s\<rparr>)),
      (''args'', strs_field (\<lambda>s r. r\<lparr>mi_Args := s\<rparr>)),
      (''json'', bool_field (\<lambda>b r. r\<lparr>mi_JSON := b\<rparr>))]"

type_synonym json_reader = "bytes \<Rightarrow> json option"

text \<open>\<open>json.Unmarshal\<close> into a header, and \<open>decodeStrict\<close> into each of the inbound bodies.\<close>

definition decodeHeader :: "json_reader \<Rightarrow> bytes \<Rightarrow> header option" where
  "decodeHeader parse_json body =
     Option.bind (parse_json body) (\<lambda>v. decodeStruct False header_fields v zero_header)"

definition decodeStrict :: "json_reader \<Rightarrow> 'r struct \<Rightarrow> 'r \<Rightarrow> bytes \<Rightarrow> 'r option" where
  "decodeStrict parse_json fs zero body =
     Option.bind (parse_json body) (\<lambda>v. decodeStruct True fs v zero)"

definition decodeHello :: "json_reader \<Rightarrow> bytes \<Rightarrow> helloIn option" where
  "decodeHello parse_json = decodeStrict parse_json helloIn_fields \<lparr>hi_Client = []\<rparr>"

definition decodeSense :: "json_reader \<Rightarrow> bytes \<Rightarrow> senseIn option" where
  "decodeSense parse_json = decodeStrict parse_json senseIn_fields \<lparr>si_Fields = []\<rparr>"

definition decodeIntent :: "json_reader \<Rightarrow> bytes \<Rightarrow> intentIn option" where
  "decodeIntent parse_json = decodeStrict parse_json intentIn_fields
     \<lparr>ii_Op = [], ii_Name = [], ii_Action = [], ii_Class = [], ii_Channels = [], ii_DurationS = None,
      ii_Loops = False, ii_Params = [], ii_ID = []\<rparr>"

definition decodeMgmt :: "json_reader \<Rightarrow> bytes \<Rightarrow> mgmtIn option" where
  "decodeMgmt parse_json = decodeStrict parse_json mgmtIn_fields
     \<lparr>mi_ID = [], mi_Verb = [], mi_Args = [], mi_JSON = False\<rparr>"

section \<open>Outbound bodies\<close>

text \<open>The refusals, one constructor per message.\<close>

datatype refusal =
    OversizePrefix
  | NotAnObject
  | NoVersion
  | WrongVersion int
  | NotGreeted string
  | HelloUndecodable
  | ClientTooLong nat
  | AlreadyGreeted
  | NoHandler string
  | NoSenseSink
  | SenseUndecodable
  | NoEngine
  | IntentUndecodable
  | EvictsNothing
  | UnknownOp string
  | UnboundIntent bind_error
  | EngineInboxFull
  | MgmtUndecodable
  | NoMgmtHandler
  | MgmtBusy nat
  | HasOwner

text \<open>A payload carries its kind as its constructor and \<open>v\<close> always as \<open>Version\<close>.\<close>

datatype payload =
    HelloOut string
  | PoseOut nat pose
  | EventOut string table
  | HeartbeatOut nat instant
  | EndOut string
  | ErrorOut int refusal string
  | MgmtResultOut string bytes

definition stream_newError :: "int \<Rightarrow> refusal \<Rightarrow> string \<Rightarrow> payload" where
  "stream_newError code what i = ErrorOut code what i"

section \<open>The codec\<close>

type_synonym marshaller = "payload \<Rightarrow> bytes option"

text \<open>\<open>binary.BigEndian\<close>.\<close>

definition PutUint32 :: "32 word \<Rightarrow> bytes" where
  "PutUint32 v = [ucast (drop_bit 24 v), ucast (drop_bit 16 v), ucast (drop_bit 8 v), ucast v]"

definition Uint32 :: "bytes \<Rightarrow> 32 word" where
  "Uint32 b = push_bit 24 (ucast (b ! 0)) OR push_bit 16 (ucast (b ! 1)) OR push_bit 8 (ucast (b ! 2))
     OR ucast (b ! 3)"

datatype encode_error = EncodeFailed | EncodeTooLong nat

definition encodeFrame :: "marshaller \<Rightarrow> payload \<Rightarrow> (encode_error, bytes) result" where
  "encodeFrame marshal p =
     (case marshal p of
        None \<Rightarrow> Inl EncodeFailed
      | Some body \<Rightarrow>
          if MaxFrameBytes < length body then Inl (EncodeTooLong (length body))
          else Inr (PutUint32 (of_nat (length body)) @ body))"

datatype read_error = ReadEOF | ReadTooLarge | ReadZeroLength

text \<open>
  Reading one frame off the bytes of the peer, up to the end of its stream: the bytes left, and the
  body or the error. \<open>io.ReadFull\<close> at the end of the stream consumes what is there and fails.
\<close>

definition ReadFull :: "nat \<Rightarrow> bytes \<Rightarrow> (read_error, bytes) result \<times> bytes" where
  "ReadFull n bs = (if n \<le> length bs then (Inr (take n bs), drop n bs) else (Inl ReadEOF, []))"

definition readFrame :: "bytes \<Rightarrow> (read_error, bytes) result \<times> bytes" where
  "readFrame bs =
     (case ReadFull lengthPrefixBytes bs of
        (Inl e, rest) \<Rightarrow> (Inl e, rest)
      | (Inr pre, rest) \<Rightarrow>
          (let size = Uint32 pre in
           if of_nat MaxFrameBytes < size then (Inl ReadTooLarge, rest)
           else if size = 0 then (Inl ReadZeroLength, rest)
           else ReadFull (unat size) rest))"

section \<open>The round trip\<close>

lemma PutUint32_length [simp]: "length (PutUint32 v) = lengthPrefixBytes"
  by (simp add: PutUint32_def lengthPrefixBytes_def)

lemma Uint32_PutUint32 [simp]: "Uint32 (PutUint32 v) = v"
proof (rule bit_word_eqI)
  fix n assume n: "n < LENGTH(32)"
  consider "n < 8" | "8 \<le> n \<and> n < 16" | "16 \<le> n \<and> n < 24" | "24 \<le> n" by linarith
  then show "bit (Uint32 (PutUint32 v)) n \<longleftrightarrow> bit v n"
    using n by cases (auto simp: Uint32_def PutUint32_def bit_simps)
qed

lemma unat_size: "n \<le> MaxFrameBytes \<Longrightarrow> unat (of_nat n :: 32 word) = n"
  by (simp add: MaxFrameBytes_def unat_of_nat)

lemma readFrame_encoded:
  assumes "encodeFrame marshal p = Inr b" "marshal p \<noteq> Some []"
  shows "readFrame (b @ rest) = (Inr (the (marshal p)), rest)"
proof -
  obtain body where m: "marshal p = Some body" "length body \<le> MaxFrameBytes"
    "b = PutUint32 (of_nat (length body)) @ body"
    using assms(1) by (auto simp: encodeFrame_def split: option.splits if_splits)
  have s: "unat (of_nat (length body) :: 32 word) = length body" by (rule unat_size[OF m(2)])
  have le: "\<not> (of_nat MaxFrameBytes :: 32 word) < of_nat (length body)"
    using m(2) by (simp add: word_less_nat_alt s unat_size)
  have nz: "(of_nat (length body) :: 32 word) \<noteq> 0"
  proof
    assume "(of_nat (length body) :: 32 word) = 0"
    then have "unat (of_nat (length body) :: 32 word) = 0" by simp
    then show False using assms(2) m(1) s by simp
  qed
  show ?thesis using le nz by (simp add: readFrame_def ReadFull_def m Let_def s)
qed

text \<open>Reading frame after frame, as \<open>readLoop\<close> does, until the first error.\<close>

function readFrames :: "bytes \<Rightarrow> bytes list \<times> read_error" where
  "readFrames bs =
     (case readFrame bs of
        (Inl e, _) \<Rightarrow> ([], e)
      | (Inr body, rest) \<Rightarrow> (let (bodies, e) = readFrames rest in (body # bodies, e)))"
  by pat_completeness auto
termination
proof (relation "measure length", goal_cases)
  case (2 bs r rest body)
  then show ?case
    by (auto simp: readFrame_def ReadFull_def lengthPrefixBytes_def Let_def split: prod.splits sum.splits if_splits)
qed simp

declare readFrames.simps [simp del]

lemma readFrames_encoded:
  assumes "map (encodeFrame marshal) ps = map Inr bs" "Some [] \<notin> marshal ` set ps"
  shows "readFrames (concat bs @ rest) =
    (map (the \<circ> marshal) ps @ fst (readFrames rest), snd (readFrames rest))"
  using assms
proof (induction ps arbitrary: bs)
  case (Cons p ps)
  then obtain b bs' where bs: "bs = b # bs'" "encodeFrame marshal p = Inr b"
    "map (encodeFrame marshal) ps = map Inr bs'" by (cases bs) auto
  have r: "readFrame (b @ (concat bs' @ rest)) = (Inr (the (marshal p)), concat bs' @ rest)"
    by (rule readFrame_encoded[OF bs(2)]) (use Cons.prems(2) in force)
  have "readFrames (concat bs' @ rest) = (map (the \<circ> marshal) ps @ fst (readFrames rest), snd (readFrames rest))"
    by (rule Cons.IH[OF bs(3)]) (use Cons.prems(2) in auto)
  then show ?case using r by (simp add: bs(1) readFrames.simps[of "b @ concat bs' @ rest"])
qed (simp add: prod_eq_iff)

section \<open>Strictness\<close>

definition declares :: "'r struct \<Rightarrow> string \<Rightarrow> bool" where
  "declares fs k \<longleftrightarrow> fold_name k \<in> fold_name ` fst ` set fs"

lemma findField_declares: "findField fs k \<noteq> None \<longleftrightarrow> declares fs k"
proof -
  have "map_of (map (\<lambda>(n, d). (fold_name n, d)) fs) (fold_name k) \<noteq> None \<longleftrightarrow> declares fs k"
    by (simp add: declares_def map_of_eq_None_iff image_image case_prod_beta)
  moreover have "map_of fs k \<noteq> None \<Longrightarrow> declares fs k"
    by (force simp: declares_def dest: map_of_SomeD)
  ultimately show ?thesis by (auto simp: findField_def split: option.splits)
qed

lemma decodeFields_strict: "decodeFields True fs kvs r \<noteq> None \<Longrightarrow> \<forall>k \<in> fst ` set kvs. declares fs k"
proof (induction kvs arbitrary: r)
  case (Cons kv kvs)
  obtain k v where kv: "kv = (k, v)" by (rule prod.exhaust)
  obtain d where d: "findField fs k = Some d" using Cons.prems by (auto simp: kv split: option.splits)
  then obtain r' where "decodeFields True fs kvs r' \<noteq> None"
    using Cons.prems by (auto simp: kv split: Option.bind_splits)
  then have "\<forall>k \<in> fst ` set kvs. declares fs k" by (rule Cons.IH)
  moreover have "declares fs k" using d findField_declares[of fs k] by simp
  ultimately show ?case by (simp add: kv)
qed simp

lemma decodeStrict_keys:
  assumes "decodeStrict parse_json fs zero body \<noteq> None" "parse_json body = Some (JObj kvs)" "k \<in> fst ` set kvs"
  shows "declares fs k"
  using assms decodeFields_strict[of fs kvs zero] by (auto simp: decodeStrict_def decodeStruct_def)

end
