(* ===== verification/Stream_Session.thy ===== *)
theory Stream_Session
  imports Stream_Frame Engine
begin

text \<open>
  One session of the stream endpoint, \<open>internal/stream/session.go\<close>: the bounded outbound queue, the
  direct writes, and what each inbound frame does. \<open>config.go\<close>'s record and the endpoint's own state
  are here as well, because every session operation reaches them through its \<open>srv\<close> pointer.

  An operation acts on a pair of the endpoint and the session. The sessions live in a store
  \<open>sv_heap\<close> under the numbers below \<open>sv_next\<close>; \<open>sv_sess\<close> is the pointer to the live one. Where other
  goroutines may run in the middle of an operation, it is split there, and the session records how far
  it has come: \<open>s_offer\<close> is a frame the tick goroutine has counted and not yet put on the queue, \<open>s_hand\<close>
  one the writer has taken and not yet written, \<open>s_reply\<close> a hello reply that is ready, \<open>s_hello\<close> one whose
  write lock is held, \<open>s_verbs\<close> the management verbs that run. \<open>s_in\<close> is everything the peer will have sent
  when its stream ends, \<open>s_w k\<close> the outcome of the \<open>k\<close>-th write, the number of bytes written if it failed, and
  \<open>s_wire\<close> what was written. The wire holds payloads; \<open>wire_bytes\<close> are the bytes. Counters are unbounded.
\<close>

section \<open>State\<close>

type_synonym out_frame = "string \<times> payload"

datatype wire_item = Whole payload | Part payload nat

record stream_session =
  s_id :: nat
  s_in :: bytes
  s_w :: "nat \<Rightarrow> nat option"
  s_wire :: "wire_item list"
  s_out :: "out_frame list"
  s_quit :: bool
  s_writerDone :: bool
  s_reading :: bool
  s_queued :: nat
  s_written :: nat
  s_greeted :: bool
  s_mgmtInflight :: nat
  s_subscribed :: bool
  s_offer :: "out_frame option"
  s_hand :: "out_frame option"
  s_reply :: "payload option"
  s_hello :: "payload option"
  s_verbs :: "(string \<times> bytes) list"

record stream_config =
  sc_Dir :: string
  sc_SocketName :: string
  sc_TCPAddr :: string
  sc_InsecureTCP :: bool
  sc_HeartbeatEvery :: duration
  sc_OutboundQueue :: int
  sc_MaxInflightMgmt :: int
  sc_EngineVersion :: string
  sc_Vocabulary :: "vocabulary option"

text \<open>The endpoint's SENSE lines without their details: a drop by source and reason, a note.\<close>

datatype stream_line = StreamDrop string string | StreamNote string string

text \<open>How far \<open>closeWithReason\<close> has come, with the session it closes and the reason.\<close>

datatype close_pc = NotClosing | Flushing nat string | Ending nat string | Shutting nat | Closed

record ('s, 'ev) server =
  sv_cfg :: stream_config
  sv_sense :: "snapshot option"
  sv_mgmt :: bool
  sv_stdio :: bool
  sv_engine :: "('s, 'ev) engine option"
  sv_listener :: "(string \<times> string) option"
  sv_addr :: string
  sv_sess :: "nat option"
  sv_closed :: bool
  sv_stdinClosed :: bool
  sv_endReason :: "string option"
  sv_lastBeat :: instant
  sv_ticks :: nat
  sv_framesIn :: nat
  sv_framesOut :: nat
  sv_drops :: nat
  sv_refused :: nat
  sv_close :: close_pc
  sv_log :: "stream_line list"
  sv_heap :: "nat \<Rightarrow> stream_session"
  sv_next :: nat

type_synonym ('s, 'ev) session_world = "('s, 'ev) server \<times> stream_session"

record codec =
  cd_marshal :: marshaller
  cd_parse :: json_reader

definition newSession :: "nat \<Rightarrow> bytes \<Rightarrow> (nat \<Rightarrow> nat option) \<Rightarrow> stream_session" where
  "newSession i r w =
     \<lparr>s_id = i, s_in = r, s_w = w, s_wire = [], s_out = [], s_quit = False, s_writerDone = False,
      s_reading = True, s_queued = 0, s_written = 0, s_greeted = False, s_mgmtInflight = 0,
      s_subscribed = False, s_offer = None, s_hand = None, s_reply = None, s_hello = None, s_verbs = []\<rparr>"

definition queueCap :: "('s, 'ev) server \<Rightarrow> nat" where
  "queueCap v = nat (sc_OutboundQueue (sv_cfg v))"

definition inflightCap :: "('s, 'ev) server \<Rightarrow> nat" where
  "inflightCap v = nat (sc_MaxInflightMgmt (sv_cfg v))"

text \<open>\<open>drop\<close>, \<open>note\<close> and \<open>detach\<close> of the endpoint.\<close>

definition stream_drop :: "string \<Rightarrow> string \<Rightarrow> ('s, 'ev) server \<Rightarrow> ('s, 'ev) server" where
  "stream_drop source reason v =
     v\<lparr>sv_drops := Suc (sv_drops v), sv_log := sv_log v @ [StreamDrop source reason]\<rparr>"

definition stream_note :: "string \<Rightarrow> string \<Rightarrow> ('s, 'ev) server \<Rightarrow> ('s, 'ev) server" where
  "stream_note source event v = v\<lparr>sv_log := sv_log v @ [StreamNote source event]\<rparr>"

definition count_out :: "('s, 'ev) server \<Rightarrow> ('s, 'ev) server" where
  "count_out v = v\<lparr>sv_framesOut := Suc (sv_framesOut v)\<rparr>"

definition session_shutdown :: "stream_session \<Rightarrow> stream_session" where
  "session_shutdown s = s\<lparr>s_quit := True\<rparr>"

definition detach :: "('s, 'ev) session_world \<Rightarrow> ('s, 'ev) session_world" where
  "detach w =
     (let (v, s) = w in
      (if sv_sess v = Some (s_id s) then v\<lparr>sv_sess := None\<rparr> else v, session_shutdown s))"

definition reasonStdinClosed :: string where
  "reasonStdinClosed = ''stdin-closed''"

definition readerEnded :: "('s, 'ev) session_world \<Rightarrow> ('s, 'ev) session_world" where
  "readerEnded w =
     (let (v, s) = w in
      if \<not> sv_stdio v then detach (v, s)
      else ((stream_note ''reader'' KindEnd v)\<lparr>sv_endReason := Some reasonStdinClosed, sv_stdinClosed := True\<rparr>, s))"

section \<open>Writing\<close>

text \<open>One call of the peer's \<open>Write\<close>: whether it succeeded.\<close>

definition w_Write :: "payload \<Rightarrow> stream_session \<Rightarrow> bool \<times> stream_session" where
  "w_Write p s =
     (case s_w s (length (s_wire s)) of
        None \<Rightarrow> (True, s\<lparr>s_wire := s_wire s @ [Whole p]\<rparr>)
      | Some n \<Rightarrow> (False, s\<lparr>s_wire := s_wire s @ [Part p n]\<rparr>))"

definition session_send :: "codec \<Rightarrow> payload \<Rightarrow> ('s, 'ev) session_world \<Rightarrow> bool \<times> ('s, 'ev) session_world" where
  "session_send c p w =
     (let (v, s) = w in
      case encodeFrame (cd_marshal c) p of
        Inl _ \<Rightarrow> (False, (v, s))
      | Inr _ \<Rightarrow>
          if s_quit s then (False, (v, s))
          else case w_Write p s of
                 (False, s') \<Rightarrow> (False, (v, s'))
               | (True, s') \<Rightarrow> (True, (count_out v, s')))"

text \<open>The error of \<open>send\<close> is dropped by every caller.\<close>

definition reply :: "codec \<Rightarrow> payload \<Rightarrow> ('s, 'ev) session_world \<Rightarrow> ('s, 'ev) session_world" where
  "reply c p w = snd (session_send c p w)"

text \<open>\<open>session_enqueue\<close>: the gate and the count, then the bounded append or the named drop.\<close>

definition enqueue_count :: "string \<Rightarrow> payload \<Rightarrow> ('s, 'ev) session_world \<Rightarrow> ('s, 'ev) session_world" where
  "enqueue_count kind p w =
     (let (v, s) = w in
      if \<not> s_subscribed s then (v, s)
      else if s_quit s then (v, s)
      else (v, s\<lparr>s_queued := Suc (s_queued s), s_offer := Some (kind, p)\<rparr>))"

definition enqueue_put :: "('s, 'ev) session_world \<Rightarrow> ('s, 'ev) session_world" where
  "enqueue_put w =
     (let (v, s) = w in
      case s_offer s of
        None \<Rightarrow> (v, s)
      | Some f \<Rightarrow>
          if length (s_out s) < queueCap v
          then (v, s\<lparr>s_out := s_out s @ [f], s_offer := None\<rparr>)
          else (stream_drop (fst f) ''backpressure'' v,
                s\<lparr>s_queued := s_queued s - 1, s_offer := None\<rparr>))"

definition session_enqueue :: "string \<Rightarrow> payload \<Rightarrow> ('s, 'ev) session_world \<Rightarrow> ('s, 'ev) session_world" where
  "session_enqueue kind p w = enqueue_put (enqueue_count kind p w)"

definition writeFrame :: "codec \<Rightarrow> out_frame \<Rightarrow> ('s, 'ev) session_world \<Rightarrow> bool \<times> ('s, 'ev) session_world" where
  "writeFrame c f w =
     (let (v, s) = w in
      case encodeFrame (cd_marshal c) (snd f) of
        Inl _ \<Rightarrow> (True, (stream_drop (fst f) ''frame-too-large'' v, s\<lparr>s_written := Suc (s_written s)\<rparr>))
      | Inr _ \<Rightarrow>
          (case w_Write (snd f) s of
             (False, s') \<Rightarrow> (False, detach (stream_note ''writer'' ''outbound'' v, s'))
           | (True, s') \<Rightarrow> (True, (count_out v, s'\<lparr>s_written := Suc (s_written s')\<rparr>))))"

text \<open>\<open>writeLoop\<close>: receive a frame, write it, or leave when the session quits.\<close>

definition writer_take :: "stream_session \<Rightarrow> stream_session" where
  "writer_take s = (case s_out s of [] \<Rightarrow> s | f # fs \<Rightarrow> s\<lparr>s_out := fs, s_hand := Some f\<rparr>)"

definition writer_write :: "codec \<Rightarrow> ('s, 'ev) session_world \<Rightarrow> ('s, 'ev) session_world" where
  "writer_write c w =
     (case s_hand (snd w) of
        None \<Rightarrow> w
      | Some f \<Rightarrow>
          (let (alive, (v, s)) = writeFrame c f w
           in (v, s\<lparr>s_hand := None, s_writerDone := \<not> alive\<rparr>)))"

definition writer_leave :: "stream_session \<Rightarrow> stream_session" where
  "writer_leave s = s\<lparr>s_writerDone := True\<rparr>"

section \<open>Answering\<close>

definition maxClientNameBytes :: nat where
  "maxClientNameBytes = 64"

datatype verdict = Survives | Fatal | Greets payload

definition refuse ::
  "codec \<Rightarrow> int \<Rightarrow> refusal \<Rightarrow> string \<Rightarrow> verdict \<Rightarrow> ('s, 'ev) session_world \<Rightarrow> verdict \<times> ('s, 'ev) session_world" where
  "refuse c code what i d w = (d, reply c (stream_newError code what i) w)"

text \<open>
  \<open>handleHello\<close> up to its lock (\<open>hello_check\<close>), the lock with the subscription (\<open>hello_subscribe\<close>),
  and the write that releases it (\<open>hello_write\<close>).
\<close>

definition hello_check :: "codec \<Rightarrow> bytes \<Rightarrow> ('s, 'ev) session_world \<Rightarrow> verdict \<times> ('s, 'ev) session_world" where
  "hello_check c body w =
     (case decodeHello (cd_parse c) body of
        None \<Rightarrow> refuse c CodeUser HelloUndecodable [] Fatal w
      | Some h \<Rightarrow>
          if maxClientNameBytes < length (hi_Client h)
          then refuse c CodeUser (ClientTooLong (length (hi_Client h))) [] Fatal w
          else
            (let v = stream_note ''hello'' KindHello (fst w); s = (snd w)\<lparr>s_greeted := True\<rparr>;
                 p = HelloOut (sc_EngineVersion (sv_cfg v))
             in case encodeFrame (cd_marshal c) p of
                  Inl _ \<Rightarrow> (Fatal, (v, s)) | Inr _ \<Rightarrow> (Greets p, (v, s))))"

definition hello_subscribe :: "payload \<Rightarrow> stream_session \<Rightarrow> bool \<times> stream_session" where
  "hello_subscribe p s =
     (if s_quit s then (False, s) else (True, s\<lparr>s_subscribed := True, s_hello := Some p\<rparr>))"

definition hello_write :: "('s, 'ev) session_world \<Rightarrow> bool \<times> ('s, 'ev) session_world" where
  "hello_write w =
     (let (v, s) = w in
      case s_hello s of
        None \<Rightarrow> (True, (v, s))
      | Some p \<Rightarrow>
          (case w_Write p (s\<lparr>s_hello := None\<rparr>) of
             (False, s') \<Rightarrow> (False, (v, s')) | (True, s') \<Rightarrow> (True, (count_out v, s'))))"

definition handleHello :: "codec \<Rightarrow> bytes \<Rightarrow> ('s, 'ev) session_world \<Rightarrow> bool \<times> ('s, 'ev) session_world" where
  "handleHello c body w =
     (case hello_check c body w of
        (Greets p, (v, s)) \<Rightarrow>
          (case hello_subscribe p s of
             (False, s') \<Rightarrow> (False, (v, s')) | (True, s') \<Rightarrow> hello_write (v, s'))
      | (d, w') \<Rightarrow> (d = Survives, w'))"

text \<open>\<open>now\<close> is the reading of the endpoint's clock.\<close>

definition handleSense :: "codec \<Rightarrow> instant \<Rightarrow> bytes \<Rightarrow> ('s, 'ev) session_world \<Rightarrow> verdict \<times> ('s, 'ev) session_world" where
  "handleSense c now body w =
     (case sv_sense (fst w) of
        None \<Rightarrow> refuse c CodeEnv NoSenseSink [] Survives w
      | Some sn \<Rightarrow>
          (case decodeSense (cd_parse c) body of
             None \<Rightarrow> refuse c CodeUser SenseUndecodable [] Survives w
           | Some f \<Rightarrow> (Survives, ((fst w)\<lparr>sv_sense := Some (Update (si_Fields f) now sn)\<rparr>, snd w))))"

definition sendCommand :: "codec \<Rightarrow> 's command \<Rightarrow> string \<Rightarrow> ('s, 'ev) session_world \<Rightarrow> ('s, 'ev) session_world" where
  "sendCommand c cmd i w =
     (case sv_engine (fst w) of
        None \<Rightarrow> w
      | Some e \<Rightarrow>
          (let (ok, e') = Send cmd e; w' = ((fst w)\<lparr>sv_engine := Some e'\<rparr>, snd w)
           in if ok then w' else reply c (stream_newError CodeEnv EngineInboxFull i) w'))"

text \<open>The conversion of a string to \<open>tick.StopClass\<close>.\<close>

definition stopClass :: "string \<Rightarrow> stop_class" where
  "stopClass s =
     (if s = ''passive'' then ClassPassive else if s = ''stoppable'' then ClassStoppable
      else if s = ''stopping'' then ClassStopping else if s = ''unstoppable'' then ClassUnstoppable
      else ClassOther s)"

definition intentBehavior :: "intentIn \<Rightarrow> behavior" where
  "intentBehavior f =
     \<lparr>b_name = ii_Name f, b_id = ii_ID f,
      b_class = (if ii_Class f = [] then ClassStoppable else stopClass (ii_Class f)),
      b_channels = ii_Channels f, b_lifetime = \<lparr>lt_duration = ii_DurationS f, lt_loops = ii_Loops f\<rparr>,
      b_action = ii_Action f, b_params = ii_Params f, b_admitted_at = 0,
      b_trajectories = Map.empty, b_contribute = None\<rparr>"

definition stream_admit :: "codec \<Rightarrow> intentIn \<Rightarrow> ('s, 'ev) session_world \<Rightarrow> ('s, 'ev) session_world" where
  "stream_admit c f w =
     (case sc_Vocabulary (sv_cfg (fst w)) of
        None \<Rightarrow> sendCommand c (AdmitCmd (intentBehavior f)) (ii_ID f) w
      | Some voc \<Rightarrow>
          (case Bind (Some voc) (intentBehavior f) of
             Inl e \<Rightarrow> reply c (stream_newError CodeUser (UnboundIntent e) (ii_ID f)) w
           | Inr b \<Rightarrow> sendCommand c (AdmitCmd b) (ii_ID f) w))"

definition handleIntent :: "codec \<Rightarrow> bytes \<Rightarrow> ('s, 'ev) session_world \<Rightarrow> verdict \<times> ('s, 'ev) session_world" where
  "handleIntent c body w =
     (case sv_engine (fst w) of
        None \<Rightarrow> refuse c CodeEnv NoEngine [] Survives w
      | Some e \<Rightarrow>
          (case decodeIntent (cd_parse c) body of
             None \<Rightarrow> refuse c CodeUser IntentUndecodable [] Survives w
           | Some f \<Rightarrow>
               if ii_Op f = OpEvict then
                 (if ii_Name f = [] then refuse c CodeUser EvictsNothing (ii_ID f) Survives w
                  else (Survives, sendCommand c (EvictCmd (ii_Name f)) (ii_ID f) w))
               else if ii_Op f = OpAdmit then (Survives, stream_admit c f w)
               else refuse c CodeUser (UnknownOp (ii_Op f)) (ii_ID f) Survives w))"

text \<open>A management verb runs on a goroutine of its own, which ends with \<open>mgmt_finish\<close>.\<close>

definition handleMgmt :: "codec \<Rightarrow> bytes \<Rightarrow> ('s, 'ev) session_world \<Rightarrow> verdict \<times> ('s, 'ev) session_world" where
  "handleMgmt c body w =
     (case decodeMgmt (cd_parse c) body of
        None \<Rightarrow> refuse c CodeUser MgmtUndecodable [] Survives w
      | Some f \<Rightarrow>
          if \<not> sv_mgmt (fst w) then refuse c CodeEnv NoMgmtHandler (mi_ID f) Survives w
          else
            (let (v, s) = w; limit = inflightCap v; s1 = s\<lparr>s_mgmtInflight := Suc (s_mgmtInflight s)\<rparr>
             in if limit < s_mgmtInflight s1
                then refuse c CodeEnv (MgmtBusy limit) (mi_ID f) Survives
                       (stream_drop KindMgmt ''mgmt-busy'' v, s1\<lparr>s_mgmtInflight := s_mgmtInflight s1 - 1\<rparr>)
                else (Survives, (v, s1\<lparr>s_verbs := s_verbs s1 @ [(mi_ID f, body)]\<rparr>))))"

definition null_json :: bytes where
  "null_json = map (of_nat \<circ> byte_of) ''null''"

definition mgmt_finish :: "codec \<Rightarrow> nat \<Rightarrow> bytes \<Rightarrow> ('s, 'ev) session_world \<Rightarrow> ('s, 'ev) session_world" where
  "mgmt_finish c k result w =
     (let s = snd w; (i, raw) = s_verbs s ! k;
          s1 = s\<lparr>s_verbs := take k (s_verbs s) @ drop (Suc k) (s_verbs s)\<rparr>;
          (v, s2) = reply c (MgmtResultOut i (if result = [] then null_json else result)) (fst w, s1)
      in (v, s2\<lparr>s_mgmtInflight := s_mgmtInflight s2 - 1\<rparr>))"

text \<open>
  \<open>dispatch\<close> of one inbound body, a hello up to its lock: \<open>Greets\<close> is the reply that \<open>handleHello\<close>
  then writes.
\<close>

definition dispatch_head ::
  "codec \<Rightarrow> instant \<Rightarrow> bytes \<Rightarrow> ('s, 'ev) session_world \<Rightarrow> verdict \<times> ('s, 'ev) session_world" where
  "dispatch_head c now body w =
     (case decodeHeader (cd_parse c) body of
        None \<Rightarrow> refuse c CodeUser NotAnObject [] Fatal w
      | Some h \<Rightarrow>
          (case hd_V h of
             None \<Rightarrow> refuse c CodeUser NoVersion [] Fatal w
           | Some ver \<Rightarrow>
               if ver \<noteq> Version then refuse c CodeUser (WrongVersion ver) [] Fatal w
               else if \<not> s_greeted (snd w) then
                 (if hd_Kind h \<noteq> KindHello then refuse c CodeUser (NotGreeted (hd_Kind h)) [] Fatal w
                  else hello_check c body w)
               else if hd_Kind h = KindHello then refuse c CodeUser AlreadyGreeted [] Fatal w
               else if hd_Kind h = KindSense then handleSense c now body w
               else if hd_Kind h = KindIntent then handleIntent c body w
               else if hd_Kind h = KindMgmt then handleMgmt c body w
               else refuse c CodeUser (NoHandler (hd_Kind h)) [] Survives w))"

text \<open>What the reader does with a verdict when nothing comes between.\<close>

definition dispatch ::
  "codec \<Rightarrow> instant \<Rightarrow> bytes \<Rightarrow> ('s, 'ev) session_world \<Rightarrow> bool \<times> ('s, 'ev) session_world" where
  "dispatch c now body w =
     (case dispatch_head c now body w of
        (Greets p, (v, s)) \<Rightarrow>
          (case hello_subscribe p s of
             (False, s') \<Rightarrow> (False, (v, s')) | (True, s') \<Rightarrow> hello_write (v, s'))
      | (d, w') \<Rightarrow> (d = Survives, w'))"

text \<open>One turn of \<open>readLoop\<close>, up to the lock of a hello.\<close>

definition reader_ends :: "('s, 'ev) session_world \<Rightarrow> ('s, 'ev) session_world" where
  "reader_ends w = readerEnded (fst w, (snd w)\<lparr>s_reading := False\<rparr>)"

definition reader_turn :: "codec \<Rightarrow> instant \<Rightarrow> ('s, 'ev) session_world \<Rightarrow> ('s, 'ev) session_world" where
  "reader_turn c now w =
     (let (v, s) = w; (r, rest) = readFrame (s_in s); s1 = s\<lparr>s_in := rest\<rparr> in
      case r of
        Inl e \<Rightarrow>
          reader_ends (if e = ReadTooLarge
                       then reply c (stream_newError CodeUser OversizePrefix []) (v, s1) else (v, s1))
      | Inr body \<Rightarrow>
          (case dispatch_head c now body (v\<lparr>sv_framesIn := Suc (sv_framesIn v)\<rparr>, s1) of
             (Survives, w') \<Rightarrow> w'
           | (Fatal, w') \<Rightarrow> reader_ends w'
           | (Greets p, (v', s')) \<Rightarrow> (v', s'\<lparr>s_reply := Some p\<rparr>)))"

definition reader_subscribe :: "('s, 'ev) session_world \<Rightarrow> ('s, 'ev) session_world" where
  "reader_subscribe w =
     (let (v, s) = w in
      case s_reply s of
        None \<Rightarrow> (v, s)
      | Some p \<Rightarrow>
          (case hello_subscribe p (s\<lparr>s_reply := None\<rparr>) of
             (False, s') \<Rightarrow> reader_ends (v, s') | (True, s') \<Rightarrow> (v, s')))"

definition reader_greet :: "('s, 'ev) session_world \<Rightarrow> ('s, 'ev) session_world" where
  "reader_greet w = (case hello_write w of (True, w') \<Rightarrow> w' | (False, w') \<Rightarrow> reader_ends w')"

section \<open>The wire\<close>

definition item_payload :: "wire_item \<Rightarrow> payload" where
  "item_payload x = (case x of Whole p \<Rightarrow> p | Part p _ \<Rightarrow> p)"

definition frame_bytes :: "codec \<Rightarrow> payload \<Rightarrow> bytes" where
  "frame_bytes c p = (case encodeFrame (cd_marshal c) p of Inl _ \<Rightarrow> [] | Inr b \<Rightarrow> b)"

definition item_bytes :: "codec \<Rightarrow> wire_item \<Rightarrow> bytes" where
  "item_bytes c x = (case x of Whole p \<Rightarrow> frame_bytes c p | Part p n \<Rightarrow> take n (frame_bytes c p))"

definition wire_bytes :: "codec \<Rightarrow> stream_session \<Rightarrow> bytes" where
  "wire_bytes c s = concat (map (item_bytes c) (s_wire s))"

definition payloads :: "stream_session \<Rightarrow> payload list" where
  "payloads s = map item_payload (s_wire s)"

lemma dispatch_hello:
  assumes "decodeHeader (cd_parse c) body = Some h" "hd_V h = Some Version" "hd_Kind h = KindHello"
    "\<not> s_greeted (snd w)"
  shows "dispatch c now body w = handleHello c body w"
  using assms by (simp add: dispatch_def dispatch_head_def handleHello_def)

end
