(* ===== verification/Stream_Server.thy ===== *)
theory Stream_Server
  imports Stream_Session
begin

text \<open>
  The stream endpoint, \<open>internal/stream/server.go\<close> with \<open>config.go\<close> and \<open>listener.go\<close>: the
  configuration, construction and listening, the one owner of the socket, the engine's sink, heartbeat
  and event consumer, and the close in its three steps.

  What the operating system answers is the parameter \<open>os\<close>, what was asked of it a list of calls. A connection
  is the bytes its peer will have sent and the outcomes of the writes to it. The grace periods of a close are
  flags: whether the flush was given up, whether the end frame was written in time. The default clock and
  logger, and the lock and the atomics of the endpoint, are left out.
\<close>

section \<open>Configuration\<close>

definition DefaultSocketName :: string where
  "DefaultSocketName = ''engine.sock''"

definition DefaultOutboundQueue :: int where
  "DefaultOutboundQueue = 8"

definition DefaultMaxInflightMgmt :: int where
  "DefaultMaxInflightMgmt = 4"

definition DefaultHeartbeatEvery :: duration where
  "DefaultHeartbeatEvery = second"

datatype dir_stat = StatFails | StatDir | StatOther

datatype lstat = LstatNotExist | LstatFails | LstatSocket | LstatOther

record os =
  os_stat :: "string \<Rightarrow> dir_stat"
  os_lstat :: "string \<Rightarrow> lstat"
  os_remove :: "string \<Rightarrow> bool"
  os_listen :: "string \<Rightarrow> string \<Rightarrow> string option"
  os_chmod :: "string \<Rightarrow> bool"
  os_join :: "string \<Rightarrow> string \<Rightarrow> string"

datatype os_call = CallRemove string | CallListen string string | CallChmod string | CallClose

datatype config_error =
    InsecureTCPRefused string | NoSocketDir | DirUnreadable string | DirNotADirectory string
  | StdioIncomplete

definition checkDir :: "os \<Rightarrow> stream_config \<Rightarrow> (config_error, unit) result" where
  "checkDir os c =
     (if sc_Dir c = [] then Inl NoSocketDir
      else case os_stat os (sc_Dir c) of
             StatFails \<Rightarrow> Inl (DirUnreadable (sc_Dir c))
           | StatOther \<Rightarrow> Inl (DirNotADirectory (sc_Dir c))
           | StatDir \<Rightarrow> Inr ())"

definition normalize :: "os \<Rightarrow> bool \<Rightarrow> stream_config \<Rightarrow> (config_error, stream_config) result" where
  "normalize os stdio c0 =
     (let c = c0\<lparr>sc_OutboundQueue := (if sc_OutboundQueue c0 \<le> 0 then DefaultOutboundQueue else sc_OutboundQueue c0),
                 sc_MaxInflightMgmt := (if sc_MaxInflightMgmt c0 \<le> 0 then DefaultMaxInflightMgmt else sc_MaxInflightMgmt c0),
                 sc_HeartbeatEvery := (if sc_HeartbeatEvery c0 = 0 then DefaultHeartbeatEvery else sc_HeartbeatEvery c0),
                 sc_SocketName := (if sc_SocketName c0 = [] then DefaultSocketName else sc_SocketName c0)\<rparr>
      in if stdio then Inr c
         else if sc_TCPAddr c \<noteq> [] then
           (if \<not> sc_InsecureTCP c then Inl (InsecureTCPRefused (sc_TCPAddr c)) else Inr c)
         else rbind (checkDir os c) (\<lambda>_. Inr c))"

section \<open>Construction\<close>

type_synonym peer = "bytes \<times> (nat \<Rightarrow> nat option)"

text \<open>The session's consumer on the engine only enqueues: it does not panic.\<close>

definition Attach :: "('s, 'ev) engine option \<Rightarrow> ('s, 'ev) server \<Rightarrow> ('s, 'ev) server" where
  "Attach eng v =
     (case eng of None \<Rightarrow> v
      | Some e \<Rightarrow> if sv_engine v \<noteq> None then v
                  else v\<lparr>sv_engine := Some (OnEvent (Some (\<lambda>_. None)) e)\<rparr>)"

definition newServer ::
  "os \<Rightarrow> stream_config \<Rightarrow> ('s, 'ev) engine option \<Rightarrow> snapshot option \<Rightarrow> bool \<Rightarrow> peer option
     \<Rightarrow> (config_error, ('s, 'ev) server) result" where
  "newServer os c eng sns mgmt stdio =
     rbind (normalize os (stdio \<noteq> None) c) (\<lambda>cfg.
       let v = \<lparr>sv_cfg = cfg, sv_sense = sns, sv_mgmt = mgmt, sv_stdio = stdio \<noteq> None, sv_engine = None,
                sv_listener = None, sv_addr = [], sv_sess = None, sv_closed = False,
                sv_stdinClosed = False, sv_endReason = None, sv_lastBeat = 0, sv_ticks = 0,
                sv_framesIn = 0, sv_framesOut = 0, sv_drops = 0, sv_refused = 0,
                sv_close = NotClosing, sv_log = [], sv_heap = (\<lambda>i. newSession i [] (\<lambda>_. None)),
                sv_next = 0\<rparr>;
           v1 = (case stdio of None \<Rightarrow> v
                 | Some (r, w) \<Rightarrow> v\<lparr>sv_sess := Some 0, sv_heap := (sv_heap v)(0 := newSession 0 r w),
                                    sv_next := 1\<rparr>)
       in Inr (Attach eng v1))"

definition stream_New ::
  "os \<Rightarrow> stream_config \<Rightarrow> ('s, 'ev) engine option \<Rightarrow> snapshot option \<Rightarrow> bool
     \<Rightarrow> (config_error, ('s, 'ev) server) result" where
  "stream_New os c eng sns mgmt = newServer os c eng sns mgmt None"

text \<open>A nil reader or writer of the child process is \<open>None\<close>.\<close>

definition NewStdio ::
  "os \<Rightarrow> stream_config \<Rightarrow> ('s, 'ev) engine option \<Rightarrow> snapshot option \<Rightarrow> bool
     \<Rightarrow> bytes option \<Rightarrow> (nat \<Rightarrow> nat option) option \<Rightarrow> (config_error, ('s, 'ev) server) result" where
  "NewStdio os c eng sns mgmt r w =
     (case (r, w) of
        (Some r', Some w') \<Rightarrow> newServer os c eng sns mgmt (Some (r', w'))
      | _ \<Rightarrow> Inl StdioIncomplete)"

section \<open>Listening\<close>

datatype listen_error =
    AlreadyListening | ListenFails string | NotExaminable string | NotASocket string
  | NotRemovable string | NotRestrictable string

definition removeStaleSocket :: "os \<Rightarrow> string \<Rightarrow> listen_error option \<times> os_call list" where
  "removeStaleSocket os path =
     (case os_lstat os path of
        LstatNotExist \<Rightarrow> (None, [])
      | LstatFails \<Rightarrow> (Some (NotExaminable path), [])
      | LstatOther \<Rightarrow> (Some (NotASocket path), [])
      | LstatSocket \<Rightarrow>
          (if os_remove os path then (None, [CallRemove path])
           else (Some (NotRemovable path), [CallRemove path])))"

definition stream_Listen ::
  "os \<Rightarrow> ('s, 'ev) server \<Rightarrow> listen_error option \<times> ('s, 'ev) server \<times> os_call list" where
  "stream_Listen os v =
     (if sv_stdio v then (None, v, [])
      else if sv_listener v \<noteq> None then (Some AlreadyListening, v, [])
      else if sc_TCPAddr (sv_cfg v) \<noteq> [] then
        (let a = sc_TCPAddr (sv_cfg v) in
         case os_listen os ''tcp'' a of
           None \<Rightarrow> (Some (ListenFails a), v, [CallListen ''tcp'' a])
         | Some l \<Rightarrow> (None, v\<lparr>sv_listener := Some (''tcp'', l), sv_addr := l\<rparr>, [CallListen ''tcp'' a]))
      else
        (let path = os_join os (sc_Dir (sv_cfg v)) (sc_SocketName (sv_cfg v)) in
         case removeStaleSocket os path of
           (Some err, calls) \<Rightarrow> (Some err, v, calls)
         | (None, calls) \<Rightarrow>
             (case os_listen os ''unix'' path of
                None \<Rightarrow> (Some (ListenFails path), v, calls @ [CallListen ''unix'' path])
              | Some l \<Rightarrow>
                  if \<not> os_chmod os path
                  then (Some (NotRestrictable path), v,
                        calls @ [CallListen ''unix'' path, CallChmod path, CallClose])
                  else (None, v\<lparr>sv_listener := Some (''unix'', path), sv_addr := path\<rparr>,
                        calls @ [CallListen ''unix'' path, CallChmod path]))))"

definition Addr :: "('s, 'ev) server \<Rightarrow> string" where
  "Addr v = sv_addr v"

record stream_stats =
  FramesIn :: nat
  FramesOut :: nat
  FrameDrops :: nat
  Refused :: nat

definition stream_Stats :: "('s, 'ev) server \<Rightarrow> stream_stats" where
  "stream_Stats v = \<lparr>FramesIn = sv_framesIn v, FramesOut = sv_framesOut v, FrameDrops = sv_drops v,
     Refused = sv_refused v\<rparr>"

section \<open>Owners\<close>

text \<open>An operation of session \<open>i\<close>.\<close>

definition on_session ::
  "nat \<Rightarrow> (('s, 'ev) session_world \<Rightarrow> ('s, 'ev) session_world) \<Rightarrow> ('s, 'ev) server \<Rightarrow> ('s, 'ev) server" where
  "on_session i f v = (let (v', s') = f (v, sv_heap v i) in v'\<lparr>sv_heap := (sv_heap v')(i := s')\<rparr>)"

text \<open>An operation of the live session, if there is one.\<close>

definition on_live ::
  "(('s, 'ev) session_world \<Rightarrow> ('s, 'ev) session_world) \<Rightarrow> ('s, 'ev) server \<Rightarrow> ('s, 'ev) server" where
  "on_live f v = (case sv_sess v of None \<Rightarrow> v | Some i \<Rightarrow> on_session i f v)"

text \<open>What \<open>writeDirect\<close> puts on a connection that is no session.\<close>

definition writeDirect ::
  "codec \<Rightarrow> (nat \<Rightarrow> nat option) \<Rightarrow> payload \<Rightarrow> ('s, 'ev) server \<Rightarrow> wire_item list \<times> ('s, 'ev) server" where
  "writeDirect c w p v =
     (case encodeFrame (cd_marshal c) p of
        Inl _ \<Rightarrow> ([], v)
      | Inr _ \<Rightarrow> (case w 0 of None \<Rightarrow> ([Whole p], count_out v) | Some n \<Rightarrow> ([Part p n], v)))"

definition handleConn ::
  "codec \<Rightarrow> peer \<Rightarrow> ('s, 'ev) server \<Rightarrow> wire_item list \<times> ('s, 'ev) server" where
  "handleConn c conn v =
     (if sv_sess v \<noteq> None \<or> sv_closed v
      then writeDirect c (snd conn) (stream_newError CodeUser HasOwner []) (v\<lparr>sv_refused := Suc (sv_refused v)\<rparr>)
      else ([], v\<lparr>sv_sess := Some (sv_next v), sv_next := Suc (sv_next v),
                  sv_heap := (sv_heap v)(sv_next v := newSession (sv_next v) (fst conn) (snd conn))\<rparr>))"

section \<open>The engine's sink, seam and event consumer\<close>

definition stream_Write :: "pose \<Rightarrow> ('s, 'ev) server \<Rightarrow> string option \<times> ('s, 'ev) server" where
  "stream_Write p v =
     (let v1 = v\<lparr>sv_ticks := Suc (sv_ticks v)\<rparr>
      in (None, on_live (session_enqueue KindPose (PoseOut (sv_ticks v1) p)) v1))"

definition stream_Seam :: "tick_context \<Rightarrow> ('s, 'ev) server \<Rightarrow> ('s, 'ev) server" where
  "stream_Seam ctx v =
     (let every = sc_HeartbeatEvery (sv_cfg v) in
      if every \<le> 0 then v
      else if time_IsZero (sv_lastBeat v) then v\<lparr>sv_lastBeat := tc_Now ctx\<rparr>
      else if time_Sub (tc_Now ctx) (sv_lastBeat v) < every then v
      else on_live (session_enqueue KindHeartbeat (HeartbeatOut (tc_Tick ctx) (tc_Now ctx)))
             (v\<lparr>sv_lastBeat := sv_lastBeat v + every\<rparr>))"

definition onEvent :: "string \<Rightarrow> table \<Rightarrow> ('s, 'ev) server \<Rightarrow> ('s, 'ev) server" where
  "onEvent name data v = on_live (session_enqueue KindEvent (EventOut name data)) v"

text \<open>\<open>None\<close> is the nil channel of a socket server, otherwise whether the channel is closed.\<close>

definition StdinClosed :: "('s, 'ev) server \<Rightarrow> bool option" where
  "StdinClosed v = (if \<not> sv_stdio v then None else Some (sv_stdinClosed v))"

section \<open>Closing\<close>

definition close_begin :: "string \<Rightarrow> ('s, 'ev) server \<Rightarrow> ('s, 'ev) server" where
  "close_begin reason v =
     (if sv_close v \<noteq> NotClosing then v
      else let r = (case sv_endReason v of Some known \<Rightarrow> known | None \<Rightarrow> reason)
           in v\<lparr>sv_closed := True, sv_sess := None,
                sv_close := (case sv_sess v of None \<Rightarrow> Closed | Some i \<Rightarrow> Flushing i r)\<rparr>)"

text \<open>The test of \<open>flushWithin\<close>.\<close>

definition drained :: "stream_session \<Rightarrow> bool" where
  "drained s \<longleftrightarrow> s_queued s \<le> s_written s"

text \<open>\<open>flushWithin\<close> returns: drained, over for the session or its writer, or given up.\<close>

definition close_flushed :: "bool \<Rightarrow> ('s, 'ev) server \<Rightarrow> ('s, 'ev) server" where
  "close_flushed givenUp v =
     (case sv_close v of
        Flushing i r \<Rightarrow>
          (let s = sv_heap v i in
           if drained s \<or> s_quit s \<or> s_writerDone s \<or> givenUp then v\<lparr>sv_close := Ending i r\<rparr> else v)
      | _ \<Rightarrow> v)"

definition close_end :: "codec \<Rightarrow> bool \<Rightarrow> ('s, 'ev) server \<Rightarrow> ('s, 'ev) server" where
  "close_end c inTime v =
     (case sv_close v of
        Ending i r \<Rightarrow>
          (let v1 = v\<lparr>sv_close := Shutting i\<rparr>
           in if inTime then on_session i (reply c (EndOut r)) v1 else v1)
      | _ \<Rightarrow> v)"

definition close_shut :: "('s, 'ev) server \<Rightarrow> ('s, 'ev) server" where
  "close_shut v =
     (case sv_close v of
        Shutting i \<Rightarrow> on_session i (\<lambda>(v, s). (v, session_shutdown s)) (v\<lparr>sv_close := Closed\<rparr>)
      | _ \<Rightarrow> v)"

text \<open>The three steps with nothing in between, the flush over at the latest when it is given up.\<close>

definition closeWithReason :: "codec \<Rightarrow> bool \<Rightarrow> string \<Rightarrow> ('s, 'ev) server \<Rightarrow> ('s, 'ev) server" where
  "closeWithReason c inTime reason v =
     close_shut (close_end c inTime (close_flushed True (close_begin reason v)))"

definition stream_Close :: "codec \<Rightarrow> bool \<Rightarrow> ('s, 'ev) server \<Rightarrow> ('s, 'ev) server" where
  "stream_Close c inTime v = closeWithReason c inTime ''closed'' v"

definition stream_firstLine :: "string \<Rightarrow> string" where
  "stream_firstLine text = takeWhile (\<lambda>ch. ch \<noteq> newline) text"

text \<open>The reason \<open>RunWith\<close> closes with, from the error \<open>run\<close> returned.\<close>

definition runReason :: "string option \<Rightarrow> string" where
  "runReason err =
     (case err of Some text \<Rightarrow> ''engine-error: '' @ stream_firstLine text | None \<Rightarrow> ''engine-stopped'')"

definition RunWith ::
  "codec \<Rightarrow> bool \<Rightarrow> (('s, 'ev) server \<Rightarrow> string option \<times> ('s, 'ev) server) \<Rightarrow> ('s, 'ev) server
     \<Rightarrow> string option \<times> ('s, 'ev) server" where
  "RunWith c inTime run v =
     (let (err, v1) = run v in (err, closeWithReason c inTime (runReason err) v1))"

end
