(* ===== verification/Stream_Steps.thy ===== *)
theory Stream_Steps
  imports Stream_Server
begin

text \<open>
  The goroutines of the stream endpoint, interleaved. \<open>stream_run\<close> starts from an endpoint and takes one
  step of any of them at a time: a connection is accepted, the tick goroutine counts a frame or puts it on the
  queue, the writer takes a frame, writes it or leaves, the reader reads a frame, subscribes or greets, a
  management verb ends, the close goes on. The write lock is \<open>s_hello\<close>: while a hello is between
  its subscription and its write, no other write of that session happens. What is shown is an invariant of every
  session, \<open>sess_ok\<close>, and one of the endpoint, \<open>owner_ok\<close>.
\<close>

section \<open>Payloads\<close>

fun telemetry :: "payload \<Rightarrow> bool" where
  "telemetry (PoseOut _ _) = True"
| "telemetry (EventOut _ _) = True"
| "telemetry (HeartbeatOut _ _) = True"
| "telemetry _ = False"

fun is_hello :: "payload \<Rightarrow> bool" where
  "is_hello (HelloOut _) = True"
| "is_hello _ = False"

fun is_end :: "payload \<Rightarrow> bool" where
  "is_end (EndOut _) = True"
| "is_end _ = False"

fun is_error :: "payload \<Rightarrow> bool" where
  "is_error (ErrorOut _ _ _) = True"
| "is_error _ = False"

definition encodable :: "codec \<Rightarrow> payload \<Rightarrow> bool" where
  "encodable c p \<longleftrightarrow> (\<exists>b. encodeFrame (cd_marshal c) p = Inr b)"

lemma encodable_simps:
  "encodeFrame (cd_marshal c) p = Inr b \<Longrightarrow> encodable c p"
  "encodeFrame (cd_marshal c) p = Inl e \<Longrightarrow> \<not> encodable c p"
  by (auto simp: encodable_def)

section \<open>What a step leaves alone\<close>

definition vframe where
  "vframe v = (sv_cfg v, sv_stdio v, sv_closed v, sv_close v, sv_heap v, sv_next v, sv_sess v, sv_mgmt v)"

lemma vframe_simps [simp]:
  "vframe (stream_drop a b v) = vframe v" "vframe (stream_note a b v) = vframe v"
  "vframe (count_out v) = vframe v" "vframe (v\<lparr>sv_framesIn := n\<rparr>) = vframe v"
  "vframe (v\<lparr>sv_engine := e\<rparr>) = vframe v" "vframe (v\<lparr>sv_sense := sn\<rparr>) = vframe v"
  "vframe (v\<lparr>sv_ticks := n\<rparr>) = vframe v" "vframe (v\<lparr>sv_lastBeat := t\<rparr>) = vframe v"
  "vframe (v\<lparr>sv_endReason := r\<rparr>) = vframe v" "vframe (v\<lparr>sv_stdinClosed := b1\<rparr>) = vframe v"
  by (simp_all add: vframe_def stream_drop_def stream_note_def count_out_def)

lemma vframe_fields:
  assumes "vframe v' = vframe v"
  shows "sv_cfg v' = sv_cfg v" "sv_stdio v' = sv_stdio v" "sv_closed v' = sv_closed v"
    "sv_close v' = sv_close v" "sv_heap v' = sv_heap v" "sv_next v' = sv_next v" "sv_sess v' = sv_sess v"
    "sv_mgmt v' = sv_mgmt v" "queueCap v' = queueCap v" "inflightCap v' = inflightCap v"
  using assms by (simp_all add: vframe_def queueCap_def inflightCap_def)

text \<open>A direct write puts at most its one payload on the wire, and only if it could be encoded.\<close>

definition speaks :: "codec \<Rightarrow> (payload \<Rightarrow> bool) \<Rightarrow> ('s, 'ev) session_world \<Rightarrow> ('s, 'ev) session_world \<Rightarrow> bool" where
  "speaks c P w w' \<longleftrightarrow> vframe (fst w') = vframe (fst w) \<and>
     (\<exists>xs. snd w' = (snd w)\<lparr>s_wire := s_wire (snd w) @ xs\<rparr> \<and>
           (xs = [] \<or> (\<exists>x. xs = [x] \<and> P (item_payload x) \<and> encodable c (item_payload x))))"

lemma says_nothing: "vframe v' = vframe (fst w) \<Longrightarrow> speaks c P w (v', snd w)"
  unfolding speaks_def by (auto intro!: exI[of _ "[]"])

lemma w_Write_item:
  "w_Write p s = (ok, s') \<Longrightarrow> \<exists>x. item_payload x = p \<and> s' = s\<lparr>s_wire := s_wire s @ [x]\<rparr>
     \<and> (ok \<longleftrightarrow> x = Whole p)"
proof (cases "s_w s (length (s_wire s))")
  case None
  assume "w_Write p s = (ok, s')"
  then show ?thesis by (intro exI[of _ "Whole p"]) (auto simp: w_Write_def None item_payload_def)
next
  case (Some n)
  assume "w_Write p s = (ok, s')"
  then show ?thesis by (intro exI[of _ "Part p n"]) (auto simp: w_Write_def Some item_payload_def)
qed

lemma reply_says: "P p \<Longrightarrow> speaks c P w (reply c p w)"
proof (cases w)
  case (Pair v s)
  assume P: "P p"
  consider (quiet) "reply c p w = (v, s)"
    | (sent) x v' where "encodable c p" "item_payload x = p" "vframe v' = vframe v"
        "reply c p w = (v', s\<lparr>s_wire := s_wire s @ [x]\<rparr>)"
  proof (cases "encodeFrame (cd_marshal c) p")
    case (Inr b)
    obtain ok s' where w': "w_Write p s = (ok, s')" by (rule prod.exhaust)
    show thesis
    proof (cases "s_quit s")
      case False
      obtain x where x: "item_payload x = p" "s' = s\<lparr>s_wire := s_wire s @ [x]\<rparr>" using w_Write_item[OF w'] by auto
      show thesis by (rule sent[of x "if ok then count_out v else v"])
          (use False Inr w' x in \<open>auto simp: reply_def session_send_def Pair encodable_def split: bool.splits\<close>)
    qed (use quiet Inr in \<open>simp add: reply_def session_send_def Pair\<close>)
  qed (use quiet in \<open>simp add: reply_def session_send_def Pair\<close>)
  then show ?thesis
  proof cases
    case quiet
    then show ?thesis using says_nothing[of v w] by (simp add: Pair)
  next
    case (sent x v')
    then show ?thesis using P unfolding speaks_def by (auto simp: Pair intro!: exI[of _ "[x]"])
  qed
qed

lemma says_trans_left:
  "vframe (fst w1) = vframe (fst w) \<Longrightarrow> snd w1 = snd w \<Longrightarrow> speaks c P w1 w' \<Longrightarrow> speaks c P w w'"
  by (simp add: speaks_def)

lemma refuse_says: "refuse c code what i d w = (d', w') \<Longrightarrow> d' = d \<and> speaks c is_error w w'"
  using reply_says[of is_error "stream_newError code what i" c w]
  by (auto simp: refuse_def stream_newError_def)

lemma sendCommand_says: "speaks c is_error w (sendCommand c cmd i w)"
proof (cases "sv_engine (fst w)")
  case (Some e)
  obtain ok e' where S: "Send cmd e = (ok, e')" by (rule prod.exhaust)
  let ?w1 = "((fst w)\<lparr>sv_engine := Some e'\<rparr>, snd w)"
  have "speaks c is_error ?w1 (reply c (stream_newError CodeEnv EngineInboxFull i) ?w1)"
    by (rule reply_says) (simp add: stream_newError_def)
  then have "speaks c is_error w (reply c (stream_newError CodeEnv EngineInboxFull i) ?w1)"
    by (rule says_trans_left[rotated 2]) simp_all
  moreover have "speaks c is_error w ?w1" by (rule says_nothing) simp
  ultimately show ?thesis by (simp add: sendCommand_def Some S Let_def)
qed (simp add: sendCommand_def says_nothing[of "fst w" w, simplified])

lemma stream_admit_says: "speaks c is_error w (stream_admit c f w)"
  using reply_says[of is_error _ c w] sendCommand_says[of c w]
  by (auto simp: stream_admit_def stream_newError_def split: option.splits sum.splits)

text \<open>What the head of \<open>dispatch\<close> may leave behind.\<close>

lemma handleSense_says: "handleSense c now body w = (d, w') \<Longrightarrow> d = Survives \<and> speaks c is_error w w'"
  by (auto simp: handleSense_def says_nothing dest!: refuse_says split: option.splits)

lemma handleIntent_says: "handleIntent c body w = (d, w') \<Longrightarrow> d = Survives \<and> speaks c is_error w w'"
  by (auto simp: handleIntent_def sendCommand_says stream_admit_says dest!: refuse_says
      split: option.splits if_splits)

lemma handleMgmt_cases:
  assumes "handleMgmt c body (v, s) = (d, (v', s'))"
  shows "d = Survives \<and> (speaks c is_error (v, s) (v', s') \<or>
    (v' = v \<and> s_mgmtInflight s < inflightCap v \<and>
     (\<exists>x. s' = s\<lparr>s_mgmtInflight := Suc (s_mgmtInflight s), s_verbs := s_verbs s @ [x]\<rparr>)))"
proof (cases "decodeMgmt (cd_parse c) body")
  case (Some f)
  let ?busy = "(stream_drop KindMgmt ''mgmt-busy'' v, s)"
  consider (none) "\<not> sv_mgmt v" | (busy) "sv_mgmt v" "\<not> s_mgmtInflight s < inflightCap v"
    | (runs) "sv_mgmt v" "s_mgmtInflight s < inflightCap v" by blast
  then show ?thesis
  proof cases
    case busy
    then have "refuse c CodeEnv (MgmtBusy (inflightCap v)) (mi_ID f) Survives ?busy = (d, (v', s'))"
      using assms by (auto simp: handleMgmt_def Some Let_def)
    from refuse_says[OF this] have r: "d = Survives" "speaks c is_error ?busy (v', s')" by auto
    have "speaks c is_error (v, s) (v', s')" by (rule says_trans_left[OF _ _ r(2)]) simp_all
    then show ?thesis using r(1) by simp
  qed (use assms in \<open>auto simp: handleMgmt_def Some Let_def dest!: refuse_says\<close>)
qed (use assms in \<open>auto simp: handleMgmt_def dest!: refuse_says\<close>)

lemma hello_check_cases:
  assumes "hello_check c body (v, s) = (d, (v', s'))"
  shows "(d = Fatal \<and> speaks c is_error (v, s) (v', s'))
    \<or> (vframe v' = vframe v \<and> s' = s\<lparr>s_greeted := True\<rparr> \<and>
       (d = Fatal \<or> (\<exists>ver. d = Greets (HelloOut ver) \<and> encodable c (HelloOut ver))))"
  using assms
  by (auto simp: hello_check_def Let_def encodable_def dest!: refuse_says
      split: option.splits if_splits sum.splits)

inductive head_result ::
  "codec \<Rightarrow> ('s, 'ev) session_world \<Rightarrow> verdict \<Rightarrow> ('s, 'ev) session_world \<Rightarrow> bool" for c w
where
  answered: "speaks c is_error w w' \<Longrightarrow> (d = Survives \<and> s_greeted (snd w)) \<or> d = Fatal \<Longrightarrow> head_result c w d w'"
| greeted_badly: "\<not> s_greeted (snd w) \<Longrightarrow> vframe v' = vframe (fst w) \<Longrightarrow>
    head_result c w Fatal (v', (snd w)\<lparr>s_greeted := True\<rparr>)"
| greeted: "\<not> s_greeted (snd w) \<Longrightarrow> vframe v' = vframe (fst w) \<Longrightarrow> encodable c (HelloOut ver) \<Longrightarrow>
    head_result c w (Greets (HelloOut ver)) (v', (snd w)\<lparr>s_greeted := True\<rparr>)"
| started: "s_greeted (snd w) \<Longrightarrow> s_mgmtInflight (snd w) < inflightCap (fst w) \<Longrightarrow>
    head_result c w Survives (fst w, (snd w)\<lparr>s_mgmtInflight := Suc (s_mgmtInflight (snd w)),
      s_verbs := s_verbs (snd w) @ [x]\<rparr>)"

lemma dispatch_head_result:
  assumes "dispatch_head c now body (v, s) = (d, (v', s'))"
  shows "head_result c (v, s) d (v', s')"
proof -
  have fatal: "refuse c code what i Fatal (v, s) = (d, (v', s')) \<Longrightarrow> ?thesis" for code what i
    using refuse_says by (fastforce intro: answered)
  have lives: "d = Survives \<Longrightarrow> speaks c is_error (v, s) (v', s') \<Longrightarrow> s_greeted s \<Longrightarrow> ?thesis"
    by (auto intro: answered)
  show ?thesis
  proof (cases "decodeHeader (cd_parse c) body")
    case None
    then show ?thesis using assms by (intro fatal) (simp add: dispatch_head_def)
  next
    case (Some h)
    consider (nov) "hd_V h = None" | (badv) ver where "hd_V h = Some ver" "ver \<noteq> Version"
      | (first) "hd_V h = Some Version" "\<not> s_greeted s" "hd_Kind h \<noteq> KindHello"
      | (hello) "hd_V h = Some Version" "\<not> s_greeted s" "hd_Kind h = KindHello"
      | (again) "hd_V h = Some Version" "s_greeted s" "hd_Kind h = KindHello"
      | (later) "hd_V h = Some Version" "s_greeted s" "hd_Kind h \<noteq> KindHello" by (cases "hd_V h") auto
    then show ?thesis
    proof cases
      case hello
      have "hello_check c body (v, s) = (d, (v', s'))" using assms hello by (simp add: dispatch_head_def Some)
      from hello_check_cases[OF this] show ?thesis
        using hello greeted_badly[of "(v, s)" v' c] greeted[of "(v, s)" v' c] by (auto intro: answered)
    next
      case later
      show ?thesis
      proof (cases "hd_Kind h = KindMgmt")
        case True
        have "handleMgmt c body (v, s) = (d, (v', s'))" using assms later True
          by (simp add: dispatch_head_def Some kind_defs)
        from handleMgmt_cases[OF this] show ?thesis
          using later started[of "(v, s)" c] by (auto intro: answered)
      next
        case False
        have "d = Survives \<and> speaks c is_error (v, s) (v', s')"
          using assms later False by (auto simp: dispatch_head_def Some handleSense_says handleIntent_says
              dest!: refuse_says split: if_splits)
        then show ?thesis using later by (intro lives) auto
      qed
    qed (use assms in \<open>auto simp: dispatch_head_def Some intro: fatal\<close>)
  qed
qed

end
