(* ===== verification/Stream_Runs.thy ===== *)
theory Stream_Runs
  imports Stream_Steps
begin

text \<open>
  The invariant of a session, \<open>sess_ok\<close>, and that every operation keeps it; then the runs of the endpoint,
  \<open>stream_run\<close>, and what holds after each. \<open>acc\<close> is the list of frames the queue of the session has accepted.
\<close>

section \<open>The invariant of a session\<close>

definition opt_list :: "'a option \<Rightarrow> 'a list" where
  "opt_list x = (case x of None \<Rightarrow> [] | Some a \<Rightarrow> [a])"

lemma opt_list_simps [simp]: "opt_list None = []" "opt_list (Some a) = [a]"
  by (simp_all add: opt_list_def)

text \<open>Frames accepted and not yet on the wire, oldest first.\<close>

definition unwritten :: "stream_session \<Rightarrow> out_frame list" where
  "unwritten s = opt_list (s_hand s) @ s_out s"

definition count_ok :: "nat \<Rightarrow> stream_session \<Rightarrow> bool" where
  "count_ok cap s \<longleftrightarrow> length (s_out s) \<le> cap \<and>
     s_written s + length (unwritten s) + length (opt_list (s_offer s)) \<le> s_queued s"

definition fifo_ok :: "codec \<Rightarrow> stream_session \<Rightarrow> out_frame list \<Rightarrow> bool" where
  "fifo_ok c s acc \<longleftrightarrow>
     filter telemetry (payloads s) @ filter (encodable c) (map snd (unwritten s))
       = filter (encodable c) (map snd acc)
     \<and> (\<forall>p \<in> set (payloads s). encodable c p)
     \<and> (\<forall>f \<in> set (unwritten s) \<union> set (opt_list (s_offer s)). telemetry (snd f))"

definition verbs_ok :: "nat \<Rightarrow> stream_session \<Rightarrow> bool" where
  "verbs_ok bnd s \<longleftrightarrow> s_mgmtInflight s = length (s_verbs s) \<and> s_mgmtInflight s \<le> bnd"

text \<open>
  Before the hello there is nothing on the wire but the end of the stream, or the errors that refused the
  peer, and then no hello follows.
\<close>

definition before_hello :: "payload list \<Rightarrow> payload list" where
  "before_hello ps = takeWhile (\<lambda>p. \<not> is_hello p) ps"

definition hello_first :: "payload list \<Rightarrow> bool" where
  "hello_first ps \<longleftrightarrow> (\<forall>p \<in> set (before_hello ps). is_end p \<or> is_error p)
     \<and> (before_hello ps \<noteq> ps \<longrightarrow> (\<forall>p \<in> set (before_hello ps). is_end p))"

definition said_hello :: "stream_session \<Rightarrow> bool" where
  "said_hello s \<longleftrightarrow> (\<exists>p \<in> set (payloads s). is_hello p)"

text \<open>A reader that may still greet.\<close>

definition may_greet :: "stream_session \<Rightarrow> bool" where
  "may_greet s \<longleftrightarrow> s_reading s \<and> (\<not> s_greeted s \<or> s_reply s \<noteq> None \<or> s_hello s \<noteq> None)"

definition greet_ok :: "codec \<Rightarrow> stream_session \<Rightarrow> bool" where
  "greet_ok c s \<longleftrightarrow> hello_first (payloads s)
     \<and> length (filter is_hello (payloads s)) + length (opt_list (s_reply s)) + length (opt_list (s_hello s)) \<le> 1
     \<and> (\<forall>p \<in> set (opt_list (s_reply s) @ opt_list (s_hello s)). is_hello p \<and> encodable c p)
     \<and> (s_reply s \<noteq> None \<or> s_hello s \<noteq> None \<longrightarrow> s_greeted s \<and> s_reading s)
     \<and> (\<not> s_greeted s \<longrightarrow> \<not> said_hello s)
     \<and> (may_greet s \<longrightarrow> (\<forall>p \<in> set (payloads s). is_end p))
     \<and> (s_subscribed s \<and> s_hello s = None \<longrightarrow> said_hello s)
     \<and> (s_reading s \<and> \<not> may_greet s \<longrightarrow> said_hello s)
     \<and> (s_verbs s \<noteq> [] \<longrightarrow> said_hello s)
     \<and> (unwritten s \<noteq> [] \<or> s_offer s \<noteq> None \<longrightarrow> s_subscribed s)"

definition sess_ok :: "codec \<Rightarrow> nat \<Rightarrow> nat \<Rightarrow> stream_session \<Rightarrow> out_frame list \<Rightarrow> bool" where
  "sess_ok c cap bnd s acc \<longleftrightarrow> count_ok cap s \<and> fifo_ok c s acc \<and> verbs_ok bnd s \<and> greet_ok c s"

lemma sess_ok_new: "sess_ok c cap bnd (newSession i r w) []"
  by (simp add: sess_ok_def count_ok_def fifo_ok_def verbs_ok_def greet_ok_def hello_first_def said_hello_def
      before_hello_def may_greet_def unwritten_def payloads_def newSession_def)

section \<open>The wire grows at its end\<close>

lemma payloads_wire [simp]: "payloads (s\<lparr>s_wire := s_wire s @ xs\<rparr>) = payloads s @ map item_payload xs"
  by (simp add: payloads_def)

lemma unwritten_wire [simp]: "unwritten (s\<lparr>s_wire := xs\<rparr>) = unwritten s"
  by (simp add: unwritten_def)

lemma hello_kinds:
  "is_end p \<Longrightarrow> \<not> is_hello p \<and> \<not> telemetry p" "is_error p \<Longrightarrow> \<not> is_hello p \<and> \<not> telemetry p"
  "is_hello p \<Longrightarrow> \<not> telemetry p"
  by (cases p; simp)+

lemma before_hello_said: "before_hello ps \<noteq> ps \<longleftrightarrow> (\<exists>p \<in> set ps. is_hello p)"
  unfolding before_hello_def takeWhile_eq_all_conv by blast

lemma before_hello_append:
  "before_hello (ps @ qs) = (if \<exists>p \<in> set ps. is_hello p then before_hello ps else ps @ before_hello qs)"
  by (auto simp: before_hello_def takeWhile_append)

lemma hello_first_append:
  assumes "hello_first ps"
    and "(\<exists>p \<in> set ps. is_hello p) \<or> is_end q \<or> is_error q \<or> is_hello q \<and> (\<forall>p \<in> set ps. is_end p)"
  shows "hello_first (ps @ [q])"
proof (cases "\<exists>p \<in> set ps. is_hello p")
  case True
  then have "before_hello (ps @ [q]) = before_hello ps" by (simp add: before_hello_append)
  moreover have "before_hello ps \<noteq> ps" using True before_hello_said by blast
  ultimately show ?thesis using assms(1) by (simp add: hello_first_def)
next
  case False
  then have b: "before_hello ps = ps" using before_hello_said by blast
  have e: "before_hello (ps @ [q]) = ps @ before_hello [q]" using False by (simp add: before_hello_append)
  show ?thesis
  proof (cases "is_hello q")
    case True
    then have "before_hello [q] = []" by (simp add: before_hello_def)
    moreover have "\<forall>p \<in> set ps. is_end p" using assms(2) False True hello_kinds by blast
    ultimately show ?thesis using e by (simp add: hello_first_def)
  next
    case nq: False
    then have "before_hello [q] = [q]" by (simp add: before_hello_def)
    then show ?thesis using e assms False nq b by (auto simp: hello_first_def)
  qed
qed

section \<open>Every operation keeps it\<close>

text \<open>A direct write of something that is neither telemetry nor a hello.\<close>

lemma sess_ok_wire:
  assumes ok: "sess_ok c cap bnd s acc" and e: "encodable c (item_payload x)" "\<not> telemetry (item_payload x)"
    and p: "is_end (item_payload x) \<or> is_error (item_payload x) \<and> \<not> may_greet s
      \<or> \<not> is_hello (item_payload x) \<and> said_hello s \<and> \<not> may_greet s"
  shows "sess_ok c cap bnd (s\<lparr>s_wire := s_wire s @ [x]\<rparr>) acc"
proof -
  let ?s = "s\<lparr>s_wire := s_wire s @ [x]\<rparr>" and ?p = "item_payload x"
  have nh: "\<not> is_hello ?p" using p hello_kinds by blast
  have g: "greet_ok c s" using ok by (simp add: sess_ok_def)
  have h: "said_hello ?s = said_hello s" using nh by (auto simp: said_hello_def)
  have m: "may_greet ?s = may_greet s" by (simp add: may_greet_def)
  have hf: "hello_first (payloads s @ [?p])"
    by (rule hello_first_append) (use g p in \<open>auto simp: greet_ok_def said_hello_def\<close>)
  have "greet_ok c ?s" using g hf nh p unfolding greet_ok_def h m by auto
  moreover have "fifo_ok c ?s acc" using ok e by (auto simp: sess_ok_def fifo_ok_def)
  moreover have "count_ok cap ?s" "verbs_ok bnd ?s" using ok by (simp_all add: sess_ok_def count_ok_def verbs_ok_def)
  ultimately show ?thesis by (simp add: sess_ok_def)
qed

lemma sess_ok_says:
  assumes "sess_ok c cap bnd s acc" "speaks c P (v, s) (v', s')"
    and "\<And>p. P p \<Longrightarrow> \<not> telemetry p \<and> (is_end p \<or> is_error p \<and> \<not> may_greet s
      \<or> \<not> is_hello p \<and> said_hello s \<and> \<not> may_greet s)"
  shows "sess_ok c cap bnd s' acc"
proof -
  obtain xs where s': "s' = s\<lparr>s_wire := s_wire s @ xs\<rparr>"
    and xs: "xs = [] \<or> (\<exists>x. xs = [x] \<and> P (item_payload x) \<and> encodable c (item_payload x))"
    using assms(2) by (auto simp: speaks_def)
  show ?thesis using xs
  proof (elim disjE exE conjE)
    fix x assume "xs = [x]" "P (item_payload x)" "encodable c (item_payload x)"
    then show ?thesis using sess_ok_wire[OF assms(1), of x] assms(3) by (simp add: s')
  qed (simp add: s' assms(1))
qed

lemma sess_ok_fields:
  "sess_ok c cap bnd (s\<lparr>s_in := r\<rparr>) acc = sess_ok c cap bnd s acc"
  "sess_ok c cap bnd (s\<lparr>s_quit := q\<rparr>) acc = sess_ok c cap bnd s acc"
  "sess_ok c cap bnd (s\<lparr>s_writerDone := d\<rparr>) acc = sess_ok c cap bnd s acc"
  by (simp_all add: sess_ok_def count_ok_def fifo_ok_def verbs_ok_def greet_ok_def said_hello_def
      may_greet_def unwritten_def payloads_def)

text \<open>The queue.\<close>

lemma sess_ok_enqueue_count:
  assumes "sess_ok c cap bnd s acc" "s_offer s = None" "telemetry p"
  shows "sess_ok c cap bnd (snd (enqueue_count k p (v, s))) acc"
  using assms
  by (auto simp: enqueue_count_def sess_ok_def count_ok_def fifo_ok_def verbs_ok_def greet_ok_def said_hello_def
      may_greet_def unwritten_def payloads_def)

definition put_accepts :: "nat \<Rightarrow> stream_session \<Rightarrow> out_frame list" where
  "put_accepts cap s = (if length (s_out s) < cap then opt_list (s_offer s) else [])"

lemma sess_ok_enqueue_put:
  assumes "sess_ok c (queueCap v) bnd s acc"
  shows "sess_ok c (queueCap v) bnd (snd (enqueue_put (v, s))) (acc @ put_accepts (queueCap v) s)"
proof (cases "s_offer s")
  case (Some f)
  have st: "s_subscribed s" "telemetry (snd f)" using assms Some by (simp_all add: sess_ok_def greet_ok_def fifo_ok_def)
  have cnt: "s_written s + length (unwritten s) + 1 \<le> s_queued s" using assms Some by (simp add: sess_ok_def count_ok_def)
  show ?thesis
  proof (cases "length (s_out s) < queueCap v")
    case True
    let ?s = "s\<lparr>s_out := s_out s @ [f], s_offer := None\<rparr>"
    have p: "unwritten ?s = unwritten s @ [f]" by (simp add: unwritten_def)
    have "count_ok (queueCap v) ?s" using True cnt unfolding count_ok_def p by simp
    moreover have "fifo_ok c ?s (acc @ [f])" using assms st(2) unfolding sess_ok_def fifo_ok_def p
      by (auto simp: payloads_def simp flip: append_assoc)
    moreover have "greet_ok c ?s" using assms st(1) unfolding sess_ok_def greet_ok_def p
      by (simp add: payloads_def said_hello_def may_greet_def)
    moreover have "verbs_ok bnd ?s" using assms by (simp add: sess_ok_def verbs_ok_def)
    ultimately show ?thesis by (simp add: enqueue_put_def put_accepts_def Some True sess_ok_def)
  next
    case False
    let ?s = "s\<lparr>s_queued := s_queued s - 1, s_offer := None\<rparr>"
    have p: "unwritten ?s = unwritten s" by (simp add: unwritten_def)
    have "sess_ok c (queueCap v) bnd ?s acc"
      using assms cnt unfolding sess_ok_def count_ok_def fifo_ok_def greet_ok_def verbs_ok_def p
      by (simp add: payloads_def said_hello_def may_greet_def)
    then show ?thesis by (simp add: enqueue_put_def put_accepts_def Some False)
  qed
qed (use assms in \<open>simp add: enqueue_put_def put_accepts_def\<close>)

lemma sess_ok_take:
  assumes "sess_ok c cap bnd s acc" "s_hand s = None"
  shows "sess_ok c cap bnd (writer_take s) acc"
proof (cases "s_out s")
  case (Cons f fs)
  let ?s = "s\<lparr>s_out := fs, s_hand := Some f\<rparr>"
  have p: "unwritten ?s = unwritten s" by (simp add: unwritten_def assms(2) Cons)
  have "sess_ok c cap bnd ?s acc"
    using assms Cons unfolding sess_ok_def count_ok_def fifo_ok_def greet_ok_def verbs_ok_def p
    by (simp add: payloads_def said_hello_def may_greet_def)
  then show ?thesis by (simp add: writer_take_def Cons)
qed (use assms in \<open>simp add: writer_take_def\<close>)

text \<open>The writer, when the lock is free.\<close>

lemma sess_ok_hand_done:
  assumes ok: "sess_ok c cap bnd s acc" and h: "s_hand s = Some f" "\<not> encodable c (snd f)"
    and n: "n \<le> Suc (s_written s)"
  shows "sess_ok c cap bnd (s\<lparr>s_written := n, s_hand := None\<rparr>) acc"
proof -
  let ?s = "s\<lparr>s_written := n, s_hand := None\<rparr>"
  have p: "unwritten s = f # unwritten ?s" by (simp add: unwritten_def h)
  have "count_ok cap ?s" "verbs_ok bnd ?s" using ok n by (auto simp: sess_ok_def count_ok_def verbs_ok_def p)
  moreover have "fifo_ok c ?s acc" using ok h(2) by (auto simp: sess_ok_def fifo_ok_def p payloads_def)
  moreover have "greet_ok c ?s" using ok by (auto simp: sess_ok_def greet_ok_def p payloads_def said_hello_def may_greet_def)
  ultimately show ?thesis by (simp add: sess_ok_def)
qed

lemma sess_ok_hand_written:
  assumes ok: "sess_ok c cap bnd s acc" and h: "s_hand s = Some f" "encodable c (snd f)"
    and x: "item_payload x = snd f" and free: "s_hello s = None" and n: "n \<le> Suc (s_written s)"
  shows "sess_ok c cap bnd (s\<lparr>s_wire := s_wire s @ [x], s_written := n, s_hand := None\<rparr>) acc"
proof -
  let ?s = "s\<lparr>s_wire := s_wire s @ [x], s_written := n, s_hand := None\<rparr>"
  have p: "unwritten s = f # unwritten ?s" by (simp add: unwritten_def h)
  have w: "payloads ?s = payloads s @ [snd f]" by (simp add: payloads_def x)
  have t: "telemetry (snd f)" "s_subscribed s" using ok by (simp_all add: sess_ok_def fifo_ok_def greet_ok_def p)
  then have said: "said_hello s" using ok free by (simp add: sess_ok_def greet_ok_def)
  then have gr: "s_greeted s" using ok by (auto simp: sess_ok_def greet_ok_def)
  have mg: "\<not> may_greet s" using ok said hello_kinds(1) by (auto simp: sess_ok_def greet_ok_def said_hello_def)
  have nh: "\<not> is_hello (snd f)" using t(1) hello_kinds(3) by blast
  have "hello_first (payloads s @ [snd f])"
    by (rule hello_first_append) (use ok said in \<open>auto simp: sess_ok_def greet_ok_def said_hello_def\<close>)
  moreover have "said_hello ?s" "\<not> may_greet ?s" using said mg by (auto simp: said_hello_def w may_greet_def)
  ultimately have "greet_ok c ?s" using ok nh t(2) free gr by (simp add: sess_ok_def greet_ok_def w)
  moreover have "count_ok cap ?s" "verbs_ok bnd ?s" using ok n by (auto simp: sess_ok_def count_ok_def verbs_ok_def p)
  moreover have "fifo_ok c ?s acc" using ok h(2) t(1) by (simp add: sess_ok_def fifo_ok_def p w)
  ultimately show ?thesis by (simp add: sess_ok_def)
qed

lemma sess_ok_write:
  assumes ok: "sess_ok c cap bnd s acc" and free: "s_hello s = None"
  shows "sess_ok c cap bnd (snd (writer_write c (v, s))) acc"
proof (cases "s_hand s")
  case (Some f)
  obtain k p where f: "f = (k, p)" by (rule prod.exhaust)
  show ?thesis
  proof (cases "encodeFrame (cd_marshal c) p")
    case (Inl e)
    then have "sess_ok c cap bnd (s\<lparr>s_written := Suc (s_written s), s_hand := None\<rparr>) acc"
      using sess_ok_hand_done[OF ok Some] encodable_simps(2) by (simp add: f)
    then show ?thesis using sess_ok_fields(3)
      by (simp add: writer_write_def Some writeFrame_def f Inl)
  next
    case (Inr b)
    obtain alive s' where w: "w_Write p s = (alive, s')" by (rule prod.exhaust)
    obtain x where x: "item_payload x = p" "s' = s\<lparr>s_wire := s_wire s @ [x]\<rparr>" using w_Write_item[OF w] by auto
    have n: "n \<le> Suc (s_written s) \<Longrightarrow>
        sess_ok c cap bnd (s\<lparr>s_wire := s_wire s @ [x], s_written := n, s_hand := None\<rparr>) acc" for n
      using sess_ok_hand_written[OF ok Some _ _ free] encodable_simps(1)[OF Inr] x(1) by (simp add: f)
    let ?t = "s\<lparr>s_wire := s_wire s @ [x], s_written := Suc (s_written s), s_hand := None\<rparr>"
    let ?u = "s\<lparr>s_wire := s_wire s @ [x], s_written := s_written s, s_hand := None\<rparr>"
    have res: "snd (writer_write c (v, s)) =
        (if alive then ?t\<lparr>s_writerDone := False\<rparr> else ?u\<lparr>s_quit := True, s_writerDone := True\<rparr>)"
      by (simp add: writer_write_def Some writeFrame_def f Inr w x detach_def session_shutdown_def Let_def
          split: bool.splits)
    show ?thesis unfolding res using n[of "Suc (s_written s)"] n[of "s_written s"]
      by (simp only: sess_ok_fields split: if_split) simp
  qed
qed (use ok in \<open>simp add: writer_write_def\<close>)

text \<open>The reader.\<close>

lemma sess_ok_not_reading:
  "sess_ok c cap bnd s acc \<Longrightarrow> s_reply s = None \<Longrightarrow> s_hello s = None \<Longrightarrow>
   sess_ok c cap bnd (s\<lparr>s_reading := False\<rparr>) acc"
  by (simp add: sess_ok_def count_ok_def fifo_ok_def verbs_ok_def greet_ok_def said_hello_def
      may_greet_def unwritten_def payloads_def)

lemma reader_ends_session:
  "\<exists>q. snd (reader_ends (v, s)) = s\<lparr>s_reading := False, s_quit := q\<rparr>"
  by (cases "sv_stdio v") (auto simp: reader_ends_def readerEnded_def detach_def session_shutdown_def Let_def
      intro: exI[of _ True] exI[of _ "s_quit s"])

lemma sess_ok_reader_ends:
  assumes "sess_ok c cap bnd (s\<lparr>s_reading := False\<rparr>) acc"
  shows "sess_ok c cap bnd (snd (reader_ends (v, s))) acc"
proof -
  obtain q where "snd (reader_ends (v, s)) = s\<lparr>s_reading := False, s_quit := q\<rparr>"
    using reader_ends_session by blast
  then show ?thesis using assms sess_ok_fields(2)[where s = "s\<lparr>s_reading := False\<rparr>"] by simp
qed

text \<open>A refusal is on the wire and the reader ends.\<close>

lemma sess_ok_refused:
  assumes ok: "sess_ok c cap bnd s acc" and idle: "s_reply s = None" "s_hello s = None"
    and speaks: "speaks c is_error (v, s) (v', s')"
  shows "sess_ok c cap bnd (s'\<lparr>s_reading := False\<rparr>) acc"
proof -
  let ?s = "s\<lparr>s_reading := False\<rparr>"
  obtain xs where xs: "s' = s\<lparr>s_wire := s_wire s @ xs\<rparr>" "vframe v' = vframe v"
    "xs = [] \<or> (\<exists>x. xs = [x] \<and> is_error (item_payload x) \<and> encodable c (item_payload x))"
    using speaks by (auto simp: speaks_def)
  have s: "speaks c is_error (v, ?s) (v', s'\<lparr>s_reading := False\<rparr>)"
    unfolding speaks_def using xs(2,3) by (intro conjI exI[of _ xs]) (simp_all add: xs(1))
  have "\<not> may_greet ?s" by (simp add: may_greet_def)
  then show ?thesis using hello_kinds(2)
    by (intro sess_ok_says[OF sess_ok_not_reading[OF ok idle] s]) auto
qed

lemma greet_fresh:
  assumes "greet_ok c s" "\<not> s_greeted s" "s_reading s"
  shows "filter is_hello (payloads s) = []" "\<forall>p \<in> set (payloads s). is_end p"
  using assms by (auto simp: greet_ok_def said_hello_def filter_empty_conv may_greet_def)

lemma sess_ok_greeted:
  assumes "sess_ok c cap bnd s acc" "s_reply s = None" "s_hello s = None" "\<not> s_greeted s" "s_reading s"
  shows "is_hello p \<Longrightarrow> encodable c p \<Longrightarrow> sess_ok c cap bnd (s\<lparr>s_greeted := True, s_reply := Some p\<rparr>) acc"
    "sess_ok c cap bnd (s\<lparr>s_greeted := True, s_reading := False\<rparr>) acc"
proof -
  have g: "greet_ok c s" using assms by (simp add: sess_ok_def)
  note fresh = greet_fresh[OF g assms(4,5)]
  have h: "\<not> said_hello s" using g assms(4) by (simp add: greet_ok_def)
  then have v: "s_verbs s = []" "\<not> s_subscribed s" using g assms(3) by (auto simp: greet_ok_def)
  have said: "said_hello (s\<lparr>s_greeted := True, s_reply := r\<rparr>) = said_hello s"
    "said_hello (s\<lparr>s_greeted := True, s_reading := b\<rparr>) = said_hello s" for r b
    by (simp_all add: said_hello_def payloads_def)
  have rest: "sess_ok c cap bnd t acc \<longleftrightarrow> greet_ok c t"
    if "payloads t = payloads s" "unwritten t = unwritten s" "s_offer t = s_offer s" "s_out t = s_out s"
      "s_written t = s_written s" "s_queued t = s_queued s" "s_verbs t = s_verbs s"
      "s_mgmtInflight t = s_mgmtInflight s" for t
    using assms(1) that by (simp add: sess_ok_def count_ok_def fifo_ok_def verbs_ok_def)
  have "greet_ok c (s\<lparr>s_greeted := True, s_reply := Some p\<rparr>)" if "is_hello p" "encodable c p"
    using g fresh assms v that unfolding greet_ok_def said by (simp add: payloads_def unwritten_def may_greet_def)
  then show "is_hello p \<Longrightarrow> encodable c p \<Longrightarrow> sess_ok c cap bnd (s\<lparr>s_greeted := True, s_reply := Some p\<rparr>) acc"
    by (subst rest) (simp_all add: payloads_def unwritten_def)
  have "greet_ok c (s\<lparr>s_greeted := True, s_reading := False\<rparr>)"
    using g fresh assms v unfolding greet_ok_def said by (simp add: payloads_def unwritten_def may_greet_def)
  then show "sess_ok c cap bnd (s\<lparr>s_greeted := True, s_reading := False\<rparr>) acc"
    by (subst rest) (simp_all add: payloads_def unwritten_def)
qed

lemma sess_ok_reader_turn:
  assumes ok: "sess_ok c cap (inflightCap v) s acc" and r: "s_reading s"
    and idle: "s_reply s = None" "s_hello s = None"
  shows "sess_ok c cap (inflightCap v) (snd (reader_turn c now (v, s))) acc"
proof -
  obtain rd rest where f: "readFrame (s_in s) = (rd, rest)" by (rule prod.exhaust)
  let ?s = "s\<lparr>s_in := rest\<rparr>"
  have ok1: "sess_ok c cap (inflightCap v) ?s acc" using ok sess_ok_fields(1) by simp
  show ?thesis
  proof (cases rd)
    case (Inl e)
    let ?p = "stream_newError CodeUser OversizePrefix []"
    obtain v' s' where q: "reply c ?p (v, ?s) = (v', s')" by (rule prod.exhaust)
    have "speaks c is_error (v, ?s) (v', s')" unfolding q[symmetric] by (rule reply_says) (simp add: stream_newError_def)
    then have "sess_ok c cap (inflightCap v) (s'\<lparr>s_reading := False\<rparr>) acc"
      by (intro sess_ok_refused[OF ok1]) (simp_all add: idle)
    moreover have "sess_ok c cap (inflightCap v) (?s\<lparr>s_reading := False\<rparr>) acc"
      by (rule sess_ok_not_reading[OF ok1]) (simp_all add: idle)
    ultimately show ?thesis by (simp add: reader_turn_def f Inl q Let_def sess_ok_reader_ends)
  next
    case (Inr body)
    let ?v = "v\<lparr>sv_framesIn := Suc (sv_framesIn v)\<rparr>"
    obtain d v' s' where h: "dispatch_head c now body (?v, ?s) = (d, (v', s'))" by (metis prod_cases3)
    have t: "reader_turn c now (v, s) = (case d of Survives \<Rightarrow> (v', s') | Fatal \<Rightarrow> reader_ends (v', s')
        | Greets p \<Rightarrow> (v', s'\<lparr>s_reply := Some p\<rparr>))"
      by (simp add: reader_turn_def f Inr h Let_def split: verdict.splits)
    have cap: "inflightCap ?v = inflightCap v" by (simp add: inflightCap_def)
    from dispatch_head_result[OF h] show ?thesis
    proof cases
      case answered
      have said: "s_greeted s \<Longrightarrow> said_hello ?s \<and> \<not> may_greet ?s" using ok1 r idle
        by (auto simp: sess_ok_def greet_ok_def may_greet_def)
      have "d = Survives \<Longrightarrow> s_greeted s \<Longrightarrow> sess_ok c cap (inflightCap v) s' acc"
        using said hello_kinds(2) by (intro sess_ok_says[OF ok1 answered(1)]) auto
      moreover have "sess_ok c cap (inflightCap v) (s'\<lparr>s_reading := False\<rparr>) acc"
        by (rule sess_ok_refused[OF ok1 _ _ answered(1)]) (simp_all add: idle)
      ultimately show ?thesis using answered(2) by (auto simp: t sess_ok_reader_ends)
    next
      case greeted_badly
      have "sess_ok c cap (inflightCap v) (s'\<lparr>s_reading := False\<rparr>) acc"
        using sess_ok_greeted(2)[OF ok1] idle greeted_badly r by simp
      then show ?thesis by (simp add: t greeted_badly(1) sess_ok_reader_ends)
    next
      case (greeted ver)
      then show ?thesis using sess_ok_greeted(1)[OF ok1, of "HelloOut ver"] idle r by (simp add: t)
    next
      case (started x)
      have "said_hello ?s" using ok1 r idle started by (auto simp: sess_ok_def greet_ok_def may_greet_def)
      then have "sess_ok c cap (inflightCap v) s' acc" using ok1 started cap
        by (auto simp: sess_ok_def count_ok_def fifo_ok_def verbs_ok_def greet_ok_def said_hello_def
            may_greet_def unwritten_def payloads_def)
      then show ?thesis by (simp add: t started(1))
    qed
  qed
qed

lemma sess_ok_subscribe:
  assumes ok: "sess_ok c cap bnd s acc" and idle: "s_hello s = None"
  shows "sess_ok c cap bnd (snd (reader_subscribe (v, s))) acc"
proof (cases "s_reply s")
  case (Some p)
  let ?s = "s\<lparr>s_reply := None\<rparr>"
  have g: "greet_ok c s" using ok by (simp add: sess_ok_def)
  show ?thesis
  proof (cases "s_quit s")
    case True
    have "sess_ok c cap bnd (?s\<lparr>s_reading := False\<rparr>) acc" using ok idle
      by (simp add: sess_ok_def count_ok_def fifo_ok_def verbs_ok_def greet_ok_def said_hello_def
          may_greet_def unwritten_def payloads_def)
    then show ?thesis by (simp add: reader_subscribe_def Some hello_subscribe_def True sess_ok_reader_ends)
  next
    case False
    have "sess_ok c cap bnd (?s\<lparr>s_subscribed := True, s_hello := Some p\<rparr>) acc" using ok idle Some
      by (simp add: sess_ok_def count_ok_def fifo_ok_def verbs_ok_def greet_ok_def said_hello_def
          may_greet_def unwritten_def payloads_def)
    then show ?thesis by (simp add: reader_subscribe_def Some hello_subscribe_def False)
  qed
qed (use ok in \<open>simp add: reader_subscribe_def\<close>)

lemma sess_ok_hello_written:
  assumes ok: "sess_ok c cap bnd s acc" and h: "s_hello s = Some p" and x: "item_payload x = p"
  shows "sess_ok c cap bnd (s\<lparr>s_hello := None, s_wire := s_wire s @ [x]\<rparr>) acc"
proof -
  let ?s = "s\<lparr>s_hello := None, s_wire := s_wire s @ [x]\<rparr>"
  have g: "greet_ok c s" using ok by (simp add: sess_ok_def)
  have hp: "is_hello p" "encodable c p" "s_reading s" "s_greeted s" "s_reply s = None"
    using g h by (auto simp: greet_ok_def opt_list_def split: option.splits)
  have w: "payloads ?s = payloads s @ [p]" by (simp add: payloads_def x)
  have ends: "\<forall>q \<in> set (payloads s). is_end q" using g h hp by (simp add: greet_ok_def may_greet_def)
  have "filter is_hello (payloads s) = []" using ends hello_kinds(1) by (auto simp: filter_empty_conv)
  moreover have "hello_first (payloads s @ [p])"
    by (rule hello_first_append) (use g hp ends in \<open>auto simp: greet_ok_def\<close>)
  moreover have "said_hello ?s" using hp by (auto simp: said_hello_def w)
  ultimately have "greet_ok c ?s" using g hp by (simp add: greet_ok_def w may_greet_def unwritten_def)
  moreover have "fifo_ok c ?s acc" using ok hp hello_kinds(3) by (auto simp: sess_ok_def fifo_ok_def w unwritten_def)
  ultimately show ?thesis using ok by (simp add: sess_ok_def count_ok_def verbs_ok_def unwritten_def)
qed

lemma sess_ok_greet:
  assumes ok: "sess_ok c cap bnd s acc" and h: "s_hello s \<noteq> None"
  shows "sess_ok c cap bnd (snd (reader_greet (v, s))) acc"
proof -
  obtain p where p: "s_hello s = Some p" using h by auto
  obtain fin s' where w: "w_Write p (s\<lparr>s_hello := None\<rparr>) = (fin, s')" by (rule prod.exhaust)
  obtain x where x: "item_payload x = p" "s' = s\<lparr>s_hello := None, s_wire := s_wire s @ [x]\<rparr>"
    using w_Write_item[OF w] by auto
  have ok': "sess_ok c cap bnd s' acc" unfolding x(2) by (rule sess_ok_hello_written[OF ok p x(1)])
  have "s_reply s = None" using ok p by (auto simp: sess_ok_def greet_ok_def opt_list_def split: option.splits)
  then have "sess_ok c cap bnd (s'\<lparr>s_reading := False\<rparr>) acc" using ok' by (intro sess_ok_not_reading) (simp_all add: x)
  then show ?thesis using ok' by (simp add: reader_greet_def hello_write_def p w sess_ok_reader_ends split: bool.splits)
qed

text \<open>A management goroutine ends; the end frame and the shutdown.\<close>

lemma sess_ok_verb:
  assumes ok: "sess_ok c cap bnd s acc" and k: "k < length (s_verbs s)" and free: "s_hello s = None"
  shows "sess_ok c cap bnd (snd (mgmt_finish c k result (v, s))) acc"
proof -
  obtain i raw where r: "s_verbs s ! k = (i, raw)" by (rule prod.exhaust)
  let ?vs = "take k (s_verbs s) @ drop (Suc k) (s_verbs s)" and ?p = "MgmtResultOut i (if result = [] then null_json else result)"
  let ?s1 = "s\<lparr>s_verbs := ?vs\<rparr>"
  obtain v' s2 where q: "reply c ?p (v, ?s1) = (v', s2)" by (rule prod.exhaust)
  have "speaks c (\<lambda>p. p = ?p) (v, ?s1) (v', s2)" unfolding q[symmetric] by (rule reply_says) simp
  then obtain xs where xs: "s2 = ?s1\<lparr>s_wire := s_wire s @ xs\<rparr>"
    "xs = [] \<or> (\<exists>x. xs = [x] \<and> item_payload x = ?p \<and> encodable c (item_payload x))" by (auto simp: speaks_def)
  have said: "said_hello s" using ok k by (auto simp: sess_ok_def greet_ok_def)
  then have mg: "\<not> may_greet s" using ok hello_kinds(1) by (auto simp: sess_ok_def greet_ok_def said_hello_def)
  have w: "sess_ok c cap bnd (s\<lparr>s_wire := s_wire s @ xs\<rparr>) acc"
    using xs(2) ok
  proof (elim disjE exE conjE)
    fix x assume x: "xs = [x]" "item_payload x = ?p" "encodable c (item_payload x)"
    show ?thesis unfolding x(1) by (rule sess_ok_wire[OF ok]) (use x said mg in auto)
  qed simp
  let ?t = "s\<lparr>s_wire := s_wire s @ xs, s_mgmtInflight := s_mgmtInflight s - 1, s_verbs := ?vs\<rparr>"
  have said': "said_hello ?t" "said_hello (s\<lparr>s_wire := s_wire s @ xs\<rparr>)" using said by (auto simp: said_hello_def payloads_def)
  have le: "length (s_verbs s) - Suc 0 \<le> bnd" using ok by (auto simp: sess_ok_def verbs_ok_def)
  have "sess_ok c cap bnd ?t acc" using w k said' le
    by (simp add: sess_ok_def count_ok_def fifo_ok_def verbs_ok_def greet_ok_def may_greet_def unwritten_def payloads_def)
  moreover have "snd (mgmt_finish c k result (v, s)) = ?t" by (simp add: mgmt_finish_def r q xs(1) Let_def)
  ultimately show ?thesis by simp
qed

lemma sess_ok_end:
  assumes "sess_ok c cap bnd s acc"
  shows "sess_ok c cap bnd (snd (reply c (EndOut r) (v, s))) acc"
proof -
  obtain v' s' where q: "reply c (EndOut r) (v, s) = (v', s')" by (rule prod.exhaust)
  have "speaks c is_end (v, s) (v', s')" unfolding q[symmetric] by (rule reply_says) simp
  then show ?thesis using sess_ok_says[OF assms, of is_end] hello_kinds(1) by (simp add: q)
qed

section \<open>What an operation leaves of the endpoint\<close>

definition keeps_owner :: "('s, 'ev) session_world \<Rightarrow> ('s, 'ev) session_world \<Rightarrow> bool" where
  "keeps_owner w w' \<longleftrightarrow> s_id (snd w') = s_id (snd w) \<and> (s_quit (snd w) \<longrightarrow> s_quit (snd w')) \<and>
     (vframe (fst w') = vframe (fst w) \<or>
      s_quit (snd w') \<and> sv_sess (fst w) = Some (s_id (snd w)) \<and>
        vframe (fst w') = vframe ((fst w)\<lparr>sv_sess := None\<rparr>))"

lemma keeps_owner_refl: "vframe v' = vframe v \<Longrightarrow> s_id s' = s_id s \<Longrightarrow> (s_quit s \<Longrightarrow> s_quit s') \<Longrightarrow>
    keeps_owner (v, s) (v', s')"
  by (simp add: keeps_owner_def)

lemma says_keeps: "speaks c P w w' \<Longrightarrow> keeps_owner w w'"
  by (auto simp: speaks_def keeps_owner_def)

lemma keeps_trans:
  assumes "keeps_owner w w1" "keeps_owner w1 w2" "vframe (fst w1) = vframe (fst w)"
  shows "keeps_owner w w2"
  using assms vframe_fields(7)[OF assms(3)] by (auto simp: keeps_owner_def vframe_def)

lemma detach_keeps: "keeps_owner (v, s) (detach (v, s))"
  by (simp add: detach_def keeps_owner_def session_shutdown_def)

lemma reader_ends_keeps: "keeps_owner (v, s) (reader_ends (v, s))"
  using detach_keeps[of v "s\<lparr>s_reading := False\<rparr>"]
  by (auto simp: reader_ends_def readerEnded_def keeps_owner_def)

lemma then_ends: "vframe v' = vframe v \<Longrightarrow> s_id s' = s_id s \<Longrightarrow> s_quit s' = s_quit s \<Longrightarrow>
    keeps_owner (v, s) (reader_ends (v', s'))"
  by (rule keeps_trans[OF keeps_owner_refl reader_ends_keeps]) simp_all

lemma head_keeps:
  assumes "head_result c (v, s) d (v', s')"
  shows "vframe v' = vframe v" "s_id s' = s_id s" "s_quit s' = s_quit s"
  using assms by (cases; auto simp: speaks_def)+

text \<open>What each operation does to the owner.\<close>

lemma reader_turn_keeps: "keeps_owner (v, s) (reader_turn c now (v, s))"
proof -
  obtain rd rest where f: "readFrame (s_in s) = (rd, rest)" by (rule prod.exhaust)
  let ?s = "s\<lparr>s_in := rest\<rparr>" and ?p = "stream_newError CodeUser OversizePrefix []"
  show ?thesis
  proof (cases rd)
    case (Inl e)
    obtain v' s' where q: "reply c ?p (v, ?s) = (v', s')" by (rule prod.exhaust)
    have "speaks c (\<lambda>_. True) (v, ?s) (v', s')" unfolding q[symmetric] by (rule reply_says) simp
    then have "vframe v' = vframe v" "s_id s' = s_id s" "s_quit s' = s_quit s" by (auto simp: speaks_def)
    then show ?thesis using then_ends[of v v ?s s] by (simp add: reader_turn_def f Inl q Let_def then_ends)
  next
    case (Inr body)
    let ?v = "v\<lparr>sv_framesIn := Suc (sv_framesIn v)\<rparr>"
    obtain d v' s' where h: "dispatch_head c now body (?v, ?s) = (d, (v', s'))" by (metis prod_cases3)
    note k = head_keeps[OF dispatch_head_result[OF h]]
    then show ?thesis
      by (cases d) (simp_all add: reader_turn_def f Inr h Let_def then_ends keeps_owner_refl)
  qed
qed

lemma reader_subscribe_keeps: "keeps_owner (v, s) (reader_subscribe (v, s))"
proof (cases "s_reply s")
  case (Some p)
  have "keeps_owner (v, s) (v, s\<lparr>s_reply := None, s_subscribed := True, s_hello := Some p\<rparr>)"
    by (rule keeps_owner_refl) simp_all
  then show ?thesis by (simp add: reader_subscribe_def Some hello_subscribe_def then_ends)
qed (simp add: reader_subscribe_def keeps_owner_refl)

lemma reader_greet_keeps: "keeps_owner (v, s) (reader_greet (v, s))"
proof (cases "s_hello s")
  case (Some p)
  obtain fin s' where w: "w_Write p (s\<lparr>s_hello := None\<rparr>) = (fin, s')" by (rule prod.exhaust)
  then have "s_id s' = s_id s" "s_quit s' = s_quit s" using w_Write_item[OF w] by auto
  then show ?thesis
    by (simp add: reader_greet_def hello_write_def Some w then_ends keeps_owner_refl split: bool.splits)
qed (simp add: reader_greet_def hello_write_def keeps_owner_refl)

lemma writer_write_keeps: "keeps_owner (v, s) (writer_write c (v, s))"
proof (cases "s_hand s")
  case (Some f)
  obtain alive s' where w: "w_Write (snd f) s = (alive, s')" by (rule prod.exhaust)
  then have k: "s_id s' = s_id s" "s_quit s' = s_quit s" using w_Write_item[OF w] by auto
  have d: "\<exists>v1 s1. detach (stream_note ''writer'' ''outbound'' v, s') = (v1, s1) \<and> keeps_owner (v, s) (v1, s1)"
  proof -
    obtain v1 s1 where e: "detach (stream_note ''writer'' ''outbound'' v, s') = (v1, s1)" by (rule prod.exhaust)
    have "keeps_owner (v, s) (v1, s1)" unfolding e[symmetric]
      by (rule keeps_trans[OF keeps_owner_refl detach_keeps]) (simp_all add: k)
    then show ?thesis using e by blast
  qed
  have u: "keeps_owner (v, s) (v1, s1) \<Longrightarrow> keeps_owner (v, s) (v1, s1\<lparr>s_hand := h, s_writerDone := b\<rparr>)" for v1 s1 h b
    by (simp add: keeps_owner_def)
  show ?thesis using d u k
    by (auto simp: writer_write_def Some writeFrame_def w keeps_owner_refl Let_def split: sum.splits bool.splits)
qed (simp add: writer_write_def keeps_owner_refl)

lemma mgmt_finish_keeps: "keeps_owner (v, s) (mgmt_finish c k result (v, s))"
proof -
  obtain i raw where r: "s_verbs s ! k = (i, raw)" by (rule prod.exhaust)
  let ?s1 = "s\<lparr>s_verbs := take k (s_verbs s) @ drop (Suc k) (s_verbs s)\<rparr>"
    and ?p = "MgmtResultOut i (if result = [] then null_json else result)"
  obtain v' s2 where q: "reply c ?p (v, ?s1) = (v', s2)" by (rule prod.exhaust)
  have "speaks c (\<lambda>_. True) (v, ?s1) (v', s2)" unfolding q[symmetric] by (rule reply_says) simp
  then show ?thesis by (auto simp: mgmt_finish_def r q Let_def speaks_def keeps_owner_def)
qed

lemma enqueue_keeps:
  "keeps_owner (v, s) (enqueue_count k p (v, s))" "keeps_owner (v, s) (enqueue_put (v, s))"
  by (auto simp: enqueue_count_def enqueue_put_def keeps_owner_def split: option.splits)

lemma writer_take_keeps: "s_id (writer_take s) = s_id s" "s_quit (writer_take s) = s_quit s"
  by (simp_all add: writer_take_def split: list.splits)

section \<open>Runs of the endpoint\<close>

definition closing_of :: "close_pc \<Rightarrow> nat option" where
  "closing_of pc = (case pc of Flushing i _ \<Rightarrow> Some i | Ending i _ \<Rightarrow> Some i | Shutting i \<Rightarrow> Some i | _ \<Rightarrow> None)"

text \<open>Every session that is not shut down is the live one or the one being closed.\<close>

definition owner_ok :: "('s, 'ev) server \<Rightarrow> bool" where
  "owner_ok v \<longleftrightarrow> (sv_closed v \<longleftrightarrow> sv_close v \<noteq> NotClosing) \<and> (sv_closed v \<longrightarrow> sv_sess v = None)
     \<and> (\<forall>i. sv_sess v = Some i \<longrightarrow> i < sv_next v)
     \<and> (\<forall>i. closing_of (sv_close v) = Some i \<longrightarrow> i < sv_next v)
     \<and> (\<forall>i < sv_next v. s_id (sv_heap v i) = i
          \<and> (s_quit (sv_heap v i) \<or> sv_sess v = Some i \<or> closing_of (sv_close v) = Some i))"

definition run_ok :: "codec \<Rightarrow> ('s, 'ev) server \<Rightarrow> (nat \<Rightarrow> out_frame list) \<Rightarrow> bool" where
  "run_ok c v acc \<longleftrightarrow> owner_ok v \<and> (\<forall>i \<ge> sv_next v. acc i = [])
     \<and> (\<forall>i < sv_next v. sess_ok c (queueCap v) (inflightCap v) (sv_heap v i) (acc i))"

inductive stream_run ::
  "codec \<Rightarrow> ('s, 'ev) server \<Rightarrow> ('s, 'ev) server \<Rightarrow> (nat \<Rightarrow> out_frame list) \<Rightarrow> bool" for c v0
where
  start: "stream_run c v0 v0 (\<lambda>_. [])"
| outside: "stream_run c v0 v acc \<Longrightarrow>
    stream_run c v0 (v\<lparr>sv_ticks := n, sv_lastBeat := t, sv_engine := e, sv_sense := sn, sv_listener := l, sv_addr := a\<rparr>) acc"
| connects: "stream_run c v0 v acc \<Longrightarrow> \<not> sv_stdio v \<Longrightarrow> stream_run c v0 (snd (handleConn c conn v)) acc"
| counts: "stream_run c v0 v acc \<Longrightarrow> i < sv_next v \<Longrightarrow> s_offer (sv_heap v i) = None \<Longrightarrow> telemetry p \<Longrightarrow>
    stream_run c v0 (on_session i (enqueue_count k p) v) acc"
| puts: "stream_run c v0 v acc \<Longrightarrow> i < sv_next v \<Longrightarrow>
    stream_run c v0 (on_session i enqueue_put v) (acc(i := acc i @ put_accepts (queueCap v) (sv_heap v i)))"
| takes: "stream_run c v0 v acc \<Longrightarrow> i < sv_next v \<Longrightarrow> \<not> s_writerDone (sv_heap v i) \<Longrightarrow> s_hand (sv_heap v i) = None \<Longrightarrow>
    stream_run c v0 (on_session i (\<lambda>(v, s). (v, writer_take s)) v) acc"
| writes: "stream_run c v0 v acc \<Longrightarrow> i < sv_next v \<Longrightarrow> s_hello (sv_heap v i) = None \<Longrightarrow>
    stream_run c v0 (on_session i (writer_write c) v) acc"
| leaves: "stream_run c v0 v acc \<Longrightarrow> i < sv_next v \<Longrightarrow> s_quit (sv_heap v i) \<Longrightarrow> s_hand (sv_heap v i) = None \<Longrightarrow>
    stream_run c v0 (on_session i (\<lambda>(v, s). (v, writer_leave s)) v) acc"
| reads: "stream_run c v0 v acc \<Longrightarrow> i < sv_next v \<Longrightarrow> s_reading (sv_heap v i) \<Longrightarrow>
    s_reply (sv_heap v i) = None \<Longrightarrow> s_hello (sv_heap v i) = None \<Longrightarrow>
    stream_run c v0 (on_session i (reader_turn c now) v) acc"
| subscribes: "stream_run c v0 v acc \<Longrightarrow> i < sv_next v \<Longrightarrow> s_hello (sv_heap v i) = None \<Longrightarrow>
    stream_run c v0 (on_session i reader_subscribe v) acc"
| greets: "stream_run c v0 v acc \<Longrightarrow> i < sv_next v \<Longrightarrow> s_hello (sv_heap v i) \<noteq> None \<Longrightarrow>
    stream_run c v0 (on_session i reader_greet v) acc"
| answers: "stream_run c v0 v acc \<Longrightarrow> i < sv_next v \<Longrightarrow> k < length (s_verbs (sv_heap v i)) \<Longrightarrow>
    s_hello (sv_heap v i) = None \<Longrightarrow> stream_run c v0 (on_session i (mgmt_finish c k result) v) acc"
| close_begins: "stream_run c v0 v acc \<Longrightarrow> stream_run c v0 (close_begin reason v) acc"
| flushed: "stream_run c v0 v acc \<Longrightarrow> stream_run c v0 (close_flushed givenUp v) acc"
| ends: "stream_run c v0 v acc \<Longrightarrow> (\<And>i. closing_of (sv_close v) = Some i \<Longrightarrow> s_hello (sv_heap v i) = None) \<Longrightarrow>
    stream_run c v0 (close_end c inTime v) acc"
| shuts: "stream_run c v0 v acc \<Longrightarrow> stream_run c v0 (close_shut v) acc"

lemma on_session_apply:
  "f (v, sv_heap v i) = (v', s') \<Longrightarrow> on_session i f v = v'\<lparr>sv_heap := (sv_heap v')(i := s')\<rparr>"
  by (simp add: on_session_def)

lemma run_ok_session:
  assumes ok: "run_ok c v acc" and i: "i < sv_next v"
    and k: "keeps_owner (v, sv_heap v i) (f (v, sv_heap v i))"
    and s: "sess_ok c (queueCap v) (inflightCap v) (snd (f (v, sv_heap v i))) a"
  shows "run_ok c (on_session i f v) (acc(i := a))"
proof -
  obtain v' s' where f: "f (v, sv_heap v i) = (v', s')" by (rule prod.exhaust)
  let ?v = "v'\<lparr>sv_heap := (sv_heap v')(i := s')\<rparr>"
  have o: "owner_ok v" using ok by (simp add: run_ok_def)
  have same: "sv_closed v' = sv_closed v" "sv_close v' = sv_close v" "sv_heap v' = sv_heap v"
    "sv_next v' = sv_next v" "sv_cfg v' = sv_cfg v" using k by (auto simp: f keeps_owner_def vframe_def)
  have sess: "sv_sess v' = sv_sess v \<or> s_quit s' \<and> sv_sess v = Some i \<and> sv_sess v' = None"
    using k o i by (auto simp: f keeps_owner_def vframe_def owner_ok_def)
  have id: "s_id s' = i" "s_quit (sv_heap v i) \<Longrightarrow> s_quit s'" using k o i by (auto simp: f keeps_owner_def owner_ok_def)
  have "owner_ok ?v" using o sess id unfolding owner_ok_def by (auto simp: same)
  moreover have "queueCap ?v = queueCap v" "inflightCap ?v = inflightCap v"
    by (simp_all add: queueCap_def inflightCap_def same)
  ultimately show ?thesis using ok i s by (auto simp: on_session_apply[of f, OF f] run_ok_def same f)
qed

lemma on_session_keeps:
  "keeps_owner (v, sv_heap v i) (f (v, sv_heap v i)) \<Longrightarrow>
   sv_cfg (on_session i f v) = sv_cfg v \<and> sv_stdio (on_session i f v) = sv_stdio v"
  by (cases "f (v, sv_heap v i)") (auto simp: on_session_def keeps_owner_def vframe_def)

lemma run_ok_sess: "run_ok c v acc \<Longrightarrow> i < sv_next v \<Longrightarrow> sess_ok c (queueCap v) (inflightCap v) (sv_heap v i) (acc i)"
  by (simp add: run_ok_def)

text \<open>
  The contract of a session operation that accepts no frame: from the sessions its goroutine runs it on,
  it keeps the invariant and leaves the endpoint's owner alone, but for giving its own session up.
\<close>

locale session_op =
  fixes c :: codec and f :: "('s, 'ev) session_world \<Rightarrow> ('s, 'ev) session_world" and runs_on :: "stream_session \<Rightarrow> bool"
  assumes owner: "keeps_owner (v, s) (f (v, s))"
    and session: "sess_ok c (queueCap v) (inflightCap v) s a \<Longrightarrow> runs_on s \<Longrightarrow>
      sess_ok c (queueCap v) (inflightCap v) (snd (f (v, s))) a"
begin

lemma run_ok_op:
  assumes "run_ok c v acc" "i < sv_next v" "runs_on (sv_heap v i)"
  shows "run_ok c (on_session i f v) acc"
proof -
  have "run_ok c (on_session i f v) (acc(i := acc i))"
    by (rule run_ok_session[OF assms(1,2)]) (rule owner, rule session[OF run_ok_sess[OF assms(1,2)] assms(3)])
  then show ?thesis by simp
qed

lemma keeps_op: "sv_cfg (on_session i f v) = sv_cfg v" "sv_stdio (on_session i f v) = sv_stdio v"
  using on_session_keeps[of v i f] owner by simp_all

end

interpretation counting: session_op c "enqueue_count k p" "\<lambda>s. s_offer s = None \<and> telemetry p" for c k p
  by unfold_locales (rule enqueue_keeps(1), rule sess_ok_enqueue_count, auto)

interpretation taking: session_op c "\<lambda>(v, s). (v, writer_take s)" "\<lambda>s. s_hand s = None" for c
  by unfold_locales (simp_all add: keeps_owner_def writer_take_keeps sess_ok_take)

interpretation writing: session_op c "writer_write c" "\<lambda>s. s_hello s = None" for c
  by unfold_locales (rule writer_write_keeps, rule sess_ok_write)

interpretation leaving: session_op c "\<lambda>(v, s). (v, writer_leave s)" "\<lambda>_. True" for c
  by unfold_locales (simp_all add: keeps_owner_def writer_leave_def sess_ok_fields)

interpretation reading: session_op c "reader_turn c now"
    "\<lambda>s. s_reading s \<and> s_reply s = None \<and> s_hello s = None" for c now
  by unfold_locales (rule reader_turn_keeps, rule sess_ok_reader_turn, auto)

interpretation subscribing: session_op c reader_subscribe "\<lambda>s. s_hello s = None" for c
  by unfold_locales (rule reader_subscribe_keeps, rule sess_ok_subscribe)

interpretation greeting: session_op c reader_greet "\<lambda>s. s_hello s \<noteq> None" for c
  by unfold_locales (rule reader_greet_keeps, rule sess_ok_greet)

interpretation answering: session_op c "mgmt_finish c k result"
    "\<lambda>s. k < length (s_verbs s) \<and> s_hello s = None" for c k result
  by unfold_locales (rule mgmt_finish_keeps, rule sess_ok_verb, auto)

lemma reply_keeps: "keeps_owner w (reply c p w)"
  by (rule says_keeps[OF reply_says[of "\<lambda>_. True"]]) simp

interpretation ending: session_op c "reply c (EndOut r)" "\<lambda>_. True" for c r
  by unfold_locales (rule reply_keeps, rule sess_ok_end)

interpretation shutting: session_op c "\<lambda>(v, s). (v, session_shutdown s)" "\<lambda>_. True" for c
  by unfold_locales (simp_all add: keeps_owner_def session_shutdown_def sess_ok_fields)

lemma run_ok_vframe: "vframe v' = vframe v \<Longrightarrow> run_ok c v' acc = run_ok c v acc"
  by (simp add: run_ok_def owner_ok_def vframe_fields[of v' v])

lemma run_ok_pc:
  assumes "run_ok c v acc" "closing_of pc = closing_of (sv_close v)" "pc \<noteq> NotClosing" "sv_close v \<noteq> NotClosing"
  shows "run_ok c (v\<lparr>sv_close := pc\<rparr>) acc"
  using assms by (auto simp: run_ok_def owner_ok_def queueCap_def inflightCap_def)

lemma run_ok_conn:
  assumes ok: "run_ok c v acc"
  shows "run_ok c (snd (handleConn c conn v)) acc"
proof (cases "sv_sess v \<noteq> None \<or> sv_closed v")
  case True
  have "vframe (snd (writeDirect c w p v')) = vframe v'" for w p and v' :: "('a, 'b) server"
    by (simp add: writeDirect_def split: sum.splits option.splits)
  then have "vframe (snd (handleConn c conn v)) = vframe v" using True by (simp add: handleConn_def vframe_def)
  then show ?thesis using ok run_ok_vframe by blast
next
  case False
  let ?i = "sv_next v"
  let ?v = "v\<lparr>sv_sess := Some ?i, sv_next := Suc ?i, sv_heap := (sv_heap v)(?i := newSession ?i (fst conn) (snd conn))\<rparr>"
  have o: "owner_ok v" and acc: "acc ?i = []" using ok by (simp_all add: run_ok_def)
  have pc: "sv_close v = NotClosing" using o False by (simp add: owner_ok_def)
  have "owner_ok ?v" using o False pc by (auto simp: owner_ok_def closing_of_def less_Suc_eq newSession_def)
  moreover have "queueCap ?v = queueCap v" "inflightCap ?v = inflightCap v" by (simp_all add: queueCap_def inflightCap_def)
  ultimately have "run_ok c ?v acc" using ok acc by (auto simp: run_ok_def less_Suc_eq sess_ok_new)
  then show ?thesis using False by (simp add: handleConn_def)
qed

lemma run_ok_close_begin:
  assumes ok: "run_ok c v acc"
  shows "run_ok c (close_begin reason v) acc"
proof (cases "sv_close v = NotClosing")
  case True
  have o: "owner_ok v" using ok by (simp add: run_ok_def)
  have "owner_ok (close_begin reason v)"
  proof (cases "sv_sess v")
    case None
    then show ?thesis using o True by (simp add: owner_ok_def close_begin_def closing_of_def)
  next
    case (Some i)
    then show ?thesis using o True by (simp add: owner_ok_def close_begin_def closing_of_def Let_def)
  qed
  then show ?thesis using ok True
    by (simp add: run_ok_def close_begin_def Let_def queueCap_def inflightCap_def)
qed (use ok in \<open>simp add: close_begin_def\<close>)

lemma run_ok_close_flushed: "run_ok c v acc \<Longrightarrow> run_ok c (close_flushed givenUp v) acc"
  by (auto simp: close_flushed_def Let_def closing_of_def intro!: run_ok_pc split: close_pc.splits)

lemma run_ok_close_end:
  assumes ok: "run_ok c v acc"
  shows "run_ok c (close_end c inTime v) acc"
proof (cases "sv_close v")
  case (Ending i r)
  let ?v = "v\<lparr>sv_close := Shutting i\<rparr>"
  have ok': "run_ok c ?v acc" by (rule run_ok_pc[OF ok]) (simp_all add: Ending closing_of_def)
  have i: "i < sv_next ?v" using ok' by (auto simp: run_ok_def owner_ok_def closing_of_def)
  have "run_ok c (on_session i (reply c (EndOut r)) ?v) acc" by (rule ending.run_ok_op[OF ok' i]) simp
  then show ?thesis using ok' by (simp add: close_end_def Ending Let_def)
qed (use ok in \<open>simp_all add: close_end_def\<close>)

lemma run_ok_close_shut:
  assumes ok: "run_ok c v acc"
  shows "run_ok c (close_shut v) acc"
proof (cases "sv_close v")
  case (Shutting i)
  let ?f = "\<lambda>(v :: ('a, 'b) server, s). (v, session_shutdown s)"
  have i: "i < sv_next v" using ok Shutting by (auto simp: run_ok_def owner_ok_def closing_of_def)
  have ok': "run_ok c (on_session i ?f v) acc" by (rule shutting.run_ok_op[OF ok i]) simp
  have "close_shut v = (on_session i ?f v)\<lparr>sv_close := Closed\<rparr>"
    by (simp add: close_shut_def Shutting on_session_def)
  moreover have "owner_ok ((on_session i ?f v)\<lparr>sv_close := Closed\<rparr>)"
  proof -
    let ?u = "on_session i ?f v"
    have u: "sv_close ?u = Shutting i" "s_quit (sv_heap ?u i)" using Shutting
      by (simp_all add: on_session_def session_shutdown_def)
    have "owner_ok ?u" using ok' by (simp add: run_ok_def)
    then show ?thesis using u by (auto simp: owner_ok_def closing_of_def)
  qed
  ultimately show ?thesis using ok' by (simp add: run_ok_def queueCap_def inflightCap_def)
qed (use ok in \<open>simp_all add: close_shut_def\<close>)

theorem stream_run_ok:
  assumes "stream_run c v0 v acc" "run_ok c v0 (\<lambda>_. [])"
  shows "run_ok c v acc"
  using assms
proof (induction rule: stream_run.induct)
  case (outside v acc n t e sn l a)
  then show ?case by (simp add: run_ok_def owner_ok_def queueCap_def inflightCap_def)
next
  case (puts v acc i)
  note ok = puts.IH[OF puts.prems]
  show ?case by (rule run_ok_session[OF ok puts.hyps(2)])
      (rule enqueue_keeps(2), rule sess_ok_enqueue_put[OF run_ok_sess[OF ok puts.hyps(2)]])
qed (simp_all add: counting.run_ok_op taking.run_ok_op writing.run_ok_op leaving.run_ok_op reading.run_ok_op
  subscribing.run_ok_op greeting.run_ok_op answering.run_ok_op run_ok_conn run_ok_close_begin run_ok_close_flushed run_ok_close_end run_ok_close_shut)

lemma stream_run_cfg: "stream_run c v0 v acc \<Longrightarrow> sv_cfg v = sv_cfg v0 \<and> sv_stdio v = sv_stdio v0"
proof (induction rule: stream_run.induct)
  case (connects v acc conn)
  then show ?case by (simp add: handleConn_def writeDirect_def count_out_def split: sum.splits option.splits)
next
  case (puts v acc i)
  then show ?case using on_session_keeps[of v i enqueue_put, OF enqueue_keeps(2)[of v "sv_heap v i"]] by simp
next
  case (ends v acc inTime)
  then show ?case by (auto simp: close_end_def Let_def ending.keeps_op split: close_pc.splits)
next
  case (shuts v acc)
  then show ?case by (auto simp: close_shut_def shutting.keeps_op split: close_pc.splits)
qed (simp_all add: counting.keeps_op taking.keeps_op writing.keeps_op leaving.keeps_op reading.keeps_op
  subscribing.keeps_op greeting.keeps_op answering.keeps_op close_begin_def close_flushed_def Let_def
  split: close_pc.splits)

text \<open>A new endpoint.\<close>

lemma normalize_sel:
  assumes "normalize os stdio cfg = Inr cfg'"
  shows "sc_MaxInflightMgmt cfg' = (if sc_MaxInflightMgmt cfg \<le> 0 then 4 else sc_MaxInflightMgmt cfg)"
    "sc_OutboundQueue cfg' = (if sc_OutboundQueue cfg \<le> 0 then 8 else sc_OutboundQueue cfg)"
    "sc_TCPAddr cfg' = sc_TCPAddr cfg" "sc_InsecureTCP cfg' = sc_InsecureTCP cfg"
    "\<not> stdio \<Longrightarrow> sc_TCPAddr cfg \<noteq> [] \<Longrightarrow> sc_InsecureTCP cfg"
  using assms by (auto simp: normalize_def Let_def DefaultMaxInflightMgmt_def DefaultOutboundQueue_def split: if_splits)

lemma newServer_ok:
  assumes "newServer os cfg eng sns mgmt stdio = Inr v"
  shows "run_ok c v (\<lambda>_. [])" "normalize os (stdio \<noteq> None) cfg = Inr (sv_cfg v)" "sv_stdio v = (stdio \<noteq> None)"
proof -
  have a: "sv_cfg (Attach eng u) = sv_cfg u" "sv_closed (Attach eng u) = sv_closed u" "sv_close (Attach eng u) = sv_close u"
    "sv_sess (Attach eng u) = sv_sess u" "sv_next (Attach eng u) = sv_next u" "sv_heap (Attach eng u) = sv_heap u"
    "sv_stdio (Attach eng u) = sv_stdio u" for u :: "('a, 'b) server"
    by (simp_all add: Attach_def split: option.splits)
  obtain cfg' where n: "normalize os (stdio \<noteq> None) cfg = Inr cfg'" using assms by (auto simp: newServer_def)
  then show "normalize os (stdio \<noteq> None) cfg = Inr (sv_cfg v)" "sv_stdio v = (stdio \<noteq> None)"
    "run_ok c v (\<lambda>_. [])"
    using assms by (auto simp: newServer_def a run_ok_def owner_ok_def closing_of_def sess_ok_new Let_def
        newSession_def[of 0, THEN arg_cong[where f = s_id]] split: option.splits)
qed

section \<open>Drops are logged\<close>

fun is_drop :: "stream_line \<Rightarrow> bool" where
  "is_drop (StreamDrop _ _) = True"
| "is_drop (StreamNote _ _) = False"

definition logged :: "('s, 'ev) server \<Rightarrow> bool" where
  "logged v \<longleftrightarrow> sv_drops v = length (filter is_drop (sv_log v))"

lemma logged_simps [simp]:
  "logged (stream_drop a b v) = logged v" "logged (stream_note a b v) = logged v"
  "logged (count_out v) = logged v" "logged (v\<lparr>sv_framesIn := n\<rparr>) = logged v"
  "logged (v\<lparr>sv_engine := e\<rparr>) = logged v" "logged (v\<lparr>sv_sense := sn\<rparr>) = logged v"
  "logged (v\<lparr>sv_endReason := r\<rparr>) = logged v" "logged (v\<lparr>sv_stdinClosed := b1\<rparr>) = logged v"
  "logged (v\<lparr>sv_sess := x\<rparr>) = logged v" "logged (v\<lparr>sv_heap := h\<rparr>) = logged v"
  "logged (v\<lparr>sv_close := pc\<rparr>) = logged v" "logged (v\<lparr>sv_next := n\<rparr>) = logged v"
  "logged (v\<lparr>sv_closed := b1\<rparr>) = logged v" "logged (v\<lparr>sv_refused := n\<rparr>) = logged v"
  "logged (v\<lparr>sv_ticks := n\<rparr>) = logged v" "logged (v\<lparr>sv_lastBeat := t\<rparr>) = logged v"
  "logged (v\<lparr>sv_listener := l\<rparr>) = logged v" "logged (v\<lparr>sv_addr := ad\<rparr>) = logged v"
  by (simp_all add: logged_def stream_drop_def stream_note_def count_out_def)

lemma logged_reply [simp]: "logged (fst (reply c p w)) = logged (fst w)"
  by (auto simp: reply_def session_send_def split: prod.splits sum.splits bool.splits)

lemma logged_refuse [simp]: "logged (fst (snd (refuse c code what i d w))) = logged (fst w)"
  by (simp add: refuse_def)

lemma logged_command [simp]: "logged (fst (sendCommand c cmd i w)) = logged (fst w)"
  by (simp add: sendCommand_def Let_def split: option.splits prod.splits)

lemma logged_hello [simp]: "logged (fst (snd (hello_check c body w))) = logged (fst w)"
  by (simp add: hello_check_def Let_def split: option.splits sum.splits)

lemma logged_sense [simp]: "logged (fst (snd (handleSense c now body w))) = logged (fst w)"
  by (simp add: handleSense_def split: option.splits)

lemma logged_intent [simp]: "logged (fst (snd (handleIntent c body w))) = logged (fst w)"
  by (simp add: handleIntent_def stream_admit_def split: option.splits sum.splits)

lemma logged_mgmt [simp]: "logged (fst (snd (handleMgmt c body w))) = logged (fst w)"
  by (cases w) (simp add: handleMgmt_def Let_def split: option.splits)

lemma logged_dispatch [simp]: "logged (fst (snd (dispatch_head c now body w))) = logged (fst w)"
  by (simp add: dispatch_head_def split: option.splits)

lemma logged_reader_ends [simp]: "logged (fst (reader_ends w)) = logged (fst w)"
  by (simp add: reader_ends_def readerEnded_def detach_def split: prod.splits)

lemma logged_reader [simp]:
  "logged (fst (reader_turn c now w)) = logged (fst w)"
  "logged (fst (reader_subscribe w)) = logged (fst w)" "logged (fst (reader_greet w)) = logged (fst w)"
proof -
  obtain v s where w: "w = (v, s)" by (rule prod.exhaust)
  obtain rd rest where f: "readFrame (s_in s) = (rd, rest)" by (rule prod.exhaust)
  let ?s = "s\<lparr>s_in := rest\<rparr>" and ?v = "v\<lparr>sv_framesIn := Suc (sv_framesIn v)\<rparr>"
  show "logged (fst (reader_turn c now w)) = logged (fst w)"
  proof (cases rd)
    case (Inr body)
    obtain d v' s' where h: "dispatch_head c now body (?v, ?s) = (d, (v', s'))" by (metis prod_cases3)
    have "logged v' = logged v" using logged_dispatch[of c now body "(?v, ?s)"] by (simp add: h)
    then show ?thesis by (simp add: reader_turn_def w f Inr h Let_def split: verdict.splits)
  qed (simp add: reader_turn_def w f Let_def)
  show "logged (fst (reader_subscribe w)) = logged (fst w)" "logged (fst (reader_greet w)) = logged (fst w)"
    by (simp_all add: w reader_subscribe_def reader_greet_def hello_write_def split: option.splits prod.splits bool.splits)
qed

lemma logged_writer [simp]: "logged (fst (writer_write c w)) = logged (fst w)"
  by (simp add: writer_write_def writeFrame_def detach_def split: option.splits prod.splits sum.splits bool.splits)

lemma logged_queue [simp]:
  "logged (fst (enqueue_count k p w)) = logged (fst w)" "logged (fst (enqueue_put w)) = logged (fst w)"
  by (simp_all add: enqueue_count_def enqueue_put_def split: option.splits prod.splits)

lemma logged_answer [simp]: "logged (fst (mgmt_finish c k result w)) = logged (fst w)"
proof -
  obtain v s where w: "w = (v, s)" by (rule prod.exhaust)
  obtain i raw where r: "s_verbs s ! k = (i, raw)" by (rule prod.exhaust)
  let ?w = "(v, s\<lparr>s_verbs := take k (s_verbs s) @ drop (Suc k) (s_verbs s)\<rparr>)"
    and ?p = "MgmtResultOut i (if result = [] then null_json else result)"
  obtain v' s2 where q: "reply c ?p ?w = (v', s2)" by (rule prod.exhaust)
  have "logged v' = logged v" using logged_reply[of c ?p ?w] by (simp add: q)
  then show ?thesis by (simp add: mgmt_finish_def w r q Let_def)
qed

lemma logged_session [simp]:
  "logged (fst (f (v, sv_heap v i))) = logged v \<Longrightarrow> logged (on_session i f v) = logged v"
  by (cases "f (v, sv_heap v i)") (simp add: on_session_def)

lemma stream_run_logged: "stream_run c v0 v acc \<Longrightarrow> logged v0 \<Longrightarrow> logged v"
proof (induction rule: stream_run.induct)
  case (connects v acc conn)
  then show ?case by (auto simp: handleConn_def writeDirect_def split: sum.splits option.splits)
next
  case (close_begins v acc reason)
  then show ?case by (simp add: close_begin_def Let_def)
next
  case (flushed v acc givenUp)
  then show ?case by (auto simp: close_flushed_def Let_def split: close_pc.splits)
next
  case (ends v acc inTime)
  then show ?case by (auto simp: close_end_def Let_def split: close_pc.splits)
next
  case (shuts v acc)
  then show ?case by (auto simp: close_shut_def split: close_pc.splits)
qed auto

end
