(* ===== verification/Stream_Properties.thy ===== *)
theory Stream_Properties
  imports Stream_Runs Engine_Properties
begin

text \<open>
  The properties of the stream endpoint: the wire, the order and completeness of telemetry, the owner of the
  socket, what a client can reach, the heartbeats, the listener and the close. The witnesses run an
  endpoint over a small codec, \<open>demo_codec\<close>: bodies of one byte, each standing for one JSON document.
\<close>

section \<open>A codec and a run to try things on\<close>

fun demo_marshal :: "payload \<Rightarrow> bytes option" where
  "demo_marshal (HelloOut _) = Some [1]"
| "demo_marshal (PoseOut n _) = (if n = 0 then None else Some [2, of_nat n])"
| "demo_marshal (EventOut _ _) = Some [3]"
| "demo_marshal (HeartbeatOut _ _) = Some [4]"
| "demo_marshal (EndOut _) = Some [5]"
| "demo_marshal (ErrorOut _ _ _) = Some [6]"
| "demo_marshal (MgmtResultOut _ _) = Some [7]"

definition demo_doc :: "string \<Rightarrow> (string \<times> json) list \<Rightarrow> json" where
  "demo_doc kind kvs = JObj ((''v'', JNum (Some 1) (Some (Fin 1))) # (''kind'', JStr kind) # kvs)"

definition demo_parse :: "bytes \<Rightarrow> json option" where
  "demo_parse body =
     (if body = [1] then Some (demo_doc ''hello'' [(''client'', JStr ''demo'')])
      else if body = [2] then Some (demo_doc ''intent'' [(''op'', JStr ''admit''), (''action'', JStr ''wave''),
        (''duration_s'', JNum (Some 2) (Some (Fin 2)))])
      else if body = [3] then Some (demo_doc ''sense'' [(''fields'', JObj [(''battery'', JNum (Some 7) (Some (Fin 7)))]),
        (''filds'', JNull)])
      else if body = [4] then Some (demo_doc ''mgmt'' [(''id'', JStr ''q1''), (''verb'', JStr ''status'')])
      else None)"

definition demo_codec :: codec where
  "demo_codec = \<lparr>cd_marshal = demo_marshal, cd_parse = demo_parse\<rparr>"

definition demo_os :: os where
  "demo_os = \<lparr>os_stat = (\<lambda>_. StatDir), os_lstat = (\<lambda>_. LstatSocket), os_remove = (\<lambda>_. True),
     os_listen = (\<lambda>_ a. Some a), os_chmod = (\<lambda>_. True), os_join = (\<lambda>d f. d @ ''/'' @ f)\<rparr>"

definition demo_config :: stream_config where
  "demo_config = \<lparr>sc_Dir = ''/run/robot'', sc_SocketName = [], sc_TCPAddr = [], sc_InsecureTCP = False,
     sc_HeartbeatEvery = 0, sc_OutboundQueue = 2, sc_MaxInflightMgmt = 1, sc_EngineVersion = ''1'',
     sc_Vocabulary = Some toy_voc\<rparr>"

definition demo_server :: "(unit, unit) server" where
  "demo_server = projr (stream_New demo_os demo_config None (Some sense_New) True)"

lemma demo_server_new: "newServer demo_os demo_config None (Some sense_New) True None = Inr demo_server"
proof -
  have "\<exists>v :: (unit, unit) server. newServer demo_os demo_config None (Some sense_New) True None = Inr v"
    by (simp add: newServer_def normalize_def checkDir_def demo_os_def demo_config_def Let_def)
  then show ?thesis by (auto simp: demo_server_def stream_New_def)
qed

text \<open>The peer sends a hello and a management verb and hangs up. Every write to it succeeds.\<close>

definition demo_peer :: peer where
  "demo_peer = ([0, 0, 0, 1, 1, 0, 0, 0, 1, 4], \<lambda>_. None)"

text \<open>
  It connects and is greeted; two poses are counted, put on the queue and written, the second put while the
  writer holds the first; the verb is read and answered.
\<close>

definition demo1 :: "(unit, unit) server" where
  "demo1 = on_session 0 (reader_turn demo_codec 0) (snd (handleConn demo_codec demo_peer demo_server))"

definition demo2 :: "(unit, unit) server" where
  "demo2 = on_session 0 reader_greet (on_session 0 reader_subscribe demo1)"

definition demo3 :: "(unit, unit) server" where
  "demo3 = on_session 0 (\<lambda>(v, s). (v, writer_take s)) (on_session 0 enqueue_put
     (on_session 0 (enqueue_count KindPose (PoseOut 1 Map.empty)) demo2))"

definition demo4 :: "(unit, unit) server" where
  "demo4 = on_session 0 (reader_turn demo_codec 0) (on_session 0 enqueue_put
     (on_session 0 (enqueue_count KindPose (PoseOut 2 Map.empty)) demo3))"

definition demo5 :: "(unit, unit) server" where
  "demo5 = on_session 0 (mgmt_finish demo_codec 0 []) (on_session 0 (writer_write demo_codec)
     (on_session 0 (\<lambda>(v, s). (v, writer_take s)) (on_session 0 (writer_write demo_codec) demo4)))"

text \<open>What each stage leaves, as far as the witnesses read it.\<close>

lemma demo_frames:
  "readFrame [0, 0, 0, 1, 1, 0, 0, 0, 1, 4] = (Inr [1], [0, 0, 0, 1, 4])" "readFrame [0, 0, 0, 1, 4] = (Inr [4], [])"
  by (simp_all add: readFrame_def ReadFull_def Uint32_def lengthPrefixBytes_def MaxFrameBytes_def)

lemmas field_defs = decodeStruct_def embedded_def findField_def int_ptr_field_def str_field_def bool_field_def
  strs_field_def float_ptr_field_def float_map_field_def any_map_field_def
  fold_char_def byte_of_def Let_def

lemma demo_headers:
  "decodeHeader demo_parse [1] = Some \<lparr>hd_V = Some 1, hd_Kind = ''hello''\<rparr>"
  "decodeHeader demo_parse [2] = Some \<lparr>hd_V = Some 1, hd_Kind = ''intent''\<rparr>"
  "decodeHeader demo_parse [3] = Some \<lparr>hd_V = Some 1, hd_Kind = ''sense''\<rparr>"
  "decodeHeader demo_parse [4] = Some \<lparr>hd_V = Some 1, hd_Kind = ''mgmt''\<rparr>"
  by (simp_all add: decodeHeader_def demo_parse_def demo_doc_def header_fields_def zero_header_def field_defs)

lemma demo_bodies:
  "decodeHello demo_parse [1] = Some \<lparr>hi_Client = ''demo''\<rparr>"
  "decodeMgmt demo_parse [4] = Some \<lparr>mi_ID = ''q1'', mi_Verb = ''status'', mi_Args = [], mi_JSON = False\<rparr>"
  by (simp_all add: decodeHello_def decodeMgmt_def decodeStrict_def demo_parse_def demo_doc_def helloIn_fields_def
      mgmtIn_fields_def field_defs)

lemma demo_encodes: "encodeFrame demo_marshal p =
    (case p of PoseOut n _ \<Rightarrow> if n = 0 then Inl EncodeFailed else Inr (PutUint32 2 @ [2, of_nat n])
     | _ \<Rightarrow> Inr (PutUint32 1 @ the (demo_marshal p)))"
  by (cases p) (simp_all add: encodeFrame_def MaxFrameBytes_def)

lemma demo_server_sel:
  "sv_cfg demo_server = demo_config\<lparr>sc_SocketName := DefaultSocketName, sc_HeartbeatEvery := DefaultHeartbeatEvery\<rparr>"
  "sv_next demo_server = 0" "sv_sess demo_server = None" "sv_closed demo_server = False"
  "sv_stdio demo_server = False" "sv_mgmt demo_server = True" "sv_engine demo_server = None"
  "sv_endReason demo_server = None"
  by (simp_all add: demo_server_def stream_New_def newServer_def normalize_def checkDir_def demo_os_def
      demo_config_def Let_def Attach_def)

definition demo_kept :: "(unit, unit) server \<Rightarrow> bool" where
  "demo_kept v \<longleftrightarrow> sv_cfg v = sv_cfg demo_server \<and> sv_next v = 1 \<and> sv_stdio v = False \<and> sv_mgmt v = True
     \<and> sv_sess v = Some 0 \<and> sv_endReason v = None"

lemma demo_keptD: "demo_kept v \<Longrightarrow> sv_next v = 1" "demo_kept v \<Longrightarrow> sv_mgmt v"
    "demo_kept v \<Longrightarrow> queueCap v = 2" "demo_kept v \<Longrightarrow> inflightCap v = 1" "demo_kept v \<Longrightarrow> \<not> sv_stdio v"
    "demo_kept v \<Longrightarrow> sc_EngineVersion (sv_cfg v) = ''1''" "demo_kept v \<Longrightarrow> sv_sess v = Some 0"
    "demo_kept v \<Longrightarrow> sv_endReason v = None"
  by (simp_all add: demo_kept_def queueCap_def inflightCap_def demo_server_sel demo_config_def)

definition demo_session :: stream_session where
  "demo_session = (newSession 0 [0, 0, 0, 1, 4] (\<lambda>_. None))\<lparr>s_greeted := True\<rparr>"

lemmas demo_defs = on_session_def demo_session_def newSession_def demo_codec_def
  Let_def demo_encodes w_Write_def count_out_def

lemma demo1_sel: "sv_heap demo1 0 = demo_session\<lparr>s_reply := Some (HelloOut ''1'')\<rparr>" "demo_kept demo1"
  by (simp_all add: demo1_def handleConn_def demo_server_sel demo_peer_def reader_turn_def demo_frames dispatch_head_def
      demo_headers Version_def kind_defs hello_check_def demo_bodies maxClientNameBytes_def demo_config_def
      stream_note_def demo_kept_def demo_defs)

lemma demo2_sel: "sv_heap demo2 0 = demo_session\<lparr>s_subscribed := True, s_wire := [Whole (HelloOut ''1'')]\<rparr>" "demo_kept demo2"
  using demo1_sel by (simp_all add: demo2_def reader_subscribe_def hello_subscribe_def reader_greet_def hello_write_def
      demo_kept_def demo_defs)

lemma demo3_sel: "sv_heap demo3 0 = demo_session\<lparr>s_subscribed := True, s_wire := [Whole (HelloOut ''1'')],
    s_queued := 1, s_hand := Some (KindPose, PoseOut 1 Map.empty)\<rparr>" "demo_kept demo3"
  using demo2_sel demo_keptD(3)[OF demo2_sel(2)]
  by (simp_all add: demo3_def enqueue_count_def enqueue_put_def writer_take_def queueCap_def demo_kept_def demo_defs)

lemma demo4_sel: "sv_heap demo4 0 = demo_session\<lparr>s_subscribed := True, s_wire := [Whole (HelloOut ''1'')],
    s_queued := 2, s_hand := Some (KindPose, PoseOut 1 Map.empty), s_out := [(KindPose, PoseOut 2 Map.empty)],
    s_in := [], s_verbs := [(''q1'', [4])], s_mgmtInflight := 1\<rparr>" "demo_kept demo4"
  using demo3_sel demo_keptD(2-4)[OF demo3_sel(2)]
  by (simp_all add: demo4_def enqueue_count_def enqueue_put_def reader_turn_def demo_frames dispatch_head_def
      demo_headers demo_bodies Version_def kind_defs handleMgmt_def queueCap_def inflightCap_def demo_kept_def demo_defs)

lemma demo5_sel: "sv_heap demo5 0 = demo_session\<lparr>s_subscribed := True,
    s_wire := [Whole (HelloOut ''1''), Whole (PoseOut 1 Map.empty), Whole (PoseOut 2 Map.empty),
      Whole (MgmtResultOut ''q1'' null_json)],
    s_queued := 2, s_written := 2, s_in := []\<rparr>" "demo_kept demo5"
  using demo4_sel
  by (simp_all add: demo5_def writer_write_def writeFrame_def writer_take_def mgmt_finish_def reply_def
      session_send_def demo_kept_def demo_defs)

definition demo_accepted :: "nat \<Rightarrow> out_frame list" where
  "demo_accepted = (\<lambda>i. if i = 0 then [(KindPose, PoseOut 1 Map.empty), (KindPose, PoseOut 2 Map.empty)] else [])"

lemma demo_run: "stream_run demo_codec demo_server demo5 demo_accepted"
proof -
  have r0: "stream_run demo_codec demo_server (snd (handleConn demo_codec demo_peer demo_server)) (\<lambda>_. [])"
    by (intro connects start) (simp add: demo_server_sel)
  have r1: "stream_run demo_codec demo_server demo1 (\<lambda>_. [])" unfolding demo1_def
    by (rule reads[OF r0]) (simp_all add: handleConn_def demo_server_sel newSession_def)
  have "stream_run demo_codec demo_server (on_session 0 reader_subscribe demo1) (\<lambda>_. [])"
    by (rule subscribes[OF r1]) (simp_all add: demo1_sel demo_keptD demo_defs)
  then have r2: "stream_run demo_codec demo_server demo2 (\<lambda>_. [])" unfolding demo2_def
    by (rule greets) (use demo1_sel demo_keptD(1)[OF demo1_sel(2)] in
        \<open>simp_all add: reader_subscribe_def hello_subscribe_def demo_defs\<close>)
  note n2 = demo_keptD(1)[OF demo2_sel(2)] and c2 = demo_keptD(3)[OF demo2_sel(2)]
  have c3: "stream_run demo_codec demo_server (on_session 0 (enqueue_count KindPose (PoseOut 1 Map.empty)) demo2) (\<lambda>_. [])"
    (is "stream_run _ _ ?v3 _") by (rule counts[OF r2]) (simp_all add: demo2_sel n2 demo_defs)
  have v3: "sv_next ?v3 = 1" "queueCap ?v3 = 2" "s_out (sv_heap ?v3 0) = []"
    "s_offer (sv_heap ?v3 0) = Some (KindPose, PoseOut 1 Map.empty)"
    using c2 by (simp_all add: enqueue_count_def demo2_sel n2 queueCap_def demo_defs)
  have p3: "stream_run demo_codec demo_server (on_session 0 enqueue_put ?v3)
      ((\<lambda>_. [])(0 := [(KindPose, PoseOut 1 Map.empty)]))" (is "stream_run _ _ _ ?a3")
    using puts[OF c3, of 0, unfolded v3 put_accepts_def] by simp
  have r3: "stream_run demo_codec demo_server demo3 ?a3" unfolding demo3_def
    by (rule takes[OF p3]) (use v3 c2 in \<open>simp_all add: enqueue_put_def enqueue_count_def demo2_sel queueCap_def demo_defs\<close>)
  note n3 = demo_keptD(1)[OF demo3_sel(2)]
  have c4: "stream_run demo_codec demo_server (on_session 0 (enqueue_count KindPose (PoseOut 2 Map.empty)) demo3) ?a3"
    (is "stream_run _ _ ?v4 _") by (rule counts[OF r3]) (simp_all add: demo3_sel n3 demo_defs)
  have v4: "sv_next ?v4 = 1" "queueCap ?v4 = 2" "s_out (sv_heap ?v4 0) = []"
    "s_offer (sv_heap ?v4 0) = Some (KindPose, PoseOut 2 Map.empty)"
    using demo_keptD(3)[OF demo3_sel(2)] by (simp_all add: enqueue_count_def demo3_sel n3 queueCap_def demo_defs)
  have p4: "stream_run demo_codec demo_server (on_session 0 enqueue_put ?v4) demo_accepted"
    using puts[OF c4, of 0, unfolded v4 put_accepts_def] by (simp add: demo_accepted_def fun_upd_def cong: if_cong)
  have r4: "stream_run demo_codec demo_server demo4 demo_accepted" unfolding demo4_def
    by (rule reads[OF p4]) (use v4 in \<open>simp_all del: One_nat_def add: enqueue_put_def enqueue_count_def demo3_sel queueCap_def demo_defs\<close>)
  note n4 = demo_keptD(1)[OF demo4_sel(2)]
  have w5: "stream_run demo_codec demo_server (on_session 0 (writer_write demo_codec) demo4) demo_accepted"
    (is "stream_run _ _ ?v5 _") by (rule writes[OF r4]) (simp_all add: demo4_sel n4 demo_defs)
  have t5: "stream_run demo_codec demo_server (on_session 0 (\<lambda>(v, s). (v, writer_take s)) ?v5) demo_accepted"
    (is "stream_run _ _ ?v6 _")
    by (rule takes[OF w5]) (simp_all add: writer_write_def writeFrame_def demo4_sel n4 demo_defs)
  have u5: "stream_run demo_codec demo_server (on_session 0 (writer_write demo_codec) ?v6) demo_accepted"
    by (rule writes[OF t5]) (simp_all add: writer_write_def writeFrame_def writer_take_def demo4_sel n4 demo_defs)
  show ?thesis unfolding demo5_def
    by (rule answers[OF u5]) (simp_all add: writer_write_def writeFrame_def writer_take_def demo4_sel n4 demo_defs)
qed

section \<open>The wire\<close>

lemma run_session:
  assumes "newServer os cfg eng sns mg stdio = Inr v0" "stream_run c v0 v acc" "i < sv_next v"
  shows "sess_ok c (queueCap v) (inflightCap v) (sv_heap v i) (acc i)"
  using run_ok_sess[OF stream_run_ok[OF assms(2) newServer_ok(1)[OF assms(1)]] assms(3)] .

text \<open>
  C13: Nothing that goes over the wire is ever a half-frame or out of step: for every interleaving of the
  tick goroutine, the writer, the reader, the management verbs and the close, reading the bytes of a session
  frame by frame gives exactly the JSON bodies of the frames written, in order, and then the end of the
  stream, as long as the peer's connection took every write.
\<close>

theorem wire_reads_back:
  assumes "newServer os cfg eng sns mg stdio = Inr v0" "stream_run c v0 v acc" "i < sv_next v"
    "\<forall>p. cd_marshal c p \<noteq> Some []" "\<forall>x \<in> set (s_wire (sv_heap v i)). \<exists>p. x = Whole p"
  shows "readFrames (wire_bytes c (sv_heap v i)) = (map (the \<circ> cd_marshal c) (payloads (sv_heap v i)), ReadEOF)"
proof -
  let ?s = "sv_heap v i"
  have "\<forall>p \<in> set (payloads ?s). encodable c p"
    using run_session[OF assms(1-3)] by (simp add: sess_ok_def fifo_ok_def)
  then have e: "map (encodeFrame (cd_marshal c)) (payloads ?s) = map Inr (map (frame_bytes c) (payloads ?s))"
    by (auto simp: frame_bytes_def encodable_def)
  have "map (item_bytes c) (s_wire ?s) = map (frame_bytes c) (payloads ?s)"
    using assms(5) by (auto simp: payloads_def item_bytes_def item_payload_def)
  then have w: "wire_bytes c ?s = concat (map (frame_bytes c) (payloads ?s)) @ []" by (simp add: wire_bytes_def)
  have eof: "readFrames [] = ([], ReadEOF)"
    by (simp add: readFrames.simps[of "[]"] readFrame_def ReadFull_def lengthPrefixBytes_def)
  have m: "Some [] \<notin> cd_marshal c ` set (payloads ?s)" using assms(4) by (metis imageE)
  show ?thesis unfolding w readFrames_encoded[OF e m] eof by simp
qed

lemma demo_wire: "\<forall>x \<in> set (s_wire (sv_heap demo5 0)). \<exists>p. x = Whole p" "0 < sv_next demo5"
  by (simp_all add: demo5_sel demo_keptD)

lemma demo_marshals: "demo_marshal p \<noteq> Some []"
  by (cases p) simp_all

theorem wire_reads_back_witness:
  "readFrames (wire_bytes demo_codec (sv_heap demo5 0)) = ([[1], [2, 1], [2, 2], [7]], ReadEOF)"
  using wire_reads_back[OF demo_server_new demo_run demo_wire(2) _ demo_wire(1)] demo_marshals
  by (simp add: demo5_sel payloads_def item_payload_def demo_codec_def)

text \<open>
  C17: The hello reply is the first frame a client gets, whatever the tick goroutine does meanwhile. Before it
  there can be nothing but the end of the stream; a session that was never greeted gets the error that
  refused it, and no pose, event, heartbeat or result; no session is greeted twice.
\<close>

theorem hello_comes_first:
  assumes "newServer os cfg eng sns mg stdio = Inr v0" "stream_run c v0 v acc" "i < sv_next v"
  shows "\<exists>before after. payloads (sv_heap v i) = before @ after
    \<and> (\<forall>p \<in> set before. is_end p \<or> is_error p)
    \<and> (after = [] \<or> is_hello (hd after) \<and> (\<forall>p \<in> set before. is_end p) \<and> \<not> (\<exists>p \<in> set (tl after). is_hello p))"
proof -
  let ?ps = "payloads (sv_heap v i)" and ?P = "\<lambda>p. \<not> is_hello p"
  have g: "hello_first ?ps" "length (filter is_hello ?ps) \<le> 1"
    using run_session[OF assms] by (simp_all add: sess_ok_def greet_ok_def)
  have hd: "dropWhile ?P ?ps \<noteq> [] \<Longrightarrow> is_hello (hd (dropWhile ?P ?ps))" using hd_dropWhile[of ?P ?ps] by blast
  have once: "\<not> (\<exists>p \<in> set (tl (dropWhile ?P ?ps)). is_hello p)" if ne: "dropWhile ?P ?ps \<noteq> []"
  proof -
    obtain h t where ht: "dropWhile ?P ?ps = h # t" using ne by (cases "dropWhile ?P ?ps") auto
    have "length (filter is_hello (h # t)) \<le> length (filter is_hello ?ps)"
      unfolding ht[symmetric] using takeWhile_dropWhile_id[of ?P ?ps] by (metis filter_append length_append le_add2)
    then have "length (filter is_hello (h # t)) \<le> 1" using g(2) by linarith
    then have "filter is_hello t = []" using hd[OF ne] by (simp add: ht)
    then show ?thesis by (simp add: ht filter_empty_conv)
  qed
  have "dropWhile ?P ?ps \<noteq> [] \<Longrightarrow> takeWhile ?P ?ps \<noteq> ?ps"
    by (metis append_self_conv takeWhile_dropWhile_id)
  then have "dropWhile ?P ?ps \<noteq> [] \<Longrightarrow> \<forall>p \<in> set (takeWhile ?P ?ps). is_end p"
    using g(1) unfolding hello_first_def before_hello_def by blast
  moreover have "\<forall>p \<in> set (takeWhile ?P ?ps). is_end p \<or> is_error p"
    using g(1) unfolding hello_first_def before_hello_def by blast
  ultimately show ?thesis using once hd takeWhile_dropWhile_id[of ?P ?ps, symmetric] by blast
qed

theorem hello_comes_first_witness:
  "\<exists>before after. payloads (sv_heap demo5 0) = before @ after
    \<and> (\<forall>p \<in> set before. is_end p \<or> is_error p)
    \<and> (after = [] \<or> is_hello (hd after) \<and> (\<forall>p \<in> set before. is_end p) \<and> \<not> (\<exists>p \<in> set (tl after). is_hello p))"
  by (rule hello_comes_first[OF demo_server_new demo_run demo_wire(2)])

text \<open>
  C29: The queue is first in, first out and bounded. Every frame it has accepted that can be encoded is either
  on the wire, in the order of acceptance and each once, or still held, and at most the configured
  depth of frames wait in it.
\<close>

theorem telemetry_in_order:
  assumes "newServer os cfg eng sns mg stdio = Inr v0" "stream_run c v0 v acc" "i < sv_next v"
  shows "filter telemetry (payloads (sv_heap v i)) @ filter (encodable c) (map snd (unwritten (sv_heap v i)))
      = filter (encodable c) (map snd (acc i)) \<and> length (s_out (sv_heap v i)) \<le> queueCap v"
  using run_session[OF assms] by (simp add: sess_ok_def fifo_ok_def count_ok_def)

theorem telemetry_in_order_witness:
  "filter telemetry (payloads (sv_heap demo5 0)) @ filter (encodable demo_codec) (map snd (unwritten (sv_heap demo5 0)))
      = filter (encodable demo_codec) (map snd (demo_accepted 0)) \<and> length (s_out (sv_heap demo5 0)) \<le> queueCap demo5"
  by (rule telemetry_in_order[OF demo_server_new demo_run demo_wire(2)])

text \<open>
  C14: What the flush of a close waits for is enough. When it returns because as many frames are written as
  were queued, nothing is left anywhere between the tick goroutine and the peer: every frame the queue
  accepted that can be encoded, the settling pose among them, is on the wire, so the end frame written next
  overtakes none.
\<close>

theorem flush_complete:
  assumes "newServer os cfg eng sns mg stdio = Inr v0" "stream_run c v0 v acc" "i < sv_next v"
    "drained (sv_heap v i)"
  shows "filter telemetry (payloads (sv_heap v i)) = filter (encodable c) (map snd (acc i))
    \<and> s_out (sv_heap v i) = [] \<and> s_hand (sv_heap v i) = None \<and> s_offer (sv_heap v i) = None"
proof -
  let ?s = "sv_heap v i"
  have ok: "count_ok (queueCap v) ?s" "fifo_ok c ?s (acc i)" using run_session[OF assms(1-3)] by (simp_all add: sess_ok_def)
  have "length (unwritten ?s) + length (opt_list (s_offer ?s)) = 0"
    using ok(1) assms(4) unfolding count_ok_def drained_def by linarith
  then have "unwritten ?s = [] \<and> s_offer ?s = None" by (cases "s_offer ?s") simp_all
  then show ?thesis using ok(2) by (auto simp: fifo_ok_def unwritten_def opt_list_def split: option.splits)
qed

theorem flush_complete_witness:
  "drained (sv_heap demo5 0) \<and> filter telemetry (payloads (sv_heap demo5 0)) =
    filter (encodable demo_codec) (map snd (demo_accepted 0))"
proof -
  have d: "drained (sv_heap demo5 0)" by (simp add: drained_def demo5_sel demo_defs)
  show ?thesis using flush_complete[OF demo_server_new demo_run demo_wire(2) d] d by blast
qed




text \<open>
  The management verbs a session has running are counted as they are, and never exceed the limit,
  which is positive: the configured one, or four where none is configured.
\<close>

lemma verbs_bounded:
  assumes "newServer os cfg eng sns mg stdio = Inr v0" "stream_run c v0 v acc" "i < sv_next v"
  shows "s_mgmtInflight (sv_heap v i) = length (s_verbs (sv_heap v i))
    \<and> int (length (s_verbs (sv_heap v i)))
        \<le> (if sc_MaxInflightMgmt cfg \<le> 0 then 4 else sc_MaxInflightMgmt cfg)"
proof -
  have "inflightCap v = nat (sc_MaxInflightMgmt (sv_cfg v0))"
    using stream_run_cfg[OF assms(2)] by (simp add: inflightCap_def)
  moreover have "sc_MaxInflightMgmt (sv_cfg v0) = (if sc_MaxInflightMgmt cfg \<le> 0 then 4 else sc_MaxInflightMgmt cfg)"
    by (rule normalize_sel(1)[OF newServer_ok(2)[OF assms(1)]])
  ultimately show ?thesis using run_session[OF assms] by (auto simp: sess_ok_def verbs_ok_def split: if_splits)
qed

lemma verbs_bounded_witness:
  "s_mgmtInflight (sv_heap demo5 0) = length (s_verbs (sv_heap demo5 0)) \<and> int (length (s_verbs (sv_heap demo5 0))) \<le> 1"
  using verbs_bounded[OF demo_server_new demo_run demo_wire(2)] by (simp add: demo_config_def)

text \<open>
  No drop is silent: after any run of the endpoint the drop counter is the number of drop lines in its log.
\<close>

lemma drops_are_logged:
  assumes "newServer os cfg eng sns mg stdio = Inr v0" "stream_run c v0 v acc"
  shows "FrameDrops (stream_Stats v) = length (filter is_drop (sv_log v))"
proof -
  have "logged v0" using assms(1)
    by (auto simp: newServer_def Attach_def logged_def Let_def split: option.splits)
  then show ?thesis using stream_run_logged[OF assms(2)] by (simp add: logged_def stream_Stats_def)
qed

lemma drops_are_logged_witness:
  "FrameDrops (stream_Stats demo5) = length (filter is_drop (sv_log demo5))"
  by (rule drops_are_logged[OF demo_server_new demo_run])

section \<open>What a client can reach\<close>

lemma reply_shared [simp]:
  "sv_engine (fst (reply c p w)) = sv_engine (fst w)" "sv_sense (fst (reply c p w)) = sv_sense (fst w)"
  by (auto simp: reply_def session_send_def count_out_def split: prod.splits sum.splits bool.splits)

lemma refuse_shared [simp]:
  "sv_engine (fst (snd (refuse c code what i d w))) = sv_engine (fst w)"
  "sv_sense (fst (snd (refuse c code what i d w))) = sv_sense (fst w)"
  by (simp_all add: refuse_def)

lemma dispatch_head_engine:
  "sv_engine (fst (snd (dispatch c now body w))) = sv_engine (fst (snd (dispatch_head c now body w)))"
proof -
  obtain d v s where h: "dispatch_head c now body w = (d, (v, s))" by (metis prod_cases3)
  show ?thesis
    by (simp add: dispatch_def h hello_subscribe_def hello_write_def count_out_def
        split: verdict.splits option.splits prod.splits bool.splits)
qed

definition client_command :: "vocabulary \<Rightarrow> 's command \<Rightarrow> bool" where
  "client_command voc cmd =
     (case cmd of AdmitCmd b \<Rightarrow> behavior_ok voc b | EvictCmd n \<Rightarrow> n \<noteq> [] | _ \<Rightarrow> False)"

lemma sendCommand_engine:
  "sv_engine (fst w) = Some e \<Longrightarrow> sv_engine (fst (sendCommand c cmd i w)) = Some (snd (Send cmd e))"
  by (cases "Send cmd e") (simp add: sendCommand_def Let_def)

lemma handleIntent_engine:
  assumes "voc_wf voc" "sc_Vocabulary (sv_cfg v) = Some voc" "sv_engine v = Some e"
  shows "sv_engine (fst (snd (handleIntent c body (v, s)))) = Some e
    \<or> (\<exists>cmd. sv_engine (fst (snd (handleIntent c body (v, s)))) = Some (snd (Send cmd e)) \<and> client_command voc cmd)"
proof (cases "decodeIntent (cd_parse c) body")
  case None
  then show ?thesis by (simp add: handleIntent_def assms)
next
  case (Some f)
  consider "ii_Op f = OpEvict" "ii_Name f = []" | (evict) "ii_Op f = OpEvict" "ii_Name f \<noteq> []"
    | (admit) "ii_Op f \<noteq> OpEvict" "ii_Op f = OpAdmit" | "ii_Op f \<noteq> OpEvict" "ii_Op f \<noteq> OpAdmit" by blast
  then show ?thesis
  proof cases
    case evict
    have "client_command voc (EvictCmd (ii_Name f) :: 'a command)" using evict by (simp add: client_command_def)
    then show ?thesis using evict by (auto simp: handleIntent_def Some assms sendCommand_engine[of "(v, s)" e])
  next
    case admit
    show ?thesis
    proof (cases "Bind (Some voc) (intentBehavior f)")
      case (Inr b)
      have "client_command voc (AdmitCmd b :: 'a command)" using Bind_ok[OF assms(1) Inr] by (simp add: client_command_def)
      then show ?thesis using admit Inr
        by (auto simp: handleIntent_def Some assms stream_admit_def sendCommand_engine[of "(v, s)" e])
    qed (use admit in \<open>simp add: handleIntent_def Some assms stream_admit_def\<close>)
  qed (simp_all add: handleIntent_def Some assms)
qed

text \<open>
  C18: All a client can do to the engine is to offer it one command per frame through its bounded inbox, after
  its hello: an eviction with a name, or the admission of a behavior that is bound to the robot's
  vocabulary, its action, channels, parameters and lifetime in the domain. No other frame changes the engine.
\<close>

theorem client_commands:
  assumes "voc_wf voc" "sc_Vocabulary (sv_cfg v) = Some voc" "sv_engine v = Some e"
    "dispatch c now body (v, s) = (alive, (v', s'))"
  shows "sv_engine v' = Some e \<or>
    s_greeted s \<and> (\<exists>cmd. sv_engine v' = Some (snd (Send cmd e)) \<and> client_command voc cmd)"
proof -
  have e: "sv_engine v' = sv_engine (fst (snd (dispatch_head c now body (v, s))))"
    using dispatch_head_engine[of c now body "(v, s)"] by (simp add: assms(4))
  have hello: "sv_engine (fst (snd (hello_check c body (v, s)))) = Some e" for body
    by (simp add: hello_check_def Let_def stream_note_def assms(3) split: option.splits sum.splits)
  have sense: "sv_engine (fst (snd (handleSense c now body (v, s)))) = Some e" for body
    by (simp add: handleSense_def assms(3) split: option.splits)
  have mgmt: "sv_engine (fst (snd (handleMgmt c body (v, s)))) = Some e" for body
    by (simp add: handleMgmt_def Let_def stream_drop_def assms(3) split: option.splits)
  show ?thesis
  proof (cases "s_greeted s")
    case True
    show ?thesis unfolding e
      by (cases "\<exists>h. decodeHeader (cd_parse c) body = Some h \<and> hd_V h = Some Version \<and> hd_Kind h = KindIntent")
        (use handleIntent_engine[OF assms(1-3), of c body s] True sense mgmt in
          \<open>auto simp: dispatch_head_def kind_defs assms(3) split: option.splits\<close>)
  next
    case False
    then show ?thesis unfolding e
      by (auto simp: dispatch_head_def hello assms(3) split: option.splits)
  qed
qed

text \<open>The keys a frame of each kind may carry.\<close>

definition declaredKeys :: "string \<Rightarrow> string list" where
  "declaredKeys kind = [''v'', ''kind''] @
     (if kind = ''hello'' then [''client''] else if kind = ''sense'' then [''fields'']
      else if kind = ''intent'' then [''op'', ''name'', ''action'', ''class'', ''channels'', ''duration_s'',
        ''loops'', ''params'', ''id'']
      else [''id'', ''verb'', ''args'', ''json''])"

lemma declares_keys:
  "declares helloIn_fields k \<longleftrightarrow> fold_name k \<in> fold_name ` set (declaredKeys ''hello'')"
  "declares senseIn_fields k \<longleftrightarrow> fold_name k \<in> fold_name ` set (declaredKeys ''sense'')"
  "declares intentIn_fields k \<longleftrightarrow> fold_name k \<in> fold_name ` set (declaredKeys ''intent'')"
  "declares mgmtIn_fields k \<longleftrightarrow> fold_name k \<in> fold_name ` set (declaredKeys ''mgmt'')"
  by (simp_all only: declares_def helloIn_fields_def senseIn_fields_def intentIn_fields_def mgmtIn_fields_def
      embedded_def declaredKeys_def list.set fst_conv image_insert image_empty append_Cons append_Nil
      if_True if_False list.inject char.inject simp_thms)

text \<open>
  C26: A field the engine does not declare is refused and never ignored. A hello, sense, intent or management
  frame with a key that no declared one spells, up to case, changes nothing of the engine, the
  perception snapshot, the running verbs or the session's state: at most one error frame is written,
  and only for a hello is it the end of the session.
\<close>

theorem unknown_field_refused:
  assumes "decodeHeader (cd_parse c) body = Some h" "hd_V h = Some Version" "s_greeted s = (hd_Kind h \<noteq> KindHello)"
    "hd_Kind h \<in> {KindHello, KindSense, KindIntent, KindMgmt}" "cd_parse c body = Some (JObj kvs)"
    "k \<in> fst ` set kvs" "fold_name k \<notin> fold_name ` set (declaredKeys (hd_Kind h))"
    "dispatch c now body (v, s) = (alive, (v', s'))"
  shows "alive = (hd_Kind h \<noteq> KindHello) \<and> sv_engine v' = sv_engine v \<and> sv_sense v' = sv_sense v
    \<and> (\<exists>xs. s' = s\<lparr>s_wire := s_wire s @ xs\<rparr> \<and> length xs \<le> 1 \<and> (\<forall>x \<in> set xs. is_error (item_payload x)))"
proof -
  have refused: ?thesis if r: "reply c (stream_newError code what i) (v, s) = (v', s')"
      and a: "alive = (hd_Kind h \<noteq> KindHello)" for code what i
  proof -
    have "speaks c is_error (v, s) (v', s')" unfolding r[symmetric] by (rule reply_says) (simp add: stream_newError_def)
    then obtain xs where s': "s' = s\<lparr>s_wire := s_wire s @ xs\<rparr>" and xs: "xs = [] \<or> (\<exists>x. xs = [x] \<and> is_error (item_payload x))"
      unfolding speaks_def fst_conv snd_conv by blast
    have "length xs \<le> 1 \<and> (\<forall>x \<in> set xs. is_error (item_payload x))" using xs by auto
    then have "\<exists>xs. s' = s\<lparr>s_wire := s_wire s @ xs\<rparr> \<and> length xs \<le> 1 \<and> (\<forall>x \<in> set xs. is_error (item_payload x))"
      using s' by blast
    then show ?thesis using a reply_shared[of c "stream_newError code what i" "(v, s)"] by (auto simp: r)
  qed
  note run = assms(1-3,8) dispatch_def dispatch_head_def refuse_def kind_defs
  have none: "\<not> declares fs k \<Longrightarrow> decodeStrict (cd_parse c) fs z body = None" for fs :: "'x struct" and z
    using decodeStrict_keys[of "cd_parse c" fs z body kvs k] assms(5,6) by blast
  consider (hello) "hd_Kind h = KindHello" | (sense) "hd_Kind h = KindSense" | (intent) "hd_Kind h = KindIntent"
    | (mgmt) "hd_Kind h = KindMgmt" using assms(4) by auto
  then show ?thesis
  proof cases
    case hello
    have "decodeHello (cd_parse c) body = None" unfolding decodeHello_def
      by (rule none) (use assms(7) hello in \<open>simp add: declares_keys KindHello_def\<close>)
    then have "reply c (stream_newError CodeUser HelloUndecodable []) (v, s) = (v', s')" "\<not> alive"
      using hello assms(8) by (simp_all add: run(1-3) run(5-) hello_check_def)
    then show ?thesis using hello by (intro refused) auto
  next
    case sense
    have none': "decodeSense (cd_parse c) body = None" unfolding decodeSense_def
      by (rule none) (use assms(7) sense in \<open>simp add: declares_keys KindSense_def\<close>)
    show ?thesis
    proof (cases "sv_sense v")
      case None
      then have "reply c (stream_newError CodeEnv NoSenseSink []) (v, s) = (v', s')" "alive"
        using sense assms(8) by (simp_all add: run(1-3) run(5-) handleSense_def)
      then show ?thesis using sense by (intro refused) (auto simp: kind_defs)
    next
      case (Some a)
      then have "reply c (stream_newError CodeUser SenseUndecodable []) (v, s) = (v', s')" "alive"
        using sense assms(8) none' by (simp_all add: run(1-3) run(5-) handleSense_def)
      then show ?thesis using sense by (intro refused) (auto simp: kind_defs)
    qed
  next
    case intent
    have none': "decodeIntent (cd_parse c) body = None" unfolding decodeIntent_def
      by (rule none) (use assms(7) intent in \<open>simp add: declares_keys KindIntent_def\<close>)
    show ?thesis
    proof (cases "sv_engine v")
      case None
      then have "reply c (stream_newError CodeEnv NoEngine []) (v, s) = (v', s')" "alive"
        using intent assms(8) by (simp_all add: run(1-3) run(5-) handleIntent_def)
      then show ?thesis using intent by (intro refused) (auto simp: kind_defs)
    next
      case (Some a)
      then have "reply c (stream_newError CodeUser IntentUndecodable []) (v, s) = (v', s')" "alive"
        using intent assms(8) none' by (simp_all add: run(1-3) run(5-) handleIntent_def)
      then show ?thesis using intent by (intro refused) (auto simp: kind_defs)
    qed
  next
    case mgmt
    have "decodeMgmt (cd_parse c) body = None" unfolding decodeMgmt_def
      by (rule none) (use assms(7) mgmt in \<open>simp add: declares_keys KindMgmt_def\<close>)
    then have "reply c (stream_newError CodeUser MgmtUndecodable []) (v, s) = (v', s')" "alive"
      using mgmt assms(8) by (simp_all add: run(1-3) run(5-) handleMgmt_def)
    then show ?thesis using mgmt by (intro refused) (auto simp: kind_defs)
  qed
qed

definition demo_engine :: "(unit, unit) engine" where
  "demo_engine = projr (New (Some toy_voc) toy_engine_config (Some (\<lambda>_. None)) toy_clock)"

definition demo_wired :: "(unit, unit) server" where
  "demo_wired = demo5\<lparr>sv_engine := Some demo_engine\<rparr>"

lemma demo_wired_sel: "sc_Vocabulary (sv_cfg demo_wired) = Some toy_voc" "sv_engine demo_wired = Some demo_engine"
  "s_greeted (sv_heap demo5 0)" "\<not> s_quit (sv_heap demo5 0)"
  using demo5_sel(2) by (simp_all add: demo_wired_def demo_kept_def demo_server_sel demo_config_def demo5_sel(1) demo_defs)

lemma demo_inbox: "e_inbox demo_engine = []" "ec_inboxSize (e_cfg demo_engine) = 1"
  by (simp_all add: demo_engine_def New_def toy_engine_config_def guards.simps Let_def)

lemma demo_intent: "decodeIntent demo_parse [2] = Some \<lparr>ii_Op = ''admit'', ii_Name = [], ii_Action = ''wave'', ii_Class = [],
    ii_Channels = [], ii_DurationS = Some (Fin 2), ii_Loops = False, ii_Params = [], ii_ID = []\<rparr>" (is "_ = Some ?f")
  by (simp add: decodeIntent_def decodeStrict_def demo_parse_def demo_doc_def intentIn_fields_def field_defs)

lemma demo_wave: "HasAction toy_voc ''wave''"
  using toy_voc_wf by (simp add: voc_wf_def HasAction_def index_of_def toy_voc_fields compiled_action_def
      toy_hum_def toy_retreat_def toy_wave_def Let_def)

lemma demo_binds: "\<exists>b. Bind (Some toy_voc) (intentBehavior \<lparr>ii_Op = ''admit'', ii_Name = [], ii_Action = ''wave'', ii_Class = [],
    ii_Channels = [], ii_DurationS = Some (Fin 2), ii_Loops = False, ii_Params = [], ii_ID = []\<rparr>) = Inr b"
  by (simp add: Bind_def bindAction_def bindChannels_def bindLifetime_def intentBehavior_def demo_wave
      guards.simps refuse_if_def toy_voc_fields toy_channels_def toy_hum_def toy_retreat_def toy_wave_def
      compiled_action_def stopClass_def Let_def fle_def is_nan_def is_inf_def)

theorem client_commands_witness:
  "\<exists>cmd e'. sv_engine (fst (snd (dispatch demo_codec 0 [2] (demo_wired, sv_heap demo5 0)))) = Some e'
     \<and> e_inbox e' = [cmd] \<and> client_command toy_voc cmd"
proof -
  obtain alive v' s' where d: "dispatch demo_codec 0 [2] (demo_wired, sv_heap demo5 0) = (alive, (v', s'))"
    by (metis prod_cases3)
  obtain b where b: "Bind (Some toy_voc) (intentBehavior \<lparr>ii_Op = ''admit'', ii_Name = [], ii_Action = ''wave'', ii_Class = [],
    ii_Channels = [], ii_DurationS = Some (Fin 2), ii_Loops = False, ii_Params = [], ii_ID = []\<rparr>) = Inr b"
    using demo_binds by blast
  have "sv_engine (fst (snd (dispatch demo_codec 0 [2] (demo_wired, sv_heap demo5 0)))) =
      Some (demo_engine\<lparr>e_inbox := [AdmitCmd b]\<rparr>)"
    using demo_wired_sel b
    by (simp add: dispatch_def dispatch_head_def demo_codec_def demo_headers Version_def kind_defs handleIntent_def
        demo_intent OpEvict_def OpAdmit_def stream_admit_def sendCommand_def Send_def demo_inbox Let_def)
  then have v': "sv_engine v' = Some (demo_engine\<lparr>e_inbox := [AdmitCmd b]\<rparr>)" by (simp add: d)
  have "map_option e_inbox (sv_engine v') \<noteq> map_option e_inbox (Some demo_engine)" by (simp add: v' demo_inbox)
  then have "sv_engine v' \<noteq> Some demo_engine" by (metis)
  then obtain cmd where "sv_engine v' = Some (snd (Send cmd demo_engine))" "client_command toy_voc cmd"
    using client_commands[OF toy_voc_wf demo_wired_sel(1,2) d] by blast
  then show ?thesis by (simp add: d Send_def demo_inbox)
qed

theorem unknown_field_refused_witness:
  "sv_sense (fst (snd (dispatch demo_codec 0 [3] (demo5, sv_heap demo5 0)))) = sv_sense demo5
   \<and> fst (dispatch demo_codec 0 [3] (demo5, sv_heap demo5 0))"
proof -
  obtain alive v' s' where d: "dispatch demo_codec 0 [3] (demo5, sv_heap demo5 0) = (alive, (v', s'))"
    by (metis prod_cases3)
  have "sv_sense v' = sv_sense demo5 \<and> alive"
    using unknown_field_refused[where h = "\<lparr>hd_V = Some 1, hd_Kind = ''sense''\<rparr>" and k = "''filds''", OF _ _ _ _ _ _ _ d]
    by (simp add: demo_codec_def demo_headers Version_def kind_defs demo_wired_sel demo_parse_def demo_doc_def
        declaredKeys_def fold_char_def byte_of_def Let_def)
  then show ?thesis by (simp add: d)
qed

text \<open>
  A \<open>null\<close> is not refused: it reads as the zero value of its field, a parameter as the number zero.
\<close>

lemma null_param_is_zero:
  assumes "parse_json body = Some (demo_doc ''intent'' [(''op'', JStr ''admit''), (''action'', JStr a),
    (''params'', JObj [(p, JNull)])])"
  shows "map_option ii_Params (decodeIntent parse_json body) = Some [(p, Fin 0)]"
  by (simp add: decodeIntent_def decodeStrict_def assms demo_doc_def intentIn_fields_def field_defs float_elem_def)

section \<open>Heartbeats\<close>

text \<open>Whether a tick beats, and how many of a list of ticks do.\<close>

definition beat_due :: "tick_context \<Rightarrow> ('s, 'ev) server \<Rightarrow> bool" where
  "beat_due ctx v \<longleftrightarrow> 0 < sc_HeartbeatEvery (sv_cfg v) \<and> \<not> time_IsZero (sv_lastBeat v)
     \<and> sc_HeartbeatEvery (sv_cfg v) \<le> time_Sub (tc_Now ctx) (sv_lastBeat v)"

lemma stream_Seam_beats:
  "beat_due ctx v \<Longrightarrow> stream_Seam ctx v = on_live (session_enqueue KindHeartbeat (HeartbeatOut (tc_Tick ctx) (tc_Now ctx)))
     (v\<lparr>sv_lastBeat := sv_lastBeat v + sc_HeartbeatEvery (sv_cfg v)\<rparr>)"
  "\<not> beat_due ctx v \<Longrightarrow> \<exists>t. stream_Seam ctx v = v\<lparr>sv_lastBeat := t\<rparr>"
  by (auto simp: beat_due_def stream_Seam_def Let_def intro: exI[of _ "sv_lastBeat v"])

primrec beats :: "tick_context list \<Rightarrow> ('s, 'ev) server \<Rightarrow> nat" where
  "beats [] v = 0"
| "beats (ctx # cs) v = (if beat_due ctx v then 1 else 0) + beats cs (stream_Seam ctx v)"

text \<open>Ticks in order and never further apart than \<open>d\<close>.\<close>

primrec ticks_within :: "int \<Rightarrow> instant \<Rightarrow> tick_context list \<Rightarrow> bool" where
  "ticks_within d t [] = True"
| "ticks_within d t (ctx # cs) = (t \<le> tc_Now ctx \<and> tc_Now ctx \<le> t + d \<and> ticks_within d (tc_Now ctx) cs)"

definition last_now :: "instant \<Rightarrow> tick_context list \<Rightarrow> instant" where
  "last_now t cs = (if cs = [] then t else tc_Now (last cs))"

lemma enqueue_beat [simp]:
  "sv_lastBeat (on_live (session_enqueue k p) v) = sv_lastBeat v" "sv_cfg (on_live (session_enqueue k p) v) = sv_cfg v"
  by (auto simp: on_live_def on_session_def session_enqueue_def enqueue_put_def enqueue_count_def stream_drop_def
      split: option.splits prod.splits)

lemma seam_step:
  assumes "sc_HeartbeatEvery (sv_cfg v) = d" "0 < d" "d \<le> max_duration" "0 < sv_lastBeat v"
    "sv_lastBeat v \<le> tc_Now ctx"
  shows "sv_cfg (stream_Seam ctx v) = sv_cfg v"
    "sv_lastBeat (stream_Seam ctx v) = sv_lastBeat v + (if beat_due ctx v then d else 0)"
    "beat_due ctx v \<longleftrightarrow> d \<le> tc_Now ctx - sv_lastBeat v"
  using assms
  by (auto simp: stream_Seam_def beat_due_def Let_def time_IsZero_def time_Sub_def max_duration_def min_duration_def)

lemma heartbeats_from:
  assumes "sc_HeartbeatEvery (sv_cfg v) = d" "0 < d" "d \<le> max_duration" "0 < sv_lastBeat v"
    "sv_lastBeat v \<le> t" "t < sv_lastBeat v + d" "ticks_within d t cs"
  shows "sv_lastBeat (fold stream_Seam cs v) = sv_lastBeat v + d * int (beats cs v)
    \<and> int (beats cs v) = (last_now t cs - sv_lastBeat v) div d"
  using assms
proof (induction cs arbitrary: v t)
  case Nil
  then show ?case by (simp add: last_now_def div_pos_pos_trivial)
next
  case (Cons ctx cs)
  let ?n = "tc_Now ctx" and ?v = "stream_Seam ctx v" and ?b = "sv_lastBeat v"
  have n: "t \<le> ?n" "?n \<le> t + d" "ticks_within d ?n cs" using Cons.prems(7) by simp_all
  note st = seam_step[OF Cons.prems(1-4), of ctx]
  have b: "?b \<le> ?n" using n Cons.prems(5) by simp
  have ih: "sv_lastBeat (fold stream_Seam cs ?v) = sv_lastBeat ?v + d * int (beats cs ?v)
      \<and> int (beats cs ?v) = (last_now ?n cs - sv_lastBeat ?v) div d"
    by (rule Cons.IH) (use st b n Cons.prems in auto)
  have l: "last_now t (ctx # cs) = last_now ?n cs" by (simp add: last_now_def)
  have "(x - (?b + d)) div d = (x - ?b) div d - 1" for x
    using Cons.prems(2) div_add_self2[of d "x - (?b + d)"] by (simp add: algebra_simps)
  then show ?case using ih st(2)[OF b] by (auto simp: l algebra_simps)
qed


definition demo_tick :: "int \<Rightarrow> tick_context" where
  "demo_tick k = \<lparr>tc_Now = toy_clock 0 + k * 400000000, tc_Tick = nat k, tc_contribs = Map.empty\<rparr>"


section \<open>Listening\<close>

text \<open>
  What a socket endpoint asks of the operating system. It opens a TCP listener only for a configuration that
  names the address and accepts the risk, and a unix socket only when no address is named; it removes a file only
  if it is a socket; a unix socket it goes on to serve has been restricted to its owner; and a refusal
  leaves the endpoint as it was.
\<close>

lemma listen_safe:
  assumes "newServer os0 cfg eng sns mg None = Inr v" "stream_Listen os v = (err, v', calls)"
  shows "(\<forall>net a. CallListen net a \<in> set calls \<longrightarrow>
        net = ''tcp'' \<and> sc_InsecureTCP cfg \<and> a = sc_TCPAddr cfg \<and> a \<noteq> [] \<or> net = ''unix'' \<and> sc_TCPAddr cfg = [])
    \<and> (\<forall>p. CallRemove p \<in> set calls \<longrightarrow> os_lstat os p = LstatSocket)
    \<and> (err = None \<and> sc_TCPAddr cfg = [] \<longrightarrow> CallChmod (sv_addr v') \<in> set calls \<and> os_chmod os (sv_addr v'))
    \<and> (err \<noteq> None \<longrightarrow> v' = v)"
proof -
  have n: "normalize os0 False cfg = Inr (sv_cfg v)" "\<not> sv_stdio v" using newServer_ok(2,3)[OF assms(1)] by simp_all
  note tcp = normalize_sel(3)[OF n(1)] normalize_sel(5)[OF n(1)]
  have rm: "removeStaleSocket os p = (e, cs) \<Longrightarrow> CallRemove q \<in> set cs \<Longrightarrow> os_lstat os q = LstatSocket"
    "removeStaleSocket os p = (e, cs) \<Longrightarrow> CallListen k a \<notin> set cs" for p q e cs k a
    by (auto simp: removeStaleSocket_def split: lstat.splits if_splits)
  have l: "sv_listener v = None" using assms(1) by (auto simp: newServer_def Attach_def Let_def split: option.splits)
  show ?thesis
  proof (cases "sc_TCPAddr cfg = []")
    case True
    obtain e cs where r: "removeStaleSocket os (os_join os (sc_Dir (sv_cfg v)) (sc_SocketName (sv_cfg v))) = (e, cs)"
      by (rule prod.exhaust)
    show ?thesis using assms(2) rm[OF r] True
      by (auto simp: stream_Listen_def n l tcp(1) Let_def r split: option.splits if_splits)
  next
    case False
    then show ?thesis using assms(2) tcp(2)
      by (auto simp: stream_Listen_def n l tcp(1) Let_def split: option.splits)
  qed
qed

lemma listen_safe_witness:
  "\<exists>v'. stream_Listen demo_os demo_server = (None, v', [CallRemove ''/run/robot/engine.sock'',
     CallListen ''unix'' ''/run/robot/engine.sock'', CallChmod ''/run/robot/engine.sock''])
   \<and> sv_addr v' = ''/run/robot/engine.sock'' \<and> os_chmod demo_os (sv_addr v')"
proof -
  obtain v' where l: "stream_Listen demo_os demo_server = (None, v', [CallRemove ''/run/robot/engine.sock'',
     CallListen ''unix'' ''/run/robot/engine.sock'', CallChmod ''/run/robot/engine.sock''])"
    "sv_addr v' = ''/run/robot/engine.sock''"
    by (simp add: stream_Listen_def removeStaleSocket_def demo_os_def demo_server_sel demo_config_def DefaultSocketName_def
        demo_server_def stream_New_def newServer_def normalize_def checkDir_def Let_def Attach_def)
  show ?thesis using listen_safe[OF demo_server_new l(1)] l by (auto simp: demo_config_def)
qed

section \<open>Closing\<close>

text \<open>
  A close tells the peer why, once. When nothing comes between its steps and the write succeeds, the end
  frame is the last thing on the wire, with the reason the endpoint recorded itself if there is one, the
  session is shut down and nobody owns the endpoint; closing again, for any reason, does nothing.
\<close>

lemma close_says_goodbye:
  assumes "newServer os cfg eng sns mg stdio = Inr v0" "stream_run c v0 v acc" "sv_sess v = Some i"
    "\<not> s_quit (sv_heap v i)" "s_w (sv_heap v i) (length (s_wire (sv_heap v i))) = None"
    "known = (case sv_endReason v of None \<Rightarrow> reason | Some r \<Rightarrow> r)" "encodable c (EndOut known)"
  shows "let v' = closeWithReason c True reason v in
    payloads (sv_heap v' i) = payloads (sv_heap v i) @ [EndOut known] \<and> s_quit (sv_heap v' i)
    \<and> sv_sess v' = None \<and> sv_closed v' \<and> closeWithReason c late again v' = v'"
proof -
  have o: "owner_ok v" using stream_run_ok[OF assms(2) newServer_ok(1)[OF assms(1)]] by (simp add: run_ok_def)
  then have pc: "sv_close v = NotClosing" using assms(3) by (auto simp: owner_ok_def)
  obtain b where b: "encodeFrame (cd_marshal c) (EndOut known) = Inr b" using assms(7) by (auto simp: encodable_def)
  let ?v1 = "v\<lparr>sv_closed := True, sv_sess := None, sv_close := Flushing i known\<rparr>"
  have v1: "close_begin reason v = ?v1" by (simp add: close_begin_def pc assms(3,6) Let_def)
  let ?v2 = "?v1\<lparr>sv_close := Ending i known\<rparr>"
  have v2: "close_flushed True ?v1 = ?v2" by (simp add: close_flushed_def Let_def)
  let ?s = "(sv_heap v i)\<lparr>s_wire := s_wire (sv_heap v i) @ [Whole (EndOut known)]\<rparr>"
  have v3: "close_end c True ?v2 = (count_out (?v1\<lparr>sv_close := Shutting i\<rparr>))\<lparr>sv_heap := (sv_heap v)(i := ?s)\<rparr>"
    by (simp add: close_end_def Let_def on_session_def reply_def session_send_def b assms(4,5) w_Write_def count_out_def)
  have v4: "closeWithReason c True reason v = (count_out (?v1\<lparr>sv_close := Closed\<rparr>))\<lparr>sv_heap :=
      (sv_heap v)(i := ?s\<lparr>s_quit := True\<rparr>)\<rparr>"
    unfolding closeWithReason_def v1 v2 v3
    by (simp add: close_shut_def on_session_def session_shutdown_def count_out_def)
  have idle: "closeWithReason c late again w = w" if "sv_close w = Closed" for w :: "('a, 'b) server"
    using that by (simp add: closeWithReason_def close_begin_def close_flushed_def close_end_def close_shut_def)
  show ?thesis unfolding v4 Let_def by (simp add: idle count_out_def payloads_def item_payload_def)
qed

lemma close_says_goodbye_witness:
  "payloads (sv_heap (closeWithReason demo_codec True ''closed'' demo5) 0) = payloads (sv_heap demo5 0) @ [EndOut ''closed'']"
proof -
  note sess = demo_keptD(7,8)[OF demo5_sel(2)]
  have q: "\<not> s_quit (sv_heap demo5 0)" "s_w (sv_heap demo5 0) (length (s_wire (sv_heap demo5 0))) = None"
    by (simp_all add: demo5_sel(1) demo_defs)
  show ?thesis using close_says_goodbye[OF demo_server_new demo_run sess(1) q refl, of "''closed''"] sess(2)
    by (simp add: Let_def encodable_def demo_codec_def demo_encodes)
qed

text \<open>
  On a pipe, a reader that ends because it refused a frame is recorded as the peer closing the pipe.
\<close>

lemma stdio_refusal_reads_as_hangup:
  assumes "sv_stdio v" "readFrame (s_in s) = (Inr body, rest)"
    "dispatch_head c now body (v\<lparr>sv_framesIn := Suc (sv_framesIn v)\<rparr>, s\<lparr>s_in := rest\<rparr>) = (Fatal, (v1, s1))"
  shows "sv_endReason (fst (reader_turn c now (v, s))) = Some ''stdin-closed''"
proof -
  have "sv_stdio v1" using vframe_fields(2)[OF head_keeps(1)[OF dispatch_head_result[OF assms(3)]]] assms(1) by simp
  then show ?thesis
    by (simp add: reader_turn_def assms Let_def reader_ends_def readerEnded_def reasonStdinClosed_def)
qed

section \<open>The endpoint under the engine\<close>

text \<open>The heartbeat rider keeps to the context: it does not touch the engine.\<close>

interpretation heartbeat: seam_contract "\<lambda>_ ctx v e. (None, stream_Seam ctx v, e)"
  by unfold_locales (auto simp: api_refl)

text \<open>
  What the engine calls is made of the steps of the endpoint's runs: the sink, the heartbeat and the event
  consumer each count one frame and put it on the queue, or do nothing.
\<close>

lemma on_live_enqueue_run:
  assumes "stream_run c v0 v acc" "\<And>i. sv_sess v = Some i \<Longrightarrow> i < sv_next v \<and> s_offer (sv_heap v i) = None" "telemetry p"
  shows "\<exists>acc'. stream_run c v0 (on_live (session_enqueue k p) v) acc'"
proof (cases "sv_sess v")
  case None
  then show ?thesis using assms(1) by (auto simp: on_live_def)
next
  case (Some i)
  have i: "i < sv_next v" "s_offer (sv_heap v i) = None" using assms(2)[OF Some] by auto
  have r: "stream_run c v0 (on_session i (enqueue_count k p) v) acc" by (rule counts[OF assms(1) i assms(3)])
  have "sv_next (on_session i (enqueue_count k p) v) = sv_next v"
    by (simp add: on_session_def enqueue_count_def)
  then have "\<exists>acc'. stream_run c v0 (on_session i enqueue_put (on_session i (enqueue_count k p) v)) acc'"
    using puts[OF r] i(1) by metis
  moreover have "on_session i (session_enqueue k p) v = on_session i enqueue_put (on_session i (enqueue_count k p) v)"
    by (simp add: on_session_def session_enqueue_def enqueue_count_def enqueue_put_def stream_drop_def queueCap_def
        split: option.splits)
  ultimately show ?thesis by (simp add: on_live_def Some)
qed

text \<open>
  A consumer cannot stop the robot. With the endpoint as its sink, in whatever state each write finds it,
  no run of the engine ends with a sink error, whatever the seam and the producers do: it runs every tick it is
  given.
\<close>

lemma stream_never_stops_engine:
  assumes "voc_wf v" "reachable cosf progf v cfg snk clk e" "seedBaseLayer e = Inr e0"
    "\<And>k. \<exists>p srv. snk k = fst (stream_Write p srv)"
  shows "\<exists>u' e'. Run cosf progf ticks u e = Some (Inr (None, u', e'))"
proof -
  have snk: "snk k = None" for k using assms(4)[of k] by (auto simp: stream_Write_def Let_def)
  have inv: "loop_inv e" "going e" "e_voc e = v" "e_sink e = snk"
    using prog.reachable_inv[OF assms(2,1)] by auto
  note f0 = seedBaseLayer_frame[OF _ assms(3)]
  have i0: "loop_inv e0" "going e0" "fixed_part e0 = fixed_part e"
    using inv f0 loop_inv_frame[OF f0(2)] going_frame[OF f0(2)] frame_fields[OF f0(2)]
      frame_parts[OF f0(2)] by (auto simp: loop_inv_def)
  obtain r u1 e1 ps where rl: "runLoop cosf progf ticks u e0 = Some (r, u1, e1)" "loop_inv e1"
    "fixed_part e1 = fixed_part e0" "e_written e1 = e_written e0 @ ps"
    "if r = None then length ps = length ticks \<and> going e1
     else ps \<noteq> [] \<and> length ps \<le> length ticks \<and> \<not> going e1 \<and> r = e_sink e0 (length (e_written e1) - 1)"
    using prog.runLoop_spec[OF i0(1,2)] by blast
  have "e_sink e0 = snk" using i0(3) inv(4) by (simp add: fixed_part_def)
  then have "r = None" using rl(5) snk by (auto split: if_splits)
  then show ?thesis using rl(1) assms(3) by (simp add: Run_def)
qed

definition streamed_engine :: "((unit, unit) prog_seam, unit) engine" where
  "streamed_engine = projr (New (Some toy_voc) toy_engine_config
     (Some (\<lambda>k. fst (stream_Write Map.empty demo5))) toy_clock)"

lemma stream_never_stops_engine_witness:
  "\<exists>u' e'. Run (\<lambda>x. x) progf [[], [], []] () streamed_engine = Some (Inr (None, u', e'))"
proof -
  have n: "New (Some toy_voc) toy_engine_config (Some (\<lambda>k. fst (stream_Write Map.empty demo5))) toy_clock = Inr streamed_engine"
    by (simp add: streamed_engine_def New_def toy_engine_config_def guards.simps Let_def)
  have "seedBaseLayer streamed_engine = Inr streamed_engine"
    by (simp add: seedBaseLayer_def streamed_engine_def New_def toy_engine_config_def guards.simps Let_def)
  then show ?thesis by (intro stream_never_stops_engine[OF toy_voc_wf reach_new[OF n]]) auto
qed

end
