(* ===== verification/GoText.thy ===== *)
theory GoText
  imports GoStrings Engine
begin

text \<open>
  The rest of Go's \<open>strings\<close> that the provider, the management verbs and the composition root use, and
  the square root of \<open>math\<close>. Lower case is ASCII; for a string with a byte outside ASCII it is the
  parameter \<open>uni_lower\<close>, the Unicode tables of the library.
\<close>

section \<open>Words, trimming, joining, splitting\<close>

text \<open>\<open>strings.Join\<close>.\<close>

fun strings_Join :: "string list \<Rightarrow> string \<Rightarrow> string" where
  "strings_Join [] sep = []"
| "strings_Join [x] sep = x"
| "strings_Join (x # y # xs) sep = x @ sep @ strings_Join (y # xs) sep"

text \<open>\<open>strings.Fields\<close>: the runs of runes that are not white space.\<close>

fun fields_of :: "(nat \<times> string) list \<Rightarrow> string \<Rightarrow> string list" where
  "fields_of [] w = (if w = [] then [] else [w])"
| "fields_of ((r, bs) # rs) w =
     (if is_space r then (if w = [] then fields_of rs [] else w # fields_of rs [])
      else fields_of rs (w @ bs))"

definition strings_Fields :: "string \<Rightarrow> string list" where
  "strings_Fields s = fields_of (runes s) []"

text \<open>\<open>strings.ToLower\<close>.\<close>

definition lower_char :: "char \<Rightarrow> char" where
  "lower_char c = (let b = byte_of c in if 65 \<le> b \<and> b \<le> 90 then char_of (b + 32) else c)"

definition strings_ToLower :: "(string \<Rightarrow> string) \<Rightarrow> string \<Rightarrow> string" where
  "strings_ToLower uni_lower s =
     (if list_all (\<lambda>c. byte_of c < 128) s then map lower_char s else uni_lower s)"

text \<open>\<open>strings.Trim\<close> for a cutset of ASCII characters.\<close>

definition strings_Trim :: "string \<Rightarrow> string \<Rightarrow> string" where
  "strings_Trim s cutset =
     rev (dropWhile (\<lambda>c. c \<in> set cutset) (rev (dropWhile (\<lambda>c. c \<in> set cutset) s)))"

text \<open>\<open>strings.SplitAfter(s, "\n")\<close>: every piece but the last ends in the newline.\<close>

fun SplitAfter :: "char \<Rightarrow> string \<Rightarrow> string list" where
  "SplitAfter c [] = [[]]"
| "SplitAfter c (x # xs) =
     (if x = c then [x] # SplitAfter c xs
      else case SplitAfter c xs of [] \<Rightarrow> [[x]] | l # ls \<Rightarrow> (x # l) # ls)"

text \<open>\<open>filepath.Ext\<close>: from the last dot of the last path element on.\<close>

definition path_Ext :: "string \<Rightarrow> string" where
  "path_Ext path =
     (let base = takeWhile (\<lambda>c. c \<noteq> CHR ''/'') (rev path)
      in if CHR ''.'' \<in> set base then CHR ''.'' # rev (takeWhile (\<lambda>c. c \<noteq> CHR ''.'') base) else [])"

lemma SplitAfter_concat [simp]: "concat (SplitAfter c s) = s"
  by (induction s) (auto split: list.splits)

lemma SplitAfter_not_Nil [simp]: "SplitAfter c s \<noteq> []"
  by (induction s) (auto split: list.splits)

lemma SplitAfter_snoc:
  "c \<notin> set a \<Longrightarrow> SplitAfter c (a @ c # s) = (a @ [c]) # SplitAfter c s"
  by (induction a) auto

lemma SplitAfter_end: "c \<notin> set a \<Longrightarrow> SplitAfter c a = [a]"
  by (induction a) auto

lemma SplitAfter_line: "l \<in> set (SplitAfter c s) \<Longrightarrow> c \<notin> set (butlast l)"
proof (induction s arbitrary: l)
  case (Cons x xs)
  then show ?case using SplitAfter_not_Nil[of c xs]
    by (auto split: if_splits list.splits)
qed simp

lemma Trim_mem: "c \<in> set (strings_Trim s cs) \<Longrightarrow> c \<in> set s"
  unfolding strings_Trim_def by (metis set_dropWhileD set_rev)

lemma runes_ascii:
  assumes "byte_of c < 128"
  shows "runes (c # cs) = (byte_of c, [c]) # runes cs"
  using decode_rune_ascii[OF assms, of "map byte_of (take 3 cs)"] by (simp add: runes.simps(2) rune_at_def)

text \<open>The pieces hold no white space when they hold only ASCII.\<close>

lemma fields_of_ne: "[] \<notin> set (fields_of rs w)"
  by (induction rs w rule: fields_of.induct) auto

lemma fields_of_runes:
  "x \<in> set (fields_of rs w) \<Longrightarrow> c \<in> set x \<Longrightarrow>
     c \<in> set w \<or> (\<exists>(r, bs) \<in> set rs. \<not> is_space r \<and> c \<in> set bs)"
proof (induction rs w rule: fields_of.induct)
  case (2 r bs rs w)
  consider (same) "is_space r" "w \<noteq> []" "x = w" | (rest) "is_space r" "x \<in> set (fields_of rs [])"
    | (more) "\<not> is_space r" "x \<in> set (fields_of rs (w @ bs))"
    using "2.prems"(1) by (auto split: if_splits)
  then show ?case
  proof cases
    case same
    then show ?thesis using "2.prems"(2) by simp
  next
    case rest
    then show ?thesis using "2.IH"(1,2) "2.prems"(2) by (cases "w = []") auto
  next
    case more
    then show ?thesis using "2.IH"(3)[OF more "2.prems"(2)] by auto
  qed
qed (auto split: if_splits)

lemma Fields_no_space:
  assumes "x \<in> set (strings_Fields s)" "c \<in> set x" "byte_of c < 128"
  shows "\<not> is_space (byte_of c)"
proof -
  obtain r bs where r: "(r, bs) \<in> set (runes s)" "\<not> is_space r" "c \<in> set bs"
    using fields_of_runes[of x "runes s" "[]" c] assms by (auto simp: strings_Fields_def)
  have "r < 128" using runes_high[OF r(1)] r(3) assms(3) by (meson not_le)
  then have "r = byte_of c" using runes_low[OF r(1)] r(3) by auto
  then show ?thesis using r(2) by simp
qed

section \<open>The square root\<close>

text \<open>
  \<open>math.Sqrt\<close> is the correctly rounded root. The root of a rational is scaled to an integer part of
  at least 55 bits; a remainder stands half a unit above it, which no rounding to 53 bits can tell
  from the root itself.
\<close>

function isqrt :: "nat \<Rightarrow> nat" where
  "isqrt n = (if n = 0 then 0 else
     let s = 2 * isqrt (n div 4) in if (s + 1) * (s + 1) \<le> n then s + 1 else s)"
  by pat_completeness auto
termination by (relation "measure id") auto

declare isqrt.simps [simp del]

lemma isqrt_bounds: "isqrt n * isqrt n \<le> n \<and> n < (isqrt n + 1) * (isqrt n + 1)"
proof (induction n rule: isqrt.induct)
  case (1 n)
  show ?case
  proof (cases "n = 0")
    case True
    then show ?thesis by (simp add: isqrt.simps)
  next
    case False
    let ?s = "isqrt (n div 4)"
    have IH: "?s * ?s \<le> n div 4" "n div 4 < (?s + 1) * (?s + 1)" using 1 False by auto
    have "n div 4 + 1 \<le> (?s + 1) * (?s + 1)" using IH(2) by simp
    then have "4 * (n div 4 + 1) \<le> 4 * ((?s + 1) * (?s + 1))" by (rule mult_le_mono2)
    moreover have "n < 4 * (n div 4 + 1)" by simp
    ultimately have hi: "n < (2 * ?s + 2) * (2 * ?s + 2)" by (simp add: algebra_simps)
    have "4 * (?s * ?s) \<le> 4 * (n div 4)" using IH(1) by (rule mult_le_mono2)
    then have lo: "(2 * ?s) * (2 * ?s) \<le> n" by simp
    show ?thesis using hi lo False by (subst (1 2 3 4) isqrt.simps) (simp add: Let_def)
  qed
qed

definition sqrt_scale :: "rat \<Rightarrow> int" where
  "sqrt_scale r = max 0 (56 - ilog2 r div 2)"

fun fsqrt :: "f64 \<Rightarrow> f64" where
  "fsqrt (Fin r) =
     (if r < 0 then NaN else if r = 0 then Fin 0
      else let k = sqrt_scale r;
               q = r * 2 powi (2 * k);
               n = isqrt (nat \<lfloor>q\<rfloor>);
               s = (if rat_of_nat n * rat_of_nat n = q then rat_of_nat n else rat_of_nat n + 1 / 2)
           in rnd (s * 2 powi (- k)))"
| "fsqrt PInf = PInf"
| "fsqrt NInf = NaN"
| "fsqrt NaN = NaN"

text \<open>A root that is a double is found exactly.\<close>

lemma isqrt_square: "isqrt (m * m) = m"
proof -
  have "isqrt (m * m) * isqrt (m * m) \<le> m * m" "m * m < (isqrt (m * m) + 1) * (isqrt (m * m) + 1)"
    using isqrt_bounds[of "m * m"] by auto
  then have "isqrt (m * m) \<le> m" "m < isqrt (m * m) + 1"
    by (metis mult_le_mono not_less_eq_eq Suc_eq_plus1 nat_less_le linorder_not_le mult_strict_mono' le0)+
  then show ?thesis by simp
qed

end
