(* ===== verification/Provider.thy ===== *)
theory Provider
  imports GoText Senselog Stream_Frame
begin

text \<open>
  A decision provider, \<open>internal/provider\<close>: its configuration (\<open>config.go\<close>), the requests and answers of
  the wire (\<open>wire.go\<close>), the rendering of inputs and the reading of replies (\<open>completion.go\<close>,
  \<open>embedding.go\<close>), and the provider itself (\<open>provider.go\<close>), a seam driver in front of a bounded queue and
  one worker behind it.

  The gateway is not code of the program: the outcome of each round trip is an argument of the step that
  handles it, a function of the request. How \<open>fmt\<close> prints a reading is \<open>show_any\<close>, the grammar of JSON
  \<open>parse_json\<close>. The text behind an abstention's reason is not modelled, and the queue is taken to be
  allocated whatever its depth.
\<close>

section \<open>Configuration\<close>

definition KindEmbedding :: string where "KindEmbedding = ''embedding''"
definition KindCompletion :: string where "KindCompletion = ''completion''"

definition DefaultQueueDepth :: int where "DefaultQueueDepth = 2"
definition DefaultTimeout :: duration where "DefaultTimeout = 500000000"
definition DefaultCadence :: int where "DefaultCadence = 1"
definition DefaultMaxTokens :: int where "DefaultMaxTokens = 8"
definition DefaultSystemPromt :: string where "DefaultSystemPromt = ''Answer in one short word.''"

record provider_config =
  pc_Name :: string
  pc_Kind :: string
  pc_BaseURL :: string
  pc_Model :: string
  pc_APIKeyEnv :: string
  pc_Inputs :: "string list"
  pc_Output :: string
  pc_Labels :: "string list"
  pc_Timeout :: duration
  pc_QueueDepth :: int
  pc_Cadence :: int
  pc_SystemPrompt :: string
  pc_MaxTokens :: int

datatype provider_error =
    NeedsName
  | BadKind string string
  | NeedsBaseURL string
  | NeedsOutput string
  | NeedsInput string
  | NeedsLabel string
  | NeedsSink string

text \<open>\<open>validate\<close> returns the configuration with its defaults filled in.\<close>

definition provider_validate :: "provider_config \<Rightarrow> (provider_error, provider_config) result" where
  "provider_validate c = rbind (guards
     [(pc_Name c = [], NeedsName),
      (pc_Kind c \<notin> {KindEmbedding, KindCompletion}, BadKind (pc_Name c) (pc_Kind c)),
      (pc_BaseURL c = [], NeedsBaseURL (pc_Name c)),
      (pc_Output c = [], NeedsOutput (pc_Name c)),
      (pc_Inputs c = [], NeedsInput (pc_Name c)),
      (pc_Kind c = KindEmbedding \<and> pc_Labels c = [], NeedsLabel (pc_Name c))])
     (\<lambda>_. Inr (c\<lparr>pc_Timeout := (if pc_Timeout c \<le> 0 then DefaultTimeout else pc_Timeout c),
                pc_QueueDepth := (if pc_QueueDepth c \<le> 0 then DefaultQueueDepth else pc_QueueDepth c),
                pc_Cadence := (if pc_Cadence c \<le> 0 then DefaultCadence else pc_Cadence c),
                pc_SystemPrompt := (if pc_SystemPrompt c = [] then DefaultSystemPromt else pc_SystemPrompt c),
                pc_MaxTokens := (if pc_MaxTokens c \<le> 0 then DefaultMaxTokens else pc_MaxTokens c)\<rparr>))"

section \<open>The wire\<close>

datatype wire_body =
    EmbeddingRequest string string
  | CompletionRequest string "(string \<times> string) list" int

record http_request =
  hr_URL :: string
  hr_Authorization :: "string option"
  hr_Body :: wire_body

text \<open>
  What comes of one round trip: no request could be built of the URL, the transport failed, the body
  could not be read, or a status and a body.
\<close>

datatype http_outcome = NoHttpRequest | NoResponse | NoBody | Response nat bytes

type_synonym gateway = "http_request \<Rightarrow> http_outcome"

text \<open>An error of a call is its reason; any other error counts as a timeout.\<close>

datatype call_error = CallError string | OtherError

definition timeoutErr :: call_error where "timeoutErr = CallError ''timeout''"
definition malformedErr :: call_error where "malformedErr = CallError ''malformed''"

definition httpStatusErr :: "nat \<Rightarrow> call_error" where
  "httpStatusErr status = CallError (''http-'' @ decimal status)"

fun reasonOf :: "call_error \<Rightarrow> string" where
  "reasonOf (CallError reason) = reason"
| "reasonOf OtherError = ''timeout''"

definition doJSON ::
  "gateway \<Rightarrow> (bytes \<Rightarrow> 'r option) \<Rightarrow> string \<Rightarrow> string \<Rightarrow> wire_body \<Rightarrow> (call_error, 'r) result" where
  "doJSON net unmarshal url apiKey body =
     (case net \<lparr>hr_URL = url,
                hr_Authorization = (if apiKey \<noteq> [] \<and> apiKey \<noteq> ''EMPTY'' then Some (''Bearer '' @ apiKey) else None),
                hr_Body = body\<rparr> of
        NoHttpRequest \<Rightarrow> Inl timeoutErr
      | NoResponse \<Rightarrow> Inl timeoutErr
      | NoBody \<Rightarrow> Inl timeoutErr
      | Response status raw \<Rightarrow>
          if status < 200 \<or> 300 \<le> status then Inl (httpStatusErr status)
          else (case unmarshal raw of None \<Rightarrow> Inl malformedErr | Some r \<Rightarrow> Inr r))"

text \<open>
  The two responses, decoded as \<open>encoding/json\<close> does it: unknown fields are passed over, a field that
  is absent or \<open>null\<close> keeps its zero value.
\<close>

definition floats_field :: "(f64 list \<Rightarrow> 'r \<Rightarrow> 'r) \<Rightarrow> json \<Rightarrow> 'r \<Rightarrow> 'r option" where
  "floats_field upd v r =
     (case v of JArr xs \<Rightarrow> map_option (\<lambda>fs. upd fs r) (those (map float_elem xs))
      | JNull \<Rightarrow> Some (upd [] r) | _ \<Rightarrow> None)"

definition structs_field :: "'e struct \<Rightarrow> 'e \<Rightarrow> ('e list \<Rightarrow> 'r \<Rightarrow> 'r) \<Rightarrow> json \<Rightarrow> 'r \<Rightarrow> 'r option" where
  "structs_field fs zero upd v r =
     (case v of
        JArr xs \<Rightarrow> map_option (\<lambda>es. upd es r) (those (map (\<lambda>x. decodeStruct False fs x zero) xs))
      | JNull \<Rightarrow> Some (upd [] r) | _ \<Rightarrow> None)"

definition struct_field :: "'e struct \<Rightarrow> ('r \<Rightarrow> 'e) \<Rightarrow> ('e \<Rightarrow> 'r \<Rightarrow> 'r) \<Rightarrow> json \<Rightarrow> 'r \<Rightarrow> 'r option" where
  "struct_field fs get upd v r = map_option (\<lambda>e. upd e r) (decodeStruct False fs v (get r))"

record embeddingResponse =
  er_Data :: "f64 list list"

definition embeddingResponse_fields :: "embeddingResponse struct" where
  "embeddingResponse_fields =
     [(''data'', structs_field [(''embedding'', floats_field (\<lambda>fs _. fs))] [] (\<lambda>es r. r\<lparr>er_Data := es\<rparr>))]"

record chatMessage =
  cm_Role :: string
  cm_Content :: string

definition chatMessage_fields :: "chatMessage struct" where
  "chatMessage_fields = [(''role'', str_field (\<lambda>s m. m\<lparr>cm_Role := s\<rparr>)),
     (''content'', str_field (\<lambda>s m. m\<lparr>cm_Content := s\<rparr>))]"

record completionResponse =
  cr_Choices :: "chatMessage list"

definition zero_message :: chatMessage where
  "zero_message = \<lparr>cm_Role = [], cm_Content = []\<rparr>"

definition completionResponse_fields :: "completionResponse struct" where
  "completionResponse_fields =
     [(''choices'', structs_field [(''message'', struct_field chatMessage_fields id (\<lambda>e _. e))] zero_message
                    (\<lambda>es r. r\<lparr>cr_Choices := es\<rparr>))]"

definition decodeEmbedding :: "json_reader \<Rightarrow> bytes \<Rightarrow> embeddingResponse option" where
  "decodeEmbedding parse_json raw = Option.bind (parse_json raw)
     (\<lambda>v. decodeStruct False embeddingResponse_fields v \<lparr>er_Data = []\<rparr>)"

definition decodeCompletion :: "json_reader \<Rightarrow> bytes \<Rightarrow> completionResponse option" where
  "decodeCompletion parse_json raw = Option.bind (parse_json raw)
     (\<lambda>v. decodeStruct False completionResponse_fields v \<lparr>cr_Choices = []\<rparr>)"

definition fetchEmbedding ::
  "json_reader \<Rightarrow> gateway \<Rightarrow> string \<Rightarrow> string \<Rightarrow> string \<Rightarrow> string \<Rightarrow> (call_error, f64 list) result" where
  "fetchEmbedding parse_json net baseURL apiKey model input =
     rbind (doJSON net (decodeEmbedding parse_json) (baseURL @ ''/v1/embeddings'') apiKey (EmbeddingRequest model input))
       (\<lambda>resp. case er_Data resp of
          [] \<Rightarrow> Inl malformedErr
        | e # _ \<Rightarrow> if e = [] then Inl malformedErr else Inr e)"

definition fetchCompletion ::
  "json_reader \<Rightarrow> gateway \<Rightarrow> string \<Rightarrow> string \<Rightarrow> string \<Rightarrow> string \<Rightarrow> string \<Rightarrow> int \<Rightarrow> (call_error, string) result"
where
  "fetchCompletion parse_json net baseURL apiKey model system user maxTokens =
     rbind (doJSON net (decodeCompletion parse_json) (baseURL @ ''/v1/chat/completions'') apiKey
              (CompletionRequest model [(''system'', system), (''user'', user)] maxTokens))
       (\<lambda>resp. case cr_Choices resp of
          [] \<Rightarrow> Inl malformedErr
        | m # _ \<Rightarrow> if cm_Content m = [] then Inl malformedErr else Inr (cm_Content m))"

section \<open>Inputs and replies\<close>

type_synonym reading_view = "string \<rightharpoonup> any"

text \<open>The declared fields that have a reading, in order, with it.\<close>

definition present_fields :: "string list \<Rightarrow> reading_view \<Rightarrow> (string \<times> any) list" where
  "present_fields names view = List.map_filter (\<lambda>f. map_option (Pair f) (view f)) names"

definition renderInputs :: "(any \<Rightarrow> string) \<Rightarrow> string list \<Rightarrow> reading_view \<Rightarrow> string" where
  "renderInputs show_any names view =
     strings_Join (map (\<lambda>(f, v). f @ '': '' @ show_any v) (present_fields names view)) ''; ''"

definition renderEmbeddingInput :: "(any \<Rightarrow> string) \<Rightarrow> string list \<Rightarrow> reading_view \<Rightarrow> string" where
  "renderEmbeddingInput show_any names view =
     strings_Join (map (\<lambda>(f, v). show_any v) (present_fields (sort names) view)) '' ''"

definition firstWordLower :: "(string \<Rightarrow> string) \<Rightarrow> string \<Rightarrow> string" where
  "firstWordLower uni_lower reply =
     (case strings_Fields reply of [] \<Rightarrow> []
      | w # _ \<Rightarrow> strings_Trim (strings_ToLower uni_lower w) (''.,!?;:'' @ [CHR 0x22, CHR 0x27]))"

text \<open>The three sums of the loop, over the common length of the two vectors.\<close>

definition cos_sums :: "f64 list \<Rightarrow> f64 list \<Rightarrow> f64 \<times> f64 \<times> f64" where
  "cos_sums a b = fold (\<lambda>(x, y) (dot, na, nb). (fadd dot (fmul x y), fadd na (fmul x x), fadd nb (fmul y y)))
     (zip a b) (Fin 0, Fin 0, Fin 0)"

definition cosineSimilarity :: "f64 list \<Rightarrow> f64 list \<Rightarrow> f64" where
  "cosineSimilarity a b =
     (if min (length a) (length b) = 0 then Fin 0
      else let (dot, na, nb) = cos_sums a b in
        if feq na (Fin 0) \<or> feq nb (Fin 0) then Fin 0
        else fdiv dot (fmul (fsqrt na) (fsqrt nb)))"

text \<open>The scan over the references, in the order the map is ranged over; \<open>None\<close> before the first.\<close>

definition best_step :: "f64 list \<Rightarrow> string \<times> f64 list \<Rightarrow> (string \<times> f64) option \<Rightarrow> (string \<times> f64) option" where
  "best_step vector entry best =
     (let s = cosineSimilarity vector (snd entry) in
      case best of None \<Rightarrow> Some (fst entry, s)
      | Some (label, score) \<Rightarrow> if flt score s then Some (fst entry, s) else best)"

definition bestLabel :: "f64 list gomap \<Rightarrow> f64 list \<Rightarrow> string \<times> f64" where
  "bestLabel refs vector =
     (case fold (best_step vector) refs None of None \<Rightarrow> ([], Fin 0) | Some r \<Rightarrow> r)"

section \<open>The provider\<close>

record provider_request =
  pq_view :: reading_view
  pq_now :: instant

datatype provider_line =
    WarmUpFailed
  | TickLine "string streak_line"
  | WorkerLine "string streak_line"

text \<open>Where the one worker is: in its \<open>select\<close>, handling a request, or returned.\<close>

datatype worker = Waiting | Handling provider_request | Returned

text \<open>
  The view and the sink are the perception snapshot, passed along; a provider whose view was never set
  has none.
\<close>

record provider =
  pv_cfg :: provider_config
  pv_hasView :: bool
  pv_apiKey :: string
  pv_unconfigured :: bool
  pv_labelRefs :: "f64 list gomap"
  pv_queue :: "provider_request list"
  pv_done :: bool
  pv_worker :: worker
  pv_tickCount :: nat
  pv_tickStreak :: "string streak"
  pv_workerStreak :: "string streak"
  pv_requests :: nat
  pv_results :: nat
  pv_drops :: "nat gomap"
  pv_log :: "provider_line list"

text \<open>What the provider uses of its surroundings: \<open>os.Getenv\<close>, \<open>%v\<close>, Unicode lower case, the JSON grammar.\<close>

record provider_env =
  pe_Getenv :: "string \<Rightarrow> string"
  pe_show :: "any \<Rightarrow> string"
  pe_lower :: "string \<Rightarrow> string"
  pe_json :: json_reader

text \<open>One reference embedding per label, the \<open>i\<close>-th round trip for the \<open>i\<close>-th label.\<close>

definition warmEmbeddings ::
  "provider_env \<Rightarrow> (nat \<Rightarrow> gateway) \<Rightarrow> string \<Rightarrow> provider_config \<Rightarrow> (call_error, f64 list gomap) result" where
  "warmEmbeddings env nets apiKey cfg =
     foldr_res (\<lambda>(i, label) refs.
         rbind (fetchEmbedding (pe_json env) (nets i) (pc_BaseURL cfg) apiKey (pc_Model cfg) label)
           (\<lambda>vec. Inr (AList.update label vec refs)))
       (enumerate 0 (pc_Labels cfg)) []"

definition provider_New ::
  "provider_env \<Rightarrow> (nat \<Rightarrow> gateway) \<Rightarrow> provider_config \<Rightarrow> bool \<Rightarrow> (provider_error, provider) result" where
  "provider_New env nets cfg0 has_sink =
     rbind (provider_validate cfg0) (\<lambda>cfg.
     rbind (refuse_if (\<not> has_sink) (NeedsSink (pc_Name cfg))) (\<lambda>_.
     (let apiKey = (if pc_APIKeyEnv cfg \<noteq> [] then pe_Getenv env (pc_APIKeyEnv cfg) else []);
          p = \<lparr>pv_cfg = cfg, pv_hasView = False, pv_apiKey = apiKey, pv_unconfigured = False,
               pv_labelRefs = [], pv_queue = [], pv_done = False, pv_worker = Waiting, pv_tickCount = 0,
               pv_tickStreak = NewStreak, pv_workerStreak = NewStreak, pv_requests = 0, pv_results = 0,
               pv_drops = [], pv_log = []\<rparr>
      in Inr (if pc_Kind cfg = KindEmbedding
              then (case warmEmbeddings env nets apiKey cfg of
                      Inl _ \<Rightarrow> p\<lparr>pv_unconfigured := True, pv_log := [WarmUpFailed]\<rparr>
                    | Inr refs \<Rightarrow> p\<lparr>pv_labelRefs := refs\<rparr>)
              else p))))"

definition SetView :: "provider \<Rightarrow> provider" where
  "SetView p = p\<lparr>pv_hasView := True\<rparr>"

text \<open>\<open>Close\<close> up to its wait for the worker; closing twice panics.\<close>

definition provider_Close :: "provider \<Rightarrow> provider option" where
  "provider_Close p = (if pv_done p then None else Some (p\<lparr>pv_done := True\<rparr>))"

definition provider_Stats :: "provider \<Rightarrow> nat \<times> nat \<times> nat gomap" where
  "provider_Stats p = (pv_requests p, pv_results p, pv_drops p)"

definition countDrop :: "string \<Rightarrow> provider \<Rightarrow> provider" where
  "countDrop reason p = p\<lparr>pv_drops := AList.update reason
     (Suc (case map_of (pv_drops p) reason of None \<Rightarrow> 0 | Some n \<Rightarrow> n)) (pv_drops p)\<rparr>"

definition tickStreakEnter :: "string \<Rightarrow> provider \<Rightarrow> provider" where
  "tickStreakEnter reason p = (let (s, ls) = streak_Enter reason (pv_tickStreak p)
     in p\<lparr>pv_tickStreak := s, pv_log := pv_log p @ map TickLine ls\<rparr>)"

definition tickStreakEnd :: "provider \<Rightarrow> provider" where
  "tickStreakEnd p = (let (s, ls) = streak_End (pv_tickStreak p)
     in p\<lparr>pv_tickStreak := s, pv_log := pv_log p @ map TickLine ls\<rparr>)"

definition workerStreakEnter :: "string \<Rightarrow> provider \<Rightarrow> provider" where
  "workerStreakEnter reason p = (let (s, ls) = streak_Enter reason (pv_workerStreak p)
     in p\<lparr>pv_workerStreak := s, pv_log := pv_log p @ map WorkerLine ls\<rparr>)"

definition workerStreakEnd :: "provider \<Rightarrow> provider" where
  "workerStreakEnd p = (let (s, ls) = streak_End (pv_workerStreak p)
     in p\<lparr>pv_workerStreak := s, pv_log := pv_log p @ map WorkerLine ls\<rparr>)"

text \<open>The seam entry point. The send is a \<open>select\<close> with a default: it fails when the queue is full.\<close>

definition provider_tick :: "tick_context \<Rightarrow> snapshot \<Rightarrow> provider \<Rightarrow> provider" where
  "provider_tick ctx sn p0 =
     (let p = p0\<lparr>pv_tickCount := Suc (pv_tickCount p0)\<rparr>; cadence = pc_Cadence (pv_cfg p) in
      if pv_unconfigured p then tickStreakEnter ''unconfigured'' p
      else if 1 < cadence \<and> pv_tickCount p mod nat cadence \<noteq> 0 then p
      else let req = \<lparr>pq_view = (if pv_hasView p then View sn (tc_Now ctx) else Map.empty),
                      pq_now = tc_Now ctx\<rparr> in
        if length (pv_queue p) < nat (pc_QueueDepth (pv_cfg p))
        then tickStreakEnd (p\<lparr>pv_queue := pv_queue p @ [req], pv_requests := Suc (pv_requests p)\<rparr>)
        else tickStreakEnter ''queue-full'' (countDrop ''queue-full'' p))"

text \<open>
  What a request meets in the worker: the gateway as it answers this call, the order this call's scan
  ranges over the references in, and the clock's readings before the call, after it, and for the write.
\<close>

record answer =
  an_net :: gateway
  an_order :: "f64 list gomap \<Rightarrow> f64 list gomap"
  an_started :: instant
  an_finished :: instant
  an_stamped :: instant

definition callEmbedding :: "provider_env \<Rightarrow> answer \<Rightarrow> provider \<Rightarrow> provider_request \<Rightarrow> (call_error, table) result" where
  "callEmbedding env ans p req =
     (let c = pv_cfg p; input = renderEmbeddingInput (pe_show env) (pc_Inputs c) (pq_view req) in
      rbind (fetchEmbedding (pe_json env) (an_net ans) (pc_BaseURL c) (pv_apiKey p) (pc_Model c) input)
        (\<lambda>vector. let (label, score) = bestLabel (an_order ans (pv_labelRefs p)) vector
           in Inr [(pc_Output c, AStr label), (pc_Output c @ ''_score'', AFloat score)]))"

definition callCompletion :: "provider_env \<Rightarrow> answer \<Rightarrow> provider \<Rightarrow> provider_request \<Rightarrow> (call_error, table) result" where
  "callCompletion env ans p req =
     (let c = pv_cfg p; user = renderInputs (pe_show env) (pc_Inputs c) (pq_view req) in
      rbind (fetchCompletion (pe_json env) (an_net ans) (pc_BaseURL c) (pv_apiKey p) (pc_Model c)
               (pc_SystemPrompt c) user (pc_MaxTokens c))
        (\<lambda>reply. let word = firstWordLower (pe_lower env) reply in
           if word = [] then Inl malformedErr
           else Inr [(pc_Output c, AStr word),
                     (pc_Output c @ ''_latency_s'', AFloat (secs_between (an_finished ans) (an_started ans)))]))"

definition provider_call :: "provider_env \<Rightarrow> answer \<Rightarrow> provider \<Rightarrow> provider_request \<Rightarrow> (call_error, table) result" where
  "provider_call env ans p req =
     (if pc_Kind (pv_cfg p) = KindEmbedding then callEmbedding env ans p req
      else if pc_Kind (pv_cfg p) = KindCompletion then callCompletion env ans p req
      else Inl malformedErr)"

definition provider_handle ::
  "provider_env \<Rightarrow> answer \<Rightarrow> provider_request \<Rightarrow> provider \<times> snapshot \<Rightarrow> provider \<times> snapshot" where
  "provider_handle env ans req w =
     (let (p, sn) = w in
      case provider_call env ans p req of
        Inl err \<Rightarrow> (workerStreakEnter (reasonOf err) (countDrop (reasonOf err) p), sn)
      | Inr outs \<Rightarrow>
          ((workerStreakEnd p)\<lparr>pv_results := Suc (pv_results p)\<rparr>, Update outs (an_stamped ans) sn))"

text \<open>
  The steps of the loop of \<open>work\<close>: a request is taken off the queue, it is handled, or the closed
  \<open>done\<close> is seen. With both cases ready the \<open>select\<close> may choose either.
\<close>

definition work_take :: "provider \<Rightarrow> provider option" where
  "work_take p =
     (case (pv_worker p, pv_queue p) of
        (Waiting, req # rs) \<Rightarrow> Some (p\<lparr>pv_queue := rs, pv_worker := Handling req\<rparr>)
      | _ \<Rightarrow> None)"

definition work_handle :: "provider_env \<Rightarrow> answer \<Rightarrow> provider \<times> snapshot \<Rightarrow> (provider \<times> snapshot) option" where
  "work_handle env ans w =
     (case pv_worker (fst w) of
        Handling req \<Rightarrow> (let (p, sn) = provider_handle env ans req w in Some (p\<lparr>pv_worker := Waiting\<rparr>, sn))
      | _ \<Rightarrow> None)"

definition work_return :: "provider \<Rightarrow> provider option" where
  "work_return p = (if pv_worker p = Waiting \<and> pv_done p then Some (p\<lparr>pv_worker := Returned\<rparr>) else None)"

text \<open>\<open>Driver\<close>: the provider as a rider, which makes no call on the engine.\<close>

definition provider_Driver ::
  "'d \<Rightarrow> tick_context \<Rightarrow> provider \<times> snapshot \<Rightarrow> ('s, 'ev) engine \<Rightarrow> string option \<times> (provider \<times> snapshot) \<times> ('s, 'ev) engine"
where
  "provider_Driver d ctx w en = (None, (provider_tick ctx (snd w) (fst w), snd w), en)"

end
