(* ===== verification/Provider_Runs.thy ===== *)
theory Provider_Runs
  imports Provider Engine_Run "HOL-Library.Multiset"
begin

text \<open>
  The runs of a provider: ticks of the engine, steps of its worker, its close, and what others write into
  the snapshot, in any order. An event records what a step did; the invariant reads the provider's
  queue, counters and writes off the events.
\<close>

section \<open>Steps\<close>

datatype provider_event =
    Accepted provider_request
  | QueueFull
  | Skipped
  | Unconfigured
  | Taken provider_request
  | Answered table instant
  | Abstained string
  | Closing
  | WorkerGone
  | Sensed table instant

text \<open>What a tick does, by the state it finds.\<close>

definition tick_event :: "tick_context \<Rightarrow> snapshot \<Rightarrow> provider \<Rightarrow> provider_event" where
  "tick_event ctx sn p =
     (if pv_unconfigured p then Unconfigured
      else if 1 < pc_Cadence (pv_cfg p) \<and> Suc (pv_tickCount p) mod nat (pc_Cadence (pv_cfg p)) \<noteq> 0 then Skipped
      else if length (pv_queue p) < nat (pc_QueueDepth (pv_cfg p))
      then Accepted \<lparr>pq_view = (if pv_hasView p then View sn (tc_Now ctx) else Map.empty), pq_now = tc_Now ctx\<rparr>
      else QueueFull)"

definition handle_event :: "provider_env \<Rightarrow> answer \<Rightarrow> provider_request \<Rightarrow> provider \<Rightarrow> provider_event" where
  "handle_event env ans req p =
     (case provider_call env ans p req of
        Inl err \<Rightarrow> Abstained (reasonOf err) | Inr outs \<Rightarrow> Answered outs (an_stamped ans))"

inductive provider_step ::
  "provider_env \<Rightarrow> provider \<times> snapshot \<Rightarrow> provider_event \<Rightarrow> provider \<times> snapshot \<Rightarrow> bool"
  for env where
  step_tick: "provider_step env (p, sn) (tick_event ctx sn p) (provider_tick ctx sn p, sn)"
| step_take: "work_take p = Some p' \<Longrightarrow> pv_worker p' = Handling req \<Longrightarrow> provider_step env (p, sn) (Taken req) (p', sn)"
| step_handle: "mset (an_order ans (pv_labelRefs p)) = mset (pv_labelRefs p) \<Longrightarrow> pv_worker p = Handling req \<Longrightarrow>
     work_handle env ans (p, sn) = Some w \<Longrightarrow> provider_step env (p, sn) (handle_event env ans req p) w"
| step_close: "provider_Close p = Some p' \<Longrightarrow> provider_step env (p, sn) Closing (p', sn)"
| step_return: "work_return p = Some p' \<Longrightarrow> provider_step env (p, sn) WorkerGone (p', sn)"
| step_sense: "provider_step env (p, sn) (Sensed outs now) (p, Update outs now sn)"

inductive provider_run ::
  "provider_env \<Rightarrow> provider \<times> snapshot \<Rightarrow> provider_event list \<Rightarrow> provider \<times> snapshot \<Rightarrow> bool"
  for env w where
  run_start: "provider_run env w [] w"
| run_more: "provider_run env w es w1 \<Longrightarrow> provider_step env w1 e w2 \<Longrightarrow> provider_run env w (es @ [e]) w2"

section \<open>What the events say\<close>

definition accepted :: "provider_event list \<Rightarrow> provider_request list" where
  "accepted es = List.map_filter (\<lambda>e. case e of Accepted r \<Rightarrow> Some r | _ \<Rightarrow> None) es"

definition taken :: "provider_event list \<Rightarrow> provider_request list" where
  "taken es = List.map_filter (\<lambda>e. case e of Taken r \<Rightarrow> Some r | _ \<Rightarrow> None) es"

definition answers :: "provider_event list \<Rightarrow> (instant \<times> table) list" where
  "answers es = List.map_filter (\<lambda>e. case e of Answered t now \<Rightarrow> Some (now, t) | _ \<Rightarrow> None) es"

definition writes :: "provider_event list \<Rightarrow> (instant \<times> table) list" where
  "writes es = List.map_filter
     (\<lambda>e. case e of Answered t now \<Rightarrow> Some (now, t) | Sensed t now \<Rightarrow> Some (now, t) | _ \<Rightarrow> None) es"

definition abstentions :: "provider_event list \<Rightarrow> string list" where
  "abstentions es = List.map_filter (\<lambda>e. case e of Abstained r \<Rightarrow> Some r | _ \<Rightarrow> None) es"

definition drop_reasons :: "provider_event list \<Rightarrow> string list" where
  "drop_reasons es = List.map_filter
     (\<lambda>e. case e of Abstained r \<Rightarrow> Some r | QueueFull \<Rightarrow> Some ''queue-full'' | _ \<Rightarrow> None) es"

fun is_tick :: "provider_event \<Rightarrow> bool" where
  "is_tick (Accepted _) = True"
| "is_tick QueueFull = True"
| "is_tick Skipped = True"
| "is_tick Unconfigured = True"
| "is_tick _ = False"

lemma map_filter_snoc:
  "List.map_filter f (xs @ [x]) = List.map_filter f xs @ (case f x of None \<Rightarrow> [] | Some y \<Rightarrow> [y])"
  by (simp add: List.map_filter_def split: option.split)

lemmas event_defs = accepted_def taken_def answers_def writes_def abstentions_def drop_reasons_def

lemma events_Nil [simp]:
  "accepted [] = []" "taken [] = []" "answers [] = []" "writes [] = []" "abstentions [] = []" "drop_reasons [] = []"
  by (simp_all add: event_defs List.map_filter_simps)

lemma events_snoc [simp]:
  "accepted (es @ [e]) = accepted es @ (case e of Accepted r \<Rightarrow> [r] | _ \<Rightarrow> [])"
  "taken (es @ [e]) = taken es @ (case e of Taken r \<Rightarrow> [r] | _ \<Rightarrow> [])"
  "answers (es @ [e]) = answers es @ (case e of Answered t now \<Rightarrow> [(now, t)] | _ \<Rightarrow> [])"
  "writes (es @ [e]) = writes es @ (case e of Answered t now \<Rightarrow> [(now, t)] | Sensed t now \<Rightarrow> [(now, t)] | _ \<Rightarrow> [])"
  "abstentions (es @ [e]) = abstentions es @ (case e of Abstained r \<Rightarrow> [r] | _ \<Rightarrow> [])"
  "drop_reasons (es @ [e]) = drop_reasons es
     @ (case e of Abstained r \<Rightarrow> [r] | QueueFull \<Rightarrow> [''queue-full''] | _ \<Rightarrow> [])"
  by (cases e; simp add: event_defs map_filter_snoc)+

section \<open>The configuration and the references\<close>

definition config_wf :: "provider_config \<Rightarrow> bool" where
  "config_wf c \<longleftrightarrow> pc_Name c \<noteq> [] \<and> pc_Kind c \<in> {KindEmbedding, KindCompletion} \<and> pc_BaseURL c \<noteq> []
     \<and> pc_Output c \<noteq> [] \<and> pc_Inputs c \<noteq> [] \<and> (pc_Kind c = KindEmbedding \<longrightarrow> pc_Labels c \<noteq> [])
     \<and> 0 < pc_Timeout c \<and> 0 < pc_QueueDepth c \<and> 0 < pc_Cadence c \<and> pc_SystemPrompt c \<noteq> [] \<and> 0 < pc_MaxTokens c"

lemma provider_validate_Inr:
  "provider_validate c = Inr c' \<longleftrightarrow>
     pc_Name c \<noteq> [] \<and> pc_Kind c \<in> {KindEmbedding, KindCompletion} \<and> pc_BaseURL c \<noteq> [] \<and> pc_Output c \<noteq> []
     \<and> pc_Inputs c \<noteq> [] \<and> (pc_Kind c = KindEmbedding \<longrightarrow> pc_Labels c \<noteq> [])
     \<and> c' = c\<lparr>pc_Timeout := (if pc_Timeout c \<le> 0 then DefaultTimeout else pc_Timeout c),
              pc_QueueDepth := (if pc_QueueDepth c \<le> 0 then DefaultQueueDepth else pc_QueueDepth c),
              pc_Cadence := (if pc_Cadence c \<le> 0 then DefaultCadence else pc_Cadence c),
              pc_SystemPrompt := (if pc_SystemPrompt c = [] then DefaultSystemPromt else pc_SystemPrompt c),
              pc_MaxTokens := (if pc_MaxTokens c \<le> 0 then DefaultMaxTokens else pc_MaxTokens c)\<rparr>"
  unfolding provider_validate_def rbind_Inr_iff guards_Inr by auto

lemma provider_validate_wf: "provider_validate c = Inr c' \<Longrightarrow> config_wf c'"
  unfolding provider_validate_Inr config_wf_def
  by (simp add: DefaultTimeout_def DefaultQueueDepth_def DefaultCadence_def DefaultSystemPromt_def DefaultMaxTokens_def)

lemma Kinds_distinct [simp]: "KindEmbedding \<noteq> KindCompletion" "KindCompletion \<noteq> KindEmbedding"
  by (simp_all add: KindEmbedding_def KindCompletion_def)

definition refs_ok :: "provider \<Rightarrow> bool" where
  "refs_ok p \<longleftrightarrow> config_wf (pv_cfg p) \<and> (pc_Kind (pv_cfg p) = KindEmbedding \<and> \<not> pv_unconfigured p \<longrightarrow>
     pv_labelRefs p \<noteq> [] \<and> fst ` set (pv_labelRefs p) \<subseteq> set (pc_Labels (pv_cfg p)))"

lemma fst_update: "fst ` set (AList.update k v m) = insert k (fst ` set m)"
  using dom_update[of k v m] by (simp add: dom_map_of_conv_image_fst[symmetric])

lemma warm_fold:
  "foldr_res (\<lambda>(i, label) refs. rbind (f i label) (\<lambda>vec. Inr (AList.update label vec refs))) (enumerate k ls) m = Inr m'
     \<Longrightarrow> fst ` set m' = fst ` set m \<union> set ls"
proof (induction ls arbitrary: k m)
  case (Cons l ls)
  then obtain v where "foldr_res (\<lambda>(i, label) refs. rbind (f i label) (\<lambda>vec. Inr (AList.update label vec refs)))
      (enumerate (Suc k) ls) (AList.update l v m) = Inr m'" by auto
  from Cons.IH[OF this] show ?case by (simp add: fst_update)
qed simp

lemma warm_refs:
  assumes "warmEmbeddings env nets apiKey cfg = Inr refs" "pc_Labels cfg \<noteq> []"
  shows "refs \<noteq> []"
  using warm_fold[OF assms(1)[unfolded warmEmbeddings_def]] assms(2) by auto

lemma warm_label:
  assumes "warmEmbeddings env nets apiKey cfg = Inr refs" "(l, v) \<in> set refs"
  shows "l \<in> set (pc_Labels cfg)"
  using warm_fold[OF assms(1)[unfolded warmEmbeddings_def]] assms(2) by force

text \<open>A new provider: nothing asked, nothing answered, nothing dropped.\<close>

definition provider_fresh :: "provider \<Rightarrow> bool" where
  "provider_fresh p \<longleftrightarrow> pv_queue p = [] \<and> pv_worker p = Waiting \<and> pv_requests p = 0 \<and> pv_results p = 0
     \<and> pv_drops p = [] \<and> pv_tickCount p = 0 \<and> \<not> pv_done p"

lemma provider_New_ok:
  assumes "provider_New env nets cfg0 has_sink = Inr p"
  shows "refs_ok p \<and> provider_fresh p \<and> provider_validate cfg0 = Inr (pv_cfg p)"
proof -
  obtain cfg where v: "provider_validate cfg0 = Inr cfg" using assms by (auto simp: provider_New_def)
  have wf: "config_wf cfg" by (rule provider_validate_wf[OF v])
  have lab: "pc_Kind cfg = KindEmbedding \<Longrightarrow> pc_Labels cfg \<noteq> []" using wf by (simp add: config_wf_def)
  show ?thesis using assms wf
    by (auto simp: provider_New_def v refs_ok_def provider_fresh_def Let_def split: sum.splits if_splits
        dest: warm_refs[OF _ lab] warm_label)
qed

section \<open>The invariant of a run\<close>

definition busy :: "provider \<Rightarrow> nat" where
  "busy p = (case pv_worker p of Handling _ \<Rightarrow> 1 | _ \<Rightarrow> 0)"

definition drops_of :: "string list \<Rightarrow> string \<Rightarrow> nat option" where
  "drops_of rs r = (if r \<in> set rs then Some (count_list rs r) else None)"

text \<open>The table an answered request writes: the output field with a label or a word, and its companion.\<close>

definition output_ok :: "provider_config \<Rightarrow> table \<Rightarrow> bool" where
  "output_ok c t \<longleftrightarrow> (\<exists>w x.
     (pc_Kind c = KindEmbedding \<and> w \<in> set (pc_Labels c) \<and> t = [(pc_Output c, AStr w), (pc_Output c @ ''_score'', AFloat x)])
   \<or> (pc_Kind c = KindCompletion \<and> w \<noteq> [] \<and> t = [(pc_Output c, AStr w), (pc_Output c @ ''_latency_s'', AFloat x)]))"

definition provider_inv :: "provider \<Rightarrow> snapshot \<Rightarrow> provider_event list \<Rightarrow> provider \<times> snapshot \<Rightarrow> bool" where
  "provider_inv p0 sn0 es w \<longleftrightarrow> (let (p, sn) = w in
     pv_cfg p = pv_cfg p0 \<and> pv_labelRefs p = pv_labelRefs p0 \<and> pv_unconfigured p = pv_unconfigured p0
   \<and> length (pv_queue p) \<le> nat (pc_QueueDepth (pv_cfg p))
   \<and> accepted es = taken es @ pv_queue p
   \<and> length (taken es) = length (answers es) + length (abstentions es) + busy p
   \<and> pv_requests p = length (accepted es) \<and> pv_results p = length (answers es)
   \<and> map_of (pv_drops p) = drops_of (drop_reasons es)
   \<and> pv_tickCount p = length (filter is_tick es)
   \<and> (pv_unconfigured p \<longrightarrow> accepted es = [])
   \<and> (\<forall>(t, f) \<in> set (answers es). output_ok (pv_cfg p) f)
   \<and> sn = frames_run (writes es) sn0)"

lemma streak_fields:
  "pv_cfg (tickStreakEnter r p) = pv_cfg p \<and> pv_labelRefs (tickStreakEnter r p) = pv_labelRefs p
   \<and> pv_unconfigured (tickStreakEnter r p) = pv_unconfigured p \<and> pv_queue (tickStreakEnter r p) = pv_queue p
   \<and> pv_worker (tickStreakEnter r p) = pv_worker p \<and> pv_requests (tickStreakEnter r p) = pv_requests p
   \<and> pv_results (tickStreakEnter r p) = pv_results p \<and> pv_drops (tickStreakEnter r p) = pv_drops p
   \<and> pv_tickCount (tickStreakEnter r p) = pv_tickCount p"
  "pv_cfg (tickStreakEnd p) = pv_cfg p \<and> pv_labelRefs (tickStreakEnd p) = pv_labelRefs p
   \<and> pv_unconfigured (tickStreakEnd p) = pv_unconfigured p \<and> pv_queue (tickStreakEnd p) = pv_queue p
   \<and> pv_worker (tickStreakEnd p) = pv_worker p \<and> pv_requests (tickStreakEnd p) = pv_requests p
   \<and> pv_results (tickStreakEnd p) = pv_results p \<and> pv_drops (tickStreakEnd p) = pv_drops p
   \<and> pv_tickCount (tickStreakEnd p) = pv_tickCount p"
  "pv_cfg (workerStreakEnter r p) = pv_cfg p \<and> pv_labelRefs (workerStreakEnter r p) = pv_labelRefs p
   \<and> pv_unconfigured (workerStreakEnter r p) = pv_unconfigured p \<and> pv_queue (workerStreakEnter r p) = pv_queue p
   \<and> pv_worker (workerStreakEnter r p) = pv_worker p \<and> pv_requests (workerStreakEnter r p) = pv_requests p
   \<and> pv_results (workerStreakEnter r p) = pv_results p \<and> pv_drops (workerStreakEnter r p) = pv_drops p
   \<and> pv_tickCount (workerStreakEnter r p) = pv_tickCount p"
  "pv_cfg (workerStreakEnd p) = pv_cfg p \<and> pv_labelRefs (workerStreakEnd p) = pv_labelRefs p
   \<and> pv_unconfigured (workerStreakEnd p) = pv_unconfigured p \<and> pv_queue (workerStreakEnd p) = pv_queue p
   \<and> pv_worker (workerStreakEnd p) = pv_worker p \<and> pv_requests (workerStreakEnd p) = pv_requests p
   \<and> pv_results (workerStreakEnd p) = pv_results p \<and> pv_drops (workerStreakEnd p) = pv_drops p
   \<and> pv_tickCount (workerStreakEnd p) = pv_tickCount p"
  by (simp_all add: tickStreakEnter_def tickStreakEnd_def workerStreakEnter_def workerStreakEnd_def split_beta)

lemma countDrop_drops:
  "map_of (pv_drops p) = drops_of rs \<Longrightarrow> map_of (pv_drops (countDrop r p)) = drops_of (rs @ [r])"
  by (auto simp: countDrop_def update_conv drops_of_def fun_eq_iff)

lemma countDrop_fields [simp]:
  "pv_cfg (countDrop r p) = pv_cfg p" "pv_labelRefs (countDrop r p) = pv_labelRefs p"
  "pv_unconfigured (countDrop r p) = pv_unconfigured p" "pv_queue (countDrop r p) = pv_queue p"
  "pv_worker (countDrop r p) = pv_worker p" "pv_requests (countDrop r p) = pv_requests p"
  "pv_results (countDrop r p) = pv_results p" "pv_tickCount (countDrop r p) = pv_tickCount p"
  by (simp_all add: countDrop_def)

section \<open>Labels and answers\<close>

lemma best_from:
  "fold (best_step v) refs best = Some (l, s) \<Longrightarrow>
     best = Some (l, s) \<or> (\<exists>ref. (l, ref) \<in> set refs \<and> s = cosineSimilarity v ref)"
proof (induction refs arbitrary: best)
  case (Cons e refs)
  from Cons.IH[of "best_step v e best"] Cons.prems
  consider "best_step v e best = Some (l, s)" | "\<exists>ref. (l, ref) \<in> set refs \<and> s = cosineSimilarity v ref" by auto
  then show ?case
    by cases (cases e; cases best; auto simp: best_step_def Let_def split: prod.splits if_splits)+
qed simp

lemma best_stays: "best \<noteq> None \<Longrightarrow> fold (best_step v) refs best \<noteq> None"
  by (induction refs arbitrary: best) (auto simp: best_step_def Let_def split: option.splits)

lemma bestLabel_mem:
  assumes "refs \<noteq> []" "bestLabel refs v = (l, s)"
  shows "\<exists>ref. (l, ref) \<in> set refs \<and> s = cosineSimilarity v ref"
proof -
  obtain e es where refs: "refs = e # es" using assms(1) by (cases refs) auto
  have "fold (best_step v) refs None \<noteq> None" using best_stays[of "best_step v e None" v es]
    by (auto simp: refs best_step_def Let_def)
  then have "fold (best_step v) refs None = Some (l, s)" using assms(2) by (auto simp: bestLabel_def)
  then show ?thesis using best_from by fastforce
qed

text \<open>Comparable scores: the scan ends on a greatest one.\<close>

lemma best_max:
  assumes "fold (best_step v) refs (Some (l0, s0)) = Some (l, s)" "\<not> is_nan s0"
    "\<forall>(n, ref) \<in> set refs. \<not> is_nan (cosineSimilarity v ref)"
  shows "fle s0 s \<and> (\<forall>(n, ref) \<in> set refs. fle (cosineSimilarity v ref) s)"
  using assms
proof (induction refs arbitrary: l0 s0)
  case Nil
  then show ?case by (auto simp: is_nan_def fle_def feq_iff)
next
  case (Cons e refs)
  obtain n ref where e: "e = (n, ref)" by (cases e)
  let ?c = "cosineSimilarity v ref"
  have nan: "\<not> is_nan ?c" using Cons.prems(3) by (auto simp: e)
  obtain l1 s1 where st: "best_step v e (Some (l0, s0)) = Some (l1, s1)"
    and s1: "s1 = (if flt s0 ?c then ?c else s0)"
    by (cases "flt s0 ?c") (simp_all add: best_step_def Let_def e)
  have "fold (best_step v) refs (Some (l1, s1)) = Some (l, s)" using Cons.prems(1) st by simp
  then have r: "fle s1 s \<and> (\<forall>(n, ref) \<in> set refs. fle (cosineSimilarity v ref) s)"
    by (rule Cons.IH) (use s1 nan Cons.prems(2,3) in auto)
  have "fle s0 s1 \<and> fle ?c s1"
  proof (cases "flt s0 ?c")
    case True
    then show ?thesis using s1 nan by (simp add: fle_def feq_iff is_nan_def)
  next
    case False
    then show ?thesis using s1 nan Cons.prems(2) not_flt_fle by (simp add: fle_def feq_iff is_nan_def)
  qed
  then show ?case using r fle_trans by (auto simp: e)
qed

lemma bestLabel_max:
  assumes "refs \<noteq> []" "bestLabel refs v = (l, s)" "\<forall>(n, ref) \<in> set refs. \<not> is_nan (cosineSimilarity v ref)"
  shows "\<forall>(n, ref) \<in> set refs. fle (cosineSimilarity v ref) s"
proof -
  obtain n0 r0 es where refs: "refs = (n0, r0) # es" using assms(1) by (cases refs) auto
  have first: "best_step v (n0, r0) None = Some (n0, cosineSimilarity v r0)" by (simp add: best_step_def)
  have "fold (best_step v) es (Some (n0, cosineSimilarity v r0)) \<noteq> None" by (rule best_stays) simp
  then have "fold (best_step v) es (Some (n0, cosineSimilarity v r0)) = Some (l, s)"
    using assms(2) by (auto simp: bestLabel_def refs first)
  from best_max[OF this] show ?thesis using assms(3) by (simp add: refs)
qed

lemma call_output:
  assumes "provider_call env ans p req = Inr outs" "refs_ok p" "\<not> pv_unconfigured p"
    "mset (an_order ans (pv_labelRefs p)) = mset (pv_labelRefs p)"
  shows "output_ok (pv_cfg p) outs"
proof (cases "pc_Kind (pv_cfg p) = KindEmbedding")
  case True
  then have "callEmbedding env ans p req = Inr outs" using assms(1) by (simp add: provider_call_def)
  then obtain v where v: "Inr outs = (let (l, s) = bestLabel (an_order ans (pv_labelRefs p)) v in
      Inr [(pc_Output (pv_cfg p), AStr l), (pc_Output (pv_cfg p) @ ''_score'', AFloat s)] :: (call_error, table) result)"
    unfolding callEmbedding_def Let_def rbind_Inr_iff by metis
  obtain l s where b: "bestLabel (an_order ans (pv_labelRefs p)) v = (l, s)" by (rule prod.exhaust)
  have o: "outs = [(pc_Output (pv_cfg p), AStr l), (pc_Output (pv_cfg p) @ ''_score'', AFloat s)]"
    using v by (simp add: b)
  have same: "set (an_order ans (pv_labelRefs p)) = set (pv_labelRefs p)" using assms(4) by (rule mset_eq_setD)
  have ne: "an_order ans (pv_labelRefs p) \<noteq> []" "fst ` set (pv_labelRefs p) \<subseteq> set (pc_Labels (pv_cfg p))"
    using assms(2-4) True by (auto simp: refs_ok_def)
  from bestLabel_mem[OF ne(1) b] have "l \<in> set (pc_Labels (pv_cfg p))" using ne(2) same by force
  then show ?thesis using True o by (auto simp: output_ok_def)
next
  case False
  then have k: "pc_Kind (pv_cfg p) = KindCompletion" using assms(2) by (auto simp: refs_ok_def config_wf_def)
  then have "callCompletion env ans p req = Inr outs" using assms(1) by (simp add: provider_call_def)
  then show ?thesis using k by (auto simp: callCompletion_def Let_def output_ok_def split: if_splits)
qed

section \<open>Every step keeps the invariant\<close>

text \<open>A tick, by what it does.\<close>

lemma provider_tick_cases:
  "pv_tickCount (provider_tick ctx sn p) = Suc (pv_tickCount p)
   \<and> pv_cfg (provider_tick ctx sn p) = pv_cfg p \<and> pv_labelRefs (provider_tick ctx sn p) = pv_labelRefs p
   \<and> pv_unconfigured (provider_tick ctx sn p) = pv_unconfigured p \<and> pv_worker (provider_tick ctx sn p) = pv_worker p
   \<and> pv_results (provider_tick ctx sn p) = pv_results p
   \<and> (case tick_event ctx sn p of
        Accepted req \<Rightarrow> pv_queue (provider_tick ctx sn p) = pv_queue p @ [req]
          \<and> pv_requests (provider_tick ctx sn p) = Suc (pv_requests p)
          \<and> pv_drops (provider_tick ctx sn p) = pv_drops p
          \<and> length (pv_queue p) < nat (pc_QueueDepth (pv_cfg p)) \<and> \<not> pv_unconfigured p
      | QueueFull \<Rightarrow> pv_queue (provider_tick ctx sn p) = pv_queue p
          \<and> pv_requests (provider_tick ctx sn p) = pv_requests p
          \<and> pv_drops (provider_tick ctx sn p) = pv_drops (countDrop ''queue-full'' p)
      | e \<Rightarrow> is_tick e \<and> pv_queue (provider_tick ctx sn p) = pv_queue p
          \<and> pv_requests (provider_tick ctx sn p) = pv_requests p
          \<and> pv_drops (provider_tick ctx sn p) = pv_drops p)"
  by (simp add: provider_tick_def tick_event_def Let_def streak_fields countDrop_def)

lemma inv_tick:
  assumes "provider_inv p0 sn0 es (p, sn)"
  shows "provider_inv p0 sn0 (es @ [tick_event ctx sn p]) (provider_tick ctx sn p, sn)"
  using assms provider_tick_cases[of ctx sn p] countDrop_drops[of p "drop_reasons es" "''queue-full''"]
  by (cases "tick_event ctx sn p") (auto simp: provider_inv_def busy_def)

lemma work_take_fields:
  assumes "work_take p = Some p'" "pv_worker p' = Handling req"
  shows "pv_queue p = req # pv_queue p' \<and> pv_worker p = Waiting \<and> pv_cfg p' = pv_cfg p
    \<and> pv_labelRefs p' = pv_labelRefs p \<and> pv_unconfigured p' = pv_unconfigured p \<and> pv_requests p' = pv_requests p
    \<and> pv_results p' = pv_results p \<and> pv_drops p' = pv_drops p \<and> pv_tickCount p' = pv_tickCount p"
  using assms by (auto simp: work_take_def split: worker.splits list.splits)

lemma inv_take:
  assumes "provider_inv p0 sn0 es (p, sn)" "work_take p = Some p'" "pv_worker p' = Handling req"
  shows "provider_inv p0 sn0 (es @ [Taken req]) (p', sn)"
  using assms(1) work_take_fields[OF assms(2,3)] assms(3) by (auto simp: provider_inv_def busy_def)

lemma frames_run_snoc [simp]: "frames_run (fs @ [(now, f)]) sn = Update f now (frames_run fs sn)"
  by (simp add: frames_run_def)

lemma inv_handle:
  assumes inv: "provider_inv p0 sn0 es (p, sn)" and ok: "refs_ok p0"
    and ord: "mset (an_order ans (pv_labelRefs p)) = mset (pv_labelRefs p)"
    and req: "pv_worker p = Handling req" and w: "work_handle env ans (p, sn) = Some w"
  shows "provider_inv p0 sn0 (es @ [handle_event env ans req p]) w"
proof -
  have b: "busy p = 1" using req by (simp add: busy_def)
  have "taken es \<noteq> []" using inv b by (auto simp: provider_inv_def)
  then have conf: "\<not> pv_unconfigured p" using inv by (auto simp: provider_inv_def)
  have ok': "refs_ok p" using ok inv by (simp add: provider_inv_def refs_ok_def)
  show ?thesis
  proof (cases "provider_call env ans p req")
    case (Inl err)
    then have "w = ((workerStreakEnter (reasonOf err) (countDrop (reasonOf err) p))\<lparr>pv_worker := Waiting\<rparr>, sn)"
      using w req by (simp add: work_handle_def provider_handle_def)
    then show ?thesis using inv b countDrop_drops[of p "drop_reasons es" "reasonOf err"]
      by (auto simp: provider_inv_def Inl handle_event_def streak_fields busy_def)
  next
    case (Inr outs)
    then have "w = ((workerStreakEnd p)\<lparr>pv_results := Suc (pv_results p), pv_worker := Waiting\<rparr>,
        Update outs (an_stamped ans) sn)"
      using w req by (simp add: work_handle_def provider_handle_def)
    moreover have "output_ok (pv_cfg p) outs" by (rule call_output[OF Inr ok' conf ord])
    ultimately show ?thesis using inv b
      by (auto simp: provider_inv_def Inr handle_event_def streak_fields busy_def)
  qed
qed

lemma inv_step:
  assumes "provider_step env (p, sn) e w" "provider_inv p0 sn0 es (p, sn)" "refs_ok p0"
  shows "provider_inv p0 sn0 (es @ [e]) w"
  using assms
proof (cases rule: provider_step.cases)
  case (step_tick ctx)
  then show ?thesis using inv_tick assms(2) by simp
next
  case (step_take p' req)
  then show ?thesis using inv_take assms(2) by simp
next
  case (step_handle ans req)
  then show ?thesis using inv_handle assms(2,3) by simp
next
  case (step_close p')
  then show ?thesis using assms(2) by (auto simp: provider_Close_def provider_inv_def busy_def split: if_splits)
next
  case (step_return p')
  then show ?thesis using assms(2) by (auto simp: work_return_def provider_inv_def busy_def split: if_splits)
next
  case (step_sense outs now)
  then show ?thesis using assms(2) by (auto simp: provider_inv_def)
qed

lemma inv_start: "refs_ok p \<Longrightarrow> provider_fresh p \<Longrightarrow> provider_inv p sn [] (p, sn)"
  by (simp add: provider_inv_def provider_fresh_def busy_def drops_of_def frames_run_def fun_eq_iff)

lemma provider_run_inv:
  assumes "provider_run env (p0, sn0) es w" "refs_ok p0" "provider_fresh p0"
  shows "provider_inv p0 sn0 es w"
  using assms(1)
proof induction
  case run_start
  then show ?case by (rule inv_start[OF assms(2,3)])
next
  case (run_more es w1 e w2)
  obtain p sn where w1: "w1 = (p, sn)" by (rule prod.exhaust)
  show ?case using inv_step[of env p sn e w2] run_more w1 assms(2) by simp
qed

text \<open>Every tick is exactly one of four.\<close>

lemma ticks_split:
  "length (filter is_tick es) = length (accepted es) + count_list es QueueFull + count_list es Skipped
     + count_list es Unconfigured"
proof (induction es rule: rev_induct)
  case (snoc e es)
  then show ?case by (cases e) simp_all
qed simp

lemma queue_full_count:
  assumes "''queue-full'' \<notin> set (abstentions es)"
  shows "count_list (drop_reasons es) ''queue-full'' = count_list es QueueFull"
  using assms
proof (induction es rule: rev_induct)
  case (snoc e es)
  then show ?case by (cases e) auto
qed simp

section \<open>The driver on the seam\<close>

interpretation decision: seam_contract "provider_Driver :: ('s, provider \<times> snapshot, 'ev) seam_fn"
  by unfold_locales (auto simp: provider_Driver_def api_refl)

end
