(* ===== verification/Compose_Providers.thy ===== *)
theory Compose_Providers
  imports Provider_Runs
begin

text \<open>
  The providers of the composed system, \<open>internal/compose/providers.go\<close>: the document on disk, the bounds
  it may write, its decoding by extension, the check against the robot's vocabulary, and the construction
  of one provider per \<open>--provider\<close> flag, all or none.

  Parameters are the bytes of a file, what the TOML library and the JSON grammar make of them, and the
  value of a conversion of a double out of the range of \<open>int64\<close>, which the language leaves open.
\<close>

section \<open>The document\<close>

record providerDoc =
  pd_Name :: string
  pd_Kind :: string
  pd_BaseURL :: string
  pd_Model :: string
  pd_APIKeyEnv :: string
  pd_Inputs :: "string list"
  pd_Output :: string
  pd_Labels :: "string list"
  pd_TimeoutS :: "f64 option"
  pd_QueueDepth :: "int option"
  pd_Cadence :: "int option"
  pd_SystemPrompt :: string
  pd_MaxTokens :: int

definition zero_doc :: providerDoc where
  "zero_doc = \<lparr>pd_Name = [], pd_Kind = [], pd_BaseURL = [], pd_Model = [], pd_APIKeyEnv = [], pd_Inputs = [],
     pd_Output = [], pd_Labels = [], pd_TimeoutS = None, pd_QueueDepth = None, pd_Cadence = None,
     pd_SystemPrompt = [], pd_MaxTokens = 0\<rparr>"

definition int_field :: "(int \<Rightarrow> 'r \<Rightarrow> 'r) \<Rightarrow> json \<Rightarrow> 'r \<Rightarrow> 'r option" where
  "int_field upd v r = (case v of JNum (Some i) _ \<Rightarrow> Some (upd i r) | JNull \<Rightarrow> Some r | _ \<Rightarrow> None)"

definition providerDoc_fields :: "providerDoc struct" where
  "providerDoc_fields =
     [(''name'', str_field (\<lambda>s d. d\<lparr>pd_Name := s\<rparr>)),
      (''kind'', str_field (\<lambda>s d. d\<lparr>pd_Kind := s\<rparr>)),
      (''base_url'', str_field (\<lambda>s d. d\<lparr>pd_BaseURL := s\<rparr>)),
      (''model'', str_field (\<lambda>s d. d\<lparr>pd_Model := s\<rparr>)),
      (''api_key_env'', str_field (\<lambda>s d. d\<lparr>pd_APIKeyEnv := s\<rparr>)),
      (''inputs'', strs_field (\<lambda>s d. d\<lparr>pd_Inputs := s\<rparr>)),
      (''output'', str_field (\<lambda>s d. d\<lparr>pd_Output := s\<rparr>)),
      (''labels'', strs_field (\<lambda>s d. d\<lparr>pd_Labels := s\<rparr>)),
      (''timeout_s'', float_ptr_field (\<lambda>x d. d\<lparr>pd_TimeoutS := x\<rparr>)),
      (''queue_depth'', int_ptr_field (\<lambda>x d. d\<lparr>pd_QueueDepth := x\<rparr>)),
      (''cadence'', int_ptr_field (\<lambda>x d. d\<lparr>pd_Cadence := x\<rparr>)),
      (''system_prompt'', str_field (\<lambda>s d. d\<lparr>pd_SystemPrompt := s\<rparr>)),
      (''max_tokens'', int_field (\<lambda>x d. d\<lparr>pd_MaxTokens := x\<rparr>))]"

datatype providers_error =
    FileUnreadable string
  | BadExtension string
  | NotTOML string
  | UnknownTOMLKeys string "string list"
  | NotJSON string
  | TrailingContent string
  | BadTimeout string f64
  | BadQueueDepth string int
  | BadCadence string int
  | UndeclaredInput string string string
  | UndeclaredOutput string string string
  | ProviderRefused string provider_error

text \<open>Only a bound that was written is checked; \<open>!(t > 0)\<close> holds of NaN too.\<close>

definition checkBounds :: "string \<Rightarrow> providerDoc \<Rightarrow> (providers_error, unit) result" where
  "checkBounds path d = guards
     [(case pd_TimeoutS d of None \<Rightarrow> False | Some t \<Rightarrow> \<not> flt (Fin 0) t \<or> is_inf t, BadTimeout path (the (pd_TimeoutS d))),
      (case pd_QueueDepth d of None \<Rightarrow> False | Some n \<Rightarrow> n < 1, BadQueueDepth path (the (pd_QueueDepth d))),
      (case pd_Cadence d of None \<Rightarrow> False | Some n \<Rightarrow> n < 1, BadCadence path (the (pd_Cadence d)))]"

text \<open>A conversion of a double to \<open>int64\<close> truncates; out of range it is \<open>oob\<close>.\<close>

definition to_int64 :: "(f64 \<Rightarrow> int) \<Rightarrow> f64 \<Rightarrow> int" where
  "to_int64 oob x =
     (case x of Fin r \<Rightarrow> if in_duration (rat_trunc r) then rat_trunc r else oob x | _ \<Rightarrow> oob x)"

definition toConfig :: "(f64 \<Rightarrow> int) \<Rightarrow> providerDoc \<Rightarrow> provider_config" where
  "toConfig oob d =
     \<lparr>pc_Name = pd_Name d, pc_Kind = pd_Kind d, pc_BaseURL = pd_BaseURL d, pc_Model = pd_Model d,
      pc_APIKeyEnv = pd_APIKeyEnv d, pc_Inputs = pd_Inputs d, pc_Output = pd_Output d, pc_Labels = pd_Labels d,
      pc_Timeout = (case pd_TimeoutS d of None \<Rightarrow> 0 | Some t \<Rightarrow> to_int64 oob (fmul t (f64_of_int second))),
      pc_QueueDepth = (case pd_QueueDepth d of None \<Rightarrow> 0 | Some n \<Rightarrow> n),
      pc_Cadence = (case pd_Cadence d of None \<Rightarrow> 0 | Some n \<Rightarrow> n),
      pc_SystemPrompt = pd_SystemPrompt d, pc_MaxTokens = pd_MaxTokens d\<rparr>"

section \<open>Loading\<close>

definition isTOMLProviderConfig :: "(string \<Rightarrow> string) \<Rightarrow> string \<Rightarrow> (providers_error, bool) result" where
  "isTOMLProviderConfig lower path =
     (let ext = strings_ToLower lower (path_Ext path) in
      if ext = ''.toml'' then Inr True else if ext = ''.json'' then Inr False else Inl (BadExtension path))"

text \<open>
  The files: their bytes; a TOML document with the keys it did not decode; the first JSON value with
  whether anything follows it; and the conversion out of range.
\<close>

record provider_files =
  pf_read :: "string \<Rightarrow> bytes option"
  pf_toml :: "bytes \<Rightarrow> (providerDoc \<times> string list) option"
  pf_json :: "bytes \<Rightarrow> (json \<times> bool) option"
  pf_lower :: "string \<Rightarrow> string"
  pf_oob :: "f64 \<Rightarrow> int"

definition decodeTOMLDoc :: "provider_files \<Rightarrow> string \<Rightarrow> bytes \<Rightarrow> (providers_error, providerDoc) result" where
  "decodeTOMLDoc fs path raw =
     (case pf_toml fs raw of
        None \<Rightarrow> Inl (NotTOML path)
      | Some (doc, undecoded) \<Rightarrow> if undecoded \<noteq> [] then Inl (UnknownTOMLKeys path undecoded) else Inr doc)"

definition decodeJSONDoc :: "provider_files \<Rightarrow> string \<Rightarrow> bytes \<Rightarrow> (providers_error, providerDoc) result" where
  "decodeJSONDoc fs path raw =
     (case pf_json fs raw of
        None \<Rightarrow> Inl (NotJSON path)
      | Some (v, trailing) \<Rightarrow>
          (case decodeStruct True providerDoc_fields v zero_doc of
             None \<Rightarrow> Inl (NotJSON path)
           | Some doc \<Rightarrow> if trailing then Inl (TrailingContent path) else Inr doc))"

definition loadProviderConfig :: "provider_files \<Rightarrow> string \<Rightarrow> (providers_error, provider_config) result" where
  "loadProviderConfig fs path =
     (case pf_read fs path of
        None \<Rightarrow> Inl (FileUnreadable path)
      | Some raw \<Rightarrow>
          rbind (isTOMLProviderConfig (pf_lower fs) path) (\<lambda>isTOML.
          rbind (if isTOML then decodeTOMLDoc fs path raw else decodeJSONDoc fs path raw) (\<lambda>doc.
          rbind (checkBounds path doc) (\<lambda>_. Inr (toConfig (pf_oob fs) doc)))))"

definition checkProviderVocabulary :: "provider_config \<Rightarrow> vocabulary \<Rightarrow> (providers_error, unit) result" where
  "checkProviderVocabulary cfg voc =
     rbind (each (\<lambda>f. refuse_if (\<not> HasField voc f) (UndeclaredInput (pc_Name cfg) f (v_origin voc))) (pc_Inputs cfg))
       (\<lambda>_. refuse_if (\<not> HasField voc (pc_Output cfg)) (UndeclaredOutput (pc_Name cfg) (pc_Output cfg) (v_origin voc)))"

section \<open>Building\<close>

type_synonym namedProvider = "string \<times> provider"

text \<open>\<open>closeProviders\<close>; \<open>None\<close> is the panic of a second close.\<close>

definition closeProviders :: "namedProvider list \<Rightarrow> namedProvider list option" where
  "closeProviders ps = those (map (\<lambda>(n, p). map_option (Pair n) (provider_Close p)) ps)"

text \<open>One turn of the loop: a file to a live provider with its name; \<open>nets\<close> are the round trips of its warm-up.\<close>

definition build_one ::
  "provider_files \<Rightarrow> provider_env \<Rightarrow> vocabulary \<Rightarrow> string \<times> (nat \<Rightarrow> gateway) \<Rightarrow> (providers_error, namedProvider) result"
where
  "build_one fs env voc pn =
     rbind (loadProviderConfig fs (fst pn)) (\<lambda>cfg.
     rbind (checkProviderVocabulary cfg voc) (\<lambda>_.
       case provider_New env (snd pn) cfg True of
         Inl err \<Rightarrow> Inl (ProviderRefused (fst pn) err)
       | Inr p \<Rightarrow> Inr (pc_Name cfg, SetView p)))"

text \<open>A refusal carries the providers built before it, as \<open>closeProviders\<close> left them.\<close>

fun buildProviders ::
  "provider_files \<Rightarrow> provider_env \<Rightarrow> vocabulary \<Rightarrow> (string \<times> (nat \<Rightarrow> gateway)) list \<Rightarrow> namedProvider list
     \<Rightarrow> (providers_error \<times> namedProvider list option, namedProvider list) result" where
  "buildProviders fs env voc [] built = Inr built"
| "buildProviders fs env voc (pn # pns) built =
     (case build_one fs env voc pn of
        Inl err \<Rightarrow> Inl (err, closeProviders built)
      | Inr np \<Rightarrow> buildProviders fs env voc pns (built @ [np]))"

section \<open>All or none\<close>

lemma SetView_ok: "refs_ok p \<Longrightarrow> provider_fresh p \<Longrightarrow> refs_ok (SetView p) \<and> provider_fresh (SetView p)"
  by (simp add: SetView_def refs_ok_def provider_fresh_def)

text \<open>A provider as it is built for this robot: live, with nothing asked, its fields declared.\<close>

definition built_ok :: "vocabulary \<Rightarrow> namedProvider \<Rightarrow> bool" where
  "built_ok voc np \<longleftrightarrow> refs_ok (snd np) \<and> provider_fresh (snd np) \<and> pv_hasView (snd np)
     \<and> fst np = pc_Name (pv_cfg (snd np))
     \<and> HasField voc (pc_Output (pv_cfg (snd np))) \<and> (\<forall>f \<in> set (pc_Inputs (pv_cfg (snd np))). HasField voc f)"

lemma validate_keeps:
  "provider_validate c = Inr c' \<Longrightarrow> pc_Name c' = pc_Name c \<and> pc_Output c' = pc_Output c \<and> pc_Inputs c' = pc_Inputs c
     \<and> pc_Labels c' = pc_Labels c \<and> pc_Kind c' = pc_Kind c"
  by (simp add: provider_validate_Inr)

lemma build_one_ok:
  assumes "build_one fs env voc pn = Inr np"
  shows "built_ok voc np"
proof -
  obtain cfg where c: "loadProviderConfig fs (fst pn) = Inr cfg" "checkProviderVocabulary cfg voc = Inr ()"
    "(case provider_New env (snd pn) cfg True of Inl err \<Rightarrow> Inl (ProviderRefused (fst pn) err)
      | Inr p \<Rightarrow> Inr (pc_Name cfg, SetView p)) = Inr np"
    using assms unfolding build_one_def rbind_Inr_iff by auto
  obtain p where p: "provider_New env (snd pn) cfg True = Inr p" "np = (pc_Name cfg, SetView p)"
    using c(3) by (cases "provider_New env (snd pn) cfg True") auto
  note cfg = c(1,2) p
  have new: "refs_ok p" "provider_fresh p" "provider_validate cfg = Inr (pv_cfg p)" using provider_New_ok[OF cfg(3)] by auto
  show ?thesis using cfg(2,4) SetView_ok[OF new(1,2)] validate_keeps[OF new(3)]
    by (auto simp: built_ok_def checkProviderVocabulary_def SetView_def)
qed

lemma closeProviders_fresh:
  assumes "\<forall>np \<in> set ps. built_ok voc np"
  shows "\<exists>cs. closeProviders ps = Some cs \<and> map fst cs = map fst ps \<and> (\<forall>c \<in> set cs. pv_done (snd c))"
  using assms
proof (induction ps)
  case Nil
  then show ?case by (simp add: closeProviders_def)
next
  case (Cons np ps)
  obtain n p where np: "np = (n, p)" by (cases np)
  obtain cs where cs: "closeProviders ps = Some cs" "map fst cs = map fst ps" "\<forall>c \<in> set cs. pv_done (snd c)"
    using Cons by auto
  have "\<not> pv_done p" using Cons.prems np by (simp add: built_ok_def provider_fresh_def)
  then show ?case using cs by (simp add: closeProviders_def np provider_Close_def)
qed

lemma buildProviders_ok:
  assumes "\<forall>np \<in> set built. built_ok voc np"
  shows "case buildProviders fs env voc pns built of
      Inl (err, shut) \<Rightarrow> (\<exists>cs. shut = Some cs \<and> (\<forall>c \<in> set cs. pv_done (snd c)))
    | Inr ps \<Rightarrow> length ps = length built + length pns \<and> (\<forall>np \<in> set ps. built_ok voc np)"
  using assms
proof (induction pns arbitrary: built)
  case (Cons pn pns)
  show ?case
  proof (cases "build_one fs env voc pn")
    case (Inl err)
    then show ?thesis using closeProviders_fresh[OF Cons.prems] by auto
  next
    case (Inr np)
    have "\<forall>x \<in> set (built @ [np]). built_ok voc x" using Cons.prems build_one_ok[OF Inr] by simp
    from Cons.IH[OF this] show ?thesis by (auto simp: Inr split: sum.splits)
  qed
qed simp

section \<open>Written bounds\<close>

text \<open>A written timeout that is at least a nanosecond and fits a duration is the timeout of the provider.\<close>

lemma timeout_kept:
  assumes "pd_TimeoutS d = Some t" "fmul t (f64_of_int second) = Fin r" "1 \<le> r" "rat_trunc r \<le> max_duration"
  shows "pc_Timeout (toConfig oob d) = rat_trunc r \<and> 0 < rat_trunc r"
proof -
  have "1 \<le> rat_trunc r" using assms(3) by (simp add: rat_trunc_def)
  then have "in_duration (rat_trunc r)" using assms(4) by (simp add: in_duration_def max_duration_def min_duration_def)
  then show ?thesis using assms(1,2) \<open>1 \<le> rat_trunc r\<close> by (simp add: toConfig_def to_int64_def)
qed

end
