(* ===== verification/Rules_Lane.thy ===== *)
theory Rules_Lane
  imports Evaluator_Properties
begin

text \<open>
  The rule lane of the composed system, \<open>internal/compose/ruleslane.go\<close>: the rider in front of the
  evaluator in force, and the reload that replaces it. The evaluator in force holds the shared snapshot
  and registry, so the lane's own are those it was made with. A reload races a tick only on the pointer
  to the evaluator: it takes effect between two ticks.
\<close>

section \<open>Operations\<close>

datatype lane_error = LaneRules rules_error | LaneNew new_error

datatype lane_line = ReloadRefused lane_error | ReloadInForce

record rules_lane =
  rl_voc :: vocabulary
  rl_snapshot :: "snapshot option"
  rl_registry :: registry
  rl_log :: "lane_line list"
  rl_eval :: "evaluator option"
  rl_layers :: "string list list"

text \<open>The registry and the snapshot that all evaluators of the lane share, and the log they write to.\<close>

definition shared_registry :: "rules_lane \<Rightarrow> registry" where
  "shared_registry l = (case rl_eval l of None \<Rightarrow> rl_registry l | Some ev \<Rightarrow> el_registry ev)"

definition shared_snapshot :: "rules_lane \<Rightarrow> snapshot option" where
  "shared_snapshot l = (case rl_eval l of None \<Rightarrow> rl_snapshot l | Some ev \<Rightarrow> el_snapshot ev)"

definition shared_log :: "rules_lane \<Rightarrow> rule_log list" where
  "shared_log l = (case rl_eval l of None \<Rightarrow> [] | Some ev \<Rightarrow> el_log ev)"

definition loadRules ::
  "(string \<rightharpoonup> table) \<Rightarrow> string list list \<Rightarrow> vocabulary \<Rightarrow> (lane_error, rules_config) result" where
  "loadRules decode layers voc =
     (case Load decode layers (Some (robot_vocabulary voc)) of Inl err \<Rightarrow> Inl (LaneRules err) | Inr cfg \<Rightarrow> Inr cfg)"

definition lane_build ::
  "(string \<rightharpoonup> table) \<Rightarrow> string list list \<Rightarrow> rules_lane \<Rightarrow> (lane_error, evaluator) result" where
  "lane_build decode layers l =
     rbind (loadRules decode layers (rl_voc l)) (\<lambda>cfg.
       case evaluator_New \<lparr>ev_Rules = Some cfg, ev_Vocabulary = Some (rl_voc l), ev_Snapshot = shared_snapshot l,
              ev_Router = None, ev_Registry = Some (shared_registry l), ev_IDPrefix = []\<rparr> of
         Inl err \<Rightarrow> Inl (LaneNew err)
       | Inr ev \<Rightarrow> Inr (ev\<lparr>el_log := shared_log l\<rparr>))"

definition newRulesLane ::
  "(string \<rightharpoonup> table) \<Rightarrow> vocabulary \<Rightarrow> snapshot option \<Rightarrow> registry \<Rightarrow> string list list \<Rightarrow> (lane_error, rules_lane) result"
where
  "newRulesLane decode voc sn rg layers =
     (let l = \<lparr>rl_voc = voc, rl_snapshot = sn, rl_registry = rg, rl_log = [], rl_eval = None, rl_layers = []\<rparr>
      in rbind (lane_build decode layers l) (\<lambda>ev. Inr (l\<lparr>rl_eval := Some ev, rl_layers := layers\<rparr>)))"

text \<open>\<open>Tick\<close> of the lane: the evaluator in force, if there is one.\<close>

definition lane_Tick :: "tick_context \<Rightarrow> rules_lane \<times> ('s, rule_event) engine
    \<Rightarrow> string option \<times> rules_lane \<times> ('s, rule_event) engine" where
  "lane_Tick ctx w =
     (let (l, en) = w in
      case rl_eval l of None \<Rightarrow> (None, l, en)
      | Some ev \<Rightarrow> (let (p, ev', en') = Tick ctx (ev, en) in (p, l\<lparr>rl_eval := Some ev'\<rparr>, en')))"

definition layerStack :: "string list \<Rightarrow> rules_lane \<Rightarrow> string list list" where
  "layerStack paths l = (if paths = [] then rl_layers l else map (\<lambda>path. [path]) paths)"

definition Reload :: "(string \<rightharpoonup> table) \<Rightarrow> string list \<Rightarrow> rules_lane \<Rightarrow> lane_error option \<times> rules_lane" where
  "Reload decode paths l =
     (let layers = layerStack paths l in
      case lane_build decode layers l of
        Inl err \<Rightarrow> (Some err, l\<lparr>rl_log := rl_log l @ [ReloadRefused err]\<rparr>)
      | Inr ev \<Rightarrow> (None, l\<lparr>rl_eval := Some ev, rl_layers := layers, rl_log := rl_log l @ [ReloadInForce]\<rparr>))"

definition lane_Layers :: "rules_lane \<Rightarrow> nat" where
  "lane_Layers l = length (rl_layers l)"

definition lane_ActiveMode :: "rules_lane \<Rightarrow> string" where
  "lane_ActiveMode l = (case rl_eval l of None \<Rightarrow> [] | Some ev \<Rightarrow> el_activeMode ev)"

section \<open>What a build makes\<close>

lemma lane_build_Inr:
  assumes "lane_build decode layers l = Inr ev" "decoded_ok decode" "registry_ok (shared_registry l)"
  shows "ev_inv ev \<and> loadRules decode layers (rl_voc l) = Inr (el_cfg ev) \<and> el_registry ev = shared_registry l
    \<and> el_snapshot ev = shared_snapshot l \<and> el_voc ev = rl_voc l \<and> el_log ev = shared_log l
    \<and> (\<forall>r \<in> set (config_rules (el_cfg ev)). el_states ev (r_ID r) = Some fresh_rule_state)"
proof -
  obtain cfg where cfg: "Load decode layers (Some (robot_vocabulary (rl_voc l))) = Inr cfg"
    "loadRules decode layers (rl_voc l) = Inr cfg"
    using assms(1) by (auto simp: lane_build_def loadRules_def split: sum.splits)
  define c where "c = \<lparr>ev_Rules = Some cfg, ev_Vocabulary = Some (rl_voc l), ev_Snapshot = shared_snapshot l,
     ev_Router = None, ev_Registry = Some (shared_registry l), ev_IDPrefix = []\<rparr>"
  obtain ev0 where ev0: "evaluator_New c = Inr ev0" "ev = ev0\<lparr>el_log := shared_log l\<rparr>"
    using assms(1) by (auto simp: lane_build_def cfg c_def split: sum.splits)
  have "ev_inv ev0 \<and> el_cfg ev0 = cfg \<and> Some (el_voc ev0) = ev_Vocabulary c"
    by (rule New_ev_inv[OF ev0(1)]) (use loaded_rules_ok(1)[OF cfg(1) assms(2)] assms(3) in \<open>simp_all add: c_def\<close>)
  then show ?thesis using ev0 cfg by (auto simp: ev_inv_def evaluator_New_Inr c_def)
qed

text \<open>Rules that load for this robot also build: the evaluator adds no refusal of its own.\<close>

lemma lane_build_total:
  assumes "loadRules decode layers (rl_voc l) = Inr cfg" "decoded_ok decode"
  shows "\<exists>ev. lane_build decode layers l = Inr ev"
proof -
  have "Load decode layers (Some (robot_vocabulary (rl_voc l))) = Inr cfg"
    using assms(1) by (auto simp: loadRules_def split: sum.splits)
  then have "\<forall>r \<in> set (rc_React cfg). r_DurationS r \<noteq> None \<or> \<not> ActionLoops (rl_voc l) (r_Run r)"
    using loaded_rules_ok(2)[OF _ assms(2)] by (auto simp: robot_vocabulary_def)
  then obtain ev where "evaluator_New \<lparr>ev_Rules = Some cfg, ev_Vocabulary = Some (rl_voc l),
      ev_Snapshot = shared_snapshot l, ev_Router = None, ev_Registry = Some (shared_registry l), ev_IDPrefix = []\<rparr> = Inr ev"
    by (simp add: evaluator_New_Inr)
  then show ?thesis by (simp add: lane_build_def assms(1))
qed

section \<open>Runs of the lane\<close>

text \<open>
  A run of the lane: ticks, reloads of whatever the files then hold, and what others do in between. The
  list is of the rule sets installed, each with its layers.
\<close>

inductive lane_run ::
  "rules_lane \<times> ('s, rule_event) engine \<Rightarrow> (rules_config \<times> string list list) list
     \<Rightarrow> rules_lane \<times> ('s, rule_event) engine \<Rightarrow> bool" for w where
  lane_start: "lane_run w [] w"
| lane_tick: "lane_run w cs w1 \<Longrightarrow> lane_Tick ctx w1 = (p, w2) \<Longrightarrow> lane_run w cs w2"
| lane_refused: "lane_run w cs (l, en) \<Longrightarrow> decoded_ok decode \<Longrightarrow> Reload decode paths l = (Some err, l') \<Longrightarrow>
     lane_run w cs (l', en)"
| lane_reloaded: "lane_run w cs (l, en) \<Longrightarrow> decoded_ok decode \<Longrightarrow> Reload decode paths l = (None, l') \<Longrightarrow>
     loadRules decode (layerStack paths l) (rl_voc l) = Inr cfg \<Longrightarrow>
     lane_run w (cs @ [(cfg, layerStack paths l)]) (l', en)"
| lane_outside: "lane_run w cs (l, en) \<Longrightarrow> rl_eval l = Some ev \<Longrightarrow> outside (ev, en) (ev', en') \<Longrightarrow>
     lane_run w cs (l\<lparr>rl_eval := Some ev'\<rparr>, en')"

definition lane_inv :: "vocabulary \<Rightarrow> rules_config \<times> string list list \<Rightarrow> rules_lane \<Rightarrow> bool" where
  "lane_inv v c l \<longleftrightarrow> (\<exists>ev. rl_eval l = Some ev \<and> ev_inv ev \<and> el_cfg ev = fst c) \<and> rl_layers l = snd c \<and> rl_voc l = v"

lemma newRulesLane_ok:
  assumes "newRulesLane decode voc sn rg layers = Inr l" "decoded_ok decode" "registry_ok rg"
  shows "\<exists>cfg. loadRules decode layers voc = Inr cfg \<and> lane_inv voc (cfg, layers) l \<and> shared_registry l = rg
     \<and> shared_snapshot l = sn"
proof -
  let ?l = "\<lparr>rl_voc = voc, rl_snapshot = sn, rl_registry = rg, rl_log = [], rl_eval = None, rl_layers = []\<rparr>"
  obtain ev where b: "lane_build decode layers ?l = Inr ev" and l: "l = ?l\<lparr>rl_eval := Some ev, rl_layers := layers\<rparr>"
    using assms(1) by (auto simp: newRulesLane_def Let_def)
  show ?thesis using lane_build_Inr[OF b assms(2)] assms(3)
    by (auto simp: l lane_inv_def shared_registry_def shared_snapshot_def)
qed

lemma lane_Tick_ok:
  assumes "lane_inv v c l" "lane_Tick ctx (l, en) = (p, l', en')"
  shows "p = None \<and> lane_inv v c l' \<and> api en en'"
proof -
  obtain ev where ev: "rl_eval l = Some ev" "ev_inv ev" "el_cfg ev = fst c" using assms(1) by (auto simp: lane_inv_def)
  obtain w' where w': "Tick ctx (ev, en) = (None, w')" "ev_inv (fst w')" "el_cfg (fst w') = el_cfg ev"
    using Tick_ok[of "(ev, en)" ctx] ev(2) by auto
  then show ?thesis using assms ev Tick_api[OF w'(1)]
    by (auto simp: lane_Tick_def lane_inv_def split: prod.splits)
qed

lemma Reload_ok:
  assumes "lane_inv v c l" "decoded_ok decode"
  shows "(\<exists>err. Reload decode paths l = (Some err, l\<lparr>rl_log := rl_log l @ [ReloadRefused err]\<rparr>)
         \<and> lane_build decode (layerStack paths l) l = Inl err)
     \<or> (\<exists>l' cfg. Reload decode paths l = (None, l') \<and> loadRules decode (layerStack paths l) v = Inr cfg
         \<and> lane_inv v (cfg, layerStack paths l) l' \<and> shared_registry l' = shared_registry l
         \<and> shared_snapshot l' = shared_snapshot l)"
proof (cases "lane_build decode (layerStack paths l) l")
  case (Inl err)
  then show ?thesis by (simp add: Reload_def Let_def)
next
  case (Inr ev)
  have rg: "registry_ok (shared_registry l)" "rl_voc l = v"
    using assms(1) by (auto simp: lane_inv_def shared_registry_def ev_inv_def)
  from lane_build_Inr[OF Inr assms(2) rg(1)] show ?thesis
    by (auto simp: Reload_def Let_def Inr lane_inv_def rg(2) shared_registry_def[of "l\<lparr>rl_eval := _, rl_layers := _, rl_log := _\<rparr>"]
        shared_snapshot_def[of "l\<lparr>rl_eval := _, rl_layers := _, rl_log := _\<rparr>"])
qed

lemma lane_outside_ok:
  assumes "lane_inv v c l" "rl_eval l = Some ev" "outside (ev, en) (ev', en')"
  shows "lane_inv v c (l\<lparr>rl_eval := Some ev'\<rparr>)"
  using assms(1,2) outside_ok[OF assms(3)] by (auto simp: lane_inv_def)

text \<open>The rule set in force is the last one installed.\<close>

lemma lane_run_inv:
  assumes "lane_run (l0, en0) cs w" "lane_inv v c0 l0"
  shows "lane_inv v (last (c0 # cs)) (fst w)"
  using assms(1)
proof induction
  case lane_start
  then show ?case using assms(2) by simp
next
  case (lane_tick cs w1 ctx p w2)
  obtain l en where w1: "w1 = (l, en)" by (rule prod.exhaust)
  obtain l' en' where w2: "w2 = (l', en')" by (rule prod.exhaust)
  show ?case using lane_Tick_ok[of v _ l ctx en p l' en'] lane_tick w1 w2 by simp
next
  case (lane_refused cs l en decode paths err l')
  then show ?case using Reload_ok[of v _ l decode paths] by (auto simp: lane_inv_def)
next
  case (lane_reloaded cs l en decode paths l' cfg)
  then have "lane_inv v (cfg, layerStack paths l) l'"
    using Reload_ok[of v _ l decode paths] by (auto simp: lane_inv_def)
  then show ?case by simp
next
  case (lane_outside cs l en ev ev' en')
  then show ?case using lane_outside_ok by (metis fst_conv)
qed

section \<open>The lane on the seam\<close>

definition lane_seam :: "'d \<Rightarrow> tick_context \<Rightarrow> rules_lane \<Rightarrow> ('s, rule_event) engine
    \<Rightarrow> string option \<times> rules_lane \<times> ('s, rule_event) engine" where
  "lane_seam d ctx l en = lane_Tick ctx (l, en)"

lemma lane_Tick_api: "lane_Tick ctx (l, en) = (p, l', en') \<Longrightarrow> api en en'"
  using Tick_api[of ctx] by (fastforce simp: lane_Tick_def api_refl split: option.splits prod.splits)

interpretation reloadable: seam_contract "lane_seam :: ('d, rules_lane, rule_event) seam_fn"
  by unfold_locales (simp add: lane_seam_def lane_Tick_api)

end
