(* ===== verification/Compose.thy ===== *)
theory Compose
  imports Compose_Providers Rules_Lane Stream_Server
begin

text \<open>
  The composition root, \<open>internal/compose\<close>: the checked options of one invocation (\<open>compose.go\<close>), the
  status rider (\<open>status.go\<close>), and the construction of the runtime with its four kinds of riders on the one
  seam (\<open>runtime.go\<close>).

  The engine's sink is the endpoint, whose write never fails. The stages that read files, the operating
  system or the network read them from \<open>surroundings\<close>. Parsing the command line, the signals and the text
  of errors are not modelled.
\<close>

section \<open>Options\<close>

record options =
  op_AdaptorPath :: string
  op_RuleLayers :: "string list"
  op_ProviderPaths :: "string list"
  op_SocketDir :: string
  op_Stdio :: bool
  op_TCPAddr :: string
  op_Period :: duration
  op_Heartbeat :: duration
  op_BaseAction :: string

definition compose_DefaultPeriod :: duration where "compose_DefaultPeriod = 20000000"
definition flagSocketDir :: string where "flagSocketDir = ''socket-dir''"
definition flagStdio :: string where "flagStdio = ''stdio''"
definition flagInsecureTCP :: string where "flagInsecureTCP = ''insecure-tcp''"

datatype compose_error =
    NoAdaptorGiven
  | NoTransport
  | TwoTransports "string list"
  | PeriodNotPositive duration
  | AdaptorExtension string
  | AdaptorUnreadable string
  | AdaptorInvalid adaptor_error
  | RulesRefused lane_error
  | ProvidersRefused providers_error
  | EndpointRefused config_error
  | BaseUndeclared string string
  | EngineRefused
  | SeamRefused

text \<open>\<open>pathListFlag.Set\<close>, the repeatable path flags.\<close>

definition pathList_Set :: "string \<Rightarrow> string list \<Rightarrow> string list option" where
  "pathList_Set path paths = (if path = [] then None else Some (paths @ [path]))"

definition chosen_transports :: "options \<Rightarrow> string list" where
  "chosen_transports opts =
     (if op_SocketDir opts \<noteq> [] then [''--'' @ flagSocketDir] else [])
     @ (if op_Stdio opts then [''--'' @ flagStdio] else [])
     @ (if op_TCPAddr opts \<noteq> [] then [''--'' @ flagInsecureTCP] else [])"

definition checkTransport :: "options \<Rightarrow> (compose_error, unit) result" where
  "checkTransport opts =
     (case chosen_transports opts of
        [_] \<Rightarrow> Inr () | [] \<Rightarrow> Inl NoTransport | chosen \<Rightarrow> Inl (TwoTransports chosen))"

definition options_check :: "options \<Rightarrow> (compose_error, unit) result" where
  "options_check opts =
     rbind (refuse_if (op_AdaptorPath opts = []) NoAdaptorGiven) (\<lambda>_.
     rbind (checkTransport opts) (\<lambda>_.
     refuse_if (op_Period opts \<le> 0) (PeriodNotPositive (op_Period opts))))"

definition streamConfig :: "string \<Rightarrow> options \<Rightarrow> stream_config" where
  "streamConfig version opts =
     \<lparr>sc_Dir = op_SocketDir opts, sc_SocketName = [], sc_TCPAddr = op_TCPAddr opts,
      sc_InsecureTCP = op_TCPAddr opts \<noteq> [], sc_HeartbeatEvery = op_Heartbeat opts, sc_OutboundQueue = 0,
      sc_MaxInflightMgmt = 0, sc_EngineVersion = version, sc_Vocabulary = None\<rparr>"

definition options_layers :: "options \<Rightarrow> string list list" where
  "options_layers opts = map (\<lambda>path. [path]) (op_RuleLayers opts)"

definition isTOMLConfig :: "(string \<Rightarrow> string) \<Rightarrow> string \<Rightarrow> (compose_error, bool) result" where
  "isTOMLConfig lower path =
     (let ext = strings_ToLower lower (path_Ext path) in
      if ext = ''.json'' then Inr False else if ext = ''.toml'' then Inr True else Inl (AdaptorExtension path))"

section \<open>The status rider\<close>

record status_rider =
  ss_tick :: nat
  ss_startedAt :: instant
  ss_now :: instant
  ss_active :: "string list"
  ss_ownership :: "string \<rightharpoonup> string"

definition new_status :: status_rider where
  "new_status = \<lparr>ss_tick = 0, ss_startedAt = 0, ss_now = 0, ss_active = [], ss_ownership = Map.empty\<rparr>"

definition status_Tick :: "tick_context \<Rightarrow> ('s, 'ev) engine \<Rightarrow> status_rider \<Rightarrow> status_rider" where
  "status_Tick ctx en s =
     s\<lparr>ss_startedAt := (if time_IsZero (ss_startedAt s) then tc_Now ctx else ss_startedAt s),
       ss_tick := tc_Tick ctx, ss_now := tc_Now ctx, ss_active := ActiveNames en, ss_ownership := ctx_Ownership en\<rparr>"

record provider_status =
  ps_Requests :: nat
  ps_Results :: nat
  ps_Drops :: "nat gomap"

record runtime_status =
  st_Tick :: nat
  st_UptimeS :: f64
  st_Ticks :: nat
  st_Overruns :: nat
  st_Drops :: nat
  st_SinkErrors :: nat
  st_SeamPanics :: nat
  st_FramesIn :: nat
  st_FramesOut :: nat
  st_StreamDrops :: nat
  st_Refused :: nat
  st_Active :: "string list"
  st_Ownership :: "string \<rightharpoonup> string"
  st_RuleLayers :: nat
  st_ActiveMode :: string
  st_Providers :: "string \<rightharpoonup> provider_status"

text \<open>\<open>Status\<close>, once \<open>bind\<close> has run.\<close>

definition status_Status ::
  "status_rider \<Rightarrow> ('s, 'ev) engine \<Rightarrow> ('s, 'ev) server \<Rightarrow> rules_lane \<Rightarrow> namedProvider list \<Rightarrow> runtime_status" where
  "status_Status s en srv lane ps =
     (let es = Stats en; vs = stream_Stats srv in
      \<lparr>st_Tick = ss_tick s,
       st_UptimeS = (if time_IsZero (ss_startedAt s) then Fin 0 else secs_between (ss_now s) (ss_startedAt s)),
       st_Ticks = Ticks es, st_Overruns = Overruns es, st_Drops = Drops es, st_SinkErrors = SinkErrors es,
       st_SeamPanics = SeamPanics es, st_FramesIn = FramesIn vs, st_FramesOut = FramesOut vs,
       st_StreamDrops = FrameDrops vs, st_Refused = Refused vs,
       st_Active = ss_active s, st_Ownership = ss_ownership s,
       st_RuleLayers = lane_Layers lane, st_ActiveMode = lane_ActiveMode lane,
       st_Providers = foldl (\<lambda>m (n, p). let (requests, results, drops) = provider_Stats p in
           m(n \<mapsto> \<lparr>ps_Requests = requests, ps_Results = results, ps_Drops = drops\<rparr>)) Map.empty ps\<rparr>)"

section \<open>The riders of the runtime\<close>

datatype runtime_rider = ProviderRider nat | LaneRider | StatusRider | HeartbeatRider

type_synonym runtime_engine = "(runtime_rider bus, rule_event) engine"
type_synonym runtime_server = "(runtime_rider bus, rule_event) server"

text \<open>What the riders close over. The snapshot they share is the one of the rule lane.\<close>

record runtime_state =
  rs_providers :: "namedProvider list"
  rs_lane :: rules_lane
  rs_status :: status_rider
  rs_server :: runtime_server

definition runtime_snapshot :: "runtime_state \<Rightarrow> snapshot" where
  "runtime_snapshot u = (case shared_snapshot (rs_lane u) of None \<Rightarrow> sense_New | Some sn \<Rightarrow> sn)"

definition tick_provider :: "tick_context \<Rightarrow> nat \<Rightarrow> runtime_state \<Rightarrow> runtime_state" where
  "tick_provider ctx i u =
     (if i < length (rs_providers u)
      then let (n, p) = rs_providers u ! i
           in u\<lparr>rs_providers := (rs_providers u)[i := (n, provider_tick ctx (runtime_snapshot u) p)]\<rparr>
      else u)"

fun runtime_driver :: "(runtime_rider, runtime_state, rule_event) driver_fn" where
  "runtime_driver (ProviderRider i) ctx u en = (None, tick_provider ctx i u, en)"
| "runtime_driver LaneRider ctx u en =
     (let (p, l, en') = lane_Tick ctx (rs_lane u, en) in (p, u\<lparr>rs_lane := l\<rparr>, en'))"
| "runtime_driver StatusRider ctx u en = (None, u\<lparr>rs_status := status_Tick ctx en (rs_status u)\<rparr>, en)"
| "runtime_driver HeartbeatRider ctx u en = (None, u\<lparr>rs_server := stream_Seam ctx (rs_server u)\<rparr>, en)"

definition providerRider :: "string \<Rightarrow> string" where
  "providerRider name = ''provider:'' @ name"

text \<open>Providers first, then the rules, the status rider, and the heartbeat last.\<close>

definition runtime_bus :: "namedProvider list \<Rightarrow> runtime_rider bus" where
  "runtime_bus ps =
     bus_Add KindHeartbeat (Some HeartbeatRider)
       (bus_Add ''status'' (Some StatusRider)
         (bus_Add StageRule (Some LaneRider)
           (fold (\<lambda>(i, n, p). bus_Add (providerRider n) (Some (ProviderRider i))) (enumerate 0 ps) NewBus)))"

section \<open>Construction\<close>

text \<open>
  \<open>su_adaptor\<close> reads and decodes an adaptor document, \<open>su_rules\<close> a rules file; \<open>su_nets\<close> are the round
  trips of the providers' warm-ups, \<open>su_stdin\<close> and \<open>su_stdout\<close> the pipes of the parent.
\<close>

record surroundings =
  su_adaptor :: "bool \<Rightarrow> string \<Rightarrow> config option"
  su_rules :: "string \<rightharpoonup> table"
  su_files :: provider_files
  su_env :: provider_env
  su_nets :: "nat \<Rightarrow> nat \<Rightarrow> gateway"
  su_os :: os
  su_clock :: clock
  su_version :: string
  su_stdin :: bytes
  su_stdout :: "nat \<Rightarrow> nat option"

definition compose_loadVocabulary :: "surroundings \<Rightarrow> string \<Rightarrow> (compose_error, vocabulary) result" where
  "compose_loadVocabulary su path =
     rbind (isTOMLConfig (pf_lower (su_files su)) path) (\<lambda>isTOML.
       case su_adaptor su isTOML path of
         None \<Rightarrow> Inl (AdaptorUnreadable path)
       | Some cfg \<Rightarrow> (case parse cfg path of Inl err \<Rightarrow> Inl (AdaptorInvalid err) | Inr voc \<Rightarrow> Inr voc))"

record runtime =
  rt_Vocabulary :: vocabulary
  rt_Engine :: runtime_engine
  rt_State :: runtime_state

definition new_endpoint ::
  "surroundings \<Rightarrow> options \<Rightarrow> vocabulary \<Rightarrow> snapshot \<Rightarrow> (config_error, runtime_server) result" where
  "new_endpoint su opts voc sn =
     (let cfg = (streamConfig (su_version su) opts)\<lparr>sc_Vocabulary := Some voc\<rparr> in
      if op_Stdio opts then NewStdio (su_os su) cfg None (Some sn) True (Some (su_stdin su)) (Some (su_stdout su))
      else stream_New (su_os su) cfg None (Some sn) True)"

definition runtime_engine_config :: "options \<Rightarrow> engine_config" where
  "runtime_engine_config opts =
     \<lparr>ec_period = op_Period opts, ec_baseLayer = op_BaseAction opts \<noteq> [], ec_baseAction = op_BaseAction opts,
      ec_maxErrors = 0, ec_settle = None, ec_inboxSize = 0\<rparr>"

text \<open>From the endpoint on: the base action, the engine over its sink, the seam.\<close>

definition runtime_wire ::
  "surroundings \<Rightarrow> options \<Rightarrow> vocabulary \<Rightarrow> rules_lane \<Rightarrow> namedProvider list \<Rightarrow> runtime_server
     \<Rightarrow> (compose_error \<times> namedProvider list option, runtime) result" where
  "runtime_wire su opts voc lane ps srv =
     (if op_BaseAction opts \<noteq> [] \<and> \<not> HasAction voc (op_BaseAction opts)
      then Inl (BaseUndeclared (op_BaseAction opts) (v_origin voc), Some ps)
      else case New (Some voc) (runtime_engine_config opts) (Some (\<lambda>_. None)) (su_clock su) of
        Inl _ \<Rightarrow> Inl (EngineRefused, closeProviders ps)
      | Inr en0 \<Rightarrow>
          (let srv1 = Attach (Some en0) srv;
               en1 = (case sv_engine srv1 of None \<Rightarrow> en0 | Some en \<Rightarrow> en);
               (sent, en2) = Send (SetSeamCmd (Some (runtime_bus ps))) en1
           in if \<not> sent then Inl (SeamRefused, closeProviders ps)
              else Inr \<lparr>rt_Vocabulary = voc, rt_Engine = en2,
                        rt_State = \<lparr>rs_providers = ps, rs_lane = lane, rs_status = new_status,
                                    rs_server = srv1\<lparr>sv_engine := Some en2\<rparr>\<rparr>\<rparr>))"

text \<open>
  A refusal comes with the providers built by then, in the state the refusal leaves them in; \<open>None\<close> would
  be a panic.
\<close>

definition runtime_New ::
  "surroundings \<Rightarrow> options \<Rightarrow> (compose_error \<times> namedProvider list option, runtime) result" where
  "runtime_New su opts =
     (case options_check opts of Inl err \<Rightarrow> Inl (err, Some [])
      | Inr _ \<Rightarrow>
     (case compose_loadVocabulary su (op_AdaptorPath opts) of Inl err \<Rightarrow> Inl (err, Some [])
      | Inr voc \<Rightarrow>
     (case newRulesLane (su_rules su) voc (Some sense_New) NewRegistry (options_layers opts) of
        Inl err \<Rightarrow> Inl (RulesRefused err, Some [])
      | Inr lane \<Rightarrow>
     (case buildProviders (su_files su) (su_env su) voc
             (map (\<lambda>(i, path). (path, su_nets su i)) (enumerate 0 (op_ProviderPaths opts))) [] of
        Inl (err, shut) \<Rightarrow> Inl (ProvidersRefused err, shut)
      | Inr ps \<Rightarrow>
     (case new_endpoint su opts voc sense_New of
        Inl err \<Rightarrow> Inl (EndpointRefused err, Some ps)
      | Inr srv \<Rightarrow> runtime_wire su opts voc lane ps srv)))))"

definition runtime_Close :: "runtime \<Rightarrow> namedProvider list option" where
  "runtime_Close rt = closeProviders (rs_providers (rt_State rt))"

end
