(* ===== verification/Compose_Runs.thy ===== *)
theory Compose_Runs
  imports Compose
begin

text \<open>
  Facts about the composed runtime: its riders keep to the calls of the tick context, they keep the rule lane
  and the providers well-formed, and what its construction leaves.
\<close>

section \<open>The riders\<close>

definition provider_ok :: "provider \<Rightarrow> bool" where
  "provider_ok p \<longleftrightarrow> refs_ok p \<and> length (pv_queue p) \<le> nat (pc_QueueDepth (pv_cfg p))"

text \<open>The state the riders keep: a rule set in force, every provider with its configuration and its bound.\<close>

definition runtime_ok :: "vocabulary \<Rightarrow> rules_config \<times> string list list \<Rightarrow> provider_config list \<Rightarrow> runtime_state \<Rightarrow> bool" where
  "runtime_ok v c cfgs u \<longleftrightarrow> lane_inv v c (rs_lane u) \<and> map (\<lambda>(n, p). pv_cfg p) (rs_providers u) = cfgs
     \<and> (\<forall>(n, p) \<in> set (rs_providers u). provider_ok p)"

lemma provider_ok_same:
  assumes "provider_ok p" "pv_cfg p' = pv_cfg p" "pv_labelRefs p' = pv_labelRefs p" "pv_unconfigured p' = pv_unconfigured p"
    "length (pv_queue p') \<le> nat (pc_QueueDepth (pv_cfg p))"
  shows "provider_ok p' \<and> pv_cfg p' = pv_cfg p"
  using assms(1,5) unfolding provider_ok_def refs_ok_def assms(2-4) by blast

lemma provider_tick_ok:
  assumes "provider_ok p"
  shows "provider_ok (provider_tick ctx sn p) \<and> pv_cfg (provider_tick ctx sn p) = pv_cfg p"
proof (rule provider_ok_same[OF assms])
  show "length (pv_queue (provider_tick ctx sn p)) \<le> nat (pc_QueueDepth (pv_cfg p))"
    using assms provider_tick_cases[of ctx sn p] by (cases "tick_event ctx sn p") (auto simp: provider_ok_def)
qed (use provider_tick_cases[of ctx sn p] in simp_all)

lemma tick_provider_ok:
  assumes "runtime_ok v c cfgs u"
  shows "runtime_ok v c cfgs (tick_provider ctx i u)"
proof (cases "i < length (rs_providers u)")
  case True
  obtain n p where np: "rs_providers u ! i = (n, p)" by (rule prod.exhaust)
  have mem: "(n, p) \<in> set (rs_providers u)" using True np by (metis nth_mem)
  let ?p = "provider_tick ctx (runtime_snapshot u) p"
  have p: "provider_ok ?p" "pv_cfg ?p = pv_cfg p"
    using provider_tick_ok[of p] assms mem by (auto simp: runtime_ok_def)
  have "map (\<lambda>(n, p). pv_cfg p) ((rs_providers u)[i := (n, ?p)]) = map (\<lambda>(n, p). pv_cfg p) (rs_providers u)"
    using True np p(2) by (simp add: map_update list_update_same_conv)
  moreover have "\<forall>(m, q) \<in> set ((rs_providers u)[i := (n, ?p)]). provider_ok q"
    using assms p(1) by (auto simp: runtime_ok_def dest!: set_update_subset_insert[THEN subsetD])
  ultimately show ?thesis using assms True np by (simp add: runtime_ok_def tick_provider_def)
qed (use assms in \<open>simp add: tick_provider_def\<close>)

lemma runtime_driver_ok:
  assumes "runtime_driver d ctx u en = (p, u', en')"
  shows "api en en'" "runtime_ok v c cfgs u \<Longrightarrow> p = None \<and> runtime_ok v c cfgs u'"
proof -
  show "api en en'" using assms
    by (cases d) (auto simp: api_refl dest: lane_Tick_api split: prod.splits)
  assume ok: "runtime_ok v c cfgs u"
  show "p = None \<and> runtime_ok v c cfgs u'"
  proof (cases d)
    case (ProviderRider i)
    then show ?thesis using assms tick_provider_ok[OF ok, of ctx i] by auto
  next
    case LaneRider
    obtain q l en2 where t: "lane_Tick ctx (rs_lane u, en) = (q, l, en2)" by (metis prod_cases3)
    have "lane_inv v c (rs_lane u)" using ok by (simp add: runtime_ok_def)
    from lane_Tick_ok[OF this t] show ?thesis using assms LaneRider t ok by (auto simp: runtime_ok_def)
  next
    case StatusRider
    then show ?thesis using assms ok by (auto simp: runtime_ok_def)
  next
    case HeartbeatRider
    then show ?thesis using assms ok by (auto simp: runtime_ok_def)
  qed
qed

interpretation runtime: riders runtime_driver
  by unfold_locales (rule runtime_driver_ok(1))

text \<open>No rider panics, so the bus writes no line.\<close>

lemma runtime_turns:
  assumes "turns runtime_driver ctx ds u en = (ps, u', en')" "runtime_ok v c cfgs u"
  shows "runtime_ok v c cfgs u' \<and> set ps \<subseteq> {None}"
  using assms
proof (induction ds arbitrary: u en ps)
  case (Cons d ds)
  obtain p u1 en1 where s: "runtime_driver d ctx u en = (p, u1, en1)" by (metis prod_cases3)
  obtain qs where t: "turns runtime_driver ctx ds u1 en1 = (qs, u', en')" and ps: "ps = p # qs"
    using Cons.prems(1) by (auto simp: s split: prod.splits)
  show ?case using runtime_driver_ok(2)[OF s Cons.prems(2)] Cons.IH[OF t] ps by auto
qed simp

lemma panics_none: "set ps \<subseteq> {None} \<Longrightarrow> panics names ps = []"
  by (induction names ps rule: list_induct2') (auto simp: panics_def map_filter_Cons List.map_filter_simps)

lemma runtime_seam_ok:
  assumes "bus_seam runtime_driver bs ctx (ls, u) en = (p, (ls', u'), en')" "runtime_ok v c cfgs u"
  shows "runtime_ok v c cfgs u' \<and> ls' = ls"
proof -
  obtain ps u2 en2 where t: "turns runtime_driver ctx (map snd bs) u en = (ps, u2, en2)" by (metis prod_cases3)
  show ?thesis using assms(1) bus_turns[OF t, of ls] runtime_turns[OF t assms(2)] panics_none by auto
qed

section \<open>Construction\<close>

lemma check_one_transport: "checkTransport opts = Inr () \<longleftrightarrow> length (chosen_transports opts) = Suc 0"
  by (auto simp: checkTransport_def length_Suc_conv split: list.splits)

lemma options_check_Inr:
  "options_check opts = Inr u \<longleftrightarrow> op_AdaptorPath opts \<noteq> [] \<and> length (chosen_transports opts) = 1 \<and> 0 < op_Period opts"
  by (auto simp: options_check_def check_one_transport not_le)

lemma runtime_engine_new:
  assumes "0 < op_Period opts"
  shows "\<exists>en. New (Some voc) (runtime_engine_config opts) (Some (\<lambda>_. None)) clk = Inr en
    \<and> e_inbox en = [] \<and> e_cfg en = (runtime_engine_config opts)\<lparr>ec_maxErrors := defaultMaxErrors, ec_inboxSize := defaultInboxSize\<rparr>"
  using assms by (simp add: New_def runtime_engine_config_def Let_def guards.simps)

lemma new_endpoint_free: "new_endpoint su opts voc sn = Inr srv \<Longrightarrow> sv_engine srv = None"
  by (auto simp: new_endpoint_def NewStdio_def stream_New_def newServer_def Attach_def Let_def
      split: if_splits option.splits)

lemma runtime_Send:
  assumes "e_cfg en = (runtime_engine_config opts)\<lparr>ec_maxErrors := defaultMaxErrors, ec_inboxSize := defaultInboxSize\<rparr>"
    "e_inbox en = []"
  shows "Send c (OnEvent f en) = (True, (OnEvent f en)\<lparr>e_inbox := [c]\<rparr>)"
  using assms by (cases f) (simp_all add: Send_def OnEvent_def defaultInboxSize_def)

text \<open>With the options checked and the endpoint made, only an undeclared base action is refused.\<close>

lemma runtime_wire_cases:
  assumes "0 < op_Period opts" "sv_engine srv = None"
  shows "(op_BaseAction opts \<noteq> [] \<and> \<not> HasAction voc (op_BaseAction opts)
      \<and> runtime_wire su opts voc lane ps srv = Inl (BaseUndeclared (op_BaseAction opts) (v_origin voc), Some ps))
    \<or> ((op_BaseAction opts = [] \<or> HasAction voc (op_BaseAction opts))
      \<and> (\<exists>en0. New (Some voc) (runtime_engine_config opts) (Some (\<lambda>_. None)) (su_clock su) = Inr en0 \<and>
         (let en = snd (Send (SetSeamCmd (Some (runtime_bus ps))) (OnEvent (Some (\<lambda>_. None)) en0)) in
           e_inbox en = [SetSeamCmd (Some (runtime_bus ps))] \<and>
           runtime_wire su opts voc lane ps srv = Inr \<lparr>rt_Vocabulary = voc, rt_Engine = en,
             rt_State = \<lparr>rs_providers = ps, rs_lane = lane, rs_status = new_status,
               rs_server = srv\<lparr>sv_engine := Some en\<rparr>\<rparr>\<rparr>)))"
proof (cases "op_BaseAction opts \<noteq> [] \<and> \<not> HasAction voc (op_BaseAction opts)")
  case True
  then show ?thesis by (simp add: runtime_wire_def)
next
  case False
  obtain en0 :: runtime_engine where en0: "New (Some voc) (runtime_engine_config opts) (Some (\<lambda>_. None)) (su_clock su) = Inr en0"
    "e_inbox en0 = []"
    "e_cfg en0 = (runtime_engine_config opts)\<lparr>ec_maxErrors := defaultMaxErrors, ec_inboxSize := defaultInboxSize\<rparr>"
    using runtime_engine_new[OF assms(1)] by metis
  have base: "op_BaseAction opts = [] \<or> HasAction voc (op_BaseAction opts)" using False by blast
  let ?sent = "snd (Send (SetSeamCmd (Some (runtime_bus ps))) (OnEvent (Some (\<lambda>_. None)) en0))"
  have inbox: "e_inbox ?sent = [SetSeamCmd (Some (runtime_bus ps))]" by (simp add: runtime_Send[OF en0(3,2)])
  have wired: "runtime_wire su opts voc lane ps srv = Inr \<lparr>rt_Vocabulary = voc, rt_Engine = ?sent,
      rt_State = \<lparr>rs_providers = ps, rs_lane = lane, rs_status = new_status,
        rs_server = srv\<lparr>sv_engine := Some ?sent\<rparr>\<rparr>\<rparr>"
    unfolding runtime_wire_def if_not_P[OF False] en0(1)
    using assms(2) by (simp add: Let_def Attach_def runtime_Send[OF en0(3,2)])
  show ?thesis unfolding Let_def using base en0(1) inbox wired by blast
qed

section \<open>What New makes\<close>

lemma runtime_New_Inr:
  assumes "runtime_New su opts = Inr rt"
  obtains srv where "options_check opts = Inr ()"
    "compose_loadVocabulary su (op_AdaptorPath opts) = Inr (rt_Vocabulary rt)"
    "newRulesLane (su_rules su) (rt_Vocabulary rt) (Some sense_New) NewRegistry (options_layers opts) = Inr (rs_lane (rt_State rt))"
    "buildProviders (su_files su) (su_env su) (rt_Vocabulary rt)
       (map (\<lambda>(i, path). (path, su_nets su i)) (enumerate 0 (op_ProviderPaths opts))) [] = Inr (rs_providers (rt_State rt))"
    "new_endpoint su opts (rt_Vocabulary rt) sense_New = Inr srv"
    "runtime_wire su opts (rt_Vocabulary rt) (rs_lane (rt_State rt)) (rs_providers (rt_State rt)) srv = Inr rt"
proof -
  obtain voc where v: "options_check opts = Inr ()" "compose_loadVocabulary su (op_AdaptorPath opts) = Inr voc"
    using assms by (auto simp: runtime_New_def split: sum.splits)
  obtain lane where l: "newRulesLane (su_rules su) voc (Some sense_New) NewRegistry (options_layers opts) = Inr lane"
    using assms v by (auto simp: runtime_New_def split: sum.splits)
  obtain ps where p: "buildProviders (su_files su) (su_env su) voc
       (map (\<lambda>(i, path). (path, su_nets su i)) (enumerate 0 (op_ProviderPaths opts))) [] = Inr ps"
    using assms v l by (auto simp: runtime_New_def split: sum.splits)
  obtain srv where e: "new_endpoint su opts voc sense_New = Inr srv"
    using assms v l p by (auto simp: runtime_New_def split: sum.splits)
  have w: "runtime_wire su opts voc lane ps srv = Inr rt" using assms v l p e by (simp add: runtime_New_def)
  have "rt_Vocabulary rt = voc \<and> rs_lane (rt_State rt) = lane \<and> rs_providers (rt_State rt) = ps"
    using w by (auto simp: runtime_wire_def Let_def split: if_splits sum.splits prod.splits)
  then show ?thesis using that v l p e w by blast
qed

lemma runtime_wire_Inr:
  assumes "runtime_wire su opts voc lane ps srv = Inr rt" "0 < op_Period opts" "sv_engine srv = None"
  obtains en0 where "op_BaseAction opts = [] \<or> HasAction voc (op_BaseAction opts)"
    "New (Some voc) (runtime_engine_config opts) (Some (\<lambda>_. None)) (su_clock su) = Inr en0"
    "rt_Engine rt = snd (Send (SetSeamCmd (Some (runtime_bus ps))) (OnEvent (Some (\<lambda>_. None)) en0))"
    "e_inbox (rt_Engine rt) = [SetSeamCmd (Some (runtime_bus ps))]"
    "rt_State rt = \<lparr>rs_providers = ps, rs_lane = lane, rs_status = new_status, rs_server = srv\<lparr>sv_engine := Some (rt_Engine rt)\<rparr>\<rparr>"
proof -
  from runtime_wire_cases[OF assms(2,3), of voc su lane ps] assms(1) show ?thesis
    by (elim disjE conjE exE) (auto simp: Let_def intro: that)
qed

lemma loaded_vocabulary:
  assumes "compose_loadVocabulary su path = Inr v"
  shows "\<exists>isTOML c. su_adaptor su isTOML path = Some c \<and> parse c path = Inr v"
proof -
  obtain isTOML where t: "isTOMLConfig (pf_lower (su_files su)) path = Inr isTOML"
    using assms by (auto simp: compose_loadVocabulary_def)
  show ?thesis
  proof (cases "su_adaptor su isTOML path")
    case None
    then show ?thesis using assms t by (simp add: compose_loadVocabulary_def)
  next
    case (Some c)
    then show ?thesis using assms t by (cases "parse c path") (auto simp: compose_loadVocabulary_def)
  qed
qed

lemma built_all:
  assumes "buildProviders fs env voc pns [] = Inr ps"
  shows "length ps = length pns \<and> (\<forall>np \<in> set ps. built_ok voc np)"
  using buildProviders_ok[of "[]" voc pns fs env] by (simp add: assms)

lemma built_provider_ok: "built_ok voc (n, p) \<Longrightarrow> provider_ok p"
  by (simp add: built_ok_def provider_ok_def provider_fresh_def)

text \<open>A refusal: what is left of the providers, by what refused.\<close>

lemma runtime_New_Inl:
  assumes "runtime_New su opts = Inl (err, ps)"
  shows "err \<notin> {EngineRefused, SeamRefused} \<and> (\<exists>left. ps = Some left
     \<and> (if err \<in> range EndpointRefused \<or> (\<exists>base origin. err = BaseUndeclared base origin)
        then length left = length (op_ProviderPaths opts) \<and> (\<forall>np \<in> set left. \<not> pv_done (snd np))
        else \<forall>np \<in> set left. pv_done (snd np)))"
proof -
  consider (opts) "options_check opts = Inl err" "ps = Some []"
    | (voc) "compose_loadVocabulary su (op_AdaptorPath opts) = Inl err" "ps = Some []"
    | (rules) voc lerr where "newRulesLane (su_rules su) voc (Some sense_New) NewRegistry (options_layers opts) = Inl lerr"
        "err = RulesRefused lerr" "ps = Some []"
    | (providers) voc perr where "buildProviders (su_files su) (su_env su) voc
        (map (\<lambda>(i, path). (path, su_nets su i)) (enumerate 0 (op_ProviderPaths opts))) [] = Inl (perr, ps)" "err = ProvidersRefused perr"
    | (built) voc built where "options_check opts = Inr ()" "buildProviders (su_files su) (su_env su) voc
        (map (\<lambda>(i, path). (path, su_nets su i)) (enumerate 0 (op_ProviderPaths opts))) [] = Inr built"
        "(\<exists>cerr. err = EndpointRefused cerr \<and> ps = Some built) \<or>
         (\<exists>lane srv. new_endpoint su opts voc sense_New = Inr srv \<and> runtime_wire su opts voc lane built srv = Inl (err, ps))"
    using assms unfolding runtime_New_def by (auto split: sum.splits prod.splits) blast+
  then show ?thesis
  proof cases
    case opts
    then have "err \<in> {NoAdaptorGiven, NoTransport, PeriodNotPositive (op_Period opts)} \<union> range TwoTransports"
      by (auto simp: options_check_def checkTransport_def refuse_if_def split: list.splits if_splits)
    then show ?thesis using opts(2) by auto
  next
    case voc
    then have "err \<in> range AdaptorExtension \<union> range AdaptorUnreadable \<union> range AdaptorInvalid"
      by (auto simp: compose_loadVocabulary_def isTOMLConfig_def Let_def split: option.splits sum.splits if_splits)
    then show ?thesis using voc(2) by auto
  next
    case rules
    then show ?thesis by auto
  next
    case providers
    then show ?thesis using buildProviders_ok[of "[]" voc "map (\<lambda>(i, path). (path, su_nets su i)) (enumerate 0 (op_ProviderPaths opts))"
        "su_files su" "su_env su"] by auto
  next
    case built
    have open_all: "length built = length (op_ProviderPaths opts) \<and> (\<forall>np \<in> set built. \<not> pv_done (snd np))"
      using built_all[OF built(2)] by (auto simp: built_ok_def provider_fresh_def)
    show ?thesis
    proof (cases "\<exists>cerr. err = EndpointRefused cerr \<and> ps = Some built")
      case True
      then show ?thesis using open_all by auto
    next
      case False
      then obtain lane srv where w: "new_endpoint su opts voc sense_New = Inr srv" "runtime_wire su opts voc lane built srv = Inl (err, ps)"
        using built(3) by blast
      have "0 < op_Period opts" using built(1) by (simp add: options_check_Inr)
      from runtime_wire_cases[OF this new_endpoint_free[OF w(1)], of voc su lane built] w(2)
      have "err = BaseUndeclared (op_BaseAction opts) (v_origin voc)" "ps = Some built" by (auto simp: Let_def)
      then show ?thesis using open_all by auto
    qed
  qed
qed

text \<open>The runtime as it is made: well-formed riders, and an engine just built, given its seam.\<close>

lemma runtime_made:
  assumes "runtime_New su opts = Inr rt" "decoded_ok (su_rules su)"
    "\<forall>b p c. su_adaptor su b p = Some c \<longrightarrow> config_maps c"
  shows "voc_wf (rt_Vocabulary rt) \<and> (\<exists>c cfgs. runtime_ok (rt_Vocabulary rt) c cfgs (rt_State rt))
    \<and> reachable cosf (bus_seam runtime_driver) (rt_Vocabulary rt) (runtime_engine_config opts) (\<lambda>_. None) (su_clock su)
        (rt_Engine rt)"
proof -
  let ?v = "rt_Vocabulary rt" and ?u = "rt_State rt"
  obtain srv where n: "options_check opts = Inr ()" "compose_loadVocabulary su (op_AdaptorPath opts) = Inr ?v"
    "newRulesLane (su_rules su) ?v (Some sense_New) NewRegistry (options_layers opts) = Inr (rs_lane ?u)"
    "buildProviders (su_files su) (su_env su) ?v
       (map (\<lambda>(i, path). (path, su_nets su i)) (enumerate 0 (op_ProviderPaths opts))) [] = Inr (rs_providers ?u)"
    "new_endpoint su opts ?v sense_New = Inr srv"
    "runtime_wire su opts ?v (rs_lane ?u) (rs_providers ?u) srv = Inr rt"
    by (rule runtime_New_Inr[OF assms(1)])
  have "0 < op_Period opts" using n(1) by (simp add: options_check_Inr)
  then obtain en0 where en: "New (Some ?v) (runtime_engine_config opts) (Some (\<lambda>_. None)) (su_clock su) = Inr en0"
    "rt_Engine rt = snd (Send (SetSeamCmd (Some (runtime_bus (rs_providers ?u)))) (OnEvent (Some (\<lambda>_. None)) en0))"
    using runtime_wire_Inr[OF n(6) _ new_endpoint_free[OF n(5)]] by metis
  obtain isTOML c where c: "su_adaptor su isTOML (op_AdaptorPath opts) = Some c" "parse c (op_AdaptorPath opts) = Inr ?v"
    using loaded_vocabulary[OF n(2)] by metis
  have "voc_wf ?v" using parse_voc_wf[OF c(2)] assms(3) c(1) by blast
  obtain cfg where "lane_inv ?v (cfg, options_layers opts) (rs_lane ?u)"
    using newRulesLane_ok[OF n(3) assms(2) NewRegistry_ok] by blast
  moreover have "\<forall>np \<in> set (rs_providers ?u). built_ok ?v np"
    using built_all[OF n(4)] by blast
  ultimately have "runtime_ok ?v (cfg, options_layers opts) (map (\<lambda>(n, p). pv_cfg p) (rs_providers ?u)) ?u"
    using built_provider_ok by (fastforce simp: runtime_ok_def)
  moreover have "reachable cosf (bus_seam runtime_driver) ?v (runtime_engine_config opts) (\<lambda>_. None) (su_clock su) (rt_Engine rt)"
    unfolding en(2) by (rule reach_send[OF reach_consumer[OF reach_new[OF en(1)]]])
  ultimately show ?thesis using \<open>voc_wf ?v\<close> by blast
qed

section \<open>The life of a runtime\<close>

text \<open>
  What other goroutines do to the riders' state: a reload of what the files then hold, frames and calls on
  the rule lane, steps of a provider's worker, which share the lane's snapshot, and anything on the endpoint.
\<close>

inductive runtime_outside :: "provider_env \<Rightarrow> runtime_state \<Rightarrow> runtime_state \<Rightarrow> bool" for env where
  ro_reload: "decoded_ok decode \<Longrightarrow> Reload decode paths (rs_lane u) = (err, l) \<Longrightarrow> runtime_outside env u (u\<lparr>rs_lane := l\<rparr>)"
| ro_lane: "rl_eval (rs_lane u) = Some ev \<Longrightarrow> outside (ev, en :: runtime_engine) (ev', en') \<Longrightarrow>
     runtime_outside env u (u\<lparr>rs_lane := (rs_lane u)\<lparr>rl_eval := Some ev'\<rparr>\<rparr>)"
| ro_provider: "i < length (rs_providers u) \<Longrightarrow> rs_providers u ! i = (n, p) \<Longrightarrow> rl_eval (rs_lane u) = Some ev \<Longrightarrow>
     el_snapshot ev = Some sn \<Longrightarrow> provider_step env (p, sn) e (p', sn') \<Longrightarrow> runtime_outside env u
       (u\<lparr>rs_providers := (rs_providers u)[i := (n, p')],
          rs_lane := (rs_lane u)\<lparr>rl_eval := Some (ev\<lparr>el_snapshot := Some sn'\<rparr>)\<rparr>\<rparr>)"
| ro_server: "runtime_outside env u (u\<lparr>rs_server := srv\<rparr>)"

text \<open>Everything that can have happened to a runtime since it was made.\<close>

inductive runtime_life ::
  "(f64 \<Rightarrow> f64) \<Rightarrow> provider_env \<Rightarrow> runtime \<Rightarrow> runtime_state \<Rightarrow> runtime_engine \<Rightarrow> bool" for cosf env rt where
  life_start: "runtime_life cosf env rt (rt_State rt) (rt_Engine rt)"
| life_seed: "runtime_life cosf env rt u e \<Longrightarrow> seedBaseLayer e = Inr e' \<Longrightarrow> runtime_life cosf env rt u e'"
| life_send: "runtime_life cosf env rt u e \<Longrightarrow> runtime_life cosf env rt u (snd (Send c e))"
| life_outside: "runtime_life cosf env rt u e \<Longrightarrow> runtime_outside env u u' \<Longrightarrow> runtime_life cosf env rt u' e"
| life_tick: "runtime_life cosf env rt u e \<Longrightarrow>
     tickOnce cosf (bus_seam runtime_driver) arrivals (ls, u) e = Some (None, (ls', u'), e') \<Longrightarrow>
     runtime_life cosf env rt u' e'"

lemma work_handle_fields:
  assumes "work_handle env ans (p, sn) = Some (p', sn')"
  shows "pv_cfg p' = pv_cfg p \<and> pv_labelRefs p' = pv_labelRefs p \<and> pv_unconfigured p' = pv_unconfigured p
    \<and> pv_queue p' = pv_queue p"
  using assms by (auto simp: work_handle_def provider_handle_def streak_fields split: worker.splits sum.splits)

lemma provider_step_ok:
  assumes "provider_step env (p, sn) e (p', sn')" "provider_ok p"
  shows "provider_ok p' \<and> pv_cfg p' = pv_cfg p"
proof -
  have bound: "length (pv_queue p) \<le> nat (pc_QueueDepth (pv_cfg p))" using assms(2) by (simp add: provider_ok_def)
  from assms(1) show ?thesis
  proof (cases rule: provider_step.cases)
    case (step_tick ctx)
    then show ?thesis using provider_tick_ok[OF assms(2)] by simp
  next
    case (step_take req)
    then show ?thesis using work_take_fields[of p p' req] bound by (intro provider_ok_same[OF assms(2)]) auto
  next
    case (step_handle ans req)
    then show ?thesis using work_handle_fields[of env ans p sn p' sn'] bound
      by (intro provider_ok_same[OF assms(2)]) auto
  next
    case step_close
    then show ?thesis using bound
      by (intro provider_ok_same[OF assms(2)]) (auto simp: provider_Close_def split: if_splits)
  next
    case step_return
    then show ?thesis using bound
      by (intro provider_ok_same[OF assms(2)]) (auto simp: work_return_def split: if_splits)
  qed (use assms(2) in auto)
qed

lemma set_provider_ok:
  assumes "runtime_ok v c cfgs u" "rs_providers u ! i = (n, p)" "i < length (rs_providers u)"
    "provider_ok p' \<and> pv_cfg p' = pv_cfg p" "lane_inv v c' l"
  shows "runtime_ok v c' cfgs (u\<lparr>rs_providers := (rs_providers u)[i := (n, p')], rs_lane := l\<rparr>)"
proof -
  have "map (\<lambda>(n, p). pv_cfg p) ((rs_providers u)[i := (n, p')]) = map (\<lambda>(n, p). pv_cfg p) (rs_providers u)"
    using assms(2-4) by (simp add: map_update list_update_same_conv)
  moreover have "\<forall>(m, q) \<in> set ((rs_providers u)[i := (n, p')]). provider_ok q"
    using assms(1,4) by (auto simp: runtime_ok_def dest!: set_update_subset_insert[THEN subsetD])
  ultimately show ?thesis using assms(1,5) by (simp add: runtime_ok_def)
qed

lemma runtime_outside_ok:
  assumes "runtime_outside env u u'" "runtime_ok v c cfgs u"
  shows "\<exists>c'. runtime_ok v c' cfgs u'"
  using assms
proof cases
  case (ro_reload decode paths err l)
  have inv: "lane_inv v c (rs_lane u)" using assms(2) by (simp add: runtime_ok_def)
  have "\<exists>c'. lane_inv v c' l"
    using Reload_ok[OF inv ro_reload(2), of paths] ro_reload(3) inv by (auto simp: lane_inv_def)
  then show ?thesis using assms(2) ro_reload(1) by (auto simp: runtime_ok_def)
next
  case (ro_lane ev en ev' en')
  have "lane_inv v c (rs_lane u)" using assms(2) by (simp add: runtime_ok_def)
  from lane_outside_ok[OF this ro_lane(2,3)] have "runtime_ok v c cfgs u'"
    using assms(2) ro_lane(1) by (simp add: runtime_ok_def)
  then show ?thesis by blast
next
  case (ro_provider i n p ev sn e p' sn')
  have inv: "lane_inv v c (rs_lane u)" using assms(2) by (simp add: runtime_ok_def)
  have p: "provider_ok p" using assms(2) ro_provider(2,3) nth_mem[OF ro_provider(2)] by (auto simp: runtime_ok_def)
  have "lane_inv v c ((rs_lane u)\<lparr>rl_eval := Some (ev\<lparr>el_snapshot := Some sn'\<rparr>)\<rparr>)"
    using inv ro_provider(4) by (auto simp: lane_inv_def ev_inv_def)
  from set_provider_ok[OF assms(2) ro_provider(3,2) provider_step_ok[OF ro_provider(6) p] this]
  have "runtime_ok v c cfgs u'" using ro_provider(1) by simp
  then show ?thesis by blast
next
  case (ro_server srv)
  then have "runtime_ok v c cfgs u'" using assms(2) by (simp add: runtime_ok_def)
  then show ?thesis by blast
qed

lemma runtime_tick_ok:
  assumes "tickOnce cosf (bus_seam runtime_driver) arrivals (ls, u) e = Some (r, (ls', u'), e')" "runtime_ok v c cfgs u"
  shows "runtime_ok v c cfgs u' \<and> ls' = ls"
proof (rule tickOnce_state[OF assms(1)])
  assume "(ls', u') = (ls, u)"
  then show ?thesis using assms(2) by simp
next
  fix bs ctx en q en'
  assume "bus_seam runtime_driver bs ctx (ls, u) en = (q, (ls', u'), en')"
  from runtime_seam_ok[OF this assms(2)] show ?thesis .
qed

lemma runtime_life_ok:
  assumes "runtime_life cosf env rt u e" "runtime_ok v c cfgs (rt_State rt)"
    "reachable cosf (bus_seam runtime_driver) v ecfg snk clk (rt_Engine rt)"
  shows "(\<exists>c'. runtime_ok v c' cfgs u) \<and> reachable cosf (bus_seam runtime_driver) v ecfg snk clk e"
  using assms(1)
proof induction
  case life_start
  then show ?case using assms(2,3) by blast
next
  case (life_seed u e e')
  then show ?case using reach_seed by blast
next
  case (life_send u e c)
  then show ?case using reach_send by blast
next
  case (life_outside u e u')
  then show ?case using runtime_outside_ok by blast
next
  case (life_tick u e arrivals ls ls' u' e')
  obtain c' where "runtime_ok v c' cfgs u" using life_tick.IH by blast
  from runtime_tick_ok[OF life_tick.hyps(2) this] show ?case
    using reach_tick[OF _ life_tick.hyps(2)] life_tick.IH by blast
qed

end
