(* ===== verification/Migrate.thy ===== *)
theory Migrate
  imports GoText Rules_Load Senselog
begin

text \<open>
  The rule-file migration of the management verbs: the rewrite of the version line (\<open>migrate.go\<close>), the
  extraction of flags (\<open>flags.go\<close>), the replacement of a file by a verified one (\<open>atomicwrite.go\<close>) and the
  verb \<open>rules migrate\<close> over them (\<open>verbs_rules.go\<close>).

  A file system is a map from paths to contents. What the operating system makes of each step of a
  replacement is a record of outcomes; the TOML library is the parameter \<open>toml\<close>.
\<close>

section \<open>The version line\<close>

text \<open>The class \<open>\s\<close> of \<open>regexp\<close>.\<close>

definition re_space :: "char \<Rightarrow> bool" where
  "re_space c \<longleftrightarrow> c \<in> {CHR 0x09, CHR 0x0A, CHR 0x0C, CHR 0x0D, CHR '' ''}"

definition version_key :: string where
  "version_key = ''schema_version''"

text \<open>
  The match of \<open>schemaVersionLine\<close>, \<open>^(\s*schema_version\s*=\s*)1(\s*(#.*)?)$\<close>, with its two groups. No
  repetition of the expression can end elsewhere than where it first may, so there is nothing to backtrack.
\<close>

definition schemaVersionLine :: "string \<Rightarrow> (string \<times> string) option" where
  "schemaVersionLine line =
     (let a = takeWhile re_space line; r = dropWhile re_space line in
      if \<not> prefix version_key r then None
      else let r1 = drop (length version_key) r; b = takeWhile re_space r1; r2 = dropWhile re_space r1 in
      case r2 of
        [] \<Rightarrow> None
      | e # r3 \<Rightarrow>
          if e \<noteq> CHR ''='' then None
          else let c = takeWhile re_space r3 in
            case dropWhile re_space r3 of
              [] \<Rightarrow> None
            | d # r5 \<Rightarrow>
                if d \<noteq> CHR ''1'' then None
                else let tail = dropWhile re_space r5 in
                  if tail = [] \<or> (hd tail = CHR ''#'' \<and> newline \<notin> set tail)
                  then Some (a @ version_key @ b @ ''='' @ c, r5) else None)"

section \<open>The scanner\<close>

definition backslash :: char where "backslash = CHR 0x5C"
definition quote :: char where "quote = CHR 0x22"

text \<open>The text after a single-line string whose opening quote has been read.\<close>

fun skipBasicString :: "string \<Rightarrow> string" where
  "skipBasicString [] = []"
| "skipBasicString (c # cs) =
     (if c = backslash then (case cs of [] \<Rightarrow> [] | _ # ds \<Rightarrow> skipBasicString ds)
      else if c = quote then cs
      else skipBasicString cs)"

definition skipLiteralString :: "string \<Rightarrow> string" where
  "skipLiteralString s = tl (dropWhile (\<lambda>c. c \<noteq> CHR 0x27) s)"

declare skipBasicString.simps(2) [simp del]

lemma skipBasicString_length: "length (skipBasicString s) \<le> length s"
proof (induction s rule: skipBasicString.induct)
  case (2 c cs)
  consider "c = backslash" "cs = []" | d ds where "c = backslash" "cs = d # ds" | "c \<noteq> backslash" "c = quote"
    | "c \<noteq> backslash" "c \<noteq> quote" by (cases cs) auto
  then show ?case
  proof cases
    case 2
    then show ?thesis using "2.IH"(1)[of d ds] by (simp add: skipBasicString.simps(2))
  next
    case 4
    then show ?thesis using "2.IH"(2) by (simp add: skipBasicString.simps(2))
  qed (simp_all add: skipBasicString.simps(2))
qed simp

lemma skipLiteralString_length: "length (skipLiteralString s) \<le> length s"
  using length_dropWhile_le[of "\<lambda>c. c \<noteq> CHR 0x27" s] unfolding skipLiteralString_def by simp

definition basicDelim :: string where "basicDelim = [CHR 0x22, CHR 0x22, CHR 0x22]"
definition literalDelim :: string where "literalDelim = [CHR 0x27, CHR 0x27, CHR 0x27]"

record tomlScan =
  ts_inMulti :: bool
  ts_delim :: string
  ts_seenTable :: bool

lemma cut_shorter: "cut sep s = Some (a, b) \<Longrightarrow> length b \<le> length s"
  by (drule cut_split) simp

lemma scan_measure:
  "cut sep (c # cs) = Some (a, b) \<Longrightarrow> 2 * length b < 2 * Suc (length cs) + 1"
  "2 * length (skipBasicString cs) < 2 * Suc (length cs)"
  "2 * length (skipLiteralString cs) < 2 * Suc (length cs)"
  using cut_shorter[of sep "c # cs" a b] skipBasicString_length[of cs] skipLiteralString_length[of cs] by simp_all

text \<open>The loop of \<open>advance\<close> over what is left of the line.\<close>

function scan_line :: "string \<Rightarrow> tomlScan \<Rightarrow> tomlScan" where
  "scan_line [] s = s"
| "scan_line (c # cs) s =
     (if ts_inMulti s then
        (case cut (ts_delim s) (c # cs) of
           None \<Rightarrow> s
         | Some (_, rest) \<Rightarrow> scan_line rest (s\<lparr>ts_inMulti := False\<rparr>))
      else if c = CHR ''#'' then s
      else if prefix basicDelim (c # cs) then scan_line (drop 3 (c # cs)) (s\<lparr>ts_inMulti := True, ts_delim := basicDelim\<rparr>)
      else if prefix literalDelim (c # cs) then scan_line (drop 3 (c # cs)) (s\<lparr>ts_inMulti := True, ts_delim := literalDelim\<rparr>)
      else if c = CHR 0x22 then scan_line (skipBasicString cs) s
      else if c = CHR 0x27 then scan_line (skipLiteralString cs) s
      else scan_line cs s)"
  by pat_completeness auto

termination
  by (relation "measure (\<lambda>(l, s). 2 * length l + (if ts_inMulti s then 1 else 0))")
    (use scan_measure in \<open>auto simp del: cut.simps\<close>)

declare scan_line.simps(2) [simp del]

definition scan_advance :: "string \<Rightarrow> tomlScan \<Rightarrow> tomlScan" where
  "scan_advance line s =
     scan_line line
       (if \<not> ts_inMulti s \<and> prefix ''['' (dropWhile (\<lambda>c. c = CHR '' '' \<or> c = CHR 0x09) line)
        then s\<lparr>ts_seenTable := True\<rparr> else s)"

section \<open>The rewrite\<close>

definition splitLineTerminator :: "string \<Rightarrow> string \<times> string" where
  "splitLineTerminator line =
     (if line \<noteq> [] \<and> last line = newline then (butlast line, [newline]) else (line, []))"

record rewriter =
  rw_out :: string
  rw_scan :: tomlScan
  rw_rewritten :: bool

definition new_rewriter :: rewriter where
  "new_rewriter = \<lparr>rw_out = [], rw_scan = \<lparr>ts_inMulti = False, ts_delim = [], ts_seenTable = False\<rparr>, rw_rewritten = False\<rparr>"

definition rewrite_line :: "string \<Rightarrow> rewriter \<Rightarrow> rewriter" where
  "rewrite_line line w =
     (let (content, terminator) = splitLineTerminator line;
          eligible = (\<not> rw_rewritten w \<and> \<not> ts_inMulti (rw_scan w) \<and> \<not> ts_seenTable (rw_scan w));
          m = (if eligible then schemaVersionLine content else None)
      in \<lparr>rw_out = rw_out w @ (case m of None \<Rightarrow> content | Some (m1, m2) \<Rightarrow> m1 @ ''2'' @ m2) @ terminator,
          rw_scan = scan_advance content (rw_scan w),
          rw_rewritten = (rw_rewritten w \<or> m \<noteq> None)\<rparr>)"

definition rewriteSchemaVersion :: "string \<Rightarrow> string \<times> bool" where
  "rewriteSchemaVersion raw =
     (let w = fold rewrite_line (SplitAfter newline raw) new_rewriter in (rw_out w, rw_rewritten w))"

section \<open>What the rewrite does\<close>

definition line_content :: "string \<Rightarrow> string" where
  "line_content l = fst (splitLineTerminator l)"

text \<open>The scanner's state after some lines, and the lines that are the document's own version line.\<close>

definition scanned :: "string list \<Rightarrow> tomlScan" where
  "scanned ls = fold (\<lambda>l. scan_advance (line_content l)) ls \<lparr>ts_inMulti = False, ts_delim = [], ts_seenTable = False\<rparr>"

definition version_here :: "string list \<Rightarrow> string \<Rightarrow> bool" where
  "version_here before l \<longleftrightarrow> \<not> ts_inMulti (scanned before) \<and> \<not> ts_seenTable (scanned before)
     \<and> schemaVersionLine (line_content l) \<noteq> None"

definition version_lines :: "string list \<Rightarrow> nat list" where
  "version_lines ls = filter (\<lambda>n. version_here (take n ls) (ls ! n)) [0..<length ls]"

text \<open>The line with its 1 made a 2.\<close>

definition bumped :: "string \<Rightarrow> string" where
  "bumped l = (case schemaVersionLine (line_content l) of None \<Rightarrow> l
     | Some (m1, m2) \<Rightarrow> m1 @ ''2'' @ m2 @ snd (splitLineTerminator l))"

definition bump_first :: "string list \<Rightarrow> string list" where
  "bump_first ls = (case version_lines ls of [] \<Rightarrow> ls | n # _ \<Rightarrow> ls[n := bumped (ls ! n)])"

lemma splitLineTerminator_append: "fst (splitLineTerminator l) @ snd (splitLineTerminator l) = l"
  by (cases l rule: rev_cases) (simp_all add: splitLineTerminator_def)

lemma scanned_snoc: "scanned (ls @ [l]) = scan_advance (line_content l) (scanned ls)"
  by (simp add: scanned_def)

lemma version_lines_snoc:
  "version_lines (ls @ [l]) = version_lines ls @ (if version_here ls l then [length ls] else [])"
  unfolding version_lines_def by (auto simp: nth_append intro!: filter_cong)

lemma version_lines_bound: "n \<in> set (version_lines ls) \<Longrightarrow> n < length ls"
  by (simp add: version_lines_def)

lemma bump_first_snoc:
  "bump_first (ls @ [l]) = bump_first ls @ [if version_lines ls = [] \<and> version_here ls l then bumped l else l]"
proof (cases "version_lines ls")
  case (Cons n ns)
  then have "n < length ls" using version_lines_bound[of n ls] by simp
  then show ?thesis by (simp add: bump_first_def version_lines_snoc Cons nth_append list_update_append)
qed (simp add: bump_first_def version_lines_snoc)

lemma rewrite_fold:
  "fold rewrite_line ls new_rewriter =
     \<lparr>rw_out = concat (bump_first ls), rw_scan = scanned ls, rw_rewritten = (version_lines ls \<noteq> [])\<rparr>"
proof (induction ls rule: rev_induct)
  case Nil
  then show ?case by (simp add: new_rewriter_def bump_first_def version_lines_def scanned_def)
next
  case (snoc l ls)
  obtain c t where ct: "splitLineTerminator l = (c, t)" by (rule prod.exhaust)
  then have l: "l = c @ t" "line_content l = c" using splitLineTerminator_append[of l] by (simp_all add: line_content_def)
  have "rewrite_line l \<lparr>rw_out = concat (bump_first ls), rw_scan = scanned ls, rw_rewritten = (version_lines ls \<noteq> [])\<rparr> =
      \<lparr>rw_out = concat (bump_first (ls @ [l])), rw_scan = scanned (ls @ [l]), rw_rewritten = (version_lines (ls @ [l]) \<noteq> [])\<rparr>"
  proof (cases "version_lines ls = [] \<and> version_here ls l")
    case True
    then obtain m1 m2 where "schemaVersionLine c = Some (m1, m2)" by (auto simp: version_here_def l(2))
    then show ?thesis using True
      by (simp add: rewrite_line_def ct Let_def bump_first_snoc scanned_snoc version_lines_snoc bumped_def l(2) version_here_def)
  next
    case False
    then have "(if \<not> version_lines ls \<noteq> [] \<and> \<not> ts_inMulti (scanned ls) \<and> \<not> ts_seenTable (scanned ls)
        then schemaVersionLine c else None) = None"
      by (cases "schemaVersionLine c") (simp_all add: version_here_def l(2))
    moreover have "version_here ls l \<Longrightarrow> version_lines ls \<noteq> []" using False by blast
    ultimately show ?thesis using False
      by (auto simp: rewrite_line_def ct Let_def bump_first_snoc scanned_snoc version_lines_snoc l(2)) (simp_all add: l(1))
  qed
  then show ?case by (simp add: snoc)
qed

lemma rewrite_exact:
  "rewriteSchemaVersion raw =
     (concat (bump_first (SplitAfter newline raw)), version_lines (SplitAfter newline raw) \<noteq> [])"
  by (simp add: rewriteSchemaVersion_def rewrite_fold)

lemma schemaVersionLine_split:
  assumes "schemaVersionLine line = Some (m1, m2)"
  shows "line = m1 @ ''1'' @ m2"
proof -
  define r where "r = dropWhile re_space line"
  define r1 where "r1 = drop (length version_key) r"
  define r2 where "r2 = dropWhile re_space r1"
  have key: "prefix version_key r" using assms by (auto simp: schemaVersionLine_def Let_def r_def split: if_splits)
  then have r: "r = version_key @ r1" by (auto simp: r1_def prefix_def)
  obtain r3 where r3: "r2 = CHR ''='' # r3"
    using assms key by (auto simp: schemaVersionLine_def Let_def r_def[symmetric] r1_def[symmetric] r2_def[symmetric]
        split: list.splits if_splits)
  obtain r5 where r5: "dropWhile re_space r3 = CHR ''1'' # r5"
    and m: "m1 = takeWhile re_space line @ version_key @ takeWhile re_space r1 @ ''='' @ takeWhile re_space r3" "m2 = r5"
    using assms key by (auto simp: schemaVersionLine_def Let_def r_def[symmetric] r1_def[symmetric] r2_def[symmetric] r3
        split: list.splits if_splits)
  have "line = takeWhile re_space line @ r" "r1 = takeWhile re_space r1 @ r2" "r3 = takeWhile re_space r3 @ ''1'' @ r5"
    unfolding r_def r2_def using r5 takeWhile_dropWhile_id by (metis append_Cons append_Nil)+
  then show ?thesis using r r3 m by simp
qed

section \<open>Flags\<close>

definition flag_of :: "string \<Rightarrow> string" where
  "flag_of name = ''--'' @ name"

text \<open>Only the first occurrence counts; its value is the next argument, or what follows the equals sign.\<close>

fun string_flag_from :: "string \<Rightarrow> string list \<Rightarrow> string \<times> bool \<times> string list" where
  "string_flag_from name [] = ([], False, [])"
| "string_flag_from name (a # args) =
     (if a = flag_of name then (case args of [] \<Rightarrow> ([], True, []) | v # rest \<Rightarrow> (v, True, rest))
      else if prefix (flag_of name @ ''='') a then (drop (length (flag_of name @ ''='')) a, True, args)
      else let (v, found, rest) = string_flag_from name args in (v, found, a # rest))"

definition extractStringFlag :: "string list \<Rightarrow> string \<Rightarrow> string \<times> bool \<times> string list" where
  "extractStringFlag args name = string_flag_from name args"

definition extractBoolFlag :: "string list \<Rightarrow> string \<Rightarrow> bool \<times> string list" where
  "extractBoolFlag args name = (flag_of name \<in> set args, filter (\<lambda>a. a \<noteq> flag_of name) args)"

definition rejectUnknownFlags :: "string list \<Rightarrow> string option" where
  "rejectUnknownFlags args = List.find (prefix ''--'') args"

section \<open>Replacing a file\<close>

type_synonym files = "string \<rightharpoonup> string"

text \<open>
  The outcomes of the steps: the temporary file, what of the content was written before an error
  (\<open>None\<close> for all of it), the change of mode, the close, the rename, and the removal on the way out.
\<close>

record replace_io =
  io_temp :: "string option"
  io_short :: "string option"
  io_chmod :: bool
  io_close :: bool
  io_rename :: bool
  io_remove :: bool

datatype verify_error = VerifyLoad rules_error | DifferentRuleSet

datatype replace_error =
    TempFails | WriteFails | ChmodFails | CloseFails | VerificationError verify_error | RenameFails

text \<open>The states of the file system a reader could see, in order; the last is the one it ends in.\<close>

definition replaceFileAtomically ::
  "replace_io \<Rightarrow> string \<Rightarrow> string \<Rightarrow> (files \<Rightarrow> string \<Rightarrow> verify_error option) \<Rightarrow> files \<Rightarrow> replace_error option \<times> files list"
where
  "replaceFileAtomically io dest content verify fs =
     (case io_temp io of
        None \<Rightarrow> (Some TempFails, [fs])
      | Some tmp \<Rightarrow>
          (let fs0 = fs(tmp \<mapsto> []);
               fs1 = fs(tmp \<mapsto> (case io_short io of None \<Rightarrow> content | Some part \<Rightarrow> part));
               gone = (if io_remove io then fs1(tmp := None) else fs1);
               failed = (\<lambda>err. (Some err, [fs0, fs1, gone]))
           in if io_short io \<noteq> None then failed WriteFails
              else if \<not> io_chmod io then failed ChmodFails
              else if \<not> io_close io then failed CloseFails
              else case verify fs1 tmp of
                Some err \<Rightarrow> failed (VerificationError err)
              | None \<Rightarrow>
                  if \<not> io_rename io then failed RenameFails
                  else (None, [fs0, fs1, fs1(tmp := None, dest \<mapsto> content)])))"

section \<open>The verb\<close>

definition withoutSources :: "rule list \<Rightarrow> rule list" where
  "withoutSources rs = map (\<lambda>r. r\<lparr>r_Source := []\<rparr>) rs"

definition withoutPaths :: "event list \<Rightarrow> event list" where
  "withoutPaths es = map (\<lambda>e. e\<lparr>ev_Path := []\<rparr>) es"

definition comparableConfig :: "rules_config \<Rightarrow> rules_config" where
  "comparableConfig cfg = cfg\<lparr>rc_SchemaVersion := 0, rc_React := withoutSources (rc_React cfg),
     rc_Inhibit := withoutSources (rc_Inhibit cfg), rc_Events := withoutPaths (rc_Events cfg)\<rparr>"

definition sameRules :: "rules_config \<Rightarrow> rules_config \<Rightarrow> bool" where
  "sameRules before after \<longleftrightarrow> comparableConfig before = comparableConfig after"

text \<open>The default output, \<open><name>.v2<ext>\<close>.\<close>

definition defaultMigrateOutPath :: "string \<Rightarrow> string" where
  "defaultMigrateOutPath path =
     (let ext = path_Ext path in take (length path - length ext) path @ ''.v2'' @ ext)"

datatype migrate_error =
    UnknownFlag string
  | NotOneInput nat
  | NotResolved string
  | OutputIsInput string
  | OutputExists string
  | InputRefused rules_error
  | InputUnreadable string
  | NoVersionLine string
  | DifferentResult verify_error
  | NotReplaced replace_error

text \<open>\<open>absOf\<close> is \<open>filepath.Abs\<close>; files are kept by their absolute path.\<close>

definition decode_at ::
  "(string \<Rightarrow> string option) \<Rightarrow> (string \<Rightarrow> table option) \<Rightarrow> files \<Rightarrow> (string \<rightharpoonup> table)" where
  "decode_at absOf toml fs path = Option.bind (Option.bind (absOf path) fs) toml"

definition verifyMigrated ::
  "(string \<Rightarrow> string option) \<Rightarrow> (string \<Rightarrow> table option) \<Rightarrow> rules_config \<Rightarrow> files \<Rightarrow> string \<Rightarrow> verify_error option" where
  "verifyMigrated absOf toml before fs tmp =
     (case LoadFile (decode_at absOf toml fs) tmp None of
        Inl err \<Rightarrow> Some (VerifyLoad err)
      | Inr after \<Rightarrow> if sameRules before after then None else Some DifferentRuleSet)"

text \<open>What comes before the file is replaced: the input's path, the output's with its absolute one, the rules, the bytes.\<close>

definition migrate_plan ::
  "(string \<Rightarrow> string option) \<Rightarrow> (string \<Rightarrow> table option) \<Rightarrow> files \<Rightarrow> string list
     \<Rightarrow> (migrate_error, string \<times> string \<times> string \<times> rules_config \<times> string) result" where
  "migrate_plan absOf toml fs args =
     (let (outPath, _, rest0) = extractStringFlag args ''out'';
          (force, rest) = extractBoolFlag rest0 ''force'' in
      case rejectUnknownFlags rest of Some bad \<Rightarrow> Inl (UnknownFlag bad)
      | None \<Rightarrow>
      (case rest of
         [inPath] \<Rightarrow>
           (let dest = (if outPath = [] then defaultMigrateOutPath inPath else outPath) in
            case absOf inPath of None \<Rightarrow> Inl (NotResolved inPath)
            | Some inAbs \<Rightarrow>
            (case absOf dest of None \<Rightarrow> Inl (NotResolved dest)
             | Some destAbs \<Rightarrow>
                if inAbs = destAbs then Inl (OutputIsInput dest)
                else if fs destAbs \<noteq> None \<and> \<not> force then Inl (OutputExists dest)
                else case LoadFile (decode_at absOf toml fs) inPath None of
                  Inl err \<Rightarrow> Inl (InputRefused err)
                | Inr before \<Rightarrow>
                    (case fs inAbs of None \<Rightarrow> Inl (InputUnreadable inPath)
                     | Some raw \<Rightarrow>
                         (let (migrated, rewrote) = rewriteSchemaVersion raw in
                          if \<not> rewrote \<and> rc_SchemaVersion before \<noteq> SchemaVersion2 then Inl (NoVersionLine inPath)
                          else Inr (inPath, dest, destAbs, before, migrated)))))
       | _ \<Rightarrow> Inl (NotOneInput (length rest))))"

definition verbRulesMigrate ::
  "replace_io \<Rightarrow> (string \<Rightarrow> string option) \<Rightarrow> (string \<Rightarrow> table option) \<Rightarrow> files \<Rightarrow> string list
     \<Rightarrow> (migrate_error, string \<times> string) result \<times> files list" where
  "verbRulesMigrate io absOf toml fs args =
     (case migrate_plan absOf toml fs args of
        Inl err \<Rightarrow> (Inl err, [fs])
      | Inr (inPath, dest, destAbs, before, migrated) \<Rightarrow>
          (case replaceFileAtomically io destAbs migrated (verifyMigrated absOf toml before) fs of
             (Some (VerificationError cause), fss) \<Rightarrow> (Inl (DifferentResult cause), fss)
           | (Some err, fss) \<Rightarrow> (Inl (NotReplaced err), fss)
           | (None, fss) \<Rightarrow> (Inr (inPath, dest), fss)))"

section \<open>All or nothing\<close>

lemma replace_failed:
  assumes "replaceFileAtomically io dest content verify fs = (Some err, fss)" "fs' \<in> set fss"
    "\<And>tmp. io_temp io = Some tmp \<Longrightarrow> path \<noteq> tmp"
  shows "fs' path = fs path"
  using assms by (auto simp: replaceFileAtomically_def Let_def split: option.splits if_splits)

lemma replace_done:
  assumes "replaceFileAtomically io dest content verify fs = (None, fss)"
  obtains tmp where "io_temp io = Some tmp" "verify (fs(tmp \<mapsto> content)) tmp = None"
    "fss = [fs(tmp \<mapsto> []), fs(tmp \<mapsto> content), fs(tmp := None, dest \<mapsto> content)]"
  using assms by (auto simp: replaceFileAtomically_def Let_def split: option.splits if_splits)

lemma migrate_plan_Inr:
  assumes "migrate_plan absOf toml fs args = Inr (inPath, dest, destAbs, before, migrated)"
  obtains raw inAbs where "absOf inPath = Some inAbs" "fs inAbs = Some raw" "absOf dest = Some destAbs" "inAbs \<noteq> destAbs"
    "LoadFile (decode_at absOf toml fs) inPath None = Inr before" "migrated = fst (rewriteSchemaVersion raw)"
    "snd (rewriteSchemaVersion raw) \<or> rc_SchemaVersion before = SchemaVersion2"
  using assms by (auto simp: migrate_plan_def Let_def split: option.splits if_splits list.splits sum.splits prod.splits)

end
