(* ===== verification/Mgmt.thy ===== *)
theory Mgmt
  imports Migrate Compose "HOL-Library.Word" "HOL-Library.Signed_Division"
begin

text \<open>
  The management verbs, \<open>internal/mgmt\<close>: the folding of a noun group's verb (\<open>mgmt.go\<close>), the verbs over rule
  files and the live engine (\<open>verbs_rules.go\<close>, \<open>verbs_misc.go\<close>), the dispatch that answers every request, the
  front that answers a frame of the stream (\<open>compose/mgmtfront.go\<close>), and the size of a memory ceiling
  (\<open>verbs_bench.go\<close>).

  A result is its value, an error its exit code and a constructor: neither is rendered. The body of \<open>bench\<close>, what
  the machine says of itself, and the version strings are parameters.
\<close>

section \<open>Requests and their answers\<close>

definition ExitSuccess :: int where "ExitSuccess = 0"
definition ExitUser :: int where "ExitUser = 1"
definition ExitEnv :: int where "ExitEnv = 2"

datatype mgmt_message =
    UnknownCommand string "string list"
  | BadFlag string string
  | NeedsFiles string
  | AdaptorBadExtension string
  | AdaptorNotRead string
  | AdaptorNotValid adaptor_error
  | RulesMessage rules_error
  | MigrateMessage migrate_error
  | NoLiveEngine
  | ReloadMessage lane_error
  | DoctorProblems nat
  | BenchMessage string
  | FrameNotDecoded
  | FrameNamesNoVerb
  | Unexpected string

record cli_error =
  ce_Code :: int
  ce_Message :: mgmt_message

definition NewUserError :: "mgmt_message \<Rightarrow> cli_error" where
  "NewUserError m = \<lparr>ce_Code = ExitUser, ce_Message = m\<rparr>"

definition NewEnvError :: "mgmt_message \<Rightarrow> cli_error" where
  "NewEnvError m = \<lparr>ce_Code = ExitEnv, ce_Message = m\<rparr>"

datatype listing =
    RuleListing string string string
  | EventListing string string string

datatype mgmt_value =
    VersionValue string string int
  | WhoamiValue string string string
  | DoctorValue bool "bool option"
  | StatusValue runtime_status
  | BenchValue string
  | CheckValue nat nat nat int
  | ListValue "listing list"
  | MigrateValue string string int
  | ReloadValue "string list"

record request_m =
  mq_Verb :: string
  mq_Args :: "string list"
  mq_JSON :: bool

record response =
  mr_Code :: int
  mr_Result :: "cli_error + mgmt_value"

text \<open>
  What the verbs work on: the files, the live engine's rule lane and status where there is one. What they ask
  of their surroundings: the outcomes of a replacement, \<open>filepath.Abs\<close>, the decoders, \<open>%v\<close>, the build's
  strings, whether \<open>vendor\<close> is there, and the benchmark, with the text of a panic.
\<close>

record mgmt_world =
  mw_files :: files
  mw_lane :: "rules_lane option"
  mw_status :: "runtime_status option"

record mgmt_env =
  me_io :: replace_io
  me_abs :: "string \<Rightarrow> string option"
  me_toml :: "string \<Rightarrow> table option"
  me_adaptor :: "bool \<Rightarrow> string \<Rightarrow> config option"
  me_lower :: "string \<Rightarrow> string"
  me_show :: "any \<Rightarrow> string"
  me_Version :: string
  me_Revision :: string
  me_Module :: string
  me_vendor :: bool
  me_bench :: "string list \<Rightarrow> (string, (cli_error, mgmt_value) result) result"

section \<open>Verbs\<close>

definition nounGroups :: "string list" where
  "nounGroups = [''rules'']"

definition ParseVerb :: "string list \<Rightarrow> (string \<times> string list) option" where
  "ParseVerb tokens =
     (case tokens of
        [] \<Rightarrow> None
      | t # ts \<Rightarrow>
          if t \<in> set nounGroups
          then (case ts of [] \<Rightarrow> None | s # rest \<Rightarrow> Some (t @ ''.'' @ s, rest))
          else Some (t, ts))"

definition verb_keys :: "string list" where
  "verb_keys = [''version'', ''whoami'', ''doctor'', ''status'', ''bench'', ''rules.check'', ''rules.list'',
     ''rules.migrate'', ''rules.reload'']"

text \<open>\<open>strings.Replace(name, ".", " ", 1)\<close>, then sorted.\<close>

definition user_spelling :: "string \<Rightarrow> string" where
  "user_spelling name = (case cut ''.'' name of None \<Rightarrow> name | Some (a, b) \<Rightarrow> a @ '' '' @ b)"

definition VerbNames :: "string list" where
  "VerbNames = sort (map user_spelling verb_keys)"

definition mgmt_loadVocabulary :: "mgmt_env \<Rightarrow> string \<Rightarrow> (cli_error, vocabulary option) result" where
  "mgmt_loadVocabulary env path =
     (if path = [] then Inr None
      else let ext = strings_ToLower (me_lower env) (path_Ext path) in
        if ext = ''.json'' \<or> ext = ''.toml'' then
          (case me_adaptor env (ext = ''.toml'') path of
             None \<Rightarrow> Inl (NewUserError (AdaptorNotRead path))
           | Some cfg \<Rightarrow> (case parse cfg path of
               Inl err \<Rightarrow> Inl (NewUserError (AdaptorNotValid err)) | Inr voc \<Rightarrow> Inr (Some voc)))
        else Inl (NewUserError (AdaptorBadExtension path)))"

text \<open>What \<open>check\<close> and \<open>list\<close> do alike: the files as one layer, against the adaptor if one is named.\<close>

definition load_files :: "mgmt_env \<Rightarrow> files \<Rightarrow> string \<Rightarrow> string list \<Rightarrow> (cli_error, rules_config) result" where
  "load_files env fs verb args =
     (let (adaptorPath, _, paths) = extractStringFlag args ''adaptor'' in
      case rejectUnknownFlags paths of Some bad \<Rightarrow> Inl (NewUserError (BadFlag verb bad))
      | None \<Rightarrow>
          if paths = [] then Inl (NewUserError (NeedsFiles verb))
          else rbind (mgmt_loadVocabulary env adaptorPath) (\<lambda>vocab.
            case Load (decode_at (me_abs env) (me_toml env) fs) [paths] (map_option robot_vocabulary vocab) of
              Inl err \<Rightarrow> Inl (NewUserError (RulesMessage err))
            | Inr cfg \<Rightarrow> Inr cfg))"

definition verbRulesCheck :: "mgmt_env \<Rightarrow> files \<Rightarrow> string list \<Rightarrow> (cli_error, mgmt_value) result" where
  "verbRulesCheck env fs args = rbind (load_files env fs ''rules check'' args) (\<lambda>cfg.
     Inr (CheckValue (length (rc_React cfg)) (length (rc_Inhibit cfg)) (length (rc_Events cfg)) (rc_SchemaVersion cfg)))"

fun predicateSummary :: "(any \<Rightarrow> string) \<Rightarrow> predicate \<Rightarrow> string" where
  "predicateSummary show_any (Pred f p v all_of any_of) =
     (if all_of = [] \<and> any_of = []
      then (if v = ANil then f @ '' '' @ p else f @ '' '' @ p @ '' '' @ show_any v)
      else if any_of \<noteq> [] then ''any('' @ strings_Join (map (predicateSummary show_any) any_of) '', '' @ '')''
      else ''all('' @ strings_Join (map (predicateSummary show_any) all_of) '', '' @ '')'')"

definition verbRulesList :: "mgmt_env \<Rightarrow> files \<Rightarrow> string list \<Rightarrow> (cli_error, mgmt_value) result" where
  "verbRulesList env fs args = rbind (load_files env fs ''rules list'' args) (\<lambda>cfg.
     Inr (ListValue
       (map (\<lambda>r. RuleListing (r_ID r) (r_Kind r) (predicateSummary (me_show env) (r_When r))) (rc_React cfg @ rc_Inhibit cfg)
        @ map (\<lambda>e. EventListing (event_ID e) (ev_Priority e) (ev_Urgency e)) (rc_Events cfg))))"

text \<open>The exit code of each refusal of a migration.\<close>

fun migrate_code :: "migrate_error \<Rightarrow> int" where
  "migrate_code (InputUnreadable _) = ExitEnv"
| "migrate_code (NoVersionLine _) = ExitEnv"
| "migrate_code (DifferentResult _) = ExitEnv"
| "migrate_code (NotReplaced _) = ExitEnv"
| "migrate_code _ = ExitUser"

definition verb_migrate :: "mgmt_env \<Rightarrow> files \<Rightarrow> string list \<Rightarrow> (cli_error, mgmt_value) result \<times> files" where
  "verb_migrate env fs args =
     (case verbRulesMigrate (me_io env) (me_abs env) (me_toml env) fs args of
        (Inl err, fss) \<Rightarrow> (Inl \<lparr>ce_Code = migrate_code err, ce_Message = MigrateMessage err\<rparr>, last fss)
      | (Inr (inPath, dest), fss) \<Rightarrow> (Inr (MigrateValue inPath dest SchemaVersion2), last fss))"

definition verbRulesReload ::
  "mgmt_env \<Rightarrow> mgmt_world \<Rightarrow> string list \<Rightarrow> (cli_error, mgmt_value) result \<times> rules_lane option" where
  "verbRulesReload env w args =
     (case mw_lane w of None \<Rightarrow> (Inl (NewEnvError NoLiveEngine), None)
      | Some lane \<Rightarrow>
          if args = [] then (Inl (NewUserError (NeedsFiles ''rules reload'')), Some lane)
          else case Reload (decode_at (me_abs env) (me_toml env) (mw_files w)) args lane of
            (Some err, lane') \<Rightarrow> (Inl (NewUserError (ReloadMessage err)), Some lane')
          | (None, lane') \<Rightarrow> (Inr (ReloadValue args), Some lane'))"

definition verbVersion :: "mgmt_env \<Rightarrow> mgmt_value" where
  "verbVersion env = VersionValue (me_Version env) (me_Revision env) Version"

definition verbWhoami :: "mgmt_env \<Rightarrow> mgmt_value" where
  "verbWhoami env = WhoamiValue (me_Version env) (me_Revision env) (me_Module env)"

definition verbDoctor :: "mgmt_env \<Rightarrow> files \<Rightarrow> string list \<Rightarrow> (cli_error, mgmt_value) result" where
  "verbDoctor env fs args =
     (let (rulesPath, _, rest) = extractStringFlag args ''rules'' in
      case rejectUnknownFlags rest of Some bad \<Rightarrow> Inl (NewUserError (BadFlag ''doctor'' bad))
      | None \<Rightarrow>
          (let loads = (if rulesPath = [] then None else
                 Some (case LoadFile (decode_at (me_abs env) (me_toml env) fs) rulesPath None of Inl _ \<Rightarrow> False | Inr _ \<Rightarrow> True));
               failures = (if me_vendor env then 0 else 1) + (if loads = Some False then 1 else 0)
           in if 0 < failures then Inl (NewEnvError (DoctorProblems failures))
              else Inr (DoctorValue (me_vendor env) loads)))"

definition verbStatus :: "mgmt_world \<Rightarrow> (cli_error, mgmt_value) result" where
  "verbStatus w = (case mw_status w of None \<Rightarrow> Inl (NewEnvError NoLiveEngine) | Some st \<Rightarrow> Inr (StatusValue st))"

section \<open>Dispatch\<close>

text \<open>\<open>clifmt.Guard\<close>: a panic of a verb's body is an environment error.\<close>

definition clifmt_Guard :: "(string, (cli_error, mgmt_value) result) result \<Rightarrow> (cli_error, mgmt_value) result" where
  "clifmt_Guard body = (case body of Inl panic \<Rightarrow> Inl (NewEnvError (Unexpected panic)) | Inr r \<Rightarrow> r)"

text \<open>The body of a verb, its panic first, with the world it leaves; \<open>None\<close> for no such verb.\<close>

definition run_verb ::
  "mgmt_env \<Rightarrow> string \<Rightarrow> string list \<Rightarrow> mgmt_world
     \<Rightarrow> ((string, (cli_error, mgmt_value) result) result \<times> mgmt_world) option" where
  "run_verb env verb args w =
     (if verb = ''version'' then Some (Inr (Inr (verbVersion env)), w)
      else if verb = ''whoami'' then Some (Inr (Inr (verbWhoami env)), w)
      else if verb = ''doctor'' then Some (Inr (verbDoctor env (mw_files w) args), w)
      else if verb = ''status'' then Some (Inr (verbStatus w), w)
      else if verb = ''bench'' then Some (me_bench env args, w)
      else if verb = ''rules.check'' then Some (Inr (verbRulesCheck env (mw_files w) args), w)
      else if verb = ''rules.list'' then Some (Inr (verbRulesList env (mw_files w) args), w)
      else if verb = ''rules.migrate'' then
        (let (r, fs) = verb_migrate env (mw_files w) args in Some (Inr r, w\<lparr>mw_files := fs\<rparr>))
      else if verb = ''rules.reload'' then
        (let (r, lane) = verbRulesReload env w args in Some (Inr r, w\<lparr>mw_lane := lane\<rparr>))
      else None)"

definition renderError :: "cli_error \<Rightarrow> response" where
  "renderError err = \<lparr>mr_Code = ce_Code err, mr_Result = Inl err\<rparr>"

definition renderResult :: "mgmt_value \<Rightarrow> response" where
  "renderResult v = \<lparr>mr_Code = ExitSuccess, mr_Result = Inr v\<rparr>"

definition mgmt_Handle :: "mgmt_env \<Rightarrow> request_m \<Rightarrow> mgmt_world \<Rightarrow> response \<times> mgmt_world" where
  "mgmt_Handle env req w =
     (case run_verb env (mq_Verb req) (mq_Args req) w of
        None \<Rightarrow> (renderError (NewUserError (UnknownCommand (mq_Verb req) VerbNames)), w)
      | Some (body, w') \<Rightarrow>
          (case clifmt_Guard body of Inl err \<Rightarrow> (renderError err, w') | Inr v \<Rightarrow> (renderResult v, w')))"

section \<open>The front of the stream\<close>

record mgmt_call =
  ml_Verb :: string
  ml_Args :: "string list"
  ml_JSON :: bool

definition mgmt_call_fields :: "mgmt_call struct" where
  "mgmt_call_fields =
     [(''verb'', str_field (\<lambda>s c. c\<lparr>ml_Verb := s\<rparr>)), (''args'', strs_field (\<lambda>s c. c\<lparr>ml_Args := s\<rparr>)),
      (''json'', bool_field (\<lambda>b c. c\<lparr>ml_JSON := b\<rparr>))]"

record mgmt_reply =
  my_Code :: int
  my_Verb :: string
  my_Result :: "cli_error + mgmt_value"

definition HandleJSON :: "json_reader \<Rightarrow> mgmt_env \<Rightarrow> bytes \<Rightarrow> mgmt_world \<Rightarrow> mgmt_reply \<times> mgmt_world" where
  "HandleJSON parse_json env raw w =
     (case Option.bind (parse_json raw) (\<lambda>v. decodeStruct False mgmt_call_fields v \<lparr>ml_Verb = [], ml_Args = [], ml_JSON = False\<rparr>) of
        None \<Rightarrow> (\<lparr>my_Code = ExitUser, my_Verb = [], my_Result = Inl (NewUserError FrameNotDecoded)\<rparr>, w)
      | Some call \<Rightarrow>
          (case ParseVerb (strings_Fields (ml_Verb call) @ ml_Args call) of
             None \<Rightarrow> (\<lparr>my_Code = ExitUser, my_Verb = ml_Verb call, my_Result = Inl (NewUserError FrameNamesNoVerb)\<rparr>, w)
           | Some (verb, args) \<Rightarrow>
               (let (resp, w') = mgmt_Handle env \<lparr>mq_Verb = verb, mq_Args = args, mq_JSON = ml_JSON call\<rparr> w
                in (\<lparr>my_Code = mr_Code resp, my_Verb = ml_Verb call, my_Result = mr_Result resp\<rparr>, w'))))"

section \<open>Sizes\<close>

text \<open>\<open>strconv.ParseInt(s, 10, 64)\<close>: an optional sign and digits, in range.\<close>

definition is_digit :: "char \<Rightarrow> bool" where
  "is_digit c \<longleftrightarrow> 48 \<le> byte_of c \<and> byte_of c \<le> 57"

definition ParseInt64 :: "string \<Rightarrow> int option" where
  "ParseInt64 s =
     (let neg = prefix ''-'' s; ds = (if neg \<or> prefix ''+'' s then tl s else s);
          n = (if neg then - 1 else 1) * int (read_decimal 0 ds)
      in if ds = [] \<or> \<not> list_all is_digit ds \<or> \<not> in_duration n then None else Some n)"

definition upper_char :: "char \<Rightarrow> char" where
  "upper_char c = (let b = byte_of c in if 97 \<le> b \<and> b \<le> 122 then char_of (b - 32) else c)"

text \<open>\<open>strings.TrimSpace\<close> of a text in ASCII.\<close>

definition TrimASCII :: "string \<Rightarrow> string" where
  "TrimASCII s = (let sp = (\<lambda>c. is_space (byte_of c)) in rev (dropWhile sp (rev (dropWhile sp s))))"

text \<open>The suffix of a size: how many characters it has and what it multiplies by.\<close>

definition size_unit :: "string \<Rightarrow> nat \<times> int" where
  "size_unit upper =
     (if suffix ''GB'' upper then (2, 1024 * 1024 * 1024)
      else if suffix ''MB'' upper then (2, 1024 * 1024)
      else if suffix ''KB'' upper then (2, 1024)
      else if suffix ''B'' upper then (1, 1)
      else (0, 1))"

datatype size_error = NotASize | NotPositive

text \<open>The product is one of \<open>int64\<close>: it wraps.\<close>

definition parseSize :: "string \<Rightarrow> (size_error, int) result" where
  "parseSize s0 =
     (let s = TrimASCII s0; (k, multiplier) = size_unit (map upper_char s);
          digits = TrimASCII (take (length s - k) s)
      in case ParseInt64 digits of
           None \<Rightarrow> Inl NotASize
         | Some n \<Rightarrow> if n \<le> 0 then Inl NotPositive
                     else Inr (sint (word_of_int n * word_of_int multiplier :: 64 word)))"

end
