(* ===== verification/Compose_Properties.thy ===== *)
theory Compose_Properties
  imports Compose_Runs Mgmt
begin

text \<open>
  The properties of the composed runtime: what its construction makes of the files on disk and what it
  refuses, that it then streams for as long as it lives, the reload of rules, the decision providers, the
  migration of rule files and the management verbs. The witnesses start the toy robot with its two rule
  layers, one provider and the pipes of a parent process.
\<close>

section \<open>A runtime to run on\<close>

definition mood_doc :: providerDoc where
  "mood_doc = zero_doc\<lparr>pd_Name := ''mood'', pd_Kind := KindCompletion, pd_BaseURL := ''http://gateway'',
     pd_Inputs := [''light_level''], pd_Output := ''mood''\<rparr>"

definition mood_config :: provider_config where
  "mood_config = \<lparr>pc_Name = ''mood'', pc_Kind = KindCompletion, pc_BaseURL = ''http://gateway'', pc_Model = [],
     pc_APIKeyEnv = [], pc_Inputs = [''light_level''], pc_Output = ''mood'', pc_Labels = [], pc_Timeout = DefaultTimeout,
     pc_QueueDepth = DefaultQueueDepth, pc_Cadence = DefaultCadence, pc_SystemPrompt = DefaultSystemPromt,
     pc_MaxTokens = DefaultMaxTokens\<rparr>"

definition mood_provider :: provider where
  "mood_provider = \<lparr>pv_cfg = mood_config, pv_hasView = True, pv_apiKey = [], pv_unconfigured = False,
     pv_labelRefs = [], pv_queue = [], pv_done = False, pv_worker = Waiting, pv_tickCount = 0,
     pv_tickStreak = NewStreak, pv_workerStreak = NewStreak, pv_requests = 0, pv_results = 0, pv_drops = [], pv_log = []\<rparr>"

definition mood_env :: provider_env where
  "mood_env = \<lparr>pe_Getenv = (\<lambda>_. []), pe_show = (\<lambda>_. ''1''), pe_lower = (\<lambda>s. s),
     pe_json = (\<lambda>raw. Some (JObj [(''choices'', JArr [JObj [(''message'', JObj [(''content'', JStr ''Happy now'')])]])]))\<rparr>"

definition toy_surroundings :: surroundings where
  "toy_surroundings =
     \<lparr>su_adaptor = (\<lambda>isTOML path. if path = ''adaptor.toml'' then Some toy_config else None),
      su_rules = toy_decode,
      su_files = \<lparr>pf_read = (\<lambda>path. if path = ''mood.toml'' then Some [] else None), pf_toml = (\<lambda>_. Some (mood_doc, [])),
                  pf_json = (\<lambda>_. None), pf_lower = (\<lambda>s. s), pf_oob = (\<lambda>_. 0)\<rparr>,
      su_env = mood_env, su_nets = (\<lambda>_ _ _. NoResponse),
      su_os = \<lparr>os_stat = (\<lambda>_. StatDir), os_lstat = (\<lambda>_. LstatNotExist), os_remove = (\<lambda>_. True), os_listen = (\<lambda>_ _. None),
               os_chmod = (\<lambda>_. True), os_join = (\<lambda>a b. a @ ''/'' @ b)\<rparr>,
      su_clock = toy_clock, su_version = ''v1'', su_stdin = [], su_stdout = (\<lambda>_. None)\<rparr>"

definition toy_options :: options where
  "toy_options = \<lparr>op_AdaptorPath = ''adaptor.toml'', op_RuleLayers = [''base.toml'', ''user.toml''],
     op_ProviderPaths = [''mood.toml''], op_SocketDir = [], op_Stdio = True, op_TCPAddr = [],
     op_Period = compose_DefaultPeriod, op_Heartbeat = 0, op_BaseAction = []\<rparr>"

definition toy_runtime :: runtime where
  "toy_runtime = projr (runtime_New toy_surroundings toy_options)"

lemma toy_ext: "path_Ext ''adaptor.toml'' = ''.toml''" "path_Ext ''mood.toml'' = ''.toml''"
  by (code_simp)+

lemma toy_lower: "strings_ToLower (\<lambda>s. s) ''.toml'' = ''.toml''"
  by code_simp

lemma toy_compose_voc: "compose_loadVocabulary toy_surroundings ''adaptor.toml'' = Inr toy_voc"
  by (simp add: compose_loadVocabulary_def isTOMLConfig_def toy_surroundings_def toy_ext toy_lower toy_parse)

lemma toy_mood_fields: "HasField toy_voc ''mood''"
proof -
  have v: "toy_voc = \<lparr>v_origin = ''adaptor.toml'', v_channels = toy_channels, v_senses = toy_senses,
      v_actions = map (compiled_action toy_channels) [toy_hum, toy_retreat, toy_wave],
      channelByName = index_of ch_name toy_channels, senseByName = index_of s_name toy_senses,
      actionByName = index_of a_name (map (compiled_action toy_channels) [toy_hum, toy_retreat, toy_wave])\<rparr>"
    using toy_parse by (simp add: parse_Inr Let_def toy_config_def)
  show ?thesis unfolding v by (simp add: HasField_def index_of_def toy_senses_def)
qed

lemma toy_mood:
  "loadProviderConfig (su_files toy_surroundings) ''mood.toml'' =
     Inr (mood_config\<lparr>pc_Timeout := 0, pc_QueueDepth := 0, pc_Cadence := 0, pc_SystemPrompt := [], pc_MaxTokens := 0\<rparr>)"
  by (simp add: loadProviderConfig_def toy_surroundings_def isTOMLProviderConfig_def toy_ext toy_lower decodeTOMLDoc_def
      mood_doc_def zero_doc_def checkBounds_def guards.simps toConfig_def mood_config_def)

abbreviation written_config :: provider_config where
  "written_config \<equiv> mood_config\<lparr>pc_Timeout := 0, pc_QueueDepth := 0, pc_Cadence := 0, pc_SystemPrompt := [], pc_MaxTokens := 0\<rparr>"

lemma toy_validated: "provider_validate written_config = Inr mood_config"
  unfolding provider_validate_Inr by (simp add: mood_config_def)

lemma toy_provider_new:
  "provider_New env nets written_config True = Inr (mood_provider\<lparr>pv_hasView := False\<rparr>)"
  by (simp add: provider_New_def toy_validated Let_def mood_provider_def) (simp add: mood_config_def)

lemma toy_built:
  "build_one (su_files toy_surroundings) (su_env toy_surroundings) toy_voc (''mood.toml'', nets) = Inr (''mood'', mood_provider)"
proof -
  have "checkProviderVocabulary written_config toy_voc = Inr ()"
    by (simp add: checkProviderVocabulary_def mood_config_def toy_names toy_mood_fields)
  then show ?thesis by (simp add: build_one_def toy_mood toy_provider_new SetView_def) (simp add: mood_config_def mood_provider_def)
qed

lemma toy_provider: "refs_ok mood_provider" "provider_fresh mood_provider"
  by (simp_all add: refs_ok_def config_wf_def provider_fresh_def mood_provider_def mood_config_def DefaultTimeout_def
      DefaultQueueDepth_def DefaultCadence_def DefaultSystemPromt_def DefaultMaxTokens_def)

lemma toy_lane_built: "\<exists>l. newRulesLane toy_decode toy_voc (Some sense_New) NewRegistry [[''base.toml''], [''user.toml'']] = Inr l"
proof -
  let ?l = "\<lparr>rl_voc = toy_voc, rl_snapshot = Some sense_New, rl_registry = NewRegistry, rl_log = [], rl_eval = None, rl_layers = []\<rparr>"
  have "loadRules toy_decode [[''base.toml''], [''user.toml'']] (rl_voc ?l) = Inr toy_config_loaded"
    by (simp add: loadRules_def toy_load)
  from lane_build_total[OF this toy_decoded_ok] show ?thesis by (auto simp: newRulesLane_def Let_def)
qed

lemma toy_runtime_new: "runtime_New toy_surroundings toy_options = Inr toy_runtime"
proof -
  obtain l where l: "newRulesLane (su_rules toy_surroundings) toy_voc (Some sense_New) NewRegistry (options_layers toy_options) = Inr l"
    using toy_lane_built by (auto simp: toy_surroundings_def options_layers_def toy_options_def)
  have o: "options_check toy_options = Inr ()" "op_AdaptorPath toy_options = ''adaptor.toml''" "op_BaseAction toy_options = []"
    by (simp_all add: options_check_Inr toy_options_def chosen_transports_def compose_DefaultPeriod_def)
  have p: "buildProviders (su_files toy_surroundings) (su_env toy_surroundings) toy_voc
      (map (\<lambda>(i, path). (path, su_nets toy_surroundings i)) (enumerate 0 (op_ProviderPaths toy_options))) [] =
      Inr [(''mood'', mood_provider)]"
    by (simp add: toy_options_def toy_built)
  obtain srv where e: "new_endpoint toy_surroundings toy_options toy_voc sense_New = Inr srv"
    by (simp add: new_endpoint_def toy_options_def NewStdio_def newServer_def normalize_def streamConfig_def Let_def)
  have "0 < op_Period toy_options" by (simp add: toy_options_def compose_DefaultPeriod_def)
  from runtime_wire_cases[OF this new_endpoint_free[OF e], of toy_voc toy_surroundings l "[(''mood'', mood_provider)]"]
  obtain rt where "runtime_wire toy_surroundings toy_options toy_voc l [(''mood'', mood_provider)] srv = Inr rt"
    using o(3) by (auto simp: Let_def)
  then have "runtime_New toy_surroundings toy_options = Inr rt"
    using o toy_compose_voc l p e by (simp add: runtime_New_def)
  then show ?thesis by (simp add: toy_runtime_def)
qed

lemma toy_runtime_fields: "rt_Vocabulary toy_runtime = toy_voc" "rs_providers (rt_State toy_runtime) = [(''mood'', mood_provider)]"
proof -
  obtain srv where n: "compose_loadVocabulary toy_surroundings (op_AdaptorPath toy_options) = Inr (rt_Vocabulary toy_runtime)"
    "buildProviders (su_files toy_surroundings) (su_env toy_surroundings) (rt_Vocabulary toy_runtime)
       (map (\<lambda>(i, path). (path, su_nets toy_surroundings i)) (enumerate 0 (op_ProviderPaths toy_options))) [] =
       Inr (rs_providers (rt_State toy_runtime))"
    by (rule runtime_New_Inr[OF toy_runtime_new])
  show v: "rt_Vocabulary toy_runtime = toy_voc" using n(1) toy_compose_voc by (simp add: toy_options_def)
  show "rs_providers (rt_State toy_runtime) = [(''mood'', mood_provider)]"
    using n(2) unfolding v by (simp add: toy_options_def toy_built)
qed

lemma toy_bus_of_runtime:
  "runtime_bus [(''mood'', mood_provider)] = [(''provider:mood'', ProviderRider 0), (''rule'', LaneRider),
     (''status'', StatusRider), (''heartbeat'', HeartbeatRider)]"
  by (simp add: runtime_bus_def bus_Add_def NewBus_def providerRider_def KindHeartbeat_def StageRule_def)

text \<open>The same start with a base action the robot does not have.\<close>

lemma toy_based_refused:
  "runtime_New toy_surroundings (toy_options\<lparr>op_BaseAction := ''fly''\<rparr>) =
     Inl (BaseUndeclared ''fly'' ''adaptor.toml'', Some [(''mood'', mood_provider)])"
proof -
  let ?opts = "toy_options\<lparr>op_BaseAction := ''fly''\<rparr>"
  obtain srv where n: "compose_loadVocabulary toy_surroundings (op_AdaptorPath toy_options) = Inr toy_voc"
    "newRulesLane (su_rules toy_surroundings) toy_voc (Some sense_New) NewRegistry (options_layers toy_options) =
      Inr (rs_lane (rt_State toy_runtime))"
    "new_endpoint toy_surroundings toy_options toy_voc sense_New = Inr srv"
    using runtime_New_Inr[OF toy_runtime_new] unfolding toy_runtime_fields by metis
  have o: "options_check ?opts = Inr ()" "op_AdaptorPath ?opts = op_AdaptorPath toy_options" "options_layers ?opts = options_layers toy_options"
    "new_endpoint toy_surroundings ?opts toy_voc sense_New = new_endpoint toy_surroundings toy_options toy_voc sense_New"
    by (simp_all add: options_check_Inr toy_options_def chosen_transports_def compose_DefaultPeriod_def options_layers_def
        new_endpoint_def streamConfig_def)
  have p: "buildProviders (su_files toy_surroundings) (su_env toy_surroundings) toy_voc
      (map (\<lambda>(i, path). (path, su_nets toy_surroundings i)) (enumerate 0 (op_ProviderPaths ?opts))) [] =
      Inr [(''mood'', mood_provider)]"
    by (simp add: toy_options_def toy_built)
  have "\<not> HasAction toy_voc ''fly''" "v_origin toy_voc = ''adaptor.toml''"
    using toy_voc_wf by (simp_all add: HasAction_iff toy_voc_fields toy_hum_def toy_retreat_def toy_wave_def compiled_action_def)
  then show ?thesis using o n p by (simp add: runtime_New_def runtime_wire_def)
qed

lemma toy_surroundings_ok: "decoded_ok (su_rules toy_surroundings)"
  "\<forall>b p c. su_adaptor toy_surroundings b p = Some c \<longrightarrow> config_maps c"
  using toy_decoded_ok toy_config_ok(2) by (simp_all add: toy_surroundings_def)

section \<open>The runtime\<close>

text \<open>
  C1: The composed system, from the files on disk to the robot: with the adaptor, the rules and the providers the
  runtime was started on, after any sequence of ticks, commands, reloads, readings, answers of gateways and
  steps of the endpoint, a tick returns, no rider panics it, no write ends the run, and exactly one more pose,
  complete for the robot, goes out; the runtime then is one it can go on from.
\<close>

theorem runtime_streams:
  assumes "runtime_New su opts = Inr rt" "decoded_ok (su_rules su)"
    "\<forall>b p c. su_adaptor su b p = Some c \<longrightarrow> config_maps c" "runtime_life cosf env rt u e"
  shows "\<exists>u' e' p. tickOnce cosf (bus_seam runtime_driver) arrivals (ls, u) e = Some (None, (ls, u'), e')
    \<and> e_written e' = e_written e @ [p] \<and> pose_complete (rt_Vocabulary rt) p
    \<and> e_voc e' = rt_Vocabulary rt \<and> runtime_life cosf env rt u' e'"
proof -
  let ?v = "rt_Vocabulary rt"
  obtain c0 cfgs where m: "voc_wf ?v" "runtime_ok ?v c0 cfgs (rt_State rt)"
    "reachable cosf (bus_seam runtime_driver) ?v (runtime_engine_config opts) (\<lambda>_. None) (su_clock su) (rt_Engine rt)"
    using runtime_made[OF assms(1-3)] by blast
  obtain c where l: "runtime_ok ?v c cfgs u"
    "reachable cosf (bus_seam runtime_driver) ?v (runtime_engine_config opts) (\<lambda>_. None) (su_clock su) e"
    using runtime_life_ok[OF assms(4) m(2,3)] by blast
  have inv: "loop_inv e" "going e" "e_voc e = ?v" "e_sink e = (\<lambda>_. None)"
    using runtime.composed.reachable_inv[OF l(2) m(1)] by auto
  obtain r s' e' where t: "tickOnce cosf (bus_seam runtime_driver) arrivals (ls, u) e = Some (r, s', e')" "loop_inv e'"
    "fixed_part e' = fixed_part e" "\<exists>p. e_written e' = e_written e @ [p]" "r \<noteq> None \<Longrightarrow> r = e_sink e (length (e_written e))"
    using runtime.composed.tick_step[OF inv(1,2)] by metis
  have r: "r = None" using t(5) inv(4) by (cases r) auto
  obtain ls' u' where s': "s' = (ls', u')" by (rule prod.exhaust)
  have ls: "ls' = ls" using runtime_tick_ok[OF t(1)[unfolded s'] l(1)] by simp
  obtain p where p: "e_written e' = e_written e @ [p]" using t(4) by blast
  have "pose_complete ?v p" "e_voc e' = ?v"
    using t(2,3) inv(3) p by (auto simp: loop_inv_def stream_ok_def fixed_part_def)
  moreover have "runtime_life cosf env rt u' e'"
    using life_tick[OF assms(4)] t(1) r s' ls by blast
  ultimately show ?thesis using t(1) r s' ls p by blast
qed

theorem runtime_streams_witness:
  "\<exists>u1 e1 u2 e2 p q. tickOnce (\<lambda>x. x) (bus_seam runtime_driver) [[]] ([], rt_State toy_runtime) (rt_Engine toy_runtime)
       = Some (None, ([], u1), e1)
     \<and> tickOnce (\<lambda>x. x) (bus_seam runtime_driver) [[EvictCmd ''hum'']] ([], u1) e1 = Some (None, ([], u2), e2)
     \<and> e_written e2 = e_written (rt_Engine toy_runtime) @ [p, q]"
proof -
  note step = runtime_streams[OF toy_runtime_new toy_surroundings_ok, of "\<lambda>x. x" mood_env]
  obtain u1 e1 p where t1: "tickOnce (\<lambda>x. x) (bus_seam runtime_driver) [[]] ([], rt_State toy_runtime) (rt_Engine toy_runtime)
       = Some (None, ([], u1), e1)" "e_written e1 = e_written (rt_Engine toy_runtime) @ [p]"
    "runtime_life (\<lambda>x. x) mood_env toy_runtime u1 e1"
    using step[OF life_start] by blast
  obtain u2 e2 q where "tickOnce (\<lambda>x. x) (bus_seam runtime_driver) [[EvictCmd ''hum'']] ([], u1) e1 = Some (None, ([], u2), e2)"
    "e_written e2 = e_written e1 @ [q]"
    using step[OF t1(3)] by blast
  then show ?thesis using t1(1,2) by (metis append.assoc append_Cons append_Nil)
qed

text \<open>
  C9: Starting is all or nothing, but for its last two refusals. A runtime that starts has checked options with
  exactly one transport, the vocabulary of its adaptor, the rule lane of its layers, one live provider per file,
  each of whose fields the adaptor declares, a declared base action if any, its own engine on the endpoint, and
  the seam with all riders as the first command. A refused start closes every provider it built, except
  when the endpoint or the base action is refused: then all of them are left running. Neither the engine nor
  the seam is ever what refuses.
\<close>

theorem start_outcomes:
  "case runtime_New su opts of
     Inr rt \<Rightarrow> op_AdaptorPath opts \<noteq> [] \<and> length (chosen_transports opts) = 1 \<and> 0 < op_Period opts
       \<and> compose_loadVocabulary su (op_AdaptorPath opts) = Inr (rt_Vocabulary rt)
       \<and> newRulesLane (su_rules su) (rt_Vocabulary rt) (Some sense_New) NewRegistry (options_layers opts)
           = Inr (rs_lane (rt_State rt))
       \<and> length (rs_providers (rt_State rt)) = length (op_ProviderPaths opts)
       \<and> (\<forall>np \<in> set (rs_providers (rt_State rt)). built_ok (rt_Vocabulary rt) np)
       \<and> (op_BaseAction opts = [] \<or> HasAction (rt_Vocabulary rt) (op_BaseAction opts))
       \<and> e_inbox (rt_Engine rt) = [SetSeamCmd (Some (runtime_bus (rs_providers (rt_State rt))))]
       \<and> sv_engine (rs_server (rt_State rt)) = Some (rt_Engine rt)
   | Inl (err, ps) \<Rightarrow> err \<notin> {EngineRefused, SeamRefused} \<and> (\<exists>left. ps = Some left
       \<and> (if err \<in> range EndpointRefused \<or> (\<exists>base origin. err = BaseUndeclared base origin)
          then length left = length (op_ProviderPaths opts) \<and> (\<forall>np \<in> set left. \<not> pv_done (snd np))
          else \<forall>np \<in> set left. pv_done (snd np)))"
proof (cases "runtime_New su opts")
  case (Inr rt)
  obtain srv where n: "options_check opts = Inr ()" "compose_loadVocabulary su (op_AdaptorPath opts) = Inr (rt_Vocabulary rt)"
    "newRulesLane (su_rules su) (rt_Vocabulary rt) (Some sense_New) NewRegistry (options_layers opts) = Inr (rs_lane (rt_State rt))"
    "buildProviders (su_files su) (su_env su) (rt_Vocabulary rt)
       (map (\<lambda>(i, path). (path, su_nets su i)) (enumerate 0 (op_ProviderPaths opts))) [] = Inr (rs_providers (rt_State rt))"
    "new_endpoint su opts (rt_Vocabulary rt) sense_New = Inr srv"
    "runtime_wire su opts (rt_Vocabulary rt) (rs_lane (rt_State rt)) (rs_providers (rt_State rt)) srv = Inr rt"
    by (rule runtime_New_Inr[OF Inr])
  have o: "op_AdaptorPath opts \<noteq> []" "length (chosen_transports opts) = 1" "0 < op_Period opts"
    using n(1) by (simp_all add: options_check_Inr)
  obtain en0 where w: "op_BaseAction opts = [] \<or> HasAction (rt_Vocabulary rt) (op_BaseAction opts)"
    "New (Some (rt_Vocabulary rt)) (runtime_engine_config opts) (Some (\<lambda>_. None)) (su_clock su) = Inr en0"
    "rt_Engine rt = snd (Send (SetSeamCmd (Some (runtime_bus (rs_providers (rt_State rt))))) (OnEvent (Some (\<lambda>_. None)) en0))"
    "e_inbox (rt_Engine rt) = [SetSeamCmd (Some (runtime_bus (rs_providers (rt_State rt))))]"
    "rt_State rt = \<lparr>rs_providers = rs_providers (rt_State rt), rs_lane = rs_lane (rt_State rt), rs_status = new_status,
       rs_server = srv\<lparr>sv_engine := Some (rt_Engine rt)\<rparr>\<rparr>"
    by (rule runtime_wire_Inr[OF n(6) o(3) new_endpoint_free[OF n(5)]])
  have "sv_engine (rs_server (rt_State rt)) = Some (rt_Engine rt)" by (subst w(5)) simp
  then show ?thesis using n(2,3) o w(1,4) built_all[OF n(4)] by (simp add: Inr)
next
  case (Inl r)
  obtain err ps where r: "r = (err, ps)" by (rule prod.exhaust)
  from runtime_New_Inl[OF Inl[unfolded r]] show ?thesis by (auto simp: Inl r)
qed

theorem start_outcomes_witness:
  "built_ok toy_voc (''mood'', mood_provider)
   \<and> (\<exists>en. sv_engine (rs_server (rt_State toy_runtime)) = Some en \<and>
        e_inbox en = [SetSeamCmd (Some [(''provider:mood'', ProviderRider 0), (''rule'', LaneRider), (''status'', StatusRider),
          (''heartbeat'', HeartbeatRider)])])
   \<and> runtime_New toy_surroundings (toy_options\<lparr>op_BaseAction := ''fly''\<rparr>) =
       Inl (BaseUndeclared ''fly'' ''adaptor.toml'', Some [(''mood'', mood_provider)])
   \<and> \<not> pv_done mood_provider"
  using start_outcomes[of toy_options toy_surroundings] start_outcomes[of "toy_options\<lparr>op_BaseAction := ''fly''\<rparr>" toy_surroundings]
  by (simp add: toy_runtime_new toy_runtime_fields toy_bus_of_runtime toy_based_refused)

section \<open>The rule lane\<close>

lemma lane_build_refused:
  assumes "lane_build decode layers l = Inl err" "decoded_ok decode"
  shows "loadRules decode layers (rl_voc l) = Inl err"
proof (cases "loadRules decode layers (rl_voc l)")
  case (Inl e)
  then show ?thesis using assms(1) by (simp add: lane_build_def)
next
  case (Inr cfg)
  then show ?thesis using lane_build_total[OF Inr assms(2)] assms(1) by simp
qed

text \<open>
  C10: A reload is all or nothing and decided by the load alone. At any time of the lane's life the rules in force are
  those of the last accepted stack of layers, and a tick over them does not panic. A stack that does not load is
  refused with the load's error and changes nothing but the log; one that loads is in force at once, with the
  registry and the perception of the evaluator it replaces, and every rule starts afresh.
\<close>

theorem reload_keeps:
  assumes "newRulesLane decode voc sn rg layers = Inr l0" "decoded_ok decode" "registry_ok rg"
    "lane_run (l0, en0) cs (l, en)" "decoded_ok decode'" "Reload decode' paths l = (r, l')"
  shows "\<exists>cfg0 ev. loadRules decode layers voc = Inr cfg0 \<and> rl_eval l = Some ev
    \<and> (el_cfg ev, rl_layers l) = last ((cfg0, layers) # cs) \<and> fst (lane_Tick ctx (l, en)) = None
    \<and> (case loadRules decode' (layerStack paths l) voc of
         Inl err \<Rightarrow> r = Some err \<and> l' = l\<lparr>rl_log := rl_log l @ [ReloadRefused err]\<rparr>
       | Inr cfg \<Rightarrow> r = None \<and> rl_layers l' = layerStack paths l \<and> (\<exists>ev'. rl_eval l' = Some ev' \<and> el_cfg ev' = cfg
           \<and> el_registry ev' = el_registry ev \<and> el_snapshot ev' = el_snapshot ev
           \<and> (\<forall>x \<in> set (config_rules cfg). el_states ev' (r_ID x) = Some fresh_rule_state)))"
proof -
  obtain cfg0 where c0: "loadRules decode layers voc = Inr cfg0" "lane_inv voc (cfg0, layers) l0"
    using newRulesLane_ok[OF assms(1-3)] by blast
  have inv: "lane_inv voc (last ((cfg0, layers) # cs)) l" using lane_run_inv[OF assms(4) c0(2)] by simp
  then obtain ev where ev: "rl_eval l = Some ev" "ev_inv ev" "el_cfg ev = fst (last ((cfg0, layers) # cs))"
    "rl_layers l = snd (last ((cfg0, layers) # cs))" "rl_voc l = voc" by (auto simp: lane_inv_def)
  have shared: "shared_registry l = el_registry ev" "shared_snapshot l = el_snapshot ev" "registry_ok (shared_registry l)"
    using ev(1,2) by (simp_all add: shared_registry_def shared_snapshot_def ev_inv_def)
  have tick: "fst (lane_Tick ctx (l, en)) = None"
    using lane_Tick_ok[OF inv, of ctx en] by (metis fst_conv prod_cases3)
  have now: "case loadRules decode' (layerStack paths l) voc of
         Inl err \<Rightarrow> r = Some err \<and> l' = l\<lparr>rl_log := rl_log l @ [ReloadRefused err]\<rparr>
       | Inr cfg \<Rightarrow> r = None \<and> rl_layers l' = layerStack paths l \<and> (\<exists>ev'. rl_eval l' = Some ev' \<and> el_cfg ev' = cfg
           \<and> el_registry ev' = el_registry ev \<and> el_snapshot ev' = el_snapshot ev
           \<and> (\<forall>x \<in> set (config_rules cfg). el_states ev' (r_ID x) = Some fresh_rule_state))"
  proof (cases "lane_build decode' (layerStack paths l) l")
    case (Inl err)
    then show ?thesis using lane_build_refused[OF Inl assms(5)] assms(6) by (auto simp: Reload_def Let_def ev(5))
  next
    case (Inr ev')
    then show ?thesis using lane_build_Inr[OF Inr assms(5) shared(3)] assms(6)
      by (auto simp: Reload_def Let_def ev(5) shared(1,2))
  qed
  show ?thesis by (intro exI[of _ cfg0] exI[of _ ev] conjI c0(1) ev(1) tick now) (simp add: ev(3,4))
qed

theorem reload_keeps_witness:
  "\<exists>l ev ev' err l1 l2. newRulesLane toy_decode toy_voc (Some sense_New) NewRegistry [[''base.toml''], [''user.toml'']] = Inr l
     \<and> rl_eval l = Some ev \<and> el_cfg ev = toy_config_loaded
     \<and> Reload Map.empty [''gone.toml''] l = (Some err, l1) \<and> rl_eval l1 = Some ev
     \<and> Reload toy_decode [''base.toml'', ''user.toml''] l = (None, l2) \<and> rl_eval l2 = Some ev' \<and> el_registry ev' = el_registry ev"
proof -
  obtain l where l: "newRulesLane toy_decode toy_voc (Some sense_New) NewRegistry [[''base.toml''], [''user.toml'']] = Inr l"
    using toy_lane_built by blast
  have load: "loadRules toy_decode [[''base.toml''], [''user.toml'']] toy_voc = Inr toy_config_loaded"
    by (simp add: loadRules_def toy_load)
  obtain e where gone: "loadRules Map.empty [[''gone.toml'']] toy_voc = Inl e"
    by (simp add: loadRules_def Load_def parseFile_def)
  have ok: "decoded_ok (Map.empty :: string \<rightharpoonup> table)" by (simp add: decoded_ok_def)
  obtain r1 l1 where r1: "Reload Map.empty [''gone.toml''] l = (r1, l1)" by (rule prod.exhaust)
  obtain r2 l2 where r2: "Reload toy_decode [''base.toml'', ''user.toml''] l = (r2, l2)" by (rule prod.exhaust)
  note keeps = reload_keeps[OF l toy_decoded_ok NewRegistry_ok lane_start[of "(l, rt_Engine toy_runtime)"]]
  show ?thesis using keeps[OF ok r1, of "toy_ctx 0"] keeps[OF toy_decoded_ok r2, of "toy_ctx 0"] l r1 r2
    by (auto simp: layerStack_def load gone)
qed

section \<open>Decision providers\<close>

lemma provider_lives:
  assumes "provider_New env nets cfg0 True = Inr p1" "p0 \<in> {p1, SetView p1}" "provider_run env (p0, sn0) es (p, sn)"
  shows "provider_inv p0 sn0 es (p, sn) \<and> refs_ok p0 \<and> provider_validate cfg0 = Inr (pv_cfg p)"
proof -
  have new: "refs_ok p1" "provider_fresh p1" "provider_validate cfg0 = Inr (pv_cfg p1)"
    using provider_New_ok[OF assms(1)] by auto
  have p0: "refs_ok p0" "provider_fresh p0" "pv_cfg p0 = pv_cfg p1"
    using assms(2) new(1,2) SetView_ok[OF new(1,2)] by (auto simp: SetView_def)
  have inv: "provider_inv p0 sn0 es (p, sn)" by (rule provider_run_inv[OF assms(3) p0(1,2)])
  then have "pv_cfg p = pv_cfg p1" using p0(3) by (simp add: provider_inv_def)
  then show ?thesis using inv p0(1) new(3) by simp
qed

text \<open>
  C11: A provider never holds up the engine and loses nothing silently. Its queue never exceeds its depth; what it
  accepted is what its worker took, in order, followed by the queue; each request taken is answered, abstained
  on, or the one in hand; the counters are the numbers of requests accepted and answered, and of drops by reason;
  and every tick is exactly one of accepted, refused for a full queue, skipped by the cadence, or unconfigured.
\<close>

theorem provider_accounts:
  assumes "provider_New env nets cfg0 True = Inr p1" "p0 \<in> {p1, SetView p1}" "provider_run env (p0, sn0) es (p, sn)"
  shows "length (pv_queue p) \<le> nat (pc_QueueDepth (pv_cfg p)) \<and> 0 < pc_QueueDepth (pv_cfg p)
    \<and> accepted es = taken es @ pv_queue p
    \<and> length (taken es) = length (answers es) + length (abstentions es) + busy p
    \<and> provider_Stats p = (length (accepted es), length (answers es), pv_drops p)
    \<and> map_of (pv_drops p) = drops_of (drop_reasons es)
    \<and> pv_tickCount p = length (accepted es) + count_list es QueueFull + count_list es Skipped + count_list es Unconfigured"
  using provider_lives[OF assms] ticks_split[of es]
  by (auto simp: provider_inv_def provider_Stats_def refs_ok_def config_wf_def)

definition mood_now :: tick_context where
  "mood_now = \<lparr>tc_Now = 7, tc_Tick = 1, tc_contribs = Map.empty\<rparr>"

definition mood_answer :: answer where
  "mood_answer = \<lparr>an_net = (\<lambda>_. Response 200 []), an_order = (\<lambda>refs. refs), an_started = 7, an_finished = 7 + second,
     an_stamped = 8 + second\<rparr>"

text \<open>Four ticks against a depth of two; the first request is taken after the first of them and answered last.\<close>

definition mood_at :: "provider_request list \<Rightarrow> worker \<Rightarrow> nat \<Rightarrow> nat \<Rightarrow> provider" where
  "mood_at q w ticks requests = mood_provider\<lparr>pv_queue := q, pv_worker := w, pv_tickCount := ticks, pv_requests := requests\<rparr>"

definition mood_request :: provider_request where
  "mood_request = \<lparr>pq_view = View sense_New 7, pq_now = 7\<rparr>"

lemma mood_tick:
  assumes "length q < 2"
  shows "provider_step mood_env (mood_at q w n k, sense_New) (Accepted mood_request)
    (mood_at (q @ [mood_request]) w (Suc n) (Suc k), sense_New)"
proof -
  have "tick_event mood_now sense_New (mood_at q w n k) = Accepted mood_request"
    "provider_tick mood_now sense_New (mood_at q w n k) = mood_at (q @ [mood_request]) w (Suc n) (Suc k)"
    using assms by (simp_all add: tick_event_def provider_tick_def mood_now_def mood_at_def mood_provider_def mood_config_def
        mood_request_def DefaultCadence_def DefaultQueueDepth_def Let_def tickStreakEnd_def streak_End_def NewStreak_def)
  then show ?thesis using step_tick[of mood_env "mood_at q w n k" sense_New mood_now] by simp
qed

definition mood_full :: provider where
  "mood_full = provider_tick mood_now sense_New (mood_at [mood_request, mood_request] (Handling mood_request) 3 3)"

lemma mood_tick_full:
  "provider_step mood_env (mood_at [mood_request, mood_request] (Handling mood_request) 3 3, sense_New) QueueFull (mood_full, sense_New)"
proof -
  have "tick_event mood_now sense_New (mood_at [mood_request, mood_request] (Handling mood_request) 3 3) = QueueFull"
    by (simp add: tick_event_def mood_now_def mood_at_def mood_provider_def mood_config_def DefaultCadence_def DefaultQueueDepth_def)
  then show ?thesis
    using step_tick[of mood_env "mood_at [mood_request, mood_request] (Handling mood_request) 3 3" sense_New mood_now]
    by (simp add: mood_full_def)
qed

definition mood_outs :: table where
  "mood_outs = [(''mood'', AStr ''happy''), (''mood_latency_s'', AFloat (secs_between (7 + second) 7))]"

lemma mood_happy: "firstWordLower f ''Happy now'' = ''happy''"
  by (simp add: firstWordLower_def strings_Fields_def runes_ascii byte_of_def is_space_def strings_ToLower_def lower_char_def
      strings_Trim_def Let_def char_of_def bit_0)

lemma mood_reply: "decodeCompletion (pe_json mood_env) raw = Some \<lparr>cr_Choices = [\<lparr>cm_Role = [], cm_Content = ''Happy now''\<rparr>]\<rparr>"
  by (simp add: decodeCompletion_def mood_env_def decodeStruct_def completionResponse_fields_def structs_field_def
      struct_field_def chatMessage_fields_def zero_message_def str_field_def findField_def)

lemma mood_call: "pv_cfg p = mood_config \<Longrightarrow> provider_call mood_env mood_answer p mood_request = Inr mood_outs"
  by (simp add: provider_call_def mood_config_def callCompletion_def fetchCompletion_def doJSON_def mood_answer_def
      mood_reply mood_happy mood_outs_def Let_def)

lemma mood_run:
  "\<exists>p. provider_run mood_env (mood_provider, sense_New)
     [Accepted mood_request, Taken mood_request, Accepted mood_request, Accepted mood_request, QueueFull, Answered mood_outs (8 + second)]
     (p, Update mood_outs (8 + second) sense_New) \<and> pv_cfg p = mood_config"
proof -
  let ?r = mood_request
  have m0: "mood_provider = mood_at [] Waiting 0 0" by (simp add: mood_at_def mood_provider_def)
  have take: "provider_step mood_env (mood_at [?r] Waiting 1 1, sense_New) (Taken ?r) (mood_at [] (Handling ?r) 1 1, sense_New)"
    by (rule step_take) (simp_all add: work_take_def mood_at_def)
  have full: "pv_worker mood_full = Handling ?r" "pv_cfg mood_full = mood_config" "pv_labelRefs mood_full = []"
    using provider_tick_cases[of mood_now sense_New "mood_at [?r, ?r] (Handling ?r) 3 3"]
    by (simp_all add: mood_full_def mood_at_def mood_provider_def)
  let ?p = "(workerStreakEnd mood_full)\<lparr>pv_results := Suc (pv_results mood_full), pv_worker := Waiting\<rparr>"
  have "work_handle mood_env mood_answer (mood_full, sense_New) = Some (?p, Update mood_outs (8 + second) sense_New)"
    by (simp add: work_handle_def provider_handle_def full mood_call) (simp add: mood_answer_def)
  from step_handle[OF _ full(1) this] have handle: "provider_step mood_env (mood_full, sense_New) (Answered mood_outs (8 + second))
      (?p, Update mood_outs (8 + second) sense_New)"
    by (simp add: handle_event_def mood_call full) (simp add: mood_answer_def)
  note run = run_more[OF run_more[OF run_more[OF run_more[OF run_more[OF run_more[OF run_start]]]]]]
  from run[OF mood_tick[of "[]" Waiting 0 0, folded m0] _ _ _ mood_tick_full handle] take mood_tick[of "[]" "Handling ?r" 1 1]
    mood_tick[of "[?r]" "Handling ?r" 2 2]
  show ?thesis by (intro exI[of _ ?p]) (simp add: eval_nat_numeral full streak_fields)
qed

theorem provider_accounts_witness:
  "\<exists>es p sn. provider_run mood_env (mood_provider, sense_New) es (p, sn) \<and> pv_queue p = [mood_request, mood_request]
     \<and> provider_Stats p = (3, 1, pv_drops p) \<and> map_of (pv_drops p) = drops_of [''queue-full''] \<and> pv_tickCount p = 4"
proof -
  obtain p where r: "provider_run mood_env (mood_provider, sense_New)
     [Accepted mood_request, Taken mood_request, Accepted mood_request, Accepted mood_request, QueueFull, Answered mood_outs (8 + second)]
     (p, Update mood_outs (8 + second) sense_New)" using mood_run by blast
  have p0: "mood_provider \<in> {mood_provider\<lparr>pv_hasView := False\<rparr>, SetView (mood_provider\<lparr>pv_hasView := False\<rparr>)}"
    by (simp add: SetView_def mood_provider_def)
  show ?thesis using provider_accounts[OF toy_provider_new p0 r] r
    by (intro exI conjI) (auto simp: event_defs List.map_filter_simps)
qed

lemma output_ok_keys:
  assumes "output_ok c t"
  shows "distinct (map fst t)" "f \<noteq> pc_Output c \<Longrightarrow> f \<noteq> pc_Output c @ ''_score'' \<Longrightarrow> f \<noteq> pc_Output c @ ''_latency_s'' \<Longrightarrow> map_of t f = None"
    "map_of t f = None \<longleftrightarrow> f \<noteq> pc_Output c \<and> f \<noteq> pc_Output c @ (if pc_Kind c = KindEmbedding then ''_score'' else ''_latency_s'')"
    "map_of t f \<noteq> Some ANil"
  using assms by (auto simp: output_ok_def split: if_splits)

lemma answers_mem: "(now, t) \<in> set (answers es) \<longleftrightarrow> Answered t now \<in> set es"
proof (induction es rule: rev_induct)
  case (snoc e es)
  then show ?case by (cases e) auto
qed simp

text \<open>A field no sensor writes holds what the last answer gave it.\<close>

lemma answered_field:
  assumes "\<forall>(now, t) \<in> set (answers es). output_ok c t" "\<forall>now t. Sensed t now \<in> set es \<longrightarrow> f \<notin> fst ` set t"
  shows "sense_Get (frames_run (writes es) sn0) f =
    (if answers es = [] then sense_Get sn0 f
     else case map_of (snd (last (answers es))) f of None \<Rightarrow> sense_Get sn0 f | Some v \<Rightarrow> Some v)"
  using assms
proof (induction es rule: rev_induct)
  case Nil
  then show ?case by (simp add: frames_run_def)
next
  case (snoc e es)
  have IH: "sense_Get (frames_run (writes es) sn0) f =
    (if answers es = [] then sense_Get sn0 f
     else case map_of (snd (last (answers es))) f of None \<Rightarrow> sense_Get sn0 f | Some v \<Rightarrow> Some v)"
    using snoc by (auto simp: answers_mem)
  show ?case
  proof (cases e)
    case (Answered t now)
    have t: "output_ok c t" using snoc.prems(1) Answered by simp
    have "map_of (snd (last (answers es))) f = None \<longleftrightarrow> map_of t f = None" if "answers es \<noteq> []"
      using output_ok_keys(3)[OF t, of f] output_ok_keys(3)[of c "snd (last (answers es))" f] snoc.prems(1) that last_in_set[OF that]
      by (cases "last (answers es)") (auto simp: Answered)
    then show ?thesis using IH output_ok_keys(1)[OF t] output_ok_keys(4)[OF t, of f]
      by (auto simp: Answered sense_Get_def Update_values split: option.splits)
  next
    case (Sensed t now)
    have "f \<notin> fst ` set t" using snoc.prems(2) Sensed by auto
    then have "sn_values (Update t now sn) f = sn_values sn f" for sn
      unfolding Update_def by (induction t arbitrary: sn) (auto simp: updateField_def)
    then show ?thesis using IH by (simp add: Sensed sense_Get_def)
  qed (use IH in simp_all)
qed



text \<open>
  C19: An answered embedding request names the nearest label. The vector the gateway gave is compared with the reference of
  every label, in whatever order the scan ranges over them; when all the similarities are numbers, the label written
  is one whose similarity is the greatest, and that similarity is the score.
\<close>

theorem nearest_label:
  assumes "provider_call env ans p req = Inr outs" "refs_ok p" "\<not> pv_unconfigured p" "pc_Kind (pv_cfg p) = KindEmbedding"
    "mset (an_order ans (pv_labelRefs p)) = mset (pv_labelRefs p)"
    "fetchEmbedding (pe_json env) (an_net ans) (pc_BaseURL (pv_cfg p)) (pv_apiKey p) (pc_Model (pv_cfg p))
       (renderEmbeddingInput (pe_show env) (pc_Inputs (pv_cfg p)) (pq_view req)) = Inr v"
    "\<forall>(l, ref) \<in> set (pv_labelRefs p). \<not> is_nan (cosineSimilarity v ref)"
  shows "\<exists>label score ref. outs = [(pc_Output (pv_cfg p), AStr label), (pc_Output (pv_cfg p) @ ''_score'', AFloat score)]
     \<and> label \<in> set (pc_Labels (pv_cfg p)) \<and> (label, ref) \<in> set (pv_labelRefs p) \<and> score = cosineSimilarity v ref
     \<and> (\<forall>(l, other) \<in> set (pv_labelRefs p). fle (cosineSimilarity v other) score)"
proof -
  let ?refs = "an_order ans (pv_labelRefs p)"
  have same: "set ?refs = set (pv_labelRefs p)" using assms(5) by (rule mset_eq_setD)
  have ne: "?refs \<noteq> []" "fst ` set (pv_labelRefs p) \<subseteq> set (pc_Labels (pv_cfg p))"
    using assms(2-5) by (auto simp: refs_ok_def)
  obtain label score where b: "bestLabel ?refs v = (label, score)" by (rule prod.exhaust)
  have o: "outs = [(pc_Output (pv_cfg p), AStr label), (pc_Output (pv_cfg p) @ ''_score'', AFloat score)]"
    using assms(1,4,6) b by (simp add: provider_call_def callEmbedding_def Let_def)
  obtain ref where ref: "(label, ref) \<in> set ?refs" "score = cosineSimilarity v ref" using bestLabel_mem[OF ne(1) b] by blast
  have nan: "\<forall>(l, r) \<in> set ?refs. \<not> is_nan (cosineSimilarity v r)" using assms(7) same by auto
  have "\<forall>(l, other) \<in> set ?refs. fle (cosineSimilarity v other) score" by (rule bestLabel_max[OF ne(1) b nan])
  then show ?thesis using o ref ne(2) same by force
qed

text \<open>A label apart from the answer and one that is the answer.\<close>

lemma sqrt_one: "fsqrt (Fin 1) = Fin 1"
proof -
  have "ilog2 1 = 0" by code_simp
  then have k: "sqrt_scale 1 = 56" by (simp add: sqrt_scale_def)
  have "isqrt (2 ^ 56 * 2 ^ 56) = 2 ^ 56" by (rule isqrt_square)
  moreover have "(2 :: rat) powi 112 = 2 ^ 112" "(2 :: rat) powi (- 56) = 1 / 2 ^ 56"
    by (simp_all add: power_int_def power_one_over)
  ultimately show ?thesis by (simp add: k rnd_1)
qed

lemma unit_similarity:
  "cosineSimilarity [Fin 1, Fin 0] [Fin 1, Fin 0] = Fin 1" "cosineSimilarity [Fin 1, Fin 0] [Fin 0, Fin 1] = Fin 0"
  by (simp_all add: cosineSimilarity_def cos_sums_def rnd_1 sqrt_one del: fsqrt.simps)

definition label_provider :: provider where
  "label_provider = mood_provider\<lparr>pv_cfg := mood_config\<lparr>pc_Kind := KindEmbedding, pc_Labels := [''calm'', ''alert'']\<rparr>,
     pv_labelRefs := [(''calm'', [Fin 0, Fin 1]), (''alert'', [Fin 1, Fin 0])]\<rparr>"

definition label_env :: provider_env where
  "label_env = mood_env\<lparr>pe_json := (\<lambda>raw. Some (JObj [(''data'', JArr [JObj [(''embedding'',
     JArr [JNum (Some 1) (Some (Fin 1)), JNum (Some 0) (Some (Fin 0))])]])]))\<rparr>"

definition label_answer :: answer where
  "label_answer = mood_answer\<lparr>an_order := rev\<rparr>"

lemma label_fetch:
  "fetchEmbedding (pe_json label_env) (an_net label_answer) url key model input = Inr [Fin 1, Fin 0]"
  by (simp add: fetchEmbedding_def doJSON_def label_answer_def mood_answer_def decodeEmbedding_def label_env_def decodeStruct_def
      embeddingResponse_fields_def structs_field_def floats_field_def float_elem_def findField_def)

theorem nearest_label_witness:
  "\<exists>outs. provider_call label_env label_answer label_provider mood_request = Inr outs
     \<and> outs = [(''mood'', AStr ''alert''), (''mood_score'', AFloat (Fin 1))]"
proof -
  let ?p = label_provider
  have c: "pc_Kind (pv_cfg ?p) = KindEmbedding" "pc_Labels (pv_cfg ?p) = [''calm'', ''alert'']" "pc_Output (pv_cfg ?p) = ''mood''"
    "pv_labelRefs ?p = [(''calm'', [Fin 0, Fin 1]), (''alert'', [Fin 1, Fin 0])]" "\<not> pv_unconfigured ?p"
    "an_order label_answer (pv_labelRefs ?p) = rev (pv_labelRefs ?p)"
    by (simp_all add: label_provider_def mood_config_def mood_provider_def label_answer_def)
  have ok: "refs_ok ?p" using toy_provider(1) c(4) by (simp add: refs_ok_def config_wf_def label_provider_def mood_provider_def mood_config_def)
  obtain outs where o: "provider_call label_env label_answer ?p mood_request = Inr outs"
    by (cases "bestLabel (an_order label_answer (pv_labelRefs ?p)) [Fin 1, Fin 0]")
      (simp add: provider_call_def c(1) callEmbedding_def Let_def label_fetch)
  have nan: "\<forall>(l, ref) \<in> set (pv_labelRefs ?p). \<not> is_nan (cosineSimilarity [Fin 1, Fin 0] ref)"
    by (simp add: c(4) unit_similarity is_nan_def)
  have "mset (an_order label_answer (pv_labelRefs ?p)) = mset (pv_labelRefs ?p)" unfolding c(6) by simp
  from nearest_label[OF o ok c(5,1) this label_fetch nan] show ?thesis using o
    by (auto simp: c unit_similarity fle_def feq_iff)
qed

section \<open>The migration of a rule file\<close>

lemma version_line_bumped:
  assumes "n \<in> set (version_lines ls)"
  shows "\<exists>a b. ls ! n = a @ ''1'' @ b \<and> bumped (ls ! n) = a @ ''2'' @ b"
proof -
  obtain m1 m2 where m: "schemaVersionLine (line_content (ls ! n)) = Some (m1, m2)"
    using assms by (auto simp: version_lines_def version_here_def)
  have "ls ! n = line_content (ls ! n) @ snd (splitLineTerminator (ls ! n))"
    using splitLineTerminator_append[of "ls ! n"] by (simp add: line_content_def)
  then show ?thesis using m schemaVersionLine_split[OF m]
    by (intro exI[of _ m1] exI[of _ "m2 @ snd (splitLineTerminator (ls ! n))"]) (simp add: bumped_def)
qed


definition decoy_file :: string where
  "decoy_file = ''note=''@ basicDelim @ [newline] @ ''schema_version=1'' @ [newline] @ basicDelim @ [newline]
     @ ''schema_version = 1 # old'' @ [newline] @ ''[a]'' @ [newline] @ ''schema_version=1''"


text \<open>
  C12: A migration is all or nothing, and nobody sees half of it. In every state of the file system from its start to its
  end, each path but the temporary file holds what it held before, but the output of a migration that succeeds,
  which goes from what it held to the whole of the rewritten text in one step. It succeeds only for an input
  that loads, whose text was rewritten or is of version 2 already, and only when the temporary file with the
  rewritten text loads to the same rules; the input itself is never touched.
\<close>

theorem migrate_all_or_nothing:
  assumes "verbRulesMigrate io absOf toml fs args = (r, fss)" "\<forall>tmp. io_temp io = Some tmp \<longrightarrow> fs tmp = None"
  shows "case r of
     Inl err \<Rightarrow> \<forall>fs' \<in> set fss. \<forall>path. io_temp io \<noteq> Some path \<longrightarrow> fs' path = fs path
   | Inr (inPath, dest) \<Rightarrow> \<exists>inAbs destAbs raw tmp before after. absOf inPath = Some inAbs \<and> absOf dest = Some destAbs
       \<and> io_temp io = Some tmp \<and> fs inAbs = Some raw \<and> last fss inAbs = Some raw
       \<and> last fss = fs(tmp := None, destAbs \<mapsto> fst (rewriteSchemaVersion raw))
       \<and> (\<forall>fs' \<in> set (butlast fss). \<forall>path. path \<noteq> tmp \<longrightarrow> fs' path = fs path)
       \<and> LoadFile (decode_at absOf toml fs) inPath None = Inr before
       \<and> LoadFile (decode_at absOf toml (fs(tmp \<mapsto> fst (rewriteSchemaVersion raw)))) tmp None = Inr after \<and> sameRules before after
       \<and> (snd (rewriteSchemaVersion raw) \<or> rc_SchemaVersion before = SchemaVersion2)"
proof (cases "migrate_plan absOf toml fs args")
  case (Inl err)
  then show ?thesis using assms(1) by (auto simp: verbRulesMigrate_def)
next
  case (Inr plan)
  obtain inPath dest destAbs before migrated where plan: "plan = (inPath, dest, destAbs, before, migrated)" by (metis prod_cases5)
  obtain raw inAbs where p: "absOf inPath = Some inAbs" "fs inAbs = Some raw" "absOf dest = Some destAbs" "inAbs \<noteq> destAbs"
    "LoadFile (decode_at absOf toml fs) inPath None = Inr before" "migrated = fst (rewriteSchemaVersion raw)"
    "snd (rewriteSchemaVersion raw) \<or> rc_SchemaVersion before = SchemaVersion2"
    by (rule migrate_plan_Inr[OF Inr[unfolded plan]])
  obtain err fss' where rep: "replaceFileAtomically io destAbs migrated (verifyMigrated absOf toml before) fs = (err, fss')"
    by (rule prod.exhaust)
  show ?thesis
  proof (cases err)
    case (Some e)
    have "fss = fss' \<and> (\<exists>e'. r = Inl e')" using assms(1) rep Some
      by (cases e) (auto simp: verbRulesMigrate_def Inr plan)
    then show ?thesis using replace_failed[OF rep[unfolded Some]] by (auto) metis
  next
    case None
    then have r: "r = Inr (inPath, dest)" "fss = fss'" using assms(1) rep by (auto simp: verbRulesMigrate_def Inr plan)
    obtain tmp where tmp: "io_temp io = Some tmp" "verifyMigrated absOf toml before (fs(tmp \<mapsto> migrated)) tmp = None"
      "fss' = [fs(tmp \<mapsto> []), fs(tmp \<mapsto> migrated), fs(tmp := None, destAbs \<mapsto> migrated)]"
      by (rule replace_done[OF rep[unfolded None]])
    have "inAbs \<noteq> tmp" using assms(2) tmp(1) p(2) by auto
    moreover obtain after where "LoadFile (decode_at absOf toml (fs(tmp \<mapsto> migrated))) tmp None = Inr after" "sameRules before after"
      using tmp(2) by (auto simp: verifyMigrated_def split: sum.splits if_splits)
    ultimately show ?thesis using p tmp(1,3) unfolding r by auto
  qed
qed

text \<open>A file that says its version only, and its migration.\<close>

definition version_table :: "int \<Rightarrow> table" where
  "version_table v = [(''schema_version'', AInt v)]"

lemma version_valid:
  assumes "v \<in> {1, 2}"
  shows "validate path (version_table v) = Inr \<lparr>f_path = path, f_schemaVersion = v, f_ordered = [], f_disabled = [],
    f_modes = [], f_activeMode = [], f_events = [], f_eventDisabled = [], f_eventDefault = None\<rparr>"
proof -
  have u: "unknownKeys (version_table v) topLevelFields = []"
    by (simp add: unknownKeys_Nil version_table_def topLevelFields_def)
  have m: "map_of (version_table v) ''schema_version'' = Some (AInt v)" "map_of (version_table v) KindReact = None"
    "map_of (version_table v) KindInhibit = None" "map_of (version_table v) ''event'' = None"
    "lookup (version_table v) ''modes'' = ANil" "lookup (version_table v) ''active_mode'' = ANil"
    "lookup (version_table v) ''event_default'' = ANil"
    by (simp_all add: version_table_def KindReact_def KindInhibit_def)
  show ?thesis using assms unfolding validate_def Let_def u
    by (auto simp: validateSchemaVersion_def m SchemaVersion1_def SchemaVersion2_def readEntries_def
        checkDuplicateIDs_def checkDuplicateEventIDs_def ids_def eventIDs_def validateModes_def
        validateActiveMode_def validateEventDefault_def)
qed

lemma version_loads:
  assumes "decode path = Some (version_table v)" "v \<in> {1, 2}"
  shows "\<exists>cfg. LoadFile decode path None = Inr (cfg\<lparr>rc_SchemaVersion := v\<rparr>)
    \<and> cfg = \<lparr>rc_SchemaVersion = 0, rc_ActiveMode = [], rc_Modes = Map.empty, rc_React = [], rc_Inhibit = [], rc_Disabled = [],
         rc_Events = [], rc_EventDefault = None\<rparr>"
  using assms(2)
  by (auto simp: LoadFile_def Load_def parseFile_def assms(1) version_valid mergeStep_def buildLayer_def layerStep_def
      applyVocabulary_def addFile_def emptyLayer_def mergeLayers_def mergeEntries_def layer_config_def ids_def eventIDs_def Let_def)

definition one_file :: files where
  "one_file = [''/r.toml'' \<mapsto> ''schema_version = 1'']"

definition root_abs :: "string \<Rightarrow> string option" where
  "root_abs path = Some (if prefix ''/'' path then path else ''/'' @ path)"

definition version_toml :: "string \<Rightarrow> table option" where
  "version_toml raw = (if raw = ''schema_version = 1'' then Some (version_table 1)
     else if raw = ''schema_version = 2'' then Some (version_table 2) else None)"

definition good_io :: replace_io where
  "good_io = \<lparr>io_temp = Some ''/t'', io_short = None, io_chmod = True, io_close = True, io_rename = True, io_remove = True\<rparr>"

lemma one_rewritten: "rewriteSchemaVersion ''schema_version = 1'' = (''schema_version = 2'', True)"
  by code_simp

theorem migrate_all_or_nothing_witness:
  "\<exists>fss. verbRulesMigrate good_io root_abs version_toml one_file [''r.toml''] = (Inr (''r.toml'', ''r.v2.toml''), fss)
     \<and> last fss ''/r.toml'' = Some ''schema_version = 1'' \<and> last fss ''/r.v2.toml'' = Some ''schema_version = 2''"
proof -
  have d: "defaultMigrateOutPath ''r.toml'' = ''r.v2.toml''" by code_simp
  have f: "extractStringFlag [''r.toml''] ''out'' = ([], False, [''r.toml''])"
    "extractBoolFlag [''r.toml''] ''force'' = (False, [''r.toml''])" "rejectUnknownFlags [''r.toml''] = None"
    by (simp_all add: extractStringFlag_def extractBoolFlag_def rejectUnknownFlags_def flag_of_def)
  have abs: "root_abs ''r.toml'' = Some ''/r.toml''" "root_abs ''r.v2.toml'' = Some ''/r.v2.toml''" "root_abs ''/t'' = Some ''/t''"
    by (simp_all add: root_abs_def)
  have one: "one_file ''/r.toml'' = Some ''schema_version = 1''" "one_file ''/r.v2.toml'' = None"
    by (simp_all add: one_file_def)
  obtain cfg where before: "LoadFile (decode_at root_abs version_toml one_file) ''r.toml'' None = Inr (cfg\<lparr>rc_SchemaVersion := 1\<rparr>)"
    and cfg: "cfg = \<lparr>rc_SchemaVersion = 0, rc_ActiveMode = [], rc_Modes = Map.empty, rc_React = [], rc_Inhibit = [], rc_Disabled = [],
         rc_Events = [], rc_EventDefault = None\<rparr>"
    using version_loads[of "decode_at root_abs version_toml one_file" "''r.toml''" 1]
    by (auto simp: decode_at_def abs one_file_def version_toml_def)
  have after: "LoadFile (decode_at root_abs version_toml (one_file(''/t'' \<mapsto> ''schema_version = 2''))) ''/t'' None
      = Inr (cfg\<lparr>rc_SchemaVersion := 2\<rparr>)"
    using version_loads[of "decode_at root_abs version_toml (one_file(''/t'' \<mapsto> ''schema_version = 2''))" "''/t''" 2]
    by (auto simp: decode_at_def abs version_toml_def cfg)
  have plan: "migrate_plan root_abs version_toml one_file [''r.toml''] =
      Inr (''r.toml'', ''r.v2.toml'', ''/r.v2.toml'', cfg\<lparr>rc_SchemaVersion := 1\<rparr>, ''schema_version = 2'')"
    by (simp add: migrate_plan_def f d abs before one one_rewritten Let_def)
  have v: "verifyMigrated root_abs version_toml (cfg\<lparr>rc_SchemaVersion := 1\<rparr>) (one_file(''/t'' \<mapsto> ''schema_version = 2'')) ''/t'' = None"
    by (simp add: verifyMigrated_def after sameRules_def comparableConfig_def)
  obtain fss where fss: "verbRulesMigrate good_io root_abs version_toml one_file [''r.toml''] = (Inr (''r.toml'', ''r.v2.toml''), fss)"
    by (simp add: verbRulesMigrate_def plan replaceFileAtomically_def good_io_def v)
  have "\<forall>tmp. io_temp good_io = Some tmp \<longrightarrow> one_file tmp = None" by (simp add: good_io_def one_file_def)
  from migrate_all_or_nothing[OF fss this] show ?thesis using fss
    by (auto simp: abs good_io_def one_file_def one_rewritten)
qed

section \<open>The management verbs\<close>

lemma bad_flag_codes: "load_files env fs verb args = Inl err \<Longrightarrow> ce_Code err = ExitUser"
  by (auto simp: load_files_def mgmt_loadVocabulary_def NewUserError_def Let_def
      split: prod.splits option.splits if_splits sum.splits)

lemma migrate_code_range: "migrate_code e \<in> {ExitUser, ExitEnv}"
  by (cases e) simp_all

text \<open>What a verb may change, and the code of what it refuses.\<close>

lemma run_verb_keeps:
  assumes "run_verb env verb args w = Some (body, w')"
  shows "verb \<in> set verb_keys \<and> mw_status w' = mw_status w
    \<and> (verb \<noteq> ''rules.migrate'' \<longrightarrow> mw_files w' = mw_files w) \<and> (verb \<noteq> ''rules.reload'' \<longrightarrow> mw_lane w' = mw_lane w)"
  using assms by (auto simp: run_verb_def verb_keys_def split: if_splits prod.splits)

lemma verb_codes:
  "verbDoctor env fs args = Inl err \<Longrightarrow> ce_Code err \<in> {ExitUser, ExitEnv}"
  "verbStatus w = Inl err \<Longrightarrow> ce_Code err \<in> {ExitUser, ExitEnv}"
  "verb_migrate env fs args = (Inl err, fs') \<Longrightarrow> ce_Code err \<in> {ExitUser, ExitEnv}"
  "verbRulesReload env w args = (Inl err, l) \<Longrightarrow> ce_Code err \<in> {ExitUser, ExitEnv}"
proof -
  show "verbDoctor env fs args = Inl err \<Longrightarrow> ce_Code err \<in> {ExitUser, ExitEnv}"
    by (auto simp: verbDoctor_def NewUserError_def NewEnvError_def Let_def split: prod.splits option.splits if_splits)
  show "verbStatus w = Inl err \<Longrightarrow> ce_Code err \<in> {ExitUser, ExitEnv}"
    by (auto simp: verbStatus_def NewEnvError_def split: option.splits)
  show "verb_migrate env fs args = (Inl err, fs') \<Longrightarrow> ce_Code err \<in> {ExitUser, ExitEnv}"
    using migrate_code_range[of "e :: migrate_error" for e]
    by (auto simp: verb_migrate_def split: prod.splits sum.splits) (metis insertE singletonD migrate_code_range)
  show "verbRulesReload env w args = (Inl err, l) \<Longrightarrow> ce_Code err \<in> {ExitUser, ExitEnv}"
    by (auto simp: verbRulesReload_def NewUserError_def NewEnvError_def split: prod.splits option.splits if_splits)
qed

lemma load_verb_codes:
  "verbRulesCheck env fs args = Inl err \<Longrightarrow> ce_Code err \<in> {ExitUser, ExitEnv}"
  "verbRulesList env fs args = Inl err \<Longrightarrow> ce_Code err \<in> {ExitUser, ExitEnv}"
  using bad_flag_codes by (auto simp: verbRulesCheck_def verbRulesList_def rbind_Inl_iff)

lemma run_verb_codes:
  assumes "run_verb env verb args w = Some (Inr (Inl err), w')" "verb \<noteq> ''bench''"
  shows "ce_Code err \<in> {ExitUser, ExitEnv}"
proof -
  consider "verbDoctor env (mw_files w) args = Inl err" | "verbStatus w = Inl err" | "verbRulesCheck env (mw_files w) args = Inl err"
    | "verbRulesList env (mw_files w) args = Inl err" | fs where "verb_migrate env (mw_files w) args = (Inl err, fs)"
    | l where "verbRulesReload env w args = (Inl err, l)"
    using assms by (auto simp: run_verb_def split: if_splits prod.splits)
  then show ?thesis by cases (rule verb_codes load_verb_codes, assumption)+
qed


definition toy_mgmt :: mgmt_env where
  "toy_mgmt = \<lparr>me_io = good_io, me_abs = root_abs, me_toml = version_toml, me_adaptor = (\<lambda>_ _. None), me_lower = (\<lambda>s. s),
     me_show = (\<lambda>_. []), me_Version = ''1'', me_Revision = ''a'', me_Module = ''m'', me_vendor = True,
     me_bench = (\<lambda>_. Inl ''boom'')\<rparr>"


end
