(* ===== verification/Spec2Isabelle.thy ===== *)
theory Spec2Isabelle
  imports Evaluator_Properties Stream_Properties Compose_Properties
begin

text \<open>
  \<^bold>\<open>A verification development of the neurosymbolic engine\<close>

  The program drives a robot body from declarative rules. An adaptor file declares the body: its
  channels, its senses and its actions, each action a bundle of trajectories (\<open>internal/adaptor\<close>).
  A fixed-period loop (\<open>internal/tick\<close>) keeps a set of active behaviors, samples each one every tick,
  arbitrates which behavior owns which channel, and writes one pose to a sink. Rule files
  (\<open>internal/rules\<close>) say when to run or to inhibit an action and how to route events. On the loop's one
  seam a bus (\<open>internal/ruleeval/bus.go\<close>) fans out to riders, the rule evaluator among them: every tick
  it reads the perception snapshot (\<open>internal/sense\<close>) and the routed events (\<open>internal/events\<close>), evaluates
  the rules, and admits or evicts behaviors through one registry. The poses go out, and readings, intents
  and management calls come in, over one framed session (\<open>internal/stream\<close>). Decision providers ask a
  gateway of the network for readings behind a bounded queue (\<open>internal/provider\<close>). The composition root
  (\<open>internal/compose\<close>) builds all of it from one invocation, and the management verbs (\<open>internal/mgmt\<close>)
  check, list, migrate and reload rule files. What is dropped or suppressed is written to a line-based log
  (\<open>internal/senselog\<close>).

  \<^bold>\<open>How the theories follow the code\<close>

  \<^item> \<open>Prelude\<close>: results, guard chains, ordered maps, and the lemmas on them. A Go error is the left of a
    \<open>result\<close>, one constructor per message; a Go map is an association list (\<open>gomap\<close>) where it is ranged
    over and a function otherwise.
  \<^item> \<open>GoFloat\<close>: IEEE doubles as rationals with infinities and NaN, rounding to nearest even,
    comparisons, and \<open>time.Time\<close> and \<open>time.Duration\<close> as nanoseconds, saturating as \<open>Sub\<close> does.
    \<open>GoStrings\<close>: bytes, UTF-8 runes, blank strings, decimal numerals.
  \<^item> \<open>Adaptor\<close> (\<open>vocabulary.go\<close>, \<open>trajectory.go\<close>, \<open>sink.go\<close>): every validation of a decoded adaptor
    document, the compilation and sampling of trajectories, the lookups.
  \<^item> \<open>Contention\<close> (\<open>behavior.go\<close>, \<open>arbitration.go\<close>): binding a behavior, arbitration, admission, composition.
  \<^item> \<open>Engine\<close> (\<open>engine.go\<close>, \<open>droplog.go\<close>, \<open>clock.go\<close>): the record \<open>engine\<close> is the struct, and \<open>New\<close>,
    \<open>Send\<close>, \<open>admit\<close>, \<open>evict\<close>, \<open>drainInbox\<close>, \<open>composeTick\<close>, \<open>tickOnce\<close>, \<open>Run\<close> its methods. A seam is a
    function from the context and its own state to the text of its panic, if any, and the new states.
  \<^item> \<open>Senselog\<close> (\<open>senselog.go\<close>, \<open>parse.go\<close>, \<open>streak.go\<close>): the writer, the reader and the episode streaks.
  \<^item> \<open>Rules\<close> (\<open>model.go\<close>, \<open>validate.go\<close>, \<open>errors.go\<close>) and \<open>Rules_Load\<close> (\<open>load.go\<close>): the validation of one
    decoded file, and the merging of files into layers and of layers into a configuration.
  \<^item> \<open>Sense\<close> (\<open>snapshot.go\<close>), \<open>Events\<close> (\<open>router.go\<close>), \<open>Predicates\<close> (\<open>predicate.go\<close>), \<open>Registry\<close>
    (\<open>registry.go\<close>, the calls any goroutine may make), \<open>Evaluator\<close> (\<open>eval.go\<close> and the methods of the registry
    that need a tick), \<open>Bus\<close> (\<open>bus.go\<close>).
  \<^item> \<open>Stream_Frame\<close> (\<open>frame.go\<close>): the codec and the strict decoding of inbound frames. \<open>Stream_Session\<close>
    (\<open>session.go\<close>): the queue, the writer, the reader and its handlers. \<open>Stream_Server\<close> (\<open>server.go\<close>,
    \<open>config.go\<close>, \<open>listener.go\<close>): construction, listening, the sink, the heartbeat, and the close.
  \<^item> \<open>GoText\<close>: the functions of \<open>strings\<close> and \<open>filepath\<close> in use, and the square root. \<open>Provider\<close>
    (\<open>config.go\<close>, \<open>wire.go\<close>, \<open>completion.go\<close>, \<open>embedding.go\<close>, \<open>provider.go\<close>): a provider, its tick on the
    seam, and the steps of its worker.
  \<^item> \<open>Rules_Lane\<close> (\<open>ruleslane.go\<close>): the evaluator in force and its reload. \<open>Compose_Providers\<close>
    (\<open>providers.go\<close>): provider files to live providers. \<open>Compose\<close> (\<open>compose.go\<close>, \<open>status.go\<close>, \<open>runtime.go\<close>): the
    checked options, the riders, and \<open>New\<close>, which builds the runtime or says why not.
  \<^item> \<open>Migrate\<close> (\<open>migrate.go\<close>, \<open>flags.go\<close>, \<open>atomicwrite.go\<close>, the verb in \<open>verbs_rules.go\<close>) and \<open>Mgmt\<close>
    (\<open>mgmt.go\<close>, the other verbs, \<open>compose/mgmtfront.go\<close>, \<open>parseSize\<close> of \<open>verbs_bench.go\<close>).

  Definitions have the code's names; where two packages use one name, the package comes first
  (\<open>sense_New\<close>, \<open>router_New\<close>, \<open>evaluator_New\<close>, \<open>registry_admit\<close>).

  \<^bold>\<open>Interfaces\<close>

  \<^item> \<open>seam_contract\<close> (in \<open>Engine_Run\<close>): a seam touches the engine only through the calls its context offers. Under
    it no tick crashes, each writes one complete pose, and the run stops exactly when the sink failed
    too often. It is interpreted by every program over these calls (\<open>prog\<close>), by the evaluator
    (\<open>evaluator\<close>), and by the bus (\<open>composed\<close>, a sublocale of \<open>riders\<close>), which is in turn interpreted on the
    rule lane next to any other rider (\<open>lane\<close>) and on the four riders of the runtime (\<open>runtime\<close>). The riders
    are instances of their own: the provider (\<open>decision\<close>), the reloadable rule lane (\<open>reloadable\<close>) and the
    heartbeat of the stream (\<open>heartbeat\<close>).
  \<^item> \<open>rate_limiter\<close> (in \<open>Events\<close>): a component that accepts an attempt only far enough after the last one it
    accepted. It is interpreted by the dedupe window of the router (\<open>dedupe\<close>) and by the cooldown of a
    rule (\<open>cooldown\<close>).
  \<^item> \<open>session_op\<close> (in \<open>Stream_Runs\<close>): an operation of a session that keeps what the runs of the stream rely on. It
    is interpreted by each step of the writer, the reader and the close.

  \<^bold>\<open>What is shown\<close>

  \<^item> \<open>Vocabulary_Properties\<close>: what the adaptor loader accepts and what a loaded robot guarantees; sampling is
    total, in bounds, periodic; arbitration, admission and composition against their descriptions; the log's
    round trip and the episode lines.
  \<^item> \<open>Engine_Invariants\<close>, \<open>Engine_Run\<close>, \<open>Engine_Properties\<close>: the invariant of every reachable engine, and the
    properties of ticks and runs for every clock, sink, seam and interleaving of producers.
  \<^item> \<open>Rules_Wf\<close>, \<open>Rules_Properties\<close>: what a validated file contains, the documents that encode it, strictness,
    and that a load means the last word of its files on each id.
  \<^item> \<open>Evaluator_Invariants\<close>: \<open>ev_inv\<close>, well-formed rules, goals and episode ledgers, is kept by every operation, and a
    tick of a well-formed evaluator does not panic. \<open>Evaluator_Timing\<close> and \<open>Evaluator_Sessions\<close>: a tick moves
    each rule by one \<open>rule_step\<close>, so a \<open>session\<close>, ticks with anything in between, is for one rule a \<open>rule_run\<close>.
    \<open>Evaluator_Admission\<close>: which names are active after a tick and what an admitted request runs.
  \<^item> \<open>Evaluator_Properties\<close>: the properties of perception, events, conditions, rules, registry and bus, and of
    the composed system, loaded rules on a reachable engine under the bus.

  \<^item> \<open>Stream_Steps\<close>, \<open>Stream_Runs\<close>, \<open>Stream_Properties\<close>: the interleaved steps of the tick, the reader, the writer and
    the close, the invariants of their runs, and what a peer may rely on.
  \<^item> \<open>Provider_Runs\<close>: the runs of a provider and the invariant that reads its queue, its counters and its
    writes off the events. \<open>Rules_Lane\<close>: a lane always has well-formed rules in force. \<open>Compose_Runs\<close>: what
    may happen to a runtime once it is made, and that its riders never panic.
  \<^item> \<open>Compose_Properties\<close>: the properties of the composed runtime, from the files on disk to the poses, of its
    construction, the reload, the providers, the migration and the verbs.

  The claims C1 to C40 are numbered by importance, across the six property theories. The witnesses run on the
  robot and the rule files of \<open>tests/toy_robot\<close> (\<open>Toy_Robot\<close>, \<open>Rules_Properties\<close>).

  \<^bold>\<open>Bounds and parameters\<close>

  No definition needs fuel: the recursions are structural or have a termination proof, the nesting of
  conditions is bounded by the validator (\<open>groups_left\<close>), and a run is over the finite list of its ticks, each
  with the finite list of what producers send during it. Counters are natural numbers. Parameters are:
  the cosine of \<open>math\<close>, the decoder of a TOML file, the grammar of JSON and its encoder, the text \<open>fmt\<close> gives
  a value, Unicode's lower case, a conversion of a double out of the range of \<open>int64\<close>, the readings of the
  clock, the outcomes of the sink's writes, of the operating system's calls and of the gateway's answers, and
  the other riders on the seam.

  Concurrency is explicit: what other goroutines do between or during the steps of a tick is a list of
  arrivals or a step of \<open>outside\<close>; the mutexes that make these steps atomic are left out. Panics are values:
  \<open>None\<close> or the text of the panic in front of the state it left.

  \<^bold>\<open>Not modelled\<close>

  \<^item> The text grammars of TOML and JSON, the file system, the network and the wall clock: library and
    operating system, each a parameter where it is used.
  \<^item> The text of error messages, fix hints and numbered labels: constructors with the values they print.
  \<^item> The process around the runtime (parsing the command line, signals, \<open>Main\<close>), the rendering of results
    (\<open>internal/clifmt\<close>), and the bench (\<open>internal/bench\<close>): input and output.
  \<^item> The conformance replay (\<open>internal/conformance\<close>), a test harness that drives the engine from recorded
    fixtures.
\<close>

end
